(* ===== verification/Prelude.thy ===== *)
theory Prelude
  imports Main "HOL-Library.Word"
begin

text \<open>
  Shared vocabulary of the development: the C integer types as machine words, byte strings,
  the little-endian object representation of integers, the parts of \<^verbatim>\<open><string.h>\<close> the sources
  use (with reads and writes outside an object made visible as \<open>None\<close>), the result type of a
  computation that may run into undefined behaviour, and the fixed-width codec interface every
  wire structure implements.
\<close>

unbundle bit_operations_syntax

section \<open>Types\<close>

type_synonym byte = "8 word"
type_synonym bytes = "byte list"
type_synonym u8 = "8 word"
type_synonym u16 = "16 word"
type_synonym u32 = "32 word"
type_synonym u64 = "64 word"

text \<open>
  A C computation either finishes with a value or executes an operation whose behaviour C leaves
  undefined (an access outside an object, a variable-length array of negative size).
\<close>

datatype 'a exec = Fault | Done 'a

text \<open>Sequencing: what follows a fault is not executed.\<close>

definition bind_exec :: "'a exec \<Rightarrow> ('a \<Rightarrow> 'b exec) \<Rightarrow> 'b exec" where
  "bind_exec m f = (case m of Fault \<Rightarrow> Fault | Done x \<Rightarrow> f x)"

lemma bind_exec_simps [simp]: "bind_exec Fault f = Fault" "bind_exec (Done x) f = f x"
  by (simp_all add: bind_exec_def)

named_theorems codec_simps \<open>lengths and inverses of object representations\<close>
named_theorems net_simps \<open>byte-stream abstraction of the socket\<close>

section \<open>Integers as bytes\<close>

text \<open>The object representation of an \<open>n\<close>-byte unsigned integer on a little-endian machine.\<close>

primrec le_bytes :: "nat \<Rightarrow> 'a::len word \<Rightarrow> bytes" where
  "le_bytes 0 w = []"
| "le_bytes (Suc n) w = ucast w # le_bytes n (drop_bit 8 w)"

primrec of_le :: "bytes \<Rightarrow> 'a::len word" where
  "of_le [] = 0"
| "of_le (b # bs) = ucast b OR push_bit 8 (of_le bs)"

lemma length_le_bytes [simp]: "length (le_bytes n w) = n"
  by (induction n arbitrary: w) auto

lemma bit_byte: "bit (b::byte) n \<Longrightarrow> n < 8"
  by (auto dest: bit_imp_le_length)

lemma bit_of_le: "bit (of_le bs :: 'a::len word) n \<Longrightarrow> n < 8 * length bs"
  by (induction bs arbitrary: n) (fastforce simp: bit_simps dest: bit_byte)+

lemma of_le_le_bytes_take: "of_le (le_bytes n w) = take_bit (8 * n) w"
proof (induction n arbitrary: w)
  case (Suc n)
  show ?case
    by (rule bit_word_eqI) (auto simp: Suc.IH bit_simps)
qed simp

lemma of_le_le_bytes [codec_simps]:
  "8 * n = LENGTH('a) \<Longrightarrow> of_le (le_bytes n (w :: 'a::len word)) = w"
  by (simp add: of_le_le_bytes_take)

lemma le_bytes_of_le:
  "8 * length bs \<le> LENGTH('a::len) \<Longrightarrow> le_bytes (length bs) (of_le bs :: 'a word) = bs"
proof (induction bs)
  case (Cons b bs)
  have low: "ucast (of_le (b # bs) :: 'a word) = b"
    using Cons.prems by (intro bit_word_eqI) (auto simp: bit_simps)
  have high: "drop_bit 8 (of_le (b # bs) :: 'a word) = of_le bs"
    using Cons.prems by (intro bit_word_eqI) (auto simp: bit_simps dest: bit_byte bit_of_le)
  show ?case using low high Cons by simp
qed simp

lemma le_bytes_of_le_length [codec_simps]:
  "length bs = n \<Longrightarrow> 8 * n \<le> LENGTH('a::len) \<Longrightarrow> le_bytes n (of_le bs :: 'a word) = bs"
  using le_bytes_of_le by blast

text \<open>Putting the fields of a representation back together.\<close>

lemma take_drop_join [codec_simps]:
  "m = n + a \<Longrightarrow> take a (drop n xs) @ drop m xs = drop n xs"
  by (metis add.commute append_take_drop_id drop_drop)

lemma take_drop_join_append [codec_simps]:
  "m = n + a \<Longrightarrow> take a (drop n xs) @ drop m xs @ ys = drop n xs @ ys"
  by (metis append.assoc take_drop_join)

lemma nth_drop_join [codec_simps]:
  "m = Suc n \<Longrightarrow> n < length xs \<Longrightarrow> xs ! n # drop m xs = drop n xs"
  by (simp add: Cons_nth_drop_Suc)

declare nth_append [codec_simps]

section \<open>Conversions between C integer types\<close>

text \<open>A \<^verbatim>\<open>size_t\<close> passed where an \<^verbatim>\<open>int\<close> is expected keeps its low 32 bits, read as two's complement.\<close>

definition int_of_size :: "u64 \<Rightarrow> int" where
  "int_of_size n = sint (ucast n :: u32)"

lemma sint_small:
  assumes "unat (w :: u32) < 2 ^ 31"
  shows "sint w = int (unat w)"
proof -
  have "uint w < 2 ^ 31"
    using assms by (metis of_nat_less_iff of_nat_numeral of_nat_power uint_nat)
  moreover have "- (2 ^ 31) \<le> uint w"
    by (rule order.trans [of _ 0]) simp_all
  ultimately have "signed_take_bit 31 (uint w) = uint w"
    by (intro signed_take_bit_int_eq_self) auto
  then show ?thesis
    by (simp add: sint_uint)
qed

lemma int_of_size_small:
  assumes "unat n < 2 ^ 31"
  shows "int_of_size n = int (unat n)"
proof -
  have "unat (ucast n :: u32) = unat n"
    using assms by (simp add: unsigned_ucast_eq unsigned_take_bit_eq take_bit_nat_eq_self)
  then show ?thesis
    using assms by (simp add: int_of_size_def sint_small)
qed

section \<open>Memory and string functions\<close>

text \<open>
  \<^verbatim>\<open>memcpy(dst + off, src, n)\<close>: \<open>dst\<close> and \<open>src\<close> are the whole objects behind the pointers.
\<close>

definition memcpy :: "bytes \<Rightarrow> nat \<Rightarrow> bytes \<Rightarrow> nat \<Rightarrow> bytes option" where
  "memcpy dst off src n =
     (if off + n \<le> length dst \<and> n \<le> length src
      then Some (take off dst @ take n src @ drop (off + n) dst) else None)"

text \<open>The characters of a C string stand before the first zero byte.\<close>

definition cstr :: "bytes \<Rightarrow> bytes" where
  "cstr s = takeWhile (\<lambda>b. b \<noteq> 0) s"

definition strlen :: "bytes \<Rightarrow> nat" where
  "strlen s = length (cstr s)"

text \<open>\<^verbatim>\<open>strcpy\<close> copies the characters and the terminator.\<close>

definition strcpy :: "bytes \<Rightarrow> bytes \<Rightarrow> bytes option" where
  "strcpy dst s = memcpy dst 0 (cstr s @ [0]) (strlen s + 1)"

lemma length_memcpy: "memcpy dst off src n = Some d \<Longrightarrow> length d = length dst"
  by (auto simp: memcpy_def split: if_splits)

lemma length_strcpy: "strcpy dst s = Some d \<Longrightarrow> length d = length dst"
  by (auto simp: strcpy_def dest: length_memcpy)

lemma strcpy_eq:
  "strcpy dst s = (if strlen s < length dst
     then Some (cstr s @ 0 # drop (Suc (strlen s)) dst) else None)"
  by (auto simp: strcpy_def memcpy_def strlen_def)

lemma cstr_cstr_append [simp]: "cstr (cstr s @ 0 # r) = cstr s"
  unfolding cstr_def by (induction s) auto

lemma strlen_cstr [simp]: "length (cstr s) = strlen s"
  by (simp add: strlen_def)

lemma cstr_id: "0 \<notin> set s \<Longrightarrow> cstr s = s"
  unfolding cstr_def by (subst takeWhile_eq_all_conv) auto

text \<open>Copying a file name into a field and terminating it once more, as the sources do.\<close>

lemma strcpy_terminate:
  "strcpy dst s = Some d \<Longrightarrow> d[strlen s := 0] = d"
  by (auto simp: strcpy_eq list_update_append split: if_splits)

lemma cstr_strcpy: "strcpy dst s = Some d \<Longrightarrow> cstr d = cstr s"
  by (auto simp: strcpy_eq split: if_splits)

section \<open>The interface of a wire structure\<close>

text \<open>
  Every structure of the protocol is copied to and from the wire as its object representation:
  \<open>enc\<close> is the representation, \<open>dec\<close> reads it back, \<open>sz\<close> is \<^verbatim>\<open>sizeof\<close>, and \<open>ok\<close> says that the
  array members (and the padding) have their declared lengths.
\<close>

locale codec =
  fixes enc :: "'s \<Rightarrow> bytes"
    and dec :: "bytes \<Rightarrow> 's"
    and sz :: nat
    and ok :: "'s \<Rightarrow> bool"
  assumes enc_length: "ok x \<Longrightarrow> length (enc x) = sz"
    and dec_enc: "ok x \<Longrightarrow> dec (enc x) = x"
    and dec_ok: "length bs = sz \<Longrightarrow> ok (dec bs)"
    and enc_dec: "length bs = sz \<Longrightarrow> enc (dec bs) = bs"
begin

lemma dec_take_enc: "ok x \<Longrightarrow> dec (take sz (enc x @ rest)) = x"
  by (simp add: enc_length dec_enc)

lemma drop_enc: "ok x \<Longrightarrow> drop sz (enc x @ rest) = rest"
  by (simp add: enc_length)

lemma enc_inj: "ok x \<Longrightarrow> ok y \<Longrightarrow> enc x = enc y \<Longrightarrow> x = y"
  by (metis dec_enc)

end

end
