(* ===== verification/Zerror.thy ===== *)
theory Zerror
  imports Prelude
begin

text \<open>
  \<^verbatim>\<open>zhwkre/error.h\<close> and \<^verbatim>\<open>zhwkre/error/error.c\<close>: the library's global error variable
  \<^verbatim>\<open>zhwk_error\<close>, the codes the modelled functions store in it, and its three accessors. The
  variable is passed explicitly; the log lines the accessors print are left out.
\<close>

definition ZHWK_ERR_LIST_EMPTY :: int where "ZHWK_ERR_LIST_EMPTY = 10"
definition ZHWK_ERR_MM_ALLOC_FAIL :: int where "ZHWK_ERR_MM_ALLOC_FAIL = 20"
definition ZHWK_ERR_TCP_READ_FAIL :: int where "ZHWK_ERR_TCP_READ_FAIL = 43"
definition ZHWK_ERR_TCP_WRITE_FAIL :: int where "ZHWK_ERR_TCP_WRITE_FAIL = 45"

lemmas zhwk_err_defs = ZHWK_ERR_LIST_EMPTY_def ZHWK_ERR_MM_ALLOC_FAIL_def
  ZHWK_ERR_TCP_READ_FAIL_def ZHWK_ERR_TCP_WRITE_FAIL_def

text \<open>The result of \<^verbatim>\<open>chkerr()\<close> and the variable after it.\<close>

definition chkerr :: "int \<Rightarrow> int \<times> int" where
  "chkerr e = (if e \<noteq> 0 then (-1, e) else (0, 0))"

text \<open>\<^verbatim>\<open>fatalerr()\<close> ends the process (\<open>None\<close>) when an error is recorded.\<close>

definition fatalerr :: "int \<Rightarrow> int option" where
  "fatalerr e = (if e \<noteq> 0 then None else Some 0)"

definition clrerr :: "int \<Rightarrow> int" where
  "clrerr e = 0"

text \<open>A recorded error is sticky: only \<^verbatim>\<open>clrerr\<close> removes it.\<close>

lemma chkerr_sticky: "fst (chkerr e) = -1 \<longleftrightarrow> e \<noteq> 0" "snd (chkerr e) = e"
  by (auto simp: chkerr_def)

lemma chkerr_clrerr: "chkerr (clrerr e) = (0, 0)"
  by (simp add: chkerr_def clrerr_def)

end
