(* ===== verification/Bss.thy ===== *)
theory Bss
  imports Zerror
begin

text \<open>
  \<^verbatim>\<open>zhwkre/bss.h\<close> and \<^verbatim>\<open>zhwkre/bss/bss.c\<close>: the growable byte buffer every message is built in.
  The block behind \<^verbatim>\<open>str\<close> is modelled by its contents, so its length is the size that was
  allocated; \<open>None\<close> is the null pointer. Sizes are 32-bit and wrap. The argument \<open>mok\<close> says
  whether the \<^verbatim>\<open>malloc\<close> of the call succeeds; an access outside the block is \<^const>\<open>Fault\<close>.
\<close>

section \<open>Model\<close>

record qBinarySafeString =
  bss_str :: "bytes option"
  bss_size :: u32
  bss_capacity :: u32

text \<open>
  \<open>size0\<close> and \<open>cap0\<close> are what the uninitialised members of the local structure hold: they are
  returned as they are when the allocation fails.
\<close>

definition qbss_constructor :: "bool \<Rightarrow> u32 \<Rightarrow> u32 \<Rightarrow> int \<Rightarrow> qBinarySafeString \<times> int" where
  "qbss_constructor mok size0 cap0 err =
     (if \<not> mok
      then (\<lparr>bss_str = None, bss_size = size0, bss_capacity = cap0\<rparr>, ZHWK_ERR_MM_ALLOC_FAIL)
      else (\<lparr>bss_str = Some (replicate 64 0), bss_size = 0, bss_capacity = 64\<rparr>, err))"

text \<open>\<^verbatim>\<open>memcpy(bss->str + bss->size, str, len); bss->size += len;\<close>\<close>

definition bss_copy_in :: "qBinarySafeString \<Rightarrow> bytes \<Rightarrow> u32 \<Rightarrow> qBinarySafeString exec" where
  "bss_copy_in bss s len =
     (case bss_str bss of
        None \<Rightarrow> Fault
      | Some blk \<Rightarrow>
          (case memcpy blk (unat (bss_size bss)) s (unat len) of
             None \<Rightarrow> Fault
           | Some blk' \<Rightarrow> Done (bss\<lparr>bss_str := Some blk', bss_size := bss_size bss + len\<rparr>)))"

definition q__bss_append ::
  "bool \<Rightarrow> qBinarySafeString \<Rightarrow> bytes \<Rightarrow> u32 \<Rightarrow> int \<Rightarrow> (qBinarySafeString exec \<times> int)" where
  "q__bss_append mok bss s len err =
     (if bss_capacity bss < 2 * (bss_size bss + len) then
        (if \<not> mok then (Done bss, ZHWK_ERR_MM_ALLOC_FAIL)
         else
           (let n = 2 * (bss_size bss + len); tmp = replicate (unat n) 0 in
            case bss_str bss of
              None \<Rightarrow> (Fault, err)
            | Some blk \<Rightarrow>
                (case memcpy tmp 0 blk (unat (bss_size bss)) of
                   None \<Rightarrow> (Fault, err)
                 | Some tmp' \<Rightarrow>
                     (bss_copy_in (bss\<lparr>bss_capacity := n, bss_str := Some tmp'\<rparr>) s len, err))))
      else (bss_copy_in bss s len, err))"

text \<open>\<open>mok1\<close> and \<open>mok2\<close> are the outcomes of the constructor's and of the append's allocation.\<close>

definition qbss__from_array ::
  "bool \<Rightarrow> bool \<Rightarrow> u32 \<Rightarrow> u32 \<Rightarrow> bytes \<Rightarrow> u32 \<Rightarrow> int \<Rightarrow> qBinarySafeString exec \<times> int" where
  "qbss__from_array mok1 mok2 size0 cap0 arr sz err =
     (let (bss, err1) = qbss_constructor mok1 size0 cap0 err;
          (st, err2) = chkerr err1
      in if st = 0 then q__bss_append mok2 bss arr sz err2 else (Done bss, err2))"

section \<open>Invariant and abstraction\<close>

definition bss_ok :: "qBinarySafeString \<Rightarrow> bool" where
  "bss_ok b \<longleftrightarrow> (case bss_str b of None \<Rightarrow> False
     | Some blk \<Rightarrow> length blk = unat (bss_capacity b) \<and> bss_size b \<le> bss_capacity b)"

text \<open>The bytes the buffer stands for.\<close>

definition bss_content :: "qBinarySafeString \<Rightarrow> bytes" where
  "bss_content b = (case bss_str b of None \<Rightarrow> [] | Some blk \<Rightarrow> take (unat (bss_size b)) blk)"

definition bss_empty :: qBinarySafeString where
  "bss_empty = \<lparr>bss_str = Some (replicate 64 0), bss_size = 0, bss_capacity = 64\<rparr>"

section \<open>Lemmas\<close>

lemma qbss_constructor_True [simp]: "qbss_constructor True s0 c0 err = (bss_empty, err)"
  by (simp add: qbss_constructor_def bss_empty_def)

lemma bss_empty_props [simp]:
  "bss_ok bss_empty" "bss_content bss_empty = []" "bss_size bss_empty = 0"
  by (auto simp: bss_ok_def bss_content_def bss_empty_def)

lemma length_bss_content: "bss_ok b \<Longrightarrow> length (bss_content b) = unat (bss_size b)"
  by (auto simp: bss_ok_def bss_content_def word_le_nat_alt split: option.splits)

text \<open>Below \<open>2\<^sup>3\<^sup>1\<close> bytes neither the doubling nor the sum wraps.\<close>

lemma unat_sum_below:
  fixes a b :: u32
  assumes "unat a + unat b < 2 ^ 31"
  shows "unat (a + b) = unat a + unat b" and "unat (2 * (a + b)) = 2 * (unat a + unat b)"
proof -
  show s: "unat (a + b) = unat a + unat b"
    using assms by (intro unat_add_lem [THEN iffD1]) simp
  have "unat (2 :: u32) * unat (a + b) < 2 ^ LENGTH(32)"
    using assms s by simp
  then show "unat (2 * (a + b)) = 2 * (unat a + unat b)"
    using unat_mult_lem [of "2 :: u32" "a + b"] s by simp
qed

lemma bss_copy_in_ok:
  assumes "bss_str b = Some blk" and "length blk = unat (bss_capacity b)"
    and "unat (bss_size b) + unat len \<le> length blk" and "unat len \<le> length s"
    and "unat (bss_size b) + unat len < 2 ^ 31"
  shows "\<exists>b'. bss_copy_in b s len = Done b' \<and> bss_ok b'
    \<and> bss_size b' = bss_size b + len \<and> bss_capacity b' = bss_capacity b
    \<and> bss_content b' = take (unat (bss_size b)) blk @ take (unat len) s"
  using assms
  by (auto simp: bss_copy_in_def memcpy_def bss_ok_def bss_content_def word_le_nat_alt
      unat_sum_below)

text \<open>
  Appending in range: the invariant is kept and the content grows by exactly the given bytes.
\<close>

lemma q__bss_append_content:
  assumes ok: "bss_ok b" and bound: "unat (bss_size b) + unat len < 2 ^ 31"
    and len: "unat len \<le> length s"
  shows "\<exists>b'. q__bss_append True b s len err = (Done b', err) \<and> bss_ok b'
    \<and> bss_size b' = bss_size b + len
    \<and> bss_content b' = bss_content b @ take (unat len) s"
proof -
  obtain blk where blk: "bss_str b = Some blk" "length blk = unat (bss_capacity b)"
      "unat (bss_size b) \<le> length blk"
    using ok by (auto simp: bss_ok_def word_le_nat_alt split: option.splits)
  note sums = unat_sum_below [OF bound]
  show ?thesis
  proof (cases "bss_capacity b < 2 * (bss_size b + len)")
    case True
    let ?n = "2 * (bss_size b + len)"
    let ?t = "take (unat (bss_size b)) blk
      @ replicate (unat ?n - unat (bss_size b)) (0 :: byte)"
    let ?b = "b\<lparr>bss_capacity := ?n, bss_str := Some ?t\<rparr>"
    have "length ?t = unat ?n"
      using blk(3) sums by simp
    then obtain b' where "bss_copy_in ?b s len = Done b'" "bss_ok b'"
        "bss_size b' = bss_size b + len"
        "bss_content b' = take (unat (bss_size b)) ?t @ take (unat len) s"
      using bss_copy_in_ok [of ?b ?t len s] bound len sums by auto
    moreover have "memcpy (replicate (unat ?n) 0) 0 blk (unat (bss_size b)) = Some ?t"
      using blk(3) sums by (simp add: memcpy_def)
    ultimately show ?thesis
      using True blk by (auto simp: q__bss_append_def Let_def bss_content_def)
  next
    case False
    then have "unat (bss_size b) + unat len \<le> length blk"
      using blk sums by (simp add: word_less_nat_alt)
    then show ?thesis
      using False bss_copy_in_ok [OF blk(1,2) _ len bound] blk
      by (auto simp: q__bss_append_def bss_content_def)
  qed
qed

text \<open>When the allocation fails the append is dropped and only the error variable shows it.\<close>

lemma q__bss_append_alloc_fail:
  "bss_capacity b < 2 * (bss_size b + len) \<Longrightarrow>
   q__bss_append False b s len err = (Done b, ZHWK_ERR_MM_ALLOC_FAIL)"
  by (simp add: q__bss_append_def)

end
