(* ===== verification/Net.thy ===== *)
theory Net
  imports Bss
begin

text \<open>
  The transport: \<^verbatim>\<open>qStreamSocket_read\<close> and \<^verbatim>\<open>qStreamSocket_write\<close> of \<^verbatim>\<open>zhwkre/network/tcp.c\<close>
  over the POSIX calls \<^verbatim>\<open>read(2)\<close> and \<^verbatim>\<open>write(2)\<close> on a connected stream socket, and the
  \<^verbatim>\<open>sockread\<close> and \<^verbatim>\<open>sockwrite\<close> loops of \<^verbatim>\<open>netwrap.c\<close> on top of them.

  The state of the connection is the list of things the following \<^verbatim>\<open>read\<close> calls will see (a
  segment of data or an error; after the last one the peer has closed, and \<^verbatim>\<open>read\<close> returns 0),
  the list of outcomes of the following \<^verbatim>\<open>write\<close> calls (a partial write or an error; after the
  last one every write is complete), the bytes accepted so far, and \<^verbatim>\<open>zhwk_error\<close>.
\<close>

section \<open>Model\<close>

datatype rxev = RxData bytes | RxFail

datatype txev = TxPart nat | TxFail

record world =
  rx :: "rxev list"
  txq :: "txev list"
  tx :: bytes
  zhwk_error :: int

text \<open>
  \<^verbatim>\<open>read(fd, buf, n)\<close> on a blocking stream socket returns at most \<open>n\<close> of the bytes of the next
  segment, -1 on an error and 0 at the end of the stream.
\<close>

fun sys_read :: "nat \<Rightarrow> rxev list \<Rightarrow> int \<times> bytes \<times> rxev list" where
  "sys_read n [] = (0, [], [])"
| "sys_read n (RxFail # es) = (-1, [], es)"
| "sys_read n (RxData bs # es) =
     (if bs = [] then sys_read n es
      else (int (length (take n bs)), take n bs,
            if drop n bs = [] then es else RxData (drop n bs) # es))"

text \<open>
  \<^verbatim>\<open>write(fd, buf, n)\<close> accepts between one byte and all of them, or fails with -1. One call transfers at most
  \<open>0x7ffff000\<close> bytes, the limit that Linux documents for every size of the operands.
\<close>

definition write_limit :: nat where
  "write_limit = 0x7ffff000"

fun sys_write :: "nat \<Rightarrow> txev list \<Rightarrow> int \<times> txev list" where
  "sys_write n [] = (int (min n write_limit), [])"
| "sys_write n (TxFail # es) = (-1, es)"
| "sys_write n (TxPart k # es) = (int (min (Suc k) (min n write_limit)), es)"

text \<open>Returns the result and the whole buffer, which is cleared before the call.\<close>

definition qStreamSocket_read :: "world \<Rightarrow> u32 \<Rightarrow> int \<times> bytes \<times> world" where
  "qStreamSocket_read w n =
     (case sys_read (unat n) (rx w) of
        (actrlen, data, es) \<Rightarrow>
          (actrlen, data @ replicate (unat n - length data) 0,
           w\<lparr>rx := es, zhwk_error :=
              (if actrlen = -1 then ZHWK_ERR_TCP_READ_FAIL else zhwk_error w)\<rparr>))"

definition qStreamSocket_write :: "world \<Rightarrow> bytes \<Rightarrow> u32 \<Rightarrow> int \<times> world" where
  "qStreamSocket_write w content n =
     (case sys_write (unat n) (txq w) of
        (written, es) \<Rightarrow>
          (written,
           w\<lparr>txq := es,
             tx := (if written = -1 then tx w else tx w @ take (nat written) content),
             zhwk_error :=
              (if written = -1 then ZHWK_ERR_TCP_WRITE_FAIL else zhwk_error w)\<rparr>))"

text \<open>
  The loop of \<^verbatim>\<open>sockread\<close>; \<open>None\<close> means that it never returns. The loop does not test for a
  result of 0.
\<close>

partial_function (option) sockread_loop ::
  "int \<Rightarrow> qBinarySafeString \<Rightarrow> world \<Rightarrow> ((int \<times> qBinarySafeString \<times> world) exec) option" where
  "sockread_loop remain bss w =
     (if remain = 0 then Some (Done (0, bss, w))
      else
        (case qStreamSocket_read w (word_of_int remain) of
           (actr, buf, w1) \<Rightarrow>
             (if actr = -1 then Some (Done (-1, bss, w1))
              else
                (case q__bss_append True bss buf (word_of_int actr) (zhwk_error w1) of
                   (Fault, err) \<Rightarrow> Some Fault
                 | (Done bss1, err) \<Rightarrow>
                     sockread_loop (remain - actr) bss1 (w1\<lparr>zhwk_error := err\<rparr>)))))"

text \<open>
  \<^verbatim>\<open>char buf[intended]\<close> with a negative \<^verbatim>\<open>intended\<close> is undefined.
\<close>

definition sockread ::
  "world \<Rightarrow> qBinarySafeString \<Rightarrow> int \<Rightarrow> ((int \<times> qBinarySafeString \<times> world) exec) option" where
  "sockread w bss intended =
     (if intended < 0 then Some Fault else sockread_loop intended bss w)"

lemma sys_write_progress:
  "sys_write n es = (k, es') \<Longrightarrow> k \<noteq> -1 \<Longrightarrow> 0 < n \<Longrightarrow> 0 < k \<and> k \<le> int n"
  by (induction n es rule: sys_write.induct) (auto simp: write_limit_def)

lemma qStreamSocket_write_progress:
  "qStreamSocket_write w c n = (k, w') \<Longrightarrow> k \<noteq> -1 \<Longrightarrow> n \<noteq> 0 \<Longrightarrow> 0 < k \<and> k \<le> int (unat n)"
  by (auto simp: qStreamSocket_write_def unat_gt_0 split: prod.splits dest!: sys_write_progress)

lemma unat_word_of_int_small: 
  assumes "0 \<le> k" and "k < 2 ^ 32"
  shows "unat (word_of_int k :: u32) = nat k"
proof -
  have "(word_of_int k :: u32) = of_nat (nat k)"
    using assms(1) by simp
  moreover have "nat k < 2 ^ LENGTH(32)"
    using assms by (simp add: nat_less_iff)
  ultimately show ?thesis by (simp add: unat_of_nat)
qed
lemma unat_minus_word_of_int:
  assumes "0 < k" and "k \<le> int (unat (x :: u32))"
  shows "unat (x - word_of_int k) < unat x"
proof -
  have "int (unat x) < 2 ^ 32"
    using unsigned_less [of x] by simp
  then have k: "unat (word_of_int k :: u32) = nat k"
    using assms by (intro unat_word_of_int_small) auto
  have nk: "nat k \<le> unat x" "0 < nat k"
    using assms by linarith+
  have le: "word_of_int k \<le> x"
    using k nk by (simp add: word_le_nat_alt)
  show ?thesis
    using unat_sub [OF le] k nk by linarith
qed

text \<open>
  The loop of \<^verbatim>\<open>sockwrite\<close>: \<open>already\<close> is an \<^verbatim>\<open>int\<close>, the difference to the size \<open>n\<close> is taken as an unsigned
  number. A negative offset, a range outside the block and a sum beyond the largest \<^verbatim>\<open>int\<close> are undefined.
  The result is the value returned and whether the buffer was released.
\<close>

function sockwrite_loop ::
  "u32 \<Rightarrow> int \<Rightarrow> bytes \<Rightarrow> bool \<Rightarrow> world \<Rightarrow> (int \<times> bool \<times> world) exec" where
  "sockwrite_loop n already blk auto_free w =
     (if n - word_of_int already = 0 then Done (0, False, w)
      else if already < 0 \<or> length blk < nat already + unat (n - word_of_int already) then Fault
      else
        (case qStreamSocket_write w (drop (nat already) blk) (n - word_of_int already) of
           (actw, w1) \<Rightarrow>
             (if actw = -1 then Done (-1, auto_free, w1)
              else if 2 ^ 31 \<le> already + actw then Fault
              else sockwrite_loop n (already + actw) blk auto_free w1)))"
  by pat_completeness auto
termination
proof (relation "measure (\<lambda>(n, already, _). unat (n - word_of_int already))", goal_cases)
  case (2 n already blk auto_free w actw w1)
  then have "0 < actw \<and> actw \<le> int (unat (n - word_of_int already))"
    by (metis qStreamSocket_write_progress)
  then have "unat ((n - word_of_int already) - word_of_int actw) < unat (n - word_of_int already)"
    by (intro unat_minus_word_of_int) auto
  then show ?case
    by (simp add: algebra_simps)
qed simp

declare sockwrite_loop.simps [simp del]

definition sockwrite :: "world \<Rightarrow> qBinarySafeString \<Rightarrow> bool \<Rightarrow> (int \<times> bool \<times> world) exec" where
  "sockwrite w bss auto_free =
     (case bss_str bss of
        None \<Rightarrow> (if bss_size bss = 0 then Done (0, False, w) else Fault)
      | Some blk \<Rightarrow> sockwrite_loop (bss_size bss) 0 blk auto_free w)"

section \<open>The byte stream behind the segments\<close>

text \<open>
  What the segments amount to: the bytes that arrive before the first error, and whether an error
  follows at all. Every result below depends on these two only, never on the segmentation.
\<close>

fun rx_avail :: "rxev list \<Rightarrow> bytes" where
  "rx_avail [] = []"
| "rx_avail (RxData bs # es) = bs @ rx_avail es"
| "rx_avail (RxFail # es) = []"

definition rx_fails :: "rxev list \<Rightarrow> bool" where
  "rx_fails es \<longleftrightarrow> RxFail \<in> set es"

definition tx_good :: "txev list \<Rightarrow> bool" where
  "tx_good es \<longleftrightarrow> TxFail \<notin> set es"

lemma rx_fails_simps [simp]:
  "\<not> rx_fails []" "rx_fails (RxFail # es)" "rx_fails (RxData bs # es) = rx_fails es"
  by (auto simp: rx_fails_def)

lemma sys_read_data:
  assumes "rx_avail es \<noteq> []" and "0 < n"
  shows "\<exists>k es'. sys_read n es = (int k, take k (rx_avail es), es') \<and> 0 < k \<and> k \<le> n
    \<and> k \<le> length (rx_avail es) \<and> rx_avail es' = drop k (rx_avail es)
    \<and> rx_fails es' = rx_fails es"
  using assms
proof (induction n es rule: sys_read.induct)
  case (3 n bs es)
  show ?case
  proof (cases "bs = []")
    case True
    then show ?thesis using 3 by auto
  next
    case False
    let ?k = "min n (length bs)"
    have "take ?k (bs @ rx_avail es) = take n bs" "0 < ?k"
      using False 3 by (auto simp: min_def)
    then show ?thesis
      using False by (intro exI [of _ ?k]) auto
  qed
qed auto

lemma sys_read_fail:
  "rx_avail es = [] \<Longrightarrow> rx_fails es \<Longrightarrow> \<exists>es'. sys_read n es = (-1, [], es')"
  by (induction n es rule: sys_read.induct) auto

lemma sys_read_eof:
  "rx_avail es = [] \<Longrightarrow> \<not> rx_fails es \<Longrightarrow> sys_read n es = (0, [], [])"
  by (induction n es rule: sys_read.induct) auto

lemma unat_of_int_nat: "n < 2 ^ 32 \<Longrightarrow> unat (word_of_int (int n) :: u32) = n"
  by (simp add: unat_of_nat)

lemma read_data:
  assumes "rx_avail (rx w) \<noteq> []" and "0 < n" and "n < 2 ^ 32"
  shows "\<exists>k es'. qStreamSocket_read w (word_of_int (int n)) =
      (int k, take k (rx_avail (rx w)) @ replicate (n - k) 0, w\<lparr>rx := es'\<rparr>)
    \<and> 0 < k \<and> k \<le> n \<and> k \<le> length (rx_avail (rx w))
    \<and> rx_avail es' = drop k (rx_avail (rx w)) \<and> rx_fails es' = rx_fails (rx w)"
proof -
  from sys_read_data [OF assms(1,2)] obtain k es' where
    k: "sys_read n (rx w) = (int k, take k (rx_avail (rx w)), es')" "0 < k" "k \<le> n"
      "k \<le> length (rx_avail (rx w))" "rx_avail es' = drop k (rx_avail (rx w))"
      "rx_fails es' = rx_fails (rx w)" by blast
  then show ?thesis
    using assms(3) by (intro exI [of _ k] exI [of _ es'])
      (simp add: qStreamSocket_read_def unat_of_nat min_absorb2)
qed

lemma read_fail:
  assumes "rx_avail (rx w) = []" and "rx_fails (rx w)"
  shows "\<exists>buf w'. qStreamSocket_read w n = (-1, buf, w') \<and> tx w' = tx w \<and> txq w' = txq w"
  using sys_read_fail [OF assms, of "unat n"] by (auto simp: qStreamSocket_read_def)

lemma read_eof:
  assumes "rx_avail (rx w) = []" and "\<not> rx_fails (rx w)" and "n < 2 ^ 32"
  shows "qStreamSocket_read w (word_of_int (int n)) = (0, replicate n 0, w\<lparr>rx := []\<rparr>)"
  using sys_read_eof [OF assms(1,2)] assms(3) by (simp add: qStreamSocket_read_def unat_of_nat)

section \<open>What \<open>sockread\<close> does on every stream\<close>

lemma append_nat:
  assumes "bss_ok b" and "unat (bss_size b) + k < 2 ^ 31" and "k \<le> length buf"
  shows "\<exists>b'. q__bss_append True b buf (word_of_int (int k)) err = (Done b', err) \<and> bss_ok b'
    \<and> unat (bss_size b') = unat (bss_size b) + k
    \<and> bss_content b' = bss_content b @ take k buf"
proof -
  have k: "unat (word_of_int (int k) :: u32) = k"
    using assms(2) by (simp add: unat_of_nat)
  then obtain b' where b': "q__bss_append True b buf (word_of_int (int k)) err = (Done b', err)"
      "bss_ok b'" "bss_size b' = bss_size b + word_of_int (int k)"
      "bss_content b' = bss_content b @ take k buf"
    using q__bss_append_content [of b "word_of_int (int k)" buf err] assms by auto
  moreover have "unat (bss_size b') = unat (bss_size b) + k"
    using unat_sum_below(1) [of "bss_size b" "word_of_int (int k)"] assms(2) k
    by (simp add: b'(3))
  ultimately show ?thesis by blast
qed

text \<open>One turn of the loop while data is available.\<close>

lemma sockread_turn:
  assumes "rx_avail (rx w) \<noteq> []" and "0 < n" and "bss_ok b" and "unat (bss_size b) + n < 2 ^ 31"
  shows "\<exists>k b' es'. sockread_loop (int n) b w = sockread_loop (int (n - k)) b' (w\<lparr>rx := es'\<rparr>)
    \<and> 0 < k \<and> k \<le> n \<and> k \<le> length (rx_avail (rx w)) \<and> bss_ok b'
    \<and> unat (bss_size b') = unat (bss_size b) + k
    \<and> bss_content b' = bss_content b @ take k (rx_avail (rx w))
    \<and> rx_avail es' = drop k (rx_avail (rx w)) \<and> rx_fails es' = rx_fails (rx w)"
proof -
  let ?av = "rx_avail (rx w)"
  from read_data [OF assms(1,2)] assms(4) obtain k es' where
    rd: "qStreamSocket_read w (word_of_int (int n)) =
          (int k, take k ?av @ replicate (n - k) 0, w\<lparr>rx := es'\<rparr>)"
    and k: "0 < k" "k \<le> n" "k \<le> length ?av" and es': "rx_avail es' = drop k ?av"
      "rx_fails es' = rx_fails (rx w)" by fastforce
  from append_nat [OF assms(3), of k "take k ?av @ replicate (n - k) 0" "zhwk_error w"]
    assms(4) k obtain b' where
    ap: "q__bss_append True b (take k ?av @ replicate (n - k) 0) (word_of_int (int k))
          (zhwk_error w) = (Done b', zhwk_error w)"
    and b': "bss_ok b'" "unat (bss_size b') = unat (bss_size b) + k"
      "bss_content b' = bss_content b @ take k ?av" by auto
  have "sockread_loop (int n) b w = sockread_loop (int n - int k) b' (w\<lparr>rx := es'\<rparr>)"
    using rd ap assms(2) by (subst sockread_loop.simps) simp
  then have "sockread_loop (int n) b w = sockread_loop (int (n - k)) b' (w\<lparr>rx := es'\<rparr>)"
    using k(2) by (simp add: of_nat_diff)
  then show ?thesis
    using k es' b' by blast
qed

lemma sockread_loop_ok:
  assumes "n \<le> length (rx_avail (rx w))" and "bss_ok b" and "unat (bss_size b) + n < 2 ^ 31"
  shows "\<exists>b' es'. sockread_loop (int n) b w = Some (Done (0, b', w\<lparr>rx := es'\<rparr>)) \<and> bss_ok b'
    \<and> bss_content b' = bss_content b @ take n (rx_avail (rx w))
    \<and> rx_avail es' = drop n (rx_avail (rx w)) \<and> rx_fails es' = rx_fails (rx w)"
  using assms
proof (induction n arbitrary: b w rule: less_induct)
  case (less n)
  show ?case
  proof (cases "n = 0")
    case True
    then have "sockread_loop (int n) b w = Some (Done (0, b, w\<lparr>rx := rx w\<rparr>))"
      by (subst sockread_loop.simps) simp
    then show ?thesis
      using True less.prems by (intro exI [of _ b] exI [of _ "rx w"]) simp
  next
    case False
    let ?av = "rx_avail (rx w)"
    from False less.prems(1) have "?av \<noteq> []" by auto
    from sockread_turn [OF this _ less.prems(2,3)] False obtain k b1 es1 where
      eq: "sockread_loop (int n) b w = sockread_loop (int (n - k)) b1 (w\<lparr>rx := es1\<rparr>)"
      and k: "0 < k" "k \<le> n" "k \<le> length ?av" and b1: "bss_ok b1"
        "unat (bss_size b1) = unat (bss_size b) + k" "bss_content b1 = bss_content b @ take k ?av"
      and es1: "rx_avail es1 = drop k ?av" "rx_fails es1 = rx_fails (rx w)" by auto
    have take: "take n ?av = take k ?av @ take (n - k) (drop k ?av)"
      using k(2) by (metis le_add_diff_inverse take_add)
    have "n - k < n" "n - k \<le> length (rx_avail (rx (w\<lparr>rx := es1\<rparr>)))"
        "unat (bss_size b1) + (n - k) < 2 ^ 31"
      using k es1 b1(2) less.prems by auto
    from less.IH [OF this(1,2) b1(1) this(3)] show ?thesis
      using k es1 b1(3) by (auto simp: eq take)
  qed
qed

lemma sockread_loop_fail:
  assumes "length (rx_avail (rx w)) < n" and "rx_fails (rx w)" and "bss_ok b"
    and "unat (bss_size b) + n < 2 ^ 31"
  shows "\<exists>b' w'. sockread_loop (int n) b w = Some (Done (-1, b', w'))
    \<and> tx w' = tx w \<and> txq w' = txq w"
  using assms
proof (induction n arbitrary: b w rule: less_induct)
  case (less n)
  show ?case
  proof (cases "rx_avail (rx w) = []")
    case True
    from read_fail [OF True less.prems(2)] obtain buf w' where
      "qStreamSocket_read w (word_of_int (int n)) = (-1, buf, w')" "tx w' = tx w" "txq w' = txq w"
      by blast
    then show ?thesis
      using less.prems(1) by (subst sockread_loop.simps) simp
  next
    case False
    from sockread_turn [OF False _ less.prems(3,4)] less.prems(1) obtain k b1 es1 where
      eq: "sockread_loop (int n) b w = sockread_loop (int (n - k)) b1 (w\<lparr>rx := es1\<rparr>)"
      and k: "0 < k" "k \<le> n" "k \<le> length (rx_avail (rx w))" and b1: "bss_ok b1"
        "unat (bss_size b1) = unat (bss_size b) + k"
      and es1: "rx_avail es1 = drop k (rx_avail (rx w))" "rx_fails es1 = rx_fails (rx w)" by auto
    have "n - k < n" "length (rx_avail (rx (w\<lparr>rx := es1\<rparr>))) < n - k"
        "rx_fails (rx (w\<lparr>rx := es1\<rparr>))" "unat (bss_size b1) + (n - k) < 2 ^ 31"
      using k es1 b1(2) less.prems by auto
    from less.IH [OF this(1-3) b1(1) this(4)] show ?thesis
      by (simp add: eq)
  qed
qed

text \<open>
  When the peer has closed the connection and bytes are still expected, \<^verbatim>\<open>read\<close> returns 0 for
  ever and so does the loop go on for ever.
\<close>

lemma sockread_loop_eof:
  assumes "rx_avail (rx w) = []" and "\<not> rx_fails (rx w)" and "bss_ok b" and "0 < n"
    and "unat (bss_size b) + n < 2 ^ 31"
  shows "sockread_loop (int n) b w = None"
proof (rule ccontr)
  assume "sockread_loop (int n) b w \<noteq> None"
  then obtain r where ret: "sockread_loop (int n) b w = Some r" by blast
  let ?P = "\<lambda>remain b w (r :: (int \<times> qBinarySafeString \<times> world) exec).
    \<forall>n. remain = int n \<and> rx_avail (rx w) = [] \<and> \<not> rx_fails (rx w) \<and> bss_ok b \<and> 0 < n
      \<and> unat (bss_size b) + n < 2 ^ 31 \<longrightarrow> False"
  have "?P (int n) b w r"
  proof (rule sockread_loop.raw_induct [where P = ?P, OF _ ret], intro allI impI, elim conjE)
    fix f remain b w n and r :: "(int \<times> qBinarySafeString \<times> world) exec"
    assume IH: "\<And>remain b w r. f remain b w = Some r \<Longrightarrow> ?P remain b w r"
      and eq: "(if remain = 0 then Some (Done (0, b, w))
        else case qStreamSocket_read w (word_of_int remain) of (actr, buf, w1) \<Rightarrow>
          if actr = -1 then Some (Done (-1, b, w1))
          else case q__bss_append True b buf (word_of_int actr) (zhwk_error w1) of
            (Fault, err) \<Rightarrow> Some Fault
          | (Done bss1, err) \<Rightarrow> f (remain - actr) bss1 (w1\<lparr>zhwk_error := err\<rparr>)) = Some r"
      and n: "remain = int n" "rx_avail (rx w) = []" "\<not> rx_fails (rx w)" "bss_ok b" "0 < n"
        "unat (bss_size b) + n < 2 ^ 31"
    have "n < 2 ^ 32" using n(6) by simp
    note rd = read_eof [OF n(2,3) this]
    obtain b' where ap: "q__bss_append True b (replicate n 0) (word_of_int (int 0)) (zhwk_error w)
        = (Done b', zhwk_error w)" "bss_ok b'" "unat (bss_size b') = unat (bss_size b)"
      using append_nat [OF n(4), of 0 "replicate n 0" "zhwk_error w"] n(6) by auto
    from eq n(1,5) rd ap(1) have "f (int n) b' (w\<lparr>rx := []\<rparr>) = Some r"
      by simp
    from IH [OF this] show False
      using ap(2,3) n(5,6) by auto
  qed
  then show False using assms by blast
qed

lemma sockread_loop_hang:
  assumes "length (rx_avail (rx w)) < n" and "\<not> rx_fails (rx w)" and "bss_ok b"
    and "unat (bss_size b) + n < 2 ^ 31"
  shows "sockread_loop (int n) b w = None"
  using assms
proof (induction n arbitrary: b w rule: less_induct)
  case (less n)
  show ?case
  proof (cases "rx_avail (rx w) = []")
    case True
    then show ?thesis
      using less.prems by (intro sockread_loop_eof) auto
  next
    case False
    from sockread_turn [OF False _ less.prems(3,4)] less.prems(1) obtain k b1 es1 where
      eq: "sockread_loop (int n) b w = sockread_loop (int (n - k)) b1 (w\<lparr>rx := es1\<rparr>)"
      and k: "0 < k" "k \<le> n" "k \<le> length (rx_avail (rx w))" and b1: "bss_ok b1"
        "unat (bss_size b1) = unat (bss_size b) + k"
      and es1: "rx_avail es1 = drop k (rx_avail (rx w))" "rx_fails es1 = rx_fails (rx w)" by auto
    have "n - k < n" "length (rx_avail (rx (w\<lparr>rx := es1\<rparr>))) < n - k"
        "\<not> rx_fails (rx (w\<lparr>rx := es1\<rparr>))" "unat (bss_size b1) + (n - k) < 2 ^ 31"
      using k es1 b1(2) less.prems by auto
    from less.IH [OF this(1-3) b1(1) this(4)] show ?thesis
      by (simp add: eq)
  qed
qed

section \<open>What \<open>sockwrite\<close> does on every schedule of writes\<close>

lemma sys_write_good: "tx_good es \<Longrightarrow> sys_write n es = (k, es') \<Longrightarrow> k \<noteq> -1 \<and> tx_good es'"
  by (induction n es rule: sys_write.induct) (auto simp: tx_good_def)

lemma write_split:
  assumes "qStreamSocket_write w c n = (k, w')" and "n \<noteq> 0"
  shows "(k = -1 \<and> \<not> tx_good (txq w) \<and> tx w' = tx w \<and> rx w' = rx w)
    \<or> (\<exists>es'. 0 < k \<and> k \<le> int (unat n) \<and> w' = w\<lparr>txq := es', tx := tx w @ take (nat k) c\<rparr>
        \<and> (tx_good (txq w) \<longrightarrow> tx_good es'))"
proof (cases "sys_write (unat n) (txq w)")
  case (Pair a es)
  then have k: "k = a" and w': "w' = w\<lparr>txq := es,
      tx := (if a = -1 then tx w else tx w @ take (nat a) c),
      zhwk_error := (if a = -1 then ZHWK_ERR_TCP_WRITE_FAIL else zhwk_error w)\<rparr>"
    using assms(1) by (auto simp: qStreamSocket_write_def)
  show ?thesis
  proof (cases "a = -1")
    case True
    then show ?thesis
      using Pair k w' sys_write_good by fastforce
  next
    case False
    then show ?thesis
      using Pair k w' sys_write_good sys_write_progress [OF Pair False] assms(2)
      by (auto simp: unat_gt_0 intro!: exI [of _ es])
  qed
qed

lemma int_unat_less: "int (unat (x :: u32)) < 2 ^ 32"
  using unsigned_less [of x] by simp

lemma unat_less32: "unat (x :: u32) < 2 ^ 32"
  by (rule order.strict_trans2 [OF unsigned_less]) simp

lemma drop_take_split:
  assumes "k \<le> n - a"
  shows "drop a (take n xs) = take k (drop a xs) @ drop (a + k) (take n xs)"
proof -
  have "take k (drop a (take n xs)) = take k (drop a xs)"
    using assms by (simp add: drop_take min_absorb1)
  then show ?thesis
    using append_take_drop_id [of k "drop a (take n xs)"] by (simp add: add.commute)
qed

lemma unat_half_iff:
  "unat (x :: u32) < 2 ^ 31 \<longleftrightarrow> int (unat x) < 2 ^ 31" "2 ^ 31 \<le> unat (x :: u32) \<longleftrightarrow> 2 ^ 31 \<le> int (unat x)"
  using of_nat_less_iff [where 'a = int, of "unat x" "2 ^ 31"] of_nat_le_iff [where 'a = int, of "2 ^ 31" "unat x"]
  by (simp_all del: of_nat_less_iff of_nat_le_iff)

lemma unat_left:
  assumes "0 \<le> a" and "a \<le> int (unat (n :: u32))"
  shows "unat (n - word_of_int a) = unat n - nat a"
proof -
  have "unat (word_of_int a :: u32) = nat a"
    using assms int_unat_less [of n] by (intro unat_word_of_int_small) linarith+
  moreover from this have "word_of_int a \<le> n"
    unfolding word_le_nat_alt using assms by linarith
  ultimately show ?thesis
    by (simp add: unat_sub)
qed

text \<open>What one turn of the loop can be.\<close>

lemma sockwrite_turn:
  assumes "0 \<le> a" and "a < int (unat n)" and "unat n \<le> length blk"
  shows "(\<exists>w'. sockwrite_loop n a blk af w = Done (-1, af, w') \<and> \<not> tx_good (txq w)
      \<and> tx w' = tx w \<and> rx w' = rx w)
    \<or> (\<exists>k es'. 0 < k \<and> a + k \<le> int (unat n) \<and> (tx_good (txq w) \<longrightarrow> tx_good es')
      \<and> sockwrite_loop n a blk af w = (if 2 ^ 31 \<le> a + k then Fault else sockwrite_loop n (a + k) blk af
          (w\<lparr>txq := es', tx := tx w @ take (nat k) (drop (nat a) blk)\<rparr>)))"
proof -
  have left: "unat (n - word_of_int a) = unat n - nat a"
    using assms by (intro unat_left) auto
  have "0 < unat (n - word_of_int a)"
    unfolding left using assms by linarith
  then have pos: "n - word_of_int a \<noteq> 0"
    by (simp add: unat_gt_0)
  have fits: "\<not> (a < 0 \<or> length blk < nat a + unat (n - word_of_int a))"
    unfolding left using assms by linarith
  obtain k w1 where wr: "qStreamSocket_write w (drop (nat a) blk) (n - word_of_int a) = (k, w1)"
    by (cases "qStreamSocket_write w (drop (nat a) blk) (n - word_of_int a)")
  from write_split [OF wr pos] show ?thesis
  proof (elim disjE exE conjE)
    assume "k = -1" "\<not> tx_good (txq w)" "tx w1 = tx w" "rx w1 = rx w"
    then show ?thesis
      using wr pos fits by (intro disjI1 exI [of _ w1]) (subst sockwrite_loop.simps, simp)
  next
    fix es'
    assume k: "0 < k" "k \<le> int (unat (n - word_of_int a))"
      and w1: "w1 = w\<lparr>txq := es', tx := tx w @ take (nat k) (drop (nat a) blk)\<rparr>"
      and good: "tx_good (txq w) \<longrightarrow> tx_good es'"
    have "sockwrite_loop n a blk af w =
        (if 2 ^ 31 \<le> a + k then Fault else sockwrite_loop n (a + k) blk af w1)"
      using wr pos fits k by (subst sockwrite_loop.simps) simp
    moreover have "a + k \<le> int (unat n)"
      using k(2) left assms by linarith
    ultimately show ?thesis
      using k(1) good unfolding w1 by blast
  qed
qed

lemma sockwrite_loop_cases:
  assumes "0 \<le> a" and "a \<le> int (unat n)" and "unat n \<le> length blk" and "unat n < 2 ^ 31"
  shows "(\<exists>es'. sockwrite_loop n a blk af w = Done (0, False,
            w\<lparr>txq := es', tx := tx w @ drop (nat a) (take (unat n) blk)\<rparr>)
          \<and> (tx_good (txq w) \<longrightarrow> tx_good es'))
    \<or> (\<not> tx_good (txq w) \<and> (\<exists>w' m. sockwrite_loop n a blk af w = Done (-1, af, w')
          \<and> tx w' = tx w @ take m (drop (nat a) (take (unat n) blk)) \<and> rx w' = rx w))"
  using assms
proof (induction "unat n - nat a" arbitrary: a w rule: less_induct)
  case less
  let ?rest = "\<lambda>a. drop (nat a) (take (unat n) blk)"
  show ?case
  proof (cases "a = int (unat n)")
    case True
    then show ?thesis
      by (subst sockwrite_loop.simps, subst sockwrite_loop.simps) (auto intro!: exI [of _ "txq w"])
  next
    case False
    with less.prems have lt: "a < int (unat n)" by simp
    from sockwrite_turn [OF less.prems(1) lt less.prems(3), of af w] show ?thesis
    proof (elim disjE exE conjE, goal_cases)
      case (1 w')
      then show ?thesis
        by (intro disjI2 conjI exI [of _ w'] exI [of _ 0]) simp_all
    next
      case (2 k es')
      let ?w1 = "w\<lparr>txq := es', tx := tx w @ take (nat k) (drop (nat a) blk)\<rparr>"
      have small: "unat n - nat (a + k) < unat n - nat a"
        using 2(1) lt less.prems(1) by linarith
      have range: "0 \<le> a + k" "\<not> 2 ^ 31 \<le> a + k"
        using 2(1,2) less.prems(1,4) [unfolded unat_half_iff] by linarith+
      then have step: "sockwrite_loop n a blk af w = sockwrite_loop n (a + k) blk af ?w1"
        using 2(4) by simp
      have nk: "nat k \<le> unat n - nat a" and sum: "nat (a + k) = nat a + nat k"
        using 2(1,2) less.prems(1) by linarith+
      have rest: "?rest a = take (nat k) (drop (nat a) blk) @ ?rest (a + k)"
        unfolding sum by (rule drop_take_split [OF nk])
      have len: "length (take (nat k) (drop (nat a) blk)) = nat k"
        using nk less.prems(3) by simp
      from less.hyps [OF small range(1) 2(2) less.prems(3,4), of ?w1] show ?thesis
      proof (elim disjE exE conjE, goal_cases)
        case (1 es2)
        then show ?thesis
          using 2(3) by (intro disjI1 exI [of _ es2]) (simp add: step rest)
      next
        case (2 w2 m)
        then show ?thesis
          using \<open>tx_good (txq w) \<longrightarrow> tx_good es'\<close> len
          by (intro disjI2 conjI exI [of _ w2] exI [of _ "nat k + m"]) (simp_all add: step rest)
      qed
    qed
  qed
qed

text \<open>From \<open>2\<^sup>3\<^sup>1\<close> bytes on the counter overflows before the buffer is written, unless a write fails first.\<close>

lemma sockwrite_loop_overflow:
  assumes "0 \<le> a" and "a < 2 ^ 31" and "2 ^ 31 \<le> unat n" and "unat n \<le> length blk" and "tx_good (txq w)"
  shows "sockwrite_loop n a blk af w = Fault"
  using assms
proof (induction "unat n - nat a" arbitrary: a w rule: less_induct)
  case less
  have lt: "a < int (unat n)"
    using less.prems(2,3) [unfolded unat_half_iff] by linarith
  from sockwrite_turn [OF less.prems(1) lt less.prems(4), of af w] less.prems(5) obtain k es' where
    k: "0 < k" "tx_good es'" and eq: "sockwrite_loop n a blk af w = (if 2 ^ 31 \<le> a + k then Fault
      else sockwrite_loop n (a + k) blk af (w\<lparr>txq := es', tx := tx w @ take (nat k) (drop (nat a) blk)\<rparr>))"
    by blast
  show ?case
  proof (cases "2 ^ 31 \<le> a + k")
    case False
    have "unat n - nat (a + k) < unat n - nat a"
      using k(1) lt less.prems(1) by linarith
    from less.hyps [OF this] show ?thesis
      using False k less.prems by (simp add: eq)
  qed (simp add: eq)
qed

section \<open>The two calls\<close>

lemma sockread_ok:
  assumes "n \<le> length (rx_avail (rx w))" and "bss_ok b" and "unat (bss_size b) + n < 2 ^ 31"
  shows "\<exists>b' es'. sockread w b (int n) = Some (Done (0, b', w\<lparr>rx := es'\<rparr>)) \<and> bss_ok b'
    \<and> bss_content b' = bss_content b @ take n (rx_avail (rx w))
    \<and> rx_avail es' = drop n (rx_avail (rx w)) \<and> rx_fails es' = rx_fails (rx w)"
  using sockread_loop_ok [OF assms] by (simp add: sockread_def)

lemma sockread_fail:
  assumes "length (rx_avail (rx w)) < n" and "rx_fails (rx w)" and "bss_ok b"
    and "unat (bss_size b) + n < 2 ^ 31"
  shows "\<exists>b' w'. sockread w b (int n) = Some (Done (-1, b', w')) \<and> tx w' = tx w \<and> txq w' = txq w"
  using sockread_loop_fail [OF assms] by (simp add: sockread_def)

lemma sockread_hang:
  assumes "length (rx_avail (rx w)) < n" and "\<not> rx_fails (rx w)" and "bss_ok b"
    and "unat (bss_size b) + n < 2 ^ 31"
  shows "sockread w b (int n) = None"
  using sockread_loop_hang [OF assms] by (simp add: sockread_def)

lemma sockread_negative: "k < 0 \<Longrightarrow> sockread w b k = Some Fault"
  by (simp add: sockread_def)

lemma sockwrite_cases:
  assumes "bss_ok b" and "unat (bss_size b) < 2 ^ 31"
  shows "(\<exists>es'. sockwrite w b af = Done (0, False, w\<lparr>txq := es', tx := tx w @ bss_content b\<rparr>)
          \<and> (tx_good (txq w) \<longrightarrow> tx_good es'))
    \<or> (\<not> tx_good (txq w) \<and> (\<exists>w' m. sockwrite w b af = Done (-1, af, w')
          \<and> tx w' = tx w @ take m (bss_content b) \<and> rx w' = rx w))"
proof -
  obtain blk where blk: "bss_str b = Some blk" "unat (bss_size b) \<le> length blk"
    using assms by (auto simp: bss_ok_def word_le_nat_alt split: option.splits)
  show ?thesis
    using sockwrite_loop_cases [of 0 "bss_size b" blk af w] blk assms(2)
    by (simp add: sockwrite_def bss_content_def)
qed

lemma sockwrite_ok:
  assumes "bss_ok b" and "unat (bss_size b) < 2 ^ 31" and "tx_good (txq w)"
  shows "\<exists>es'. sockwrite w b af = Done (0, False, w\<lparr>txq := es', tx := tx w @ bss_content b\<rparr>)
    \<and> tx_good es'"
  using sockwrite_cases [OF assms(1,2), of w af] assms(3) by blast

lemma sockwrite_overflow:
  assumes "bss_ok b" and "2 ^ 31 \<le> unat (bss_size b)" and "tx_good (txq w)"
  shows "sockwrite w b af = Fault"
proof -
  obtain blk where "bss_str b = Some blk" "unat (bss_size b) \<le> length blk"
    using assms(1) by (auto simp: bss_ok_def word_le_nat_alt split: option.splits)
  then show ?thesis
    using sockwrite_loop_overflow [of 0 "bss_size b" blk w af] assms(2,3) by (simp add: sockwrite_def)
qed

end
