(* ===== verification/Prot.thy ===== *)
theory Prot
  imports Net
begin

text \<open>
  \<^verbatim>\<open>prot.h\<close> and \<^verbatim>\<open>prot.c\<close>: the structures of the remote file system protocol, their object
  representation on x86-64 (the bytes that \<^verbatim>\<open>qbss_append(&x, sizeof x)\<close> puts on the wire), and the
  functions that receive them. Padding bytes are part of a structure's representation and travel
  with it; each structure that has padding carries it as a field of its own.
\<close>

section \<open>Constants and structures\<close>

definition FILENAME_LEN :: nat where "FILENAME_LEN = 4096"

definition OPER_OPEN :: u32 where "OPER_OPEN = 0"
definition OPER_READ :: u32 where "OPER_READ = 1"
definition OPER_WRITE :: u32 where "OPER_WRITE = 2"
definition OPER_CLOSE :: u32 where "OPER_CLOSE = 3"

record OpHdr =
  op_size :: u32
  op_ouid :: u32
  op_opid :: u32

record RpHdr =
  rp_size :: u32
  rp_ouid :: u32
  rp_rtvl :: u32

definition OPEN_CREAT :: u8 where "OPEN_CREAT = 1"
definition OPEN_DIRECT :: u8 where "OPEN_DIRECT = 2"
definition OPEN_DIRECTORY :: u8 where "OPEN_DIRECTORY = 4"
definition OPEN_NOFOLLOW :: u8 where "OPEN_NOFOLLOW = 8"
definition OPEN_TRUNC :: u8 where "OPEN_TRUNC = 16"
definition OPEN_MKDIR :: u8 where "OPEN_MKDIR = 32"

text \<open>One byte of padding stands between \<^verbatim>\<open>flags\<close> and \<^verbatim>\<open>mode\<close>.\<close>

record OpOpen =
  oo_filename :: bytes
  oo_flags :: u8
  oo_pad :: bytes
  oo_mode :: u16

record RpOpen =
  ro_file_handle :: u64
  ro_ignore_above :: u8
  ro_pad :: bytes

definition RD_REGULAR :: u8 where "RD_REGULAR = 0"
definition RD_STAT :: u8 where "RD_STAT = 1"
definition RD_STATFS :: u8 where "RD_STATFS = 2"
definition RD_LINK :: u8 where "RD_LINK = 3"
definition RD_DIR :: u8 where "RD_DIR = 4"

record OpRead =
  rd_filename :: bytes
  rd_file_handle :: u64
  rd_offset :: u64
  rd_count :: u64
  rd_read_mode :: u8
  rd_pad :: bytes

definition WR_REGULAR :: u8 where "WR_REGULAR = 0"
definition WR_CHMOD :: u8 where "WR_CHMOD = 1"
definition WR_SYMLINK :: u8 where "WR_SYMLINK = 2"
definition WR_REMOVE :: u8 where "WR_REMOVE = 3"
definition WR_TRUNC :: u8 where "WR_TRUNC = 4"
definition WR_ACCES :: u8 where "WR_ACCES = 5"
definition WR_RMDIR :: u8 where "WR_RMDIR = 6"
definition WR_MODTIME :: u8 where "WR_MODTIME = 7"

record OpWrit =
  wr_filename :: bytes
  wr_file_handle :: u64
  wr_offset :: u64
  wr_count :: u64
  wr_write_mode :: u8
  wr_pad :: bytes

definition TM_ANOW :: u8 where "TM_ANOW = 1"
definition TM_AIGN :: u8 where "TM_AIGN = 2"
definition TM_MNOW :: u8 where "TM_MNOW = 4"
definition TM_MIGN :: u8 where "TM_MIGN = 8"

record TimeModder =
  tm_atime :: u64
  tm_atime_nsec :: u64
  tm_mtime :: u64
  tm_mtime_nsec :: u64
  tm_flags :: u8
  tm_pad :: bytes

record OpClos =
  cl_file_handle :: u64
  cl_is_dir :: u8
  cl_pad :: bytes

section \<open>Sizes and object representations\<close>

definition sizeof_OpHdr :: nat where "sizeof_OpHdr = 12"
definition sizeof_RpHdr :: nat where "sizeof_RpHdr = 12"
definition sizeof_OpOpen :: nat where "sizeof_OpOpen = 4100"
definition sizeof_RpOpen :: nat where "sizeof_RpOpen = 16"
definition sizeof_OpRead :: nat where "sizeof_OpRead = 4128"
definition sizeof_OpWrit :: nat where "sizeof_OpWrit = 4128"
definition sizeof_TimeModder :: nat where "sizeof_TimeModder = 40"
definition sizeof_OpClos :: nat where "sizeof_OpClos = 16"

lemmas sizeof_defs = sizeof_OpHdr_def sizeof_RpHdr_def sizeof_OpOpen_def sizeof_RpOpen_def
  sizeof_OpRead_def sizeof_OpWrit_def sizeof_TimeModder_def sizeof_OpClos_def FILENAME_LEN_def

definition enc_OpHdr :: "OpHdr \<Rightarrow> bytes" where
  "enc_OpHdr h = le_bytes 4 (op_size h) @ le_bytes 4 (op_ouid h) @ le_bytes 4 (op_opid h)"

definition dec_OpHdr :: "bytes \<Rightarrow> OpHdr" where
  "dec_OpHdr bs = \<lparr>op_size = of_le (take 4 bs), op_ouid = of_le (take 4 (drop 4 bs)),
     op_opid = of_le (take 4 (drop 8 bs))\<rparr>"

definition enc_RpHdr :: "RpHdr \<Rightarrow> bytes" where
  "enc_RpHdr h = le_bytes 4 (rp_size h) @ le_bytes 4 (rp_ouid h) @ le_bytes 4 (rp_rtvl h)"

definition dec_RpHdr :: "bytes \<Rightarrow> RpHdr" where
  "dec_RpHdr bs = \<lparr>rp_size = of_le (take 4 bs), rp_ouid = of_le (take 4 (drop 4 bs)),
     rp_rtvl = of_le (take 4 (drop 8 bs))\<rparr>"

definition enc_OpOpen :: "OpOpen \<Rightarrow> bytes" where
  "enc_OpOpen x = oo_filename x @ [oo_flags x] @ oo_pad x @ le_bytes 2 (oo_mode x)"

definition dec_OpOpen :: "bytes \<Rightarrow> OpOpen" where
  "dec_OpOpen bs = \<lparr>oo_filename = take 4096 bs, oo_flags = bs ! 4096,
     oo_pad = take 1 (drop 4097 bs), oo_mode = of_le (take 2 (drop 4098 bs))\<rparr>"

definition ok_OpOpen :: "OpOpen \<Rightarrow> bool" where
  "ok_OpOpen x \<longleftrightarrow> length (oo_filename x) = FILENAME_LEN \<and> length (oo_pad x) = 1"

definition enc_RpOpen :: "RpOpen \<Rightarrow> bytes" where
  "enc_RpOpen x = le_bytes 8 (ro_file_handle x) @ [ro_ignore_above x] @ ro_pad x"

definition dec_RpOpen :: "bytes \<Rightarrow> RpOpen" where
  "dec_RpOpen bs = \<lparr>ro_file_handle = of_le (take 8 bs),
     ro_ignore_above = bs ! 8, ro_pad = take 7 (drop 9 bs)\<rparr>"

definition ok_RpOpen :: "RpOpen \<Rightarrow> bool" where
  "ok_RpOpen x \<longleftrightarrow> length (ro_pad x) = 7"

definition enc_OpRead :: "OpRead \<Rightarrow> bytes" where
  "enc_OpRead x = rd_filename x @ le_bytes 8 (rd_file_handle x) @ le_bytes 8 (rd_offset x)
     @ le_bytes 8 (rd_count x) @ [rd_read_mode x] @ rd_pad x"

definition dec_OpRead :: "bytes \<Rightarrow> OpRead" where
  "dec_OpRead bs = \<lparr>rd_filename = take 4096 bs, rd_file_handle = of_le (take 8 (drop 4096 bs)),
     rd_offset = of_le (take 8 (drop 4104 bs)), rd_count = of_le (take 8 (drop 4112 bs)),
     rd_read_mode = bs ! 4120, rd_pad = take 7 (drop 4121 bs)\<rparr>"

definition ok_OpRead :: "OpRead \<Rightarrow> bool" where
  "ok_OpRead x \<longleftrightarrow> length (rd_filename x) = FILENAME_LEN \<and> length (rd_pad x) = 7"

definition enc_OpWrit :: "OpWrit \<Rightarrow> bytes" where
  "enc_OpWrit x = wr_filename x @ le_bytes 8 (wr_file_handle x) @ le_bytes 8 (wr_offset x)
     @ le_bytes 8 (wr_count x) @ [wr_write_mode x] @ wr_pad x"

definition dec_OpWrit :: "bytes \<Rightarrow> OpWrit" where
  "dec_OpWrit bs = \<lparr>wr_filename = take 4096 bs, wr_file_handle = of_le (take 8 (drop 4096 bs)),
     wr_offset = of_le (take 8 (drop 4104 bs)), wr_count = of_le (take 8 (drop 4112 bs)),
     wr_write_mode = bs ! 4120, wr_pad = take 7 (drop 4121 bs)\<rparr>"

definition ok_OpWrit :: "OpWrit \<Rightarrow> bool" where
  "ok_OpWrit x \<longleftrightarrow> length (wr_filename x) = FILENAME_LEN \<and> length (wr_pad x) = 7"

definition enc_TimeModder :: "TimeModder \<Rightarrow> bytes" where
  "enc_TimeModder x = le_bytes 8 (tm_atime x) @ le_bytes 8 (tm_atime_nsec x)
     @ le_bytes 8 (tm_mtime x) @ le_bytes 8 (tm_mtime_nsec x) @ [tm_flags x] @ tm_pad x"

definition dec_TimeModder :: "bytes \<Rightarrow> TimeModder" where
  "dec_TimeModder bs = \<lparr>tm_atime = of_le (take 8 bs), tm_atime_nsec = of_le (take 8 (drop 8 bs)),
     tm_mtime = of_le (take 8 (drop 16 bs)), tm_mtime_nsec = of_le (take 8 (drop 24 bs)),
     tm_flags = bs ! 32, tm_pad = take 7 (drop 33 bs)\<rparr>"

definition ok_TimeModder :: "TimeModder \<Rightarrow> bool" where
  "ok_TimeModder x \<longleftrightarrow> length (tm_pad x) = 7"

definition enc_OpClos :: "OpClos \<Rightarrow> bytes" where
  "enc_OpClos x = le_bytes 8 (cl_file_handle x) @ [cl_is_dir x] @ cl_pad x"

definition dec_OpClos :: "bytes \<Rightarrow> OpClos" where
  "dec_OpClos bs = \<lparr>cl_file_handle = of_le (take 8 bs),
     cl_is_dir = bs ! 8, cl_pad = take 7 (drop 9 bs)\<rparr>"

definition ok_OpClos :: "OpClos \<Rightarrow> bool" where
  "ok_OpClos x \<longleftrightarrow> length (cl_pad x) = 7"

section \<open>Every structure implements the codec interface\<close>

interpretation c_OpHdr: codec enc_OpHdr dec_OpHdr sizeof_OpHdr "\<lambda>_. True"
  by unfold_locales (auto simp: enc_OpHdr_def dec_OpHdr_def sizeof_defs codec_simps)

interpretation c_RpHdr: codec enc_RpHdr dec_RpHdr sizeof_RpHdr "\<lambda>_. True"
  by unfold_locales (auto simp: enc_RpHdr_def dec_RpHdr_def sizeof_defs codec_simps)

interpretation c_OpOpen: codec enc_OpOpen dec_OpOpen sizeof_OpOpen ok_OpOpen
  by unfold_locales (auto simp: enc_OpOpen_def dec_OpOpen_def ok_OpOpen_def sizeof_defs codec_simps)

interpretation c_RpOpen: codec enc_RpOpen dec_RpOpen sizeof_RpOpen ok_RpOpen
  by unfold_locales (auto simp: enc_RpOpen_def dec_RpOpen_def ok_RpOpen_def sizeof_defs codec_simps)

interpretation c_OpRead: codec enc_OpRead dec_OpRead sizeof_OpRead ok_OpRead
  by unfold_locales (auto simp: enc_OpRead_def dec_OpRead_def ok_OpRead_def sizeof_defs codec_simps)

interpretation c_OpWrit: codec enc_OpWrit dec_OpWrit sizeof_OpWrit ok_OpWrit
  by unfold_locales (auto simp: enc_OpWrit_def dec_OpWrit_def ok_OpWrit_def sizeof_defs codec_simps)

interpretation c_TimeModder: codec enc_TimeModder dec_TimeModder sizeof_TimeModder ok_TimeModder
  by unfold_locales
    (auto simp: enc_TimeModder_def dec_TimeModder_def ok_TimeModder_def sizeof_defs codec_simps)

interpretation c_OpClos: codec enc_OpClos dec_OpClos sizeof_OpClos ok_OpClos
  by unfold_locales (auto simp: enc_OpClos_def dec_OpClos_def ok_OpClos_def sizeof_defs codec_simps)

section \<open>Receiving\<close>

text \<open>
  The body that \<^verbatim>\<open>wait_operation\<close>, \<^verbatim>\<open>as_open\<close>, \<^verbatim>\<open>as_read\<close>, \<^verbatim>\<open>as_close\<close>, \<^verbatim>\<open>wait_reply\<close> and
  \<^verbatim>\<open>re_open\<close> have in common: read \<^verbatim>\<open>sizeof\<close> bytes into a fresh buffer and copy them over the
  destination, which keeps its value when the read fails.
\<close>

definition recv_struct ::
  "nat \<Rightarrow> (bytes \<Rightarrow> 's) \<Rightarrow> 's \<Rightarrow> world \<Rightarrow> ((int \<times> 's \<times> world) exec) option" where
  "recv_struct sz dec dest w =
     (case sockread w (fst (qbss_constructor True 0 0 (zhwk_error w))) (int sz) of
        None \<Rightarrow> None
      | Some Fault \<Rightarrow> Some Fault
      | Some (Done (r, recvbuf, w1)) \<Rightarrow>
          (if r \<noteq> 0 then Some (Done (-1, dest, w1))
           else
             (case bss_str recvbuf of
                None \<Rightarrow> Some Fault
              | Some blk \<Rightarrow>
                  (if length blk < sz then Some Fault
                   else Some (Done (0, dec (take sz blk), w1))))))"

definition wait_operation :: "OpHdr \<Rightarrow> world \<Rightarrow> ((int \<times> OpHdr \<times> world) exec) option" where
  "wait_operation desthdr w = recv_struct sizeof_OpHdr dec_OpHdr desthdr w"

definition as_open :: "OpOpen \<Rightarrow> world \<Rightarrow> ((int \<times> OpOpen \<times> world) exec) option" where
  "as_open dest w = recv_struct sizeof_OpOpen dec_OpOpen dest w"

definition as_read :: "OpRead \<Rightarrow> world \<Rightarrow> ((int \<times> OpRead \<times> world) exec) option" where
  "as_read dest w = recv_struct sizeof_OpRead dec_OpRead dest w"

text \<open>
  \<^verbatim>\<open>as_write\<close> receives the structure and then \<^verbatim>\<open>remain - sizeof(struct OpWrit)\<close> bytes of content,
  a difference of \<^verbatim>\<open>size_t\<close> stored in an \<^verbatim>\<open>int\<close>. \<open>buffer\<close> is the caller's object.
\<close>

definition as_write ::
  "OpWrit \<Rightarrow> bytes \<Rightarrow> u64 \<Rightarrow> world \<Rightarrow> ((int \<times> OpWrit \<times> bytes \<times> world) exec) option" where
  "as_write dest buffer remain w =
     (let extra = int_of_size (remain - of_nat sizeof_OpWrit) in
      case recv_struct sizeof_OpWrit dec_OpWrit dest w of
        None \<Rightarrow> None
      | Some Fault \<Rightarrow> Some Fault
      | Some (Done (r, dest1, w1)) \<Rightarrow>
          (if r \<noteq> 0 then Some (Done (-1, dest1, buffer, w1))
           else
             (case sockread w1 (fst (qbss_constructor True 0 0 (zhwk_error w1))) extra of
                None \<Rightarrow> None
              | Some Fault \<Rightarrow> Some Fault
              | Some (Done (r2, recvbuf, w2)) \<Rightarrow>
                  (if r2 \<noteq> 0 then Some (Done (-1, dest1, buffer, w2))
                   else
                     (case bss_str recvbuf of
                        None \<Rightarrow> Some Fault
                      | Some blk \<Rightarrow>
                          (case memcpy buffer 0 blk (nat extra) of
                             None \<Rightarrow> Some Fault
                           | Some buffer' \<Rightarrow> Some (Done (0, dest1, buffer', w2))))))))"

definition as_close :: "OpClos \<Rightarrow> world \<Rightarrow> ((int \<times> OpClos \<times> world) exec) option" where
  "as_close dest w = recv_struct sizeof_OpClos dec_OpClos dest w"

definition wait_reply :: "RpHdr \<Rightarrow> world \<Rightarrow> ((int \<times> RpHdr \<times> world) exec) option" where
  "wait_reply rephdr w = recv_struct sizeof_RpHdr dec_RpHdr rephdr w"

definition re_open :: "RpOpen \<Rightarrow> world \<Rightarrow> ((int \<times> RpOpen \<times> world) exec) option" where
  "re_open dest w = recv_struct sizeof_RpOpen dec_RpOpen dest w"

text \<open>
  \<^verbatim>\<open>re_read\<close> passes its \<^verbatim>\<open>size_t\<close> to \<^verbatim>\<open>sockread\<close> as an \<^verbatim>\<open>int\<close> and copies the unconverted number of
  bytes to the caller's object.
\<close>

definition re_read :: "bytes \<Rightarrow> u64 \<Rightarrow> world \<Rightarrow> ((int \<times> bytes \<times> world) exec) option" where
  "re_read buffer remain w =
     (case sockread w (fst (qbss_constructor True 0 0 (zhwk_error w))) (int_of_size remain) of
        None \<Rightarrow> None
      | Some Fault \<Rightarrow> Some Fault
      | Some (Done (r, bss, w1)) \<Rightarrow>
          (if r \<noteq> 0 then Some (Done (-1, buffer, w1))
           else
             (case bss_str bss of
                None \<Rightarrow> Some Fault
              | Some blk \<Rightarrow>
                  (case memcpy buffer 0 blk (unat remain) of
                     None \<Rightarrow> Some Fault
                   | Some buffer' \<Rightarrow> Some (Done (0, buffer', w1))))))"

section \<open>Receiving, specified\<close>

lemma bss_content_block:
  assumes "bss_ok b" and "bss_content b = xs"
  shows "\<exists>blk. bss_str b = Some blk \<and> length xs \<le> length blk \<and> take (length xs) blk = xs"
  using assms length_bss_content [OF assms(1)]
  by (auto simp: bss_ok_def bss_content_def word_le_nat_alt split: option.splits)

lemma recv_struct_ok:
  assumes "sz \<le> length (rx_avail (rx w))" and "sz < 2 ^ 31"
  shows "\<exists>es'. recv_struct sz dec dest w
      = Some (Done (0, dec (take sz (rx_avail (rx w))), w\<lparr>rx := es'\<rparr>))
    \<and> rx_avail es' = drop sz (rx_avail (rx w)) \<and> rx_fails es' = rx_fails (rx w)"
proof -
  from sockread_ok [OF assms(1), of bss_empty] assms(2) obtain b es where
    rd: "sockread w bss_empty (int sz) = Some (Done (0, b, w\<lparr>rx := es\<rparr>))"
    and b: "bss_ok b" "bss_content b = take sz (rx_avail (rx w))"
    and es: "rx_avail es = drop sz (rx_avail (rx w))" "rx_fails es = rx_fails (rx w)" by auto
  from bss_content_block [OF b] assms(1) obtain blk where
    "bss_str b = Some blk" "sz \<le> length blk" "take sz blk = take sz (rx_avail (rx w))" by auto
  then show ?thesis
    using rd es by (auto simp: recv_struct_def)
qed

lemma recv_struct_fail:
  assumes "length (rx_avail (rx w)) < sz" and "sz < 2 ^ 31" and "rx_fails (rx w)"
  shows "\<exists>w'. recv_struct sz dec dest w = Some (Done (-1, dest, w'))
    \<and> tx w' = tx w \<and> txq w' = txq w"
  using sockread_fail [OF assms(1,3), of bss_empty] assms(2) by (auto simp: recv_struct_def)

lemma recv_struct_hang:
  assumes "length (rx_avail (rx w)) < sz" and "sz < 2 ^ 31" and "\<not> rx_fails (rx w)"
  shows "recv_struct sz dec dest w = None"
  using sockread_hang [OF assms(1,3), of bss_empty] assms(2) by (simp add: recv_struct_def)

lemma re_read_ok:
  assumes "n \<le> length (rx_avail (rx w))" and "unat m = n" and "n < 2 ^ 31" and "n \<le> length buffer"
  shows "\<exists>es'. re_read buffer m w
      = Some (Done (0, take n (rx_avail (rx w)) @ drop n buffer, w\<lparr>rx := es'\<rparr>))
    \<and> rx_avail es' = drop n (rx_avail (rx w)) \<and> rx_fails es' = rx_fails (rx w)"
proof -
  from sockread_ok [OF assms(1), of bss_empty] assms(3) obtain b es where
    rd: "sockread w bss_empty (int n) = Some (Done (0, b, w\<lparr>rx := es\<rparr>))"
    and b: "bss_ok b" "bss_content b = take n (rx_avail (rx w))"
    and es: "rx_avail es = drop n (rx_avail (rx w))" "rx_fails es = rx_fails (rx w)" by auto
  from bss_content_block [OF b] assms(1) obtain blk where
    "bss_str b = Some blk" "n \<le> length blk" "take n blk = take n (rx_avail (rx w))" by auto
  then show ?thesis
    using rd es assms(2-4) by (auto simp: re_read_def int_of_size_small memcpy_def)
qed

lemma re_read_fail:
  assumes "length (rx_avail (rx w)) < n" and "unat m = n" and "n < 2 ^ 31" and "rx_fails (rx w)"
  shows "\<exists>w'. re_read buffer m w = Some (Done (-1, buffer, w')) \<and> tx w' = tx w \<and> txq w' = txq w"
  using sockread_fail [OF assms(1,4), of bss_empty] assms(2,3)
  by (auto simp: re_read_def int_of_size_small)

lemma re_read_hang:
  assumes "length (rx_avail (rx w)) < n" and "unat m = n" and "n < 2 ^ 31" and "\<not> rx_fails (rx w)"
  shows "re_read buffer m w = None"
  using sockread_hang [OF assms(1,4), of bss_empty] assms(2,3)
  by (simp add: re_read_def int_of_size_small)

text \<open>A structure put on the wire by one side is what the other side receives.\<close>

context codec
begin

lemma recv_enc:
  assumes "ok x" and "sz < 2 ^ 31" and "rx_avail (rx w) = enc x @ rest"
  shows "\<exists>es'. recv_struct sz dec dest w = Some (Done (0, x, w\<lparr>rx := es'\<rparr>))
    \<and> rx_avail es' = rest \<and> rx_fails es' = rx_fails (rx w)"
  using recv_struct_ok [of sz w dec dest] assms enc_length [OF assms(1)]
  by (auto simp: dec_enc)

end

text \<open>A write operation with its content, cut from the stream by the announced size.\<close>

lemma as_write_ok:
  assumes "ok_OpWrit x" and "rx_avail (rx w) = enc_OpWrit x @ cs @ rest"
    and "unat remain = sizeof_OpWrit + length cs" and "length cs < 2 ^ 31"
    and "length cs \<le> length buffer"
  shows "\<exists>es'. as_write dest buffer remain w
      = Some (Done (0, x, cs @ drop (length cs) buffer, w\<lparr>rx := es'\<rparr>))
    \<and> rx_avail es' = rest \<and> rx_fails es' = rx_fails (rx w)"
proof -
  have "sizeof_OpWrit < 2 ^ 31" by (simp add: sizeof_defs)
  from c_OpWrit.recv_enc [OF assms(1) this assms(2), of dest] obtain es where
    st: "recv_struct sizeof_OpWrit dec_OpWrit dest w = Some (Done (0, x, w\<lparr>rx := es\<rparr>))"
      "rx_avail es = cs @ rest" "rx_fails es = rx_fails (rx w)" by blast
  have sz: "unat (of_nat sizeof_OpWrit :: u64) = sizeof_OpWrit"
    by (simp add: sizeof_defs)
  then have "of_nat sizeof_OpWrit \<le> remain"
    using assms(3) by (simp add: word_le_nat_alt)
  then have extra: "unat (remain - of_nat sizeof_OpWrit) = length cs"
    using sz assms(3) by (simp add: unat_sub)
  from sockread_ok [of "length cs" "w\<lparr>rx := es\<rparr>" bss_empty] assms(4) st(2) obtain b es' where
    rd: "sockread (w\<lparr>rx := es\<rparr>) bss_empty (int (length cs)) = Some (Done (0, b, w\<lparr>rx := es'\<rparr>))"
      "bss_ok b" "bss_content b = cs" "rx_avail es' = rest" "rx_fails es' = rx_fails (rx w)"
    using st(3) by auto
  from bss_content_block [OF rd(2,3)] obtain blk where
    "bss_str b = Some blk" "length cs \<le> length blk" "take (length cs) blk = cs" by auto
  then show ?thesis
    using st rd extra assms(4,5)
    by (auto simp: as_write_def int_of_size_small memcpy_def)
qed

end
