(* ===== verification/Ustruct.thy ===== *)
theory Ustruct
  imports Prot
begin

text \<open>
  \<^verbatim>\<open>ustruct.h\<close> and \<^verbatim>\<open>ustruct.c\<close>: the platform-independent structures \<^verbatim>\<open>Ustat\<close>, \<^verbatim>\<open>Ustatvfs\<close> and
  \<^verbatim>\<open>Udirent\<close>, their object representation, and the conversions from and to the x86-64 structures
  \<^verbatim>\<open>stat\<close>, \<^verbatim>\<open>statvfs\<close> and \<^verbatim>\<open>dirent\<close> (whose declarations the repository keeps in
  \<^verbatim>\<open>defaultstat.h\<close>, \<^verbatim>\<open>defaultstatvfs.h\<close> and \<^verbatim>\<open>defaultdirent.h\<close>).
\<close>

section \<open>Structures\<close>

record Udirent =
  ud_ino :: u64
  ud_off :: u64
  ud_reclen :: u16
  ud_type :: u8
  ud_name :: bytes
  ud_pad :: bytes

record Ustat =
  us_dev :: u64
  us_ino :: u64
  us_mode :: u32
  us_pad :: bytes
  us_nlink :: u64
  us_uid :: u32
  us_gid :: u32
  us_rdev :: u64
  us_size :: u64
  us_atim :: u64
  us_atimensec :: u64
  us_mtim :: u64
  us_mtimensec :: u64
  us_ctim :: u64
  us_ctimensec :: u64

record Ustatvfs =
  uv_bsize :: u64
  uv_frsize :: u64
  uv_blocks :: u64
  uv_bfree :: u64
  uv_bavail :: u64
  uv_files :: u64
  uv_ffree :: u64
  uv_favail :: u64
  uv_fsid :: u64
  uv_flag :: u64
  uv_namemax :: u64

text \<open>The members of the system structures that the program touches, and those it leaves alone.\<close>

record stat =
  st_dev :: u64
  st_ino :: u64
  st_nlink :: u64
  st_mode :: u32
  st_uid :: u32
  st_gid :: u32
  st_pad0 :: u32
  st_rdev :: u64
  st_size :: u64
  st_blksize :: u64
  st_blocks :: u64
  st_atim_sec :: u64
  st_atim_nsec :: u64
  st_mtim_sec :: u64
  st_mtim_nsec :: u64
  st_ctim_sec :: u64
  st_ctim_nsec :: u64
  st_glibc_reserved :: bytes

record statvfs =
  f_bsize :: u64
  f_frsize :: u64
  f_blocks :: u64
  f_bfree :: u64
  f_bavail :: u64
  f_files :: u64
  f_ffree :: u64
  f_favail :: u64
  f_fsid :: u64
  f_flag :: u64
  f_namemax :: u64
  f_spare :: bytes

record dirent =
  d_ino :: u64
  d_off :: u64
  d_reclen :: u16
  d_type :: u8
  d_name :: bytes

section \<open>Conversions\<close>

definition unify_stat :: "Ustat \<Rightarrow> stat \<Rightarrow> Ustat" where
  "unify_stat ustat st = ustat
     \<lparr>us_dev := st_dev st, us_ino := st_ino st, us_mode := st_mode st, us_nlink := st_nlink st,
      us_uid := st_uid st, us_gid := st_gid st, us_rdev := st_rdev st, us_size := st_size st,
      us_atim := st_atim_sec st, us_atimensec := st_atim_nsec st,
      us_mtim := st_mtim_sec st, us_mtimensec := st_mtim_nsec st,
      us_ctim := st_ctim_sec st, us_ctimensec := st_ctim_nsec st\<rparr>"

definition fall_stat :: "stat \<Rightarrow> Ustat \<Rightarrow> stat" where
  "fall_stat st ustat = st
     \<lparr>st_dev := us_dev ustat, st_ino := us_ino ustat, st_mode := us_mode ustat,
      st_nlink := us_nlink ustat, st_uid := us_uid ustat, st_gid := us_gid ustat,
      st_rdev := us_rdev ustat, st_size := us_size ustat,
      st_atim_sec := us_atim ustat, st_atim_nsec := us_atimensec ustat,
      st_mtim_sec := us_mtim ustat, st_mtim_nsec := us_mtimensec ustat,
      st_ctim_sec := us_ctim ustat, st_ctim_nsec := us_ctimensec ustat\<rparr>"

definition unify_statvfs :: "Ustatvfs \<Rightarrow> statvfs \<Rightarrow> Ustatvfs" where
  "unify_statvfs uvfs vfs = uvfs
     \<lparr>uv_bsize := f_bsize vfs, uv_frsize := f_frsize vfs, uv_blocks := f_blocks vfs,
      uv_bfree := f_bfree vfs, uv_bavail := f_bavail vfs, uv_files := f_files vfs,
      uv_ffree := f_ffree vfs, uv_favail := f_favail vfs, uv_fsid := f_fsid vfs,
      uv_flag := f_flag vfs, uv_namemax := f_namemax vfs\<rparr>"

definition fall_statvfs :: "statvfs \<Rightarrow> Ustatvfs \<Rightarrow> statvfs" where
  "fall_statvfs vfs uvfs = vfs
     \<lparr>f_bsize := uv_bsize uvfs, f_frsize := uv_frsize uvfs, f_blocks := uv_blocks uvfs,
      f_bfree := uv_bfree uvfs, f_bavail := uv_bavail uvfs, f_files := uv_files uvfs,
      f_ffree := uv_ffree uvfs, f_favail := uv_favail uvfs, f_fsid := uv_fsid uvfs,
      f_flag := uv_flag uvfs, f_namemax := uv_namemax uvfs\<rparr>"

text \<open>\<open>None\<close> when one of the two name arrays is shorter than the 256 bytes that are copied.\<close>

definition unify_dirent :: "Udirent \<Rightarrow> dirent \<Rightarrow> Udirent option" where
  "unify_dirent udir dir =
     map_option (\<lambda>nm. udir\<lparr>ud_ino := d_ino dir, ud_off := d_off dir, ud_reclen := d_reclen dir,
        ud_type := d_type dir, ud_name := nm\<rparr>) (memcpy (ud_name udir) 0 (d_name dir) 256)"

definition fall_dirent :: "dirent \<Rightarrow> Udirent \<Rightarrow> dirent option" where
  "fall_dirent dir udir =
     map_option (\<lambda>nm. dir\<lparr>d_ino := ud_ino udir, d_off := ud_off udir, d_reclen := ud_reclen udir,
        d_type := ud_type udir, d_name := nm\<rparr>) (memcpy (d_name dir) 0 (ud_name udir) 256)"

section \<open>Object representations\<close>

definition sizeof_Udirent :: nat where "sizeof_Udirent = 280"
definition sizeof_Ustat :: nat where "sizeof_Ustat = 104"
definition sizeof_Ustatvfs :: nat where "sizeof_Ustatvfs = 88"

lemmas usizeof_defs = sizeof_Udirent_def sizeof_Ustat_def sizeof_Ustatvfs_def

definition enc_Udirent :: "Udirent \<Rightarrow> bytes" where
  "enc_Udirent x = le_bytes 8 (ud_ino x) @ le_bytes 8 (ud_off x) @ le_bytes 2 (ud_reclen x)
     @ [ud_type x] @ ud_name x @ ud_pad x"

definition dec_Udirent :: "bytes \<Rightarrow> Udirent" where
  "dec_Udirent bs = \<lparr>ud_ino = of_le (take 8 bs), ud_off = of_le (take 8 (drop 8 bs)),
     ud_reclen = of_le (take 2 (drop 16 bs)), ud_type = bs ! 18,
     ud_name = take 256 (drop 19 bs), ud_pad = take 5 (drop 275 bs)\<rparr>"

definition ok_Udirent :: "Udirent \<Rightarrow> bool" where
  "ok_Udirent x \<longleftrightarrow> length (ud_name x) = 256 \<and> length (ud_pad x) = 5"

definition enc_Ustat :: "Ustat \<Rightarrow> bytes" where
  "enc_Ustat x = le_bytes 8 (us_dev x) @ le_bytes 8 (us_ino x) @ le_bytes 4 (us_mode x) @ us_pad x
     @ le_bytes 8 (us_nlink x) @ le_bytes 4 (us_uid x) @ le_bytes 4 (us_gid x)
     @ le_bytes 8 (us_rdev x) @ le_bytes 8 (us_size x)
     @ le_bytes 8 (us_atim x) @ le_bytes 8 (us_atimensec x)
     @ le_bytes 8 (us_mtim x) @ le_bytes 8 (us_mtimensec x)
     @ le_bytes 8 (us_ctim x) @ le_bytes 8 (us_ctimensec x)"

definition dec_Ustat :: "bytes \<Rightarrow> Ustat" where
  "dec_Ustat bs = \<lparr>us_dev = of_le (take 8 bs), us_ino = of_le (take 8 (drop 8 bs)),
     us_mode = of_le (take 4 (drop 16 bs)), us_pad = take 4 (drop 20 bs),
     us_nlink = of_le (take 8 (drop 24 bs)), us_uid = of_le (take 4 (drop 32 bs)),
     us_gid = of_le (take 4 (drop 36 bs)), us_rdev = of_le (take 8 (drop 40 bs)),
     us_size = of_le (take 8 (drop 48 bs)),
     us_atim = of_le (take 8 (drop 56 bs)), us_atimensec = of_le (take 8 (drop 64 bs)),
     us_mtim = of_le (take 8 (drop 72 bs)), us_mtimensec = of_le (take 8 (drop 80 bs)),
     us_ctim = of_le (take 8 (drop 88 bs)), us_ctimensec = of_le (take 8 (drop 96 bs))\<rparr>"

definition ok_Ustat :: "Ustat \<Rightarrow> bool" where
  "ok_Ustat x \<longleftrightarrow> length (us_pad x) = 4"

definition enc_Ustatvfs :: "Ustatvfs \<Rightarrow> bytes" where
  "enc_Ustatvfs x = le_bytes 8 (uv_bsize x) @ le_bytes 8 (uv_frsize x) @ le_bytes 8 (uv_blocks x)
     @ le_bytes 8 (uv_bfree x) @ le_bytes 8 (uv_bavail x) @ le_bytes 8 (uv_files x)
     @ le_bytes 8 (uv_ffree x) @ le_bytes 8 (uv_favail x) @ le_bytes 8 (uv_fsid x)
     @ le_bytes 8 (uv_flag x) @ le_bytes 8 (uv_namemax x)"

definition dec_Ustatvfs :: "bytes \<Rightarrow> Ustatvfs" where
  "dec_Ustatvfs bs = \<lparr>uv_bsize = of_le (take 8 bs), uv_frsize = of_le (take 8 (drop 8 bs)),
     uv_blocks = of_le (take 8 (drop 16 bs)), uv_bfree = of_le (take 8 (drop 24 bs)),
     uv_bavail = of_le (take 8 (drop 32 bs)), uv_files = of_le (take 8 (drop 40 bs)),
     uv_ffree = of_le (take 8 (drop 48 bs)), uv_favail = of_le (take 8 (drop 56 bs)),
     uv_fsid = of_le (take 8 (drop 64 bs)), uv_flag = of_le (take 8 (drop 72 bs)),
     uv_namemax = of_le (take 8 (drop 80 bs))\<rparr>"

interpretation c_Udirent: codec enc_Udirent dec_Udirent sizeof_Udirent ok_Udirent
  by unfold_locales
    (auto simp: enc_Udirent_def dec_Udirent_def ok_Udirent_def usizeof_defs codec_simps)

interpretation c_Ustat: codec enc_Ustat dec_Ustat sizeof_Ustat ok_Ustat
  by unfold_locales (auto simp: enc_Ustat_def dec_Ustat_def ok_Ustat_def usizeof_defs codec_simps)

interpretation c_Ustatvfs: codec enc_Ustatvfs dec_Ustatvfs sizeof_Ustatvfs "\<lambda>_. True"
  by unfold_locales (auto simp: enc_Ustatvfs_def dec_Ustatvfs_def usizeof_defs codec_simps)

end
