(* ===== verification/NetProps.thy ===== *)
theory NetProps
  imports Ustruct
begin

text \<open>
  The properties of the layers under the handlers: the growable buffer, the two socket loops on every
  behaviour of the connection, and the object representations that go over the wire.
\<close>

section \<open>The buffer\<close>

text \<open>
  Below \<open>2\<^sup>3\<^sup>1\<close> bytes an append keeps the buffer's invariant, extends its content by exactly the
  bytes given and touches nothing else, reallocating or not.
\<close>

lemma append_extends_content:
  assumes "bss_ok b" and "unat (bss_size b) + unat len < 2 ^ 31" and "unat len \<le> length s"
  shows "\<exists>b'. q__bss_append True b s len err = (Done b', err) \<and> bss_ok b'
    \<and> bss_size b' = bss_size b + len \<and> bss_content b' = bss_content b @ take (unat len) s"
  by (rule q__bss_append_content [OF assms])

lemma append_extends_content_witness:
  "\<exists>b'. q__bss_append True bss_empty [1, 2, 3] 2 0 = (Done b', 0) \<and> bss_ok b' \<and> bss_content b' = [1, 2]"
  using append_extends_content [of bss_empty 2 "[1, 2, 3]" 0] by auto

text \<open>
  The block is made exactly twice as large as the new content, and moved when it is not twice as large as the
  next: from then on every append that is not empty moves it.
\<close>

lemma append_moves_again:
  assumes "unat (bss_capacity b) \<le> 2 * unat (bss_size b)" and "unat (bss_size b) + unat len < 2 ^ 31"
    and "0 < unat len" and "q__bss_append True b s len err = (Done b', err')"
  shows "bss_capacity b < bss_capacity b' \<and> unat (bss_capacity b') = 2 * unat (bss_size b')"
proof -
  have grown: "bss_capacity b < 2 * (bss_size b + len)"
    unfolding word_less_nat_alt unat_sum_below(2) [OF assms(2)]
    by (rule le_less_trans [OF assms(1)]) (use assms(3) in simp)
  then have "bss_capacity b' = 2 * (bss_size b + len)" "bss_size b' = bss_size b + len"
    using assms(4) by (auto simp: q__bss_append_def bss_copy_in_def Let_def split: option.splits)
  then show ?thesis
    using grown unat_sum_below [OF assms(2)] by simp
qed

lemma unat_double_wrap:
  fixes n :: u32
  assumes "2 ^ 31 \<le> unat n"
  shows "unat (2 * n) < unat n"
proof -
  have "unat (2 * n) = (2 * unat n) mod 2 ^ 32"
    by (simp add: unat_word_ariths)
  also have "\<dots> = 2 * unat n - 2 ^ 32"
    using assms unat_less32 [of n] by (simp add: mod_if)
  finally show ?thesis
    using assms unat_less32 [of n] by simp
qed

lemma bss_copy_in_fault:
  "bss_str b = Some blk \<Longrightarrow> length blk < unat (bss_size b) + unat len \<Longrightarrow> bss_copy_in b s len = Fault"
  by (simp add: bss_copy_in_def memcpy_def)

text \<open>
  From \<open>2\<^sup>3\<^sup>1\<close> bytes on the doubled size wraps around in 32 bits, and an append that does not fit
  the old block always writes outside the new one.
\<close>

lemma append_wraps_around:
  assumes "bss_ok b" and "2 ^ 31 \<le> unat (bss_size b) + unat len"
    and "unat (bss_size b) + unat len < 2 ^ 32"
    and "unat (bss_capacity b) < unat (bss_size b) + unat len"
  shows "q__bss_append True b s len err = (Fault, err)"
proof -
  obtain blk where blk: "bss_str b = Some blk" "length blk = unat (bss_capacity b)"
    using assms(1) by (auto simp: bss_ok_def split: option.splits)
  let ?n = "2 * (bss_size b + len)"
  have sum: "unat (bss_size b + len) = unat (bss_size b) + unat len"
    using assms(3) by (intro unat_add_lem [THEN iffD1]) simp
  then have small: "unat ?n < unat (bss_size b) + unat len"
    using assms(2) unat_double_wrap [of "bss_size b + len"] by simp
  show ?thesis
  proof (cases "bss_capacity b < ?n")
    case True
    show ?thesis
    proof (cases "memcpy (replicate (unat ?n) 0) 0 blk (unat (bss_size b))")
      case (Some t)
      then have "length t = unat ?n"
        using length_memcpy by fastforce
      then show ?thesis
        using True Some blk small by (simp add: q__bss_append_def Let_def bss_copy_in_fault)
    qed (use True blk in \<open>simp add: q__bss_append_def Let_def\<close>)
  next
    case False
    then show ?thesis
      using blk assms(4) by (simp add: q__bss_append_def bss_copy_in_fault)
  qed
qed

text \<open>A buffer of \<open>2\<^sup>3\<^sup>1 - 1\<close> bytes.\<close>

definition bss_huge :: qBinarySafeString where
  "bss_huge = \<lparr>bss_str = Some (replicate (2 ^ 31 - 1) 0), bss_size = 0x7FFFFFFF, bss_capacity = 0x7FFFFFFF\<rparr>"

lemma append_wraps_around_witness: "q__bss_append True bss_huge [7] 1 0 = (Fault, 0)"
  using append_wraps_around [of bss_huge 1 "[7]" 0] by (simp add: bss_huge_def bss_ok_def)

text \<open>
  \<^verbatim>\<open>qbss__from_array\<close> looks at the error variable instead of at its own result, so any error
  left over from earlier makes it return an empty buffer although both allocations succeed.
\<close>

lemma from_array_sticky_error:
  assumes "unat n \<le> length arr" and "unat n < 2 ^ 31"
  shows "(err = 0 \<longrightarrow> (\<exists>b. qbss__from_array True True s0 c0 arr n err = (Done b, 0) \<and> bss_ok b
          \<and> bss_content b = take (unat n) arr))
    \<and> (err \<noteq> 0 \<longrightarrow> (\<exists>b e. qbss__from_array True True s0 c0 arr n err = (Done b, e) \<and> bss_content b = []))"
  using q__bss_append_content [of bss_empty n arr 0] assms
  by (auto simp: qbss__from_array_def Let_def chkerr_def clrerr_def)

lemma from_array_sticky_error_witness:
  "(\<exists>b. qbss__from_array True True 0 0 [1, 2] 2 0 = (Done b, 0) \<and> bss_content b = [1, 2])
   \<and> (\<exists>b e. qbss__from_array True True 0 0 [1, 2] 2 5 = (Done b, e) \<and> bss_content b = [])"
  using from_array_sticky_error [of 2 "[1, 2]" 0 0 0] from_array_sticky_error [of 2 "[1, 2]" 5 0 0] by auto

section \<open>The socket loops\<close>

text \<open>
  C12: \<^verbatim>\<open>sockread\<close>. It returns 0 with exactly the next \<open>n\<close> bytes of the stream appended when that
  many arrive; -1 when the connection breaks before; and it never returns when the peer closes
  before.
\<close>

theorem sockread_outcome:
  assumes "bss_ok b" and "unat (bss_size b) + n < 2 ^ 31"
  shows "(n \<le> length (rx_avail (rx w)) \<longrightarrow> (\<exists>b' es. sockread w b (int n) = Some (Done (0, b', w\<lparr>rx := es\<rparr>))
          \<and> bss_ok b' \<and> bss_content b' = bss_content b @ take n (rx_avail (rx w))
          \<and> rx_avail es = drop n (rx_avail (rx w))))
    \<and> (length (rx_avail (rx w)) < n \<and> rx_fails (rx w) \<longrightarrow> (\<exists>b' w'. sockread w b (int n) = Some (Done (-1, b', w'))))
    \<and> (length (rx_avail (rx w)) < n \<and> \<not> rx_fails (rx w) \<longrightarrow> sockread w b (int n) = None)"
  using sockread_ok [of n w b] sockread_fail [of w n b] sockread_hang [of w n b] assms by blast

definition world0 :: "rxev list \<Rightarrow> txev list \<Rightarrow> world" where
  "world0 es qs = \<lparr>rx = es, txq = qs, tx = [], zhwk_error = 0\<rparr>"

theorem sockread_outcome_witness:
  "(\<exists>b' es. sockread (world0 [RxData [1], RxData [2, 3]] []) bss_empty 2
        = Some (Done (0, b', (world0 [RxData [1], RxData [2, 3]] [])\<lparr>rx := es\<rparr>)) \<and> bss_content b' = [1, 2])
   \<and> (\<exists>b' w'. sockread (world0 [RxData [1], RxFail] []) bss_empty 2 = Some (Done (-1, b', w')))
   \<and> sockread (world0 [RxData [1]] []) bss_empty 2 = None"
  using sockread_outcome [of bss_empty 2 "world0 [RxData [1], RxData [2, 3]] []"]
    sockread_outcome [of bss_empty 2 "world0 [RxData [1], RxFail] []"]
    sockread_outcome [of bss_empty 2 "world0 [RxData [1]] []"]
  by (auto simp: world0_def)

text \<open>
  C13: \<^verbatim>\<open>sockwrite\<close>. Below \<open>2\<^sup>3\<^sup>1\<close> bytes, and whatever the sizes of the partial writes, it returns 0 having
  written the whole content once and in order, with the buffer not released; or, only after a write error, -1
  having written a prefix, with the buffer released if that was asked for. From \<open>2\<^sup>3\<^sup>1\<close> bytes on, when no write
  fails, the counter of the bytes written, an \<^verbatim>\<open>int\<close>, overflows.
\<close>

theorem sockwrite_outcome:
  assumes "bss_ok b"
  shows "(unat (bss_size b) < 2 ^ 31 \<longrightarrow>
      (\<exists>es'. sockwrite w b af = Done (0, False, w\<lparr>txq := es', tx := tx w @ bss_content b\<rparr>))
      \<or> (\<not> tx_good (txq w) \<and> (\<exists>w' m. sockwrite w b af = Done (-1, af, w')
          \<and> tx w' = tx w @ take m (bss_content b) \<and> rx w' = rx w)))
    \<and> (2 ^ 31 \<le> unat (bss_size b) \<and> tx_good (txq w) \<longrightarrow> sockwrite w b af = Fault)"
  using sockwrite_cases [OF assms, of w af] sockwrite_overflow [OF assms, of w af] by blast

definition bss_hi :: qBinarySafeString where
  "bss_hi = \<lparr>bss_str = Some [104, 105, 0, 0], bss_size = 2, bss_capacity = 4\<rparr>"

lemma bss_hi_simps [simp]: "bss_ok bss_hi" "bss_content bss_hi = [104, 105]"
  by (simp_all add: bss_hi_def bss_ok_def bss_content_def)

lemma bss_hi_size: "bss_size bss_hi = 2"
  by (simp add: bss_hi_def)

text \<open>A buffer of \<open>2\<^sup>3\<^sup>1\<close> bytes.\<close>

definition bss_over :: qBinarySafeString where
  "bss_over = \<lparr>bss_str = Some (replicate (2 ^ 31) 0), bss_size = 0x80000000, bss_capacity = 0x80000000\<rparr>"

theorem sockwrite_outcome_witness:
  "(\<exists>es'. sockwrite (world0 [] [TxPart 0]) bss_hi True
     = Done (0, False, (world0 [] [TxPart 0])\<lparr>txq := es', tx := [104, 105]\<rparr>))
   \<and> sockwrite (world0 [] []) bss_over True = Fault"
proof
  show "\<exists>es'. sockwrite (world0 [] [TxPart 0]) bss_hi True
      = Done (0, False, (world0 [] [TxPart 0])\<lparr>txq := es', tx := [104, 105]\<rparr>)"
    using sockwrite_outcome [of bss_hi "world0 [] [TxPart 0]" True]
    by (auto simp: world0_def tx_good_def bss_hi_size)
  show "sockwrite (world0 [] []) bss_over True = Fault"
    using sockwrite_outcome [of bss_over "world0 [] []" True]
    by (simp add: bss_over_def bss_ok_def world0_def tx_good_def)
qed

text \<open>
  What one side writes with \<^verbatim>\<open>sockwrite\<close> is what the other side reads with \<^verbatim>\<open>sockread\<close>, for every
  split of the stream into partial writes and segments.
\<close>

lemma stream_roundtrip:
  assumes "bss_ok b" and "unat (bss_size b) < 2 ^ 31" and "sockwrite w b af = Done (0, freed, w')"
    and "tx w' = tx w @ rx_avail (rx v)"
  shows "\<exists>b' es. sockread v bss_empty (int (unat (bss_size b))) = Some (Done (0, b', v\<lparr>rx := es\<rparr>))
    \<and> bss_content b' = bss_content b \<and> rx_avail es = []"
proof -
  have "rx_avail (rx v) = bss_content b"
    using sockwrite_cases [OF assms(1,2), of w af] assms(3,4) by auto
  then show ?thesis
    using sockread_ok [of "unat (bss_size b)" v bss_empty] assms(2) length_bss_content [OF assms(1)] by auto
qed

lemma stream_roundtrip_witness:
  "\<exists>b' es. sockread (world0 [RxData [104], RxData [105]] []) bss_empty 2
      = Some (Done (0, b', (world0 [RxData [104], RxData [105]] [])\<lparr>rx := es\<rparr>))
    \<and> bss_content b' = [104, 105]"
proof -
  obtain es' where "sockwrite (world0 [] []) bss_hi True = Done (0, False, (world0 [] [])\<lparr>txq := es', tx := [104, 105]\<rparr>)"
    using sockwrite_ok [of bss_hi "world0 [] []" True] by (auto simp: world0_def tx_good_def bss_hi_size)
  from stream_roundtrip [OF _ _ this, of "world0 [RxData [104], RxData [105]] []"] show ?thesis
    by (auto simp: world0_def bss_hi_def bss_ok_def bss_content_def)
qed

section \<open>Representations\<close>

text \<open>
  C14: the three reply structures survive the trip: the bytes of a converted \<^verbatim>\<open>stat\<close>, \<^verbatim>\<open>statvfs\<close> or
  \<^verbatim>\<open>dirent\<close> have the size the handlers check for, and reading them back and converting them gives the
  original members.
\<close>

theorem ustruct_roundtrip:
  assumes "ok_Ustat us" and "ok_Udirent ud" and "length (d_name d) = 256" and "length (d_name d0) = 256"
  shows "length (enc_Ustat (unify_stat us st)) = sizeof_Ustat
    \<and> fall_stat st0 (dec_Ustat (enc_Ustat (unify_stat us st))) = st\<lparr>st_blksize := st_blksize st0,
         st_blocks := st_blocks st0, st_pad0 := st_pad0 st0, st_glibc_reserved := st_glibc_reserved st0\<rparr>
    \<and> length (enc_Ustatvfs (unify_statvfs uv vfs)) = sizeof_Ustatvfs
    \<and> fall_statvfs vfs0 (dec_Ustatvfs (enc_Ustatvfs (unify_statvfs uv vfs))) = vfs\<lparr>f_spare := f_spare vfs0\<rparr>
    \<and> (\<exists>u. unify_dirent ud d = Some u \<and> length (enc_Udirent u) = sizeof_Udirent
         \<and> fall_dirent d0 (dec_Udirent (enc_Udirent u)) = Some d)"
proof -
  have "ok_Ustat (unify_stat us st)"
    using assms(1) by (simp add: ok_Ustat_def unify_stat_def)
  note st = c_Ustat.enc_length [OF this] c_Ustat.dec_enc [OF this]
  let ?u = "ud\<lparr>ud_ino := d_ino d, ud_off := d_off d, ud_reclen := d_reclen d, ud_type := d_type d,
      ud_name := d_name d\<rparr>"
  have u: "unify_dirent ud d = Some ?u" "ok_Udirent ?u"
    using assms(2,3) by (simp_all add: unify_dirent_def memcpy_def ok_Udirent_def)
  have "fall_dirent d0 ?u = Some d"
    using assms(3,4) by (cases d) (simp add: fall_dirent_def memcpy_def)
  then show ?thesis
    using u c_Udirent.enc_length [OF u(2)] c_Udirent.dec_enc [OF u(2)] st
    by (cases st, cases vfs)
      (simp add: c_Ustatvfs.enc_length c_Ustatvfs.dec_enc fall_stat_def unify_stat_def fall_statvfs_def
        unify_statvfs_def)
qed

definition dirent0 :: "byte \<Rightarrow> dirent" where
  "dirent0 c = \<lparr>d_ino = 3, d_off = 1, d_reclen = 24, d_type = 4, d_name = c # replicate 255 0\<rparr>"

definition udir0 :: Udirent where
  "udir0 = \<lparr>ud_ino = 0, ud_off = 0, ud_reclen = 0, ud_type = 0, ud_name = replicate 256 1,
     ud_pad = replicate 5 1\<rparr>"

theorem ustruct_roundtrip_witness:
  "\<exists>u. unify_dirent udir0 (dirent0 46) = Some u \<and> length (enc_Udirent u) = 280
     \<and> fall_dirent (dirent0 47) (dec_Udirent (enc_Udirent u)) = Some (dirent0 46)"
  using ustruct_roundtrip [of "dec_Ustat (replicate 104 0)" udir0 "dirent0 46" "dirent0 47"]
  by (simp add: udir0_def dirent0_def ok_Udirent_def usizeof_defs ok_Ustat_def dec_Ustat_def)

text \<open>
  Each structure of \<^verbatim>\<open>prot.h\<close> put on the wire by one side is what the receiving function of the
  other side stores, and the stream is left just behind it.
\<close>

lemma prot_structures_received:
  assumes "rx_avail (rx w) = bs @ rest"
  shows "(bs = enc_OpHdr h \<longrightarrow> (\<exists>es. wait_operation h0 w = Some (Done (0, h, w\<lparr>rx := es\<rparr>)) \<and> rx_avail es = rest))
    \<and> (bs = enc_RpHdr r \<longrightarrow> (\<exists>es. wait_reply r0 w = Some (Done (0, r, w\<lparr>rx := es\<rparr>)) \<and> rx_avail es = rest))
    \<and> (bs = enc_OpOpen oo \<and> ok_OpOpen oo \<longrightarrow>
         (\<exists>es. as_open oo0 w = Some (Done (0, oo, w\<lparr>rx := es\<rparr>)) \<and> rx_avail es = rest))
    \<and> (bs = enc_OpRead rd \<and> ok_OpRead rd \<longrightarrow>
         (\<exists>es. as_read rd0 w = Some (Done (0, rd, w\<lparr>rx := es\<rparr>)) \<and> rx_avail es = rest))
    \<and> (bs = enc_OpClos cl \<and> ok_OpClos cl \<longrightarrow>
         (\<exists>es. as_close cl0 w = Some (Done (0, cl, w\<lparr>rx := es\<rparr>)) \<and> rx_avail es = rest))
    \<and> (bs = enc_RpOpen ro \<and> ok_RpOpen ro \<longrightarrow>
         (\<exists>es. re_open ro0 w = Some (Done (0, ro, w\<lparr>rx := es\<rparr>)) \<and> rx_avail es = rest))"
proof -
  have small: "sizeof_OpHdr < 2 ^ 31" "sizeof_RpHdr < 2 ^ 31" "sizeof_OpOpen < 2 ^ 31"
    "sizeof_OpRead < 2 ^ 31" "sizeof_OpClos < 2 ^ 31" "sizeof_RpOpen < 2 ^ 31"
    by (simp_all add: sizeof_defs)
  note rules =
    c_OpHdr.recv_enc [where x = h and dest = h0 and w = w and rest = rest, OF _ small(1)]
    c_RpHdr.recv_enc [where x = r and dest = r0 and w = w and rest = rest, OF _ small(2)]
    c_OpOpen.recv_enc [where x = oo and dest = oo0 and w = w and rest = rest, OF _ small(3)]
    c_OpRead.recv_enc [where x = rd and dest = rd0 and w = w and rest = rest, OF _ small(4)]
    c_OpClos.recv_enc [where x = cl and dest = cl0 and w = w and rest = rest, OF _ small(5)]
    c_RpOpen.recv_enc [where x = ro and dest = ro0 and w = w and rest = rest, OF _ small(6)]
  show ?thesis
    unfolding wait_operation_def wait_reply_def as_open_def as_read_def as_close_def re_open_def
    using assms rules by blast
qed

lemma prot_structures_received_witness:
  "\<exists>es. wait_reply \<lparr>rp_size = 0, rp_ouid = 0, rp_rtvl = 0\<rparr>
       (world0 [RxData [12, 0], RxData [0, 0, 1, 0, 0, 0, 255, 255, 255, 255, 9]] [])
     = Some (Done (0, \<lparr>rp_size = 12, rp_ouid = 1, rp_rtvl = - 1\<rparr>,
         (world0 [RxData [12, 0], RxData [0, 0, 1, 0, 0, 0, 255, 255, 255, 255, 9]] [])\<lparr>rx := es\<rparr>))
     \<and> rx_avail es = [9]"
proof -
  have "enc_RpHdr \<lparr>rp_size = 12, rp_ouid = 1, rp_rtvl = - 1\<rparr> = [12, 0, 0, 0, 1, 0, 0, 0, 255, 255, 255, 255]"
    by code_simp
  then show ?thesis
    using prot_structures_received [of "world0 [RxData [12, 0],
        RxData [0, 0, 1, 0, 0, 0, 255, 255, 255, 255, 9]] []"
        "[12, 0, 0, 0, 1, 0, 0, 0, 255, 255, 255, 255]" "[9]" _ _
        "\<lparr>rp_size = 12, rp_ouid = 1, rp_rtvl = - 1\<rparr>" "\<lparr>rp_size = 0, rp_ouid = 0, rp_rtvl = 0\<rparr>"]
    by (auto simp: world0_def)
qed

end
