(* ===== verification/Fuse.thy ===== *)
theory Fuse
  imports Ustruct
begin

text \<open>
  \<^verbatim>\<open>fuse_server.c\<close> and the operation table of \<^verbatim>\<open>server.c\<close>: one definition per FUSE handler. A
  handler runs on the state of the process (\<open>srv\<close>): the connection to the client, the counter
  \<^verbatim>\<open>opuid\<close>, the mutex \<^verbatim>\<open>mu\<close>, and two observations of the run, the sequence of mutex and socket
  operations and the number of message buffers that were allocated and not freed. Its outcome is a
  return value together with the out-parameter, an \<^verbatim>\<open>abort()\<close>, undefined behaviour, or a run that
  never returns, with the state in which the wait that never ends began.

  Structures on the stack start with arbitrary contents, which the definitions take as arguments
  (\<open>rd0\<close>, \<open>wr0\<close>, \<open>op0\<close>, \<open>cl0\<close>, \<open>tm0\<close>, \<open>srcbuf0\<close>): members that a handler does not assign are sent
  as they are. Allocation succeeds. What the handlers log is left out here; \<^verbatim>\<open>FuseLog\<close> puts their first lines
  in front of them. The mode strings that \<^verbatim>\<open>mkdir\<close>, \<^verbatim>\<open>chmod\<close> and \<^verbatim>\<open>access\<close> make for these lines are made here:
  the conversion writes into an array of eleven bytes.
\<close>

section \<open>State and outcomes\<close>

datatype ev = EvLock | EvUnlock | EvSend | EvRecv

record srv =
  net :: world
  opuid :: u32
  mu :: bool
  evs :: "ev list"
  live :: int

datatype 'a outcome = Returns int 'a srv | Aborts srv | Faults | Hangs srv

definition EBUSY :: int where "EBUSY = 16"
definition EINVAL :: int where "EINVAL = 22"

section \<open>The macros and the code blocks all handlers share\<close>

text \<open>
  \<^verbatim>\<open>mu.lock(mu)\<close> waits for ever when the mutex is taken and nobody else runs; \<^verbatim>\<open>mu.unlock(mu)\<close>
  leaves the mutex free, also when it was free before.
\<close>

definition mu_lock :: "srv \<Rightarrow> (srv \<Rightarrow> 'a outcome) \<Rightarrow> 'a outcome" where
  "mu_lock s k = (if mu s then Hangs s else k (s\<lparr>mu := True, evs := evs s @ [EvLock]\<rparr>))"

definition mu_unlock :: "srv \<Rightarrow> srv" where
  "mu_unlock s = s\<lparr>mu := False, evs := evs s @ [EvUnlock]\<rparr>"

text \<open>\<^verbatim>\<open>WARN(str, rtvl)\<close> and \<^verbatim>\<open>WARNE(str, errn, rtvl)\<close>: log, unlock, return.\<close>

definition WARN :: "int \<Rightarrow> 'a \<Rightarrow> srv \<Rightarrow> 'a outcome" where
  "WARN rtvl out s = Returns rtvl out (mu_unlock s)"

definition ABRT :: "srv \<Rightarrow> 'a outcome" where
  "ABRT s = Aborts s"

text \<open>\<^verbatim>\<open>SIZEHDR(st)\<close> for a structure of the given size.\<close>

definition SIZEHDR :: "nat \<Rightarrow> nat" where
  "SIZEHDR n = sizeof_OpHdr + n"

text \<open>
  \<^verbatim>\<open>FNCPY(dst, src)\<close>, and the same three lines written out in the older handlers: the copy runs
  over the end of the array when the name does not fit.
\<close>

definition FNCPY :: "bytes \<Rightarrow> bytes \<Rightarrow> (bytes \<Rightarrow> 'a outcome) \<Rightarrow> 'a outcome" where
  "FNCPY dst src k =
     (case strcpy dst src of None \<Rightarrow> Faults | Some d \<Rightarrow> k (d[strlen src := 0]))"

text \<open>
  \<^verbatim>\<open>char modestr[11]; strmode(mode, modestr);\<close> the argument \<open>strmode\<close> is the text that the function of libbsd
  stores for a mode, without its terminator. What the array holds before makes no difference.
\<close>

definition mode_string :: "(u32 \<Rightarrow> bytes) \<Rightarrow> u32 \<Rightarrow> (bytes \<Rightarrow> 'a outcome) \<Rightarrow> 'a outcome" where
  "mode_string strmode mode k =
     (case strcpy (replicate 11 0) (strmode mode) of None \<Rightarrow> Faults | Some modestr \<Rightarrow> k modestr)"

text \<open>
  \<^verbatim>\<open>qbss_append(sb, VPTR(x), len)\<close> for each part of a message in turn; \<^verbatim>\<open>BSSAPP(sb, x)\<close> has
  \<^verbatim>\<open>sizeof x\<close> as the length.
\<close>

definition BSSAPP :: "bytes \<Rightarrow> bytes \<times> u32" where
  "BSSAPP x = (x, of_nat (length x))"

primrec bss_appends :: "qBinarySafeString \<Rightarrow> (bytes \<times> u32) list \<Rightarrow> int \<Rightarrow> qBinarySafeString exec" where
  "bss_appends b [] err = Done b"
| "bss_appends b (p # ps) err =
     (case q__bss_append True b (fst p) (snd p) err of
        (Fault, err1) \<Rightarrow> Fault
      | (Done b1, err1) \<Rightarrow> bss_appends b1 ps err1)"

text \<open>
  A message is put together in a fresh buffer and written:
  \<^verbatim>\<open>qBinarySafeString sb = qbss_constructor(); BSSAPP(..)..; if(sockwrite(sock, &sb, 1)) WARN(.., -EBUSY);\<close>
\<close>

definition send_parts ::
  "(bytes \<times> u32) list \<Rightarrow> 'a \<Rightarrow> srv \<Rightarrow> (srv \<Rightarrow> 'a outcome) \<Rightarrow> 'a outcome" where
  "send_parts ps out s k =
     (case bss_appends (fst (qbss_constructor True 0 0 (zhwk_error (net s)))) ps (zhwk_error (net s)) of
        Fault \<Rightarrow> Faults
      | Done sb \<Rightarrow>
          (case sockwrite (net s) sb True of
             Fault \<Rightarrow> Faults
           | Done (r, freed, w) \<Rightarrow>
               (let s1 = s\<lparr>net := w, evs := evs s @ [EvSend],
                           live := live s + 1 - (if freed then 1 else 0)\<rparr>
                in if r \<noteq> 0 then WARN (- EBUSY) out s1 else k s1)))"

text \<open>\<^verbatim>\<open>struct RpHdr rp; if(wait_reply(sock, &rp, ci)) WARN(.., -EBUSY);\<close>\<close>

definition await_reply :: "'a \<Rightarrow> srv \<Rightarrow> (RpHdr \<Rightarrow> srv \<Rightarrow> 'a outcome) \<Rightarrow> 'a outcome" where
  "await_reply out s k =
     (case wait_reply \<lparr>rp_size = 0, rp_ouid = 0, rp_rtvl = 0\<rparr> (net s) of
        None \<Rightarrow> Hangs s
      | Some Fault \<Rightarrow> Faults
      | Some (Done (r, rp, w)) \<Rightarrow>
          (let s1 = s\<lparr>net := w, evs := evs s @ [EvRecv]\<rparr>
           in if r \<noteq> 0 then WARN (- EBUSY) out s1 else k rp s1))"

text \<open>
  The middle of every handler: send the message, wait for the reply header, and return the client's
  error if there is one (\<^verbatim>\<open>if(rp.rtvl < 0) WARNE(.., rp.rtvl, rp.rtvl);\<close>).
\<close>

definition exchange ::
  "(bytes \<times> u32) list \<Rightarrow> 'a \<Rightarrow> srv \<Rightarrow> (RpHdr \<Rightarrow> srv \<Rightarrow> 'a outcome) \<Rightarrow> 'a outcome" where
  "exchange ps out s k =
     send_parts ps out s (\<lambda>s. await_reply out s (\<lambda>rp s.
       if sint (rp_rtvl rp) < 0 then WARN (sint (rp_rtvl rp)) out s else k rp s))"

text \<open>
  The end of the handlers whose reply has no content:
  \<^verbatim>\<open>if(rp.size != sizeof(struct RpHdr)) ABRT; mu.unlock(mu); return v;\<close>
\<close>

definition finish_empty :: "int \<Rightarrow> 'a \<Rightarrow> RpHdr \<Rightarrow> srv \<Rightarrow> 'a outcome" where
  "finish_empty v out rp s =
     (if unat (rp_size rp) \<noteq> sizeof_RpHdr then ABRT s else Returns v out (mu_unlock s))"

text \<open>\<^verbatim>\<open>if(re_read(sock, buf, n, ci)) WARN("read reply failed", -EBUSY);\<close>\<close>

definition read_reply ::
  "bytes \<Rightarrow> u64 \<Rightarrow> 'a \<Rightarrow> srv \<Rightarrow> (bytes \<Rightarrow> srv \<Rightarrow> 'a outcome) \<Rightarrow> 'a outcome" where
  "read_reply buf n out s k =
     (case re_read buf n (net s) of
        None \<Rightarrow> Hangs s
      | Some Fault \<Rightarrow> Faults
      | Some (Done (r, buf', w)) \<Rightarrow>
          (let s1 = s\<lparr>net := w, evs := evs s @ [EvRecv]\<rparr>
           in if r \<noteq> 0 then WARN (- EBUSY) out s1 else k buf' s1))"

section \<open>Handlers that read\<close>

definition fuse_getattr :: "OpRead \<Rightarrow> bytes \<Rightarrow> stat \<Rightarrow> srv \<Rightarrow> stat outcome" where
  "fuse_getattr rd0 fn st s =
     mu_lock s (\<lambda>s.
     let s = s\<lparr>opuid := opuid s + 1\<rparr>;
         head = \<lparr>op_size = of_nat (sizeof_OpHdr + sizeof_OpRead), op_ouid = opuid s,
                 op_opid = OPER_READ\<rparr>
     in FNCPY (rd_filename rd0) fn (\<lambda>fname.
     let rd = rd0\<lparr>rd_filename := fname, rd_read_mode := RD_STAT\<rparr>
     in exchange [BSSAPP (enc_OpHdr head), BSSAPP (enc_OpRead rd)] st s (\<lambda>rp s.
        if unat (rp_size rp) \<noteq> sizeof_RpHdr + sizeof_Ustat then ABRT s
        else read_reply (replicate sizeof_Ustat 0) (of_nat sizeof_Ustat) st s (\<lambda>buf s.
          Returns 0 (fall_stat st (dec_Ustat buf)) (mu_unlock s)))))"

definition fuse_readlink :: "OpRead \<Rightarrow> bytes \<Rightarrow> bytes \<Rightarrow> u64 \<Rightarrow> srv \<Rightarrow> bytes outcome" where
  "fuse_readlink rd0 fn dest buflen s =
     mu_lock s (\<lambda>s.
     let s = s\<lparr>opuid := opuid s + 1\<rparr>;
         head = \<lparr>op_size = of_nat (sizeof_OpHdr + sizeof_OpRead), op_ouid = opuid s,
                 op_opid = OPER_READ\<rparr>
     in FNCPY (rd_filename rd0) fn (\<lambda>fname.
     let rd = rd0\<lparr>rd_filename := fname, rd_read_mode := RD_LINK\<rparr>
     in exchange [BSSAPP (enc_OpHdr head), BSSAPP (enc_OpRead rd)] dest s (\<lambda>rp s.
        if ucast (rp_size rp) > of_nat sizeof_RpHdr + buflen then ABRT s
        else read_reply dest (ucast (rp_size rp) - of_nat sizeof_RpHdr) dest s (\<lambda>dest' s.
          Returns 0 dest' (mu_unlock s)))))"

definition fuse_statfs :: "OpRead \<Rightarrow> bytes \<Rightarrow> statvfs \<Rightarrow> srv \<Rightarrow> statvfs outcome" where
  "fuse_statfs rd0 fn fstat s =
     mu_lock s (\<lambda>s.
     let s = s\<lparr>opuid := opuid s + 1\<rparr>;
         head = \<lparr>op_size = of_nat (sizeof_OpHdr + sizeof_OpRead), op_ouid = opuid s,
                 op_opid = OPER_READ\<rparr>
     in FNCPY (rd_filename rd0) fn (\<lambda>fname.
     let rd = rd0\<lparr>rd_filename := fname, rd_read_mode := RD_STATFS\<rparr>
     in exchange [BSSAPP (enc_OpHdr head), BSSAPP (enc_OpRead rd)] fstat s (\<lambda>rp s.
        if unat (rp_size rp) \<noteq> sizeof_RpHdr + sizeof_Ustatvfs then ABRT s
        else read_reply (replicate sizeof_Ustatvfs 0) (of_nat sizeof_Ustatvfs) fstat s (\<lambda>buf s.
          Returns 0 (fall_statvfs fstat (dec_Ustatvfs buf)) (mu_unlock s)))))"

text \<open>
  The part of \<^verbatim>\<open>struct fuse_file_info\<close> that the handlers use: the open flags, the two one-bit
  members and the file handle.
\<close>

record fuse_file_info =
  fi_flags :: u32
  fi_writepage :: bool
  fi_direct_io :: bool
  fi_fh :: u64

text \<open>
  \<open>buf\<close> is the caller's buffer; its length is \<^verbatim>\<open>bufsize\<close>. The first test compares the size of the
  whole reply, header included, with the size of the buffer.
\<close>

definition fuse_read ::
  "OpRead \<Rightarrow> bytes \<Rightarrow> bytes \<Rightarrow> u64 \<Rightarrow> u64 \<Rightarrow> fuse_file_info \<Rightarrow> srv \<Rightarrow> bytes outcome" where
  "fuse_read rd0 fn buf bufsize pos fi s =
     mu_lock s (\<lambda>s.
     let s = s\<lparr>opuid := opuid s + 1\<rparr>;
         head = \<lparr>op_size = of_nat (SIZEHDR sizeof_OpRead), op_ouid = opuid s, op_opid = OPER_READ\<rparr>
     in FNCPY (rd_filename rd0) fn (\<lambda>fname.
     let rd = rd0\<lparr>rd_filename := fname, rd_file_handle := fi_fh fi, rd_read_mode := RD_REGULAR,
                  rd_offset := pos, rd_count := bufsize\<rparr>
     in exchange [BSSAPP (enc_OpHdr head), BSSAPP (enc_OpRead rd)] buf s (\<lambda>rp s.
        if ucast (rp_size rp) > bufsize then ABRT s
        else if ucast (rp_size rp) \<noteq> of_nat sizeof_RpHdr + (scast (rp_rtvl rp) :: u64) then ABRT s
        else read_reply buf (scast (rp_rtvl rp)) buf s (\<lambda>buf' s.
          Returns (sint (rp_rtvl rp)) buf' (mu_unlock s)))))"

text \<open>
  \<^verbatim>\<open>fuse_readdir\<close> hands the entries to the callback \<open>fill\<close> one by one until it asks to stop. The
  callback belongs to libfuse and is a parameter; \<open>'f\<close> is the state behind \<^verbatim>\<open>void* buf\<close>.
\<close>

definition zero_stat :: stat where
  "zero_stat = \<lparr>st_dev = 0, st_ino = 0, st_nlink = 0, st_mode = 0, st_uid = 0, st_gid = 0,
     st_pad0 = 0, st_rdev = 0, st_size = 0, st_blksize = 0, st_blocks = 0,
     st_atim_sec = 0, st_atim_nsec = 0, st_mtim_sec = 0, st_mtim_nsec = 0,
     st_ctim_sec = 0, st_ctim_nsec = 0, st_glibc_reserved = replicate 24 0\<rparr>"

primrec readdir_loop ::
  "('f \<Rightarrow> bytes \<Rightarrow> stat \<Rightarrow> bool \<times> 'f) \<Rightarrow> nat \<Rightarrow> bytes \<Rightarrow> 'f \<Rightarrow> 'f" where
  "readdir_loop fill 0 blk buf = buf"
| "readdir_loop fill (Suc n) blk buf =
     (let dirit = dec_Udirent (take sizeof_Udirent blk);
          st = zero_stat\<lparr>st_ino := ud_ino dirit, st_mode := push_bit 12 (ucast (ud_type dirit))\<rparr>
      in case fill buf (ud_name dirit) st of
           (stop, buf1) \<Rightarrow>
             if stop then buf1 else readdir_loop fill n (drop sizeof_Udirent blk) buf1)"

text \<open>The end of \<^verbatim>\<open>fuse_readdir\<close>: receive the entries and hand them out.\<close>

definition finish_readdir ::
  "('f \<Rightarrow> bytes \<Rightarrow> stat \<Rightarrow> bool \<times> 'f) \<Rightarrow> 'f \<Rightarrow> RpHdr \<Rightarrow> srv \<Rightarrow> 'f outcome" where
  "finish_readdir fill buf rp s =
     (if unat (rp_size rp) < sizeof_RpHdr then ABRT s
      else
        (case sockread (net s) (fst (qbss_constructor True 0 0 (zhwk_error (net s))))
                (int_of_size (ucast (rp_size rp) - of_nat sizeof_RpHdr)) of
           None \<Rightarrow> Hangs s
         | Some Fault \<Rightarrow> Faults
         | Some (Done (r, repcont, w)) \<Rightarrow>
             (let s = s\<lparr>net := w, evs := evs s @ [EvRecv]\<rparr>
              in if r \<noteq> 0 then WARN (- EBUSY) buf s
                 else
                   (case bss_str repcont of
                      None \<Rightarrow> Faults
                    | Some blk \<Rightarrow>
                        (let dircnt = (unat (rp_size rp) - sizeof_RpHdr) div sizeof_Udirent
                         in if length blk < dircnt * sizeof_Udirent then Faults
                            else Returns 0 (readdir_loop fill dircnt blk buf) (mu_unlock s))))))"

definition fuse_readdir ::
  "OpRead \<Rightarrow> bytes \<Rightarrow> 'f \<Rightarrow> ('f \<Rightarrow> bytes \<Rightarrow> stat \<Rightarrow> bool \<times> 'f) \<Rightarrow> u64 \<Rightarrow> fuse_file_info
     \<Rightarrow> srv \<Rightarrow> 'f outcome" where
  "fuse_readdir rd0 dn buf fill offset fi s =
     mu_lock s (\<lambda>s.
     let s = s\<lparr>opuid := opuid s + 1\<rparr>;
         head = \<lparr>op_size = of_nat (SIZEHDR sizeof_OpRead), op_ouid = opuid s, op_opid = OPER_READ\<rparr>
     in FNCPY (rd_filename rd0) dn (\<lambda>fname.
     let rd = rd0\<lparr>rd_filename := fname, rd_file_handle := fi_fh fi, rd_read_mode := RD_DIR,
                  rd_offset := offset\<rparr>
     in exchange [BSSAPP (enc_OpHdr head), BSSAPP (enc_OpRead rd)] buf s (finish_readdir fill buf)))"

section \<open>Handlers that write\<close>

definition fuse_rmdir :: "OpWrit \<Rightarrow> bytes \<Rightarrow> srv \<Rightarrow> unit outcome" where
  "fuse_rmdir wr0 dn s =
     mu_lock s (\<lambda>s.
     let s = s\<lparr>opuid := opuid s + 1\<rparr>;
         head = \<lparr>op_size = of_nat (SIZEHDR sizeof_OpWrit), op_ouid = opuid s, op_opid = OPER_WRITE\<rparr>
     in FNCPY (wr_filename wr0) dn (\<lambda>fname.
     let wr = wr0\<lparr>wr_filename := fname, wr_write_mode := WR_RMDIR\<rparr>
     in exchange [BSSAPP (enc_OpHdr head), BSSAPP (enc_OpWrit wr)] () s (finish_empty 0 ())))"

text \<open>
  \<^verbatim>\<open>head.size\<close> counts \<^verbatim>\<open>strlen(srcfn)\<close> bytes of content, the message carries \<^verbatim>\<open>FILENAME_LEN\<close>.
\<close>

definition fuse_symlink :: "OpWrit \<Rightarrow> bytes \<Rightarrow> bytes \<Rightarrow> bytes \<Rightarrow> srv \<Rightarrow> unit outcome" where
  "fuse_symlink wr0 srcbuf0 fn srcfn s =
     mu_lock s (\<lambda>s.
     let s = s\<lparr>opuid := opuid s + 1\<rparr>;
         head = \<lparr>op_size = of_nat (SIZEHDR sizeof_OpWrit + strlen srcfn), op_ouid = opuid s,
                 op_opid = OPER_WRITE\<rparr>
     in FNCPY (wr_filename wr0) fn (\<lambda>fname.
     FNCPY srcbuf0 srcfn (\<lambda>srcbuf.
     let wr = wr0\<lparr>wr_filename := fname, wr_write_mode := WR_SYMLINK\<rparr>
     in exchange [BSSAPP (enc_OpHdr head), BSSAPP (enc_OpWrit wr),
                  (srcbuf, of_nat FILENAME_LEN)] () s (finish_empty 0 ()))))"

text \<open>
  \<^verbatim>\<open>fuse_chmod\<close>, \<^verbatim>\<open>fuse_access\<close>, \<^verbatim>\<open>fuse_unlink\<close> and \<^verbatim>\<open>fuse_utimens\<close> neither lock the mutex nor advance
  \<^verbatim>\<open>opuid\<close>; they do unlock the mutex at the end.
\<close>

definition fuse_chmod :: "(u32 \<Rightarrow> bytes) \<Rightarrow> OpWrit \<Rightarrow> bytes \<Rightarrow> u32 \<Rightarrow> srv \<Rightarrow> unit outcome" where
  "fuse_chmod strmode wr0 fn mode s =
     mode_string strmode mode (\<lambda>modestr.
      let head = \<lparr>op_size = of_nat (SIZEHDR sizeof_OpWrit + 4), op_ouid = opuid s,
                  op_opid = OPER_WRITE\<rparr>
      in FNCPY (wr_filename wr0) fn (\<lambda>fname.
      let wr = wr0\<lparr>wr_write_mode := WR_CHMOD, wr_filename := fname\<rparr>
      in exchange [BSSAPP (enc_OpHdr head), BSSAPP (enc_OpWrit wr), BSSAPP (le_bytes 4 mode)]
           () s (finish_empty 0 ())))"

definition fuse_truncate :: "OpWrit \<Rightarrow> bytes \<Rightarrow> u64 \<Rightarrow> srv \<Rightarrow> unit outcome" where
  "fuse_truncate wr0 fn pos s =
     mu_lock s (\<lambda>s.
     let s = s\<lparr>opuid := opuid s + 1\<rparr>;
         head = \<lparr>op_size = of_nat (SIZEHDR sizeof_OpWrit), op_ouid = opuid s, op_opid = OPER_WRITE\<rparr>;
         s = s\<lparr>opuid := opuid s + 1\<rparr>
     in FNCPY (wr_filename wr0) fn (\<lambda>fname.
     let wr = wr0\<lparr>wr_filename := fname, wr_write_mode := WR_TRUNC, wr_offset := pos\<rparr>
     in exchange [BSSAPP (enc_OpHdr head), BSSAPP (enc_OpWrit wr)] () s (finish_empty 0 ())))"

text \<open>\<open>buf\<close> is the object behind the pointer; \<^verbatim>\<open>bufsize\<close> is converted to 32 bits by \<^verbatim>\<open>qbss_append\<close>.\<close>

definition fuse_write ::
  "OpWrit \<Rightarrow> bytes \<Rightarrow> bytes \<Rightarrow> u64 \<Rightarrow> u64 \<Rightarrow> fuse_file_info \<Rightarrow> srv \<Rightarrow> unit outcome" where
  "fuse_write wr0 fn buf bufsize pos fi s =
     mu_lock s (\<lambda>s.
     let s = s\<lparr>opuid := opuid s + 1\<rparr>;
         head = \<lparr>op_size = ucast (of_nat (SIZEHDR sizeof_OpWrit) + bufsize), op_ouid = opuid s,
                 op_opid = OPER_WRITE\<rparr>
     in FNCPY (wr_filename wr0) fn (\<lambda>fname.
     let wr = wr0\<lparr>wr_filename := fname, wr_file_handle := fi_fh fi, wr_write_mode := WR_REGULAR,
                  wr_offset := pos, wr_count := bufsize\<rparr>
     in exchange [BSSAPP (enc_OpHdr head), BSSAPP (enc_OpWrit wr), (buf, ucast bufsize)] () s
          (\<lambda>rp. finish_empty (sint (rp_rtvl rp)) () rp)))"

definition fuse_access :: "(u32 \<Rightarrow> bytes) \<Rightarrow> OpWrit \<Rightarrow> bytes \<Rightarrow> u32 \<Rightarrow> srv \<Rightarrow> unit outcome" where
  "fuse_access strmode wr0 fn amode s =
     mode_string strmode amode (\<lambda>modestr.
      let head = \<lparr>op_size = of_nat (SIZEHDR sizeof_OpWrit + 4), op_ouid = opuid s,
                  op_opid = OPER_WRITE\<rparr>
      in FNCPY (wr_filename wr0) fn (\<lambda>fname.
      let wr = wr0\<lparr>wr_write_mode := WR_ACCES, wr_filename := fname\<rparr>
      in exchange [BSSAPP (enc_OpHdr head), BSSAPP (enc_OpWrit wr), BSSAPP (le_bytes 4 amode)]
           () s (finish_empty 0 ())))"

definition fuse_unlink :: "OpWrit \<Rightarrow> bytes \<Rightarrow> srv \<Rightarrow> unit outcome" where
  "fuse_unlink wr0 fn s =
     (let head = \<lparr>op_size = of_nat (SIZEHDR sizeof_OpWrit), op_ouid = opuid s, op_opid = OPER_WRITE\<rparr>
      in FNCPY (wr_filename wr0) fn (\<lambda>fname.
      let wr = wr0\<lparr>wr_write_mode := WR_REMOVE, wr_filename := fname\<rparr>
      in exchange [BSSAPP (enc_OpHdr head), BSSAPP (enc_OpWrit wr)] () s (finish_empty 0 ())))"

definition UTIME_NOW :: u64 where "UTIME_NOW = 1073741823"
definition UTIME_OMIT :: u64 where "UTIME_OMIT = 1073741822"

text \<open>The two \<^verbatim>\<open>struct timespec\<close> are pairs of seconds and nanoseconds.\<close>

definition utimens_flags :: "u64 \<times> u64 \<Rightarrow> u64 \<times> u64 \<Rightarrow> u8" where
  "utimens_flags tv0 tv1 =
     (if snd tv0 = UTIME_NOW then TM_ANOW else if snd tv0 = UTIME_OMIT then TM_AIGN else 0)
     OR (if snd tv1 = UTIME_NOW then TM_MNOW else if snd tv1 = UTIME_OMIT then TM_MIGN else 0)"

definition fuse_utimens ::
  "OpWrit \<Rightarrow> TimeModder \<Rightarrow> bytes \<Rightarrow> u64 \<times> u64 \<Rightarrow> u64 \<times> u64 \<Rightarrow> srv \<Rightarrow> unit outcome" where
  "fuse_utimens wr0 tm0 fn tv0 tv1 s =
     (let head = \<lparr>op_size = of_nat (SIZEHDR sizeof_OpWrit + sizeof_TimeModder), op_ouid = opuid s,
                  op_opid = OPER_WRITE\<rparr>
      in FNCPY (wr_filename wr0) fn (\<lambda>fname.
      let wr = wr0\<lparr>wr_write_mode := WR_MODTIME, wr_filename := fname\<rparr>;
          tmdr = tm0\<lparr>tm_atime := fst tv0, tm_atime_nsec := snd tv0, tm_mtime := fst tv1,
                     tm_mtime_nsec := snd tv1, tm_flags := utimens_flags tv0 tv1\<rparr>
      in exchange [BSSAPP (enc_OpHdr head), BSSAPP (enc_OpWrit wr), BSSAPP (enc_TimeModder tmdr)]
           () s (finish_empty 0 ())))"

section \<open>Handlers that open and close\<close>

definition O_EXCL :: u32 where "O_EXCL = 0x80"
definition O_TRUNC :: u32 where "O_TRUNC = 0x200"
definition O_APPEND :: u32 where "O_APPEND = 0x400"
definition O_DSYNC :: u32 where "O_DSYNC = 0x1000"
definition O_ASYNC :: u32 where "O_ASYNC = 0x2000"
definition O_NOFOLLOW :: u32 where "O_NOFOLLOW = 0x20000"
definition O_CLOEXEC :: u32 where "O_CLOEXEC = 0x80000"
definition O_SYNC :: u32 where "O_SYNC = 0x101000"

lemmas o_flag_defs = O_EXCL_def O_TRUNC_def O_APPEND_def O_DSYNC_def O_ASYNC_def O_NOFOLLOW_def
  O_CLOEXEC_def O_SYNC_def

definition fuse_mkdir :: "(u32 \<Rightarrow> bytes) \<Rightarrow> OpOpen \<Rightarrow> bytes \<Rightarrow> u32 \<Rightarrow> srv \<Rightarrow> unit outcome" where
  "fuse_mkdir strmode op0 dn mode s =
     mode_string strmode mode (\<lambda>modestr.
     mu_lock s (\<lambda>s.
     let s = s\<lparr>opuid := opuid s + 1\<rparr>;
         head = \<lparr>op_size = of_nat (SIZEHDR sizeof_OpOpen), op_ouid = opuid s, op_opid = OPER_OPEN\<rparr>
     in FNCPY (oo_filename op0) dn (\<lambda>fname.
     let op = op0\<lparr>oo_filename := fname, oo_flags := OPEN_MKDIR, oo_mode := ucast mode\<rparr>
     in exchange [BSSAPP (enc_OpHdr head), BSSAPP (enc_OpOpen op)] () s (finish_empty 0 ()))))"

text \<open>
  The end of \<^verbatim>\<open>fuse_open\<close>, \<^verbatim>\<open>fuse_opendir\<close> and \<^verbatim>\<open>fuse_creat\<close>: read \<^verbatim>\<open>struct RpOpen\<close> and keep the handle
  unless the client works without handles.
\<close>

definition finish_open :: "fuse_file_info \<Rightarrow> RpHdr \<Rightarrow> srv \<Rightarrow> fuse_file_info outcome" where
  "finish_open fi rp s =
     (if unat (rp_size rp) \<noteq> sizeof_RpHdr + sizeof_RpOpen then ABRT s
      else read_reply (replicate sizeof_RpOpen 0) (of_nat sizeof_RpOpen) fi s (\<lambda>buf s.
        let ro = dec_RpOpen buf;
            fi = (if ro_ignore_above ro = 0 then fi\<lparr>fi_fh := ro_file_handle ro\<rparr> else fi)
        in Returns 0 fi (mu_unlock s)))"

definition fuse_open :: "OpOpen \<Rightarrow> bytes \<Rightarrow> fuse_file_info \<Rightarrow> srv \<Rightarrow> fuse_file_info outcome" where
  "fuse_open op0 fn fi s =
     mu_lock s (\<lambda>s.
     let s = s\<lparr>opuid := opuid s + 1\<rparr>;
         head = \<lparr>op_size = of_nat (SIZEHDR sizeof_OpOpen), op_ouid = opuid s, op_opid = OPER_OPEN\<rparr>
     in FNCPY (oo_filename op0) fn (\<lambda>fname.
     let op = op0\<lparr>oo_filename := fname, oo_flags := 0\<rparr>
     in if fi_writepage fi then WARN (- EINVAL) fi s
        else if fi_flags fi AND (O_APPEND OR O_ASYNC OR O_CLOEXEC OR O_DSYNC OR O_EXCL OR O_SYNC) \<noteq> 0
        then WARN (- EINVAL) fi s
        else
          (let op = (if fi_flags fi AND O_TRUNC \<noteq> 0
                     then op\<lparr>oo_flags := oo_flags op OR OPEN_TRUNC\<rparr> else op);
               op = (if fi_flags fi AND O_NOFOLLOW \<noteq> 0
                     then op\<lparr>oo_flags := oo_flags op OR OPEN_NOFOLLOW\<rparr> else op);
               op = (if fi_direct_io fi then op\<lparr>oo_flags := oo_flags op OR OPEN_DIRECT\<rparr> else op)
           in exchange [BSSAPP (enc_OpHdr head), BSSAPP (enc_OpOpen op)] fi s (finish_open fi))))"

definition fuse_opendir :: "OpOpen \<Rightarrow> bytes \<Rightarrow> fuse_file_info \<Rightarrow> srv \<Rightarrow> fuse_file_info outcome" where
  "fuse_opendir op0 dn fi s =
     mu_lock s (\<lambda>s.
     let s = s\<lparr>opuid := opuid s + 1\<rparr>;
         head = \<lparr>op_size = of_nat (SIZEHDR sizeof_OpOpen), op_ouid = opuid s, op_opid = OPER_OPEN\<rparr>
     in FNCPY (oo_filename op0) dn (\<lambda>fname.
     let op = op0\<lparr>oo_filename := fname, oo_flags := 0\<rparr>
     in if fi_writepage fi then WARN (- EINVAL) fi s
        else if fi_flags fi AND
            (O_TRUNC OR O_APPEND OR O_ASYNC OR O_CLOEXEC OR O_DSYNC OR O_EXCL OR O_SYNC) \<noteq> 0
        then WARN (- EINVAL) fi s
        else
          (let op = (if fi_flags fi AND O_NOFOLLOW \<noteq> 0
                     then op\<lparr>oo_flags := oo_flags op OR OPEN_NOFOLLOW\<rparr> else op);
               op = op\<lparr>oo_flags := oo_flags op OR OPEN_DIRECTORY\<rparr>
           in exchange [BSSAPP (enc_OpHdr head), BSSAPP (enc_OpOpen op)] fi s (finish_open fi))))"

definition fuse_creat ::
  "OpOpen \<Rightarrow> bytes \<Rightarrow> u32 \<Rightarrow> fuse_file_info \<Rightarrow> srv \<Rightarrow> fuse_file_info outcome" where
  "fuse_creat op0 fn mode fi s =
     mu_lock s (\<lambda>s.
     let s = s\<lparr>opuid := opuid s + 1\<rparr>;
         head = \<lparr>op_size = of_nat (SIZEHDR sizeof_OpOpen), op_ouid = opuid s, op_opid = OPER_OPEN\<rparr>
     in FNCPY (oo_filename op0) fn (\<lambda>fname.
     let op = op0\<lparr>oo_filename := fname, oo_flags := 0, oo_mode := ucast mode\<rparr>
     in if fi_writepage fi then WARN (- EINVAL) fi s
        else if fi_flags fi AND (O_APPEND OR O_ASYNC OR O_CLOEXEC OR O_DSYNC OR O_EXCL OR O_SYNC) \<noteq> 0
        then WARN (- EINVAL) fi s
        else
          (let op = (if fi_flags fi AND O_TRUNC \<noteq> 0
                     then op\<lparr>oo_flags := oo_flags op OR OPEN_TRUNC\<rparr> else op);
               op = (if fi_flags fi AND O_NOFOLLOW \<noteq> 0
                     then op\<lparr>oo_flags := oo_flags op OR OPEN_NOFOLLOW\<rparr> else op);
               op = (if fi_direct_io fi then op\<lparr>oo_flags := oo_flags op OR OPEN_DIRECT\<rparr> else op);
               op = op\<lparr>oo_flags := oo_flags op OR OPEN_CREAT\<rparr>
           in exchange [BSSAPP (enc_OpHdr head), BSSAPP (enc_OpOpen op)] fi s (finish_open fi))))"

definition fuse_release :: "OpClos \<Rightarrow> fuse_file_info \<Rightarrow> srv \<Rightarrow> unit outcome" where
  "fuse_release cl0 fi s =
     mu_lock s (\<lambda>s.
     let s = s\<lparr>opuid := opuid s + 1\<rparr>;
         head = \<lparr>op_size = of_nat (SIZEHDR sizeof_OpClos), op_ouid = opuid s, op_opid = OPER_CLOSE\<rparr>;
         cl = cl0\<lparr>cl_file_handle := fi_fh fi, cl_is_dir := 0\<rparr>
     in exchange [BSSAPP (enc_OpHdr head), BSSAPP (enc_OpClos cl)] () s (finish_empty 0 ()))"

definition fuse_releasedir :: "OpClos \<Rightarrow> fuse_file_info \<Rightarrow> srv \<Rightarrow> unit outcome" where
  "fuse_releasedir cl0 fi s =
     mu_lock s (\<lambda>s.
     let s = s\<lparr>opuid := opuid s + 1\<rparr>;
         head = \<lparr>op_size = of_nat (SIZEHDR sizeof_OpClos), op_ouid = opuid s, op_opid = OPER_CLOSE\<rparr>;
         cl = cl0\<lparr>cl_file_handle := fi_fh fi, cl_is_dir := 1\<rparr>
     in exchange [BSSAPP (enc_OpHdr head), BSSAPP (enc_OpClos cl)] () s (finish_empty 0 ()))"

section \<open>The operation table\<close>

text \<open>
  A call as libfuse makes it, with the buffers the caller passes. \<^verbatim>\<open>init\<close> returns a null pointer
  and touches nothing.
\<close>

datatype fuse_call =
    Getattr bytes stat
  | Readlink bytes bytes u64
  | Mkdir bytes u32
  | Rmdir bytes
  | Symlink bytes bytes
  | Chmod bytes u32
  | Truncate bytes u64
  | Open bytes fuse_file_info
  | Read bytes bytes u64 u64 fuse_file_info
  | Write bytes bytes u64 u64 fuse_file_info
  | Statfs bytes statvfs
  | Release fuse_file_info
  | Opendir bytes fuse_file_info
  | Readdir bytes u64 fuse_file_info
  | Releasedir fuse_file_info
  | Init
  | Access bytes u32
  | Create bytes u32 fuse_file_info
  | Unlink bytes
  | Utimens bytes "u64 \<times> u64" "u64 \<times> u64"

text \<open>What a call leaves in its out-parameter.\<close>

datatype 'f fuse_out =
    OStat stat | OBytes bytes | OStatvfs statvfs | OInfo fuse_file_info | ODir 'f | ONone

text \<open>What a call finds: its uninitialised stack objects, and libbsd's \<^verbatim>\<open>strmode\<close>.\<close>

record stack =
  k_rd :: OpRead
  k_wr :: OpWrit
  k_op :: OpOpen
  k_cl :: OpClos
  k_tm :: TimeModder
  k_srcbuf :: bytes
  k_strmode :: "u32 \<Rightarrow> bytes"

text \<open>\<^verbatim>\<open>static struct fuse_operations zhwkrfsp\<close>\<close>

fun zhwkrfsp ::
  "('f \<Rightarrow> bytes \<Rightarrow> stat \<Rightarrow> bool \<times> 'f) \<Rightarrow> 'f \<Rightarrow> stack \<Rightarrow> fuse_call \<Rightarrow> srv \<Rightarrow> 'f fuse_out outcome" where
  "zhwkrfsp fill f k (Getattr fn st) s = map_outcome OStat (fuse_getattr (k_rd k) fn st s)"
| "zhwkrfsp fill f k (Readlink fn dest n) s = map_outcome OBytes (fuse_readlink (k_rd k) fn dest n s)"
| "zhwkrfsp fill f k (Mkdir dn m) s = map_outcome (\<lambda>_. ONone) (fuse_mkdir (k_strmode k) (k_op k) dn m s)"
| "zhwkrfsp fill f k (Rmdir dn) s = map_outcome (\<lambda>_. ONone) (fuse_rmdir (k_wr k) dn s)"
| "zhwkrfsp fill f k (Symlink fn src) s =
     map_outcome (\<lambda>_. ONone) (fuse_symlink (k_wr k) (k_srcbuf k) fn src s)"
| "zhwkrfsp fill f k (Chmod fn m) s = map_outcome (\<lambda>_. ONone) (fuse_chmod (k_strmode k) (k_wr k) fn m s)"
| "zhwkrfsp fill f k (Truncate fn pos) s = map_outcome (\<lambda>_. ONone) (fuse_truncate (k_wr k) fn pos s)"
| "zhwkrfsp fill f k (Open fn fi) s = map_outcome OInfo (fuse_open (k_op k) fn fi s)"
| "zhwkrfsp fill f k (Read fn buf n pos fi) s =
     map_outcome OBytes (fuse_read (k_rd k) fn buf n pos fi s)"
| "zhwkrfsp fill f k (Write fn buf n pos fi) s =
     map_outcome (\<lambda>_. ONone) (fuse_write (k_wr k) fn buf n pos fi s)"
| "zhwkrfsp fill f k (Statfs fn st) s = map_outcome OStatvfs (fuse_statfs (k_rd k) fn st s)"
| "zhwkrfsp fill f k (Release fi) s = map_outcome (\<lambda>_. ONone) (fuse_release (k_cl k) fi s)"
| "zhwkrfsp fill f k (Opendir dn fi) s = map_outcome OInfo (fuse_opendir (k_op k) dn fi s)"
| "zhwkrfsp fill f k (Readdir dn off fi) s =
     map_outcome ODir (fuse_readdir (k_rd k) dn f fill off fi s)"
| "zhwkrfsp fill f k (Releasedir fi) s = map_outcome (\<lambda>_. ONone) (fuse_releasedir (k_cl k) fi s)"
| "zhwkrfsp fill f k Init s = Returns 0 ONone s"
| "zhwkrfsp fill f k (Access fn m) s = map_outcome (\<lambda>_. ONone) (fuse_access (k_strmode k) (k_wr k) fn m s)"
| "zhwkrfsp fill f k (Create fn m fi) s = map_outcome OInfo (fuse_creat (k_op k) fn m fi s)"
| "zhwkrfsp fill f k (Unlink fn) s = map_outcome (\<lambda>_. ONone) (fuse_unlink (k_wr k) fn s)"
| "zhwkrfsp fill f k (Utimens fn tv0 tv1) s =
     map_outcome (\<lambda>_. ONone) (fuse_utimens (k_wr k) (k_tm k) fn tv0 tv1 s)"

end
