(* ===== verification/FuseLemmas.thy ===== *)
theory FuseLemmas
  imports Fuse
begin

text \<open>
  What the shared blocks of the handlers do: the message that leaves the process, the reply that is
  taken from the stream, and what every path through a handler has in common.
\<close>

section \<open>Building a message\<close>

definition parts_bytes :: "(bytes \<times> u32) list \<Rightarrow> bytes" where
  "parts_bytes ps = concat (map (\<lambda>p. take (unat (snd p)) (fst p)) ps)"

definition parts_ok :: "(bytes \<times> u32) list \<Rightarrow> bool" where
  "parts_ok ps \<longleftrightarrow> (\<forall>p \<in> set ps. unat (snd p) \<le> length (fst p))
     \<and> sum_list (map (\<lambda>p. unat (snd p)) ps) < 2 ^ 31"

lemma bss_appends_ok:
  assumes "bss_ok b" and "\<forall>p \<in> set ps. unat (snd p) \<le> length (fst p)"
    and "unat (bss_size b) + sum_list (map (\<lambda>p. unat (snd p)) ps) < 2 ^ 31"
  shows "\<exists>b'. bss_appends b ps err = Done b' \<and> bss_ok b'
    \<and> bss_content b' = bss_content b @ parts_bytes ps"
  using assms
proof (induction ps arbitrary: b)
  case (Cons p ps)
  have bound: "unat (bss_size b) + unat (snd p) < 2 ^ 31" and len: "unat (snd p) \<le> length (fst p)"
    using Cons.prems by auto
  from q__bss_append_content [OF Cons.prems(1) bound len, of err] obtain b1 where
    b1: "q__bss_append True b (fst p) (snd p) err = (Done b1, err)" "bss_ok b1"
      "bss_size b1 = bss_size b + snd p"
      "bss_content b1 = bss_content b @ take (unat (snd p)) (fst p)" by blast
  have "unat (bss_size b1) + sum_list (map (\<lambda>p. unat (snd p)) ps) < 2 ^ 31"
    using Cons.prems(3) unat_sum_below(1) [OF bound] b1(3) by simp
  with Cons.IH [OF b1(2)] Cons.prems(2) obtain b' where
    "bss_appends b1 ps err = Done b'" "bss_ok b'"
    "bss_content b' = bss_content b1 @ parts_bytes ps" by auto
  then show ?case
    using b1 by (auto simp: parts_bytes_def)
qed (simp add: parts_bytes_def)

section \<open>Sending and receiving\<close>

lemma send_parts_cases:
  assumes "parts_ok ps"
  shows "(\<exists>es'. send_parts ps out s k = k (s\<lparr>net := (net s)\<lparr>txq := es',
              tx := tx (net s) @ parts_bytes ps\<rparr>, evs := evs s @ [EvSend], live := live s + 1\<rparr>)
            \<and> (tx_good (txq (net s)) \<longrightarrow> tx_good es'))
    \<or> (\<not> tx_good (txq (net s)) \<and> (\<exists>w m. send_parts ps out s k =
            WARN (- EBUSY) out (s\<lparr>net := w, evs := evs s @ [EvSend]\<rparr>)
            \<and> tx w = tx (net s) @ take m (parts_bytes ps) \<and> rx w = rx (net s)))"
proof -
  from bss_appends_ok [of bss_empty ps "zhwk_error (net s)"] assms obtain sb where
    sb: "bss_appends bss_empty ps (zhwk_error (net s)) = Done sb" "bss_ok sb"
      "bss_content sb = parts_bytes ps" by (auto simp: parts_ok_def)
  have "length (parts_bytes ps) \<le> sum_list (map (\<lambda>p. unat (snd p)) ps)"
    by (induction ps) (auto simp: parts_bytes_def)
  then have "unat (bss_size sb) < 2 ^ 31"
    using assms length_bss_content [OF sb(2)] sb(3) by (auto simp: parts_ok_def)
  from sockwrite_cases [OF sb(2) this, of "net s" True] show ?thesis
    by (auto simp: send_parts_def sb)
qed

lemma send_parts_ok:
  assumes "parts_ok ps" and "tx_good (txq (net s))"
  shows "\<exists>es'. send_parts ps out s k = k (s\<lparr>net := (net s)\<lparr>txq := es',
        tx := tx (net s) @ parts_bytes ps\<rparr>, evs := evs s @ [EvSend], live := live s + 1\<rparr>)
    \<and> tx_good es'"
  using send_parts_cases [OF assms(1), of out s k] assms(2) by blast

lemma await_reply_ok:
  assumes "rx_avail (rx (net s)) = enc_RpHdr rp @ rest"
  shows "\<exists>es'. await_reply out s k = k rp (s\<lparr>net := (net s)\<lparr>rx := es'\<rparr>, evs := evs s @ [EvRecv]\<rparr>)
    \<and> rx_avail es' = rest \<and> rx_fails es' = rx_fails (rx (net s))"
proof -
  have "sizeof_RpHdr < 2 ^ 31" by (simp add: sizeof_defs)
  from c_RpHdr.recv_enc [OF _ this assms] obtain es where
    "recv_struct sizeof_RpHdr dec_RpHdr \<lparr>rp_size = 0, rp_ouid = 0, rp_rtvl = 0\<rparr> (net s) =
       Some (Done (0, rp, (net s)\<lparr>rx := es\<rparr>))" "rx_avail es = rest"
      "rx_fails es = rx_fails (rx (net s))" by blast
  then show ?thesis
    by (auto simp: await_reply_def wait_reply_def)
qed

text \<open>The state after a message has been sent and the reply header \<open>rp\<close> has been taken.\<close>

lemma exchange_reply:
  assumes "parts_ok ps" and "tx_good (txq (net s))"
    and "rx_avail (rx (net s)) = enc_RpHdr rp @ rest"
  shows "\<exists>w. exchange ps out s k =
       (let s2 = s\<lparr>live := live s + 1, net := w, evs := evs s @ [EvSend, EvRecv]\<rparr>
        in if sint (rp_rtvl rp) < 0 then WARN (sint (rp_rtvl rp)) out s2 else k rp s2)
    \<and> tx w = tx (net s) @ parts_bytes ps \<and> tx_good (txq w)
    \<and> rx_avail (rx w) = rest \<and> rx_fails (rx w) = rx_fails (rx (net s))"
proof -
  let ?k = "\<lambda>rp s. if sint (rp_rtvl rp) < 0 then WARN (sint (rp_rtvl rp)) out s else k rp s"
  from send_parts_ok [OF assms(1,2), of out "\<lambda>s. await_reply out s ?k"] obtain es where
    send: "exchange ps out s k = await_reply out (s\<lparr>net := (net s)\<lparr>txq := es,
        tx := tx (net s) @ parts_bytes ps\<rparr>, evs := evs s @ [EvSend], live := live s + 1\<rparr>) ?k"
      (is "_ = await_reply _ ?s1 _") and good: "tx_good es"
    by (auto simp: exchange_def)
  have "rx_avail (rx (net ?s1)) = enc_RpHdr rp @ rest"
    using assms(3) by simp
  from await_reply_ok [OF this, of out ?k] obtain es' where
    "await_reply out ?s1 ?k = ?k rp (?s1\<lparr>net := (net ?s1)\<lparr>rx := es'\<rparr>, evs := evs ?s1 @ [EvRecv]\<rparr>)"
    "rx_avail es' = rest" "rx_fails es' = rx_fails (rx (net s))" by auto
  then show ?thesis
    using send good
    by (intro exI [of _ "(net s)\<lparr>txq := es, tx := tx (net s) @ parts_bytes ps, rx := es'\<rparr>"])
      (simp add: Let_def)
qed

lemma read_reply_ok:
  assumes "rx_avail (rx (net s)) = bs @ rest" and "unat n = length bs" and "length bs < 2 ^ 31"
    and "length bs \<le> length buf"
  shows "\<exists>es'. read_reply buf n out s k =
      k (bs @ drop (length bs) buf) (s\<lparr>net := (net s)\<lparr>rx := es'\<rparr>, evs := evs s @ [EvRecv]\<rparr>)
    \<and> rx_avail es' = rest \<and> rx_fails es' = rx_fails (rx (net s))"
proof -
  from re_read_ok [of "length bs" "net s" n buf] assms obtain es where
    "re_read buf n (net s) = Some (Done (0, bs @ drop (length bs) buf, (net s)\<lparr>rx := es\<rparr>))"
    "rx_avail es = rest" "rx_fails es = rx_fails (rx (net s))" by auto
  then show ?thesis
    by (auto simp: read_reply_def)
qed

end
