(* ===== verification/FusePaths.thy ===== *)
theory FusePaths
  imports FuseLemmas
begin

text \<open>
  What every path through a handler has in common, whatever the peer sends and whatever the
  connection does: the mutex is released exactly once and last, and the operation counter moves by
  a fixed amount. \<open>on_return P r\<close> says that \<open>P\<close> holds of the return value and the final state if the
  handler returns; its rules follow the blocks a handler is made of.
\<close>

section \<open>What holds on every path that returns\<close>

definition on_return :: "(int \<Rightarrow> srv \<Rightarrow> bool) \<Rightarrow> 'a outcome \<Rightarrow> bool" where
  "on_return P r = (case r of Returns v x s \<Rightarrow> P v s | _ \<Rightarrow> True)"

text \<open>\<open>t\<close> follows \<open>s\<close> after uses of the socket only.\<close>

definition io_ext :: "srv \<Rightarrow> srv \<Rightarrow> bool" where
  "io_ext s t \<longleftrightarrow> opuid t = opuid s \<and> mu t = mu s
     \<and> (\<exists>es. evs t = evs s @ es \<and> set es \<subseteq> {EvSend, EvRecv})"

lemma on_return_simps [simp]:
  "on_return P (Returns v x s) = P v s" "on_return P (Aborts s)" "on_return P (ABRT s)"
  "on_return P Faults" "on_return P (Hangs s)" "on_return P (WARN v out s) = P v (mu_unlock s)"
  by (simp_all add: on_return_def WARN_def ABRT_def)

lemma on_return_map [simp]: "on_return P (map_outcome f r) = on_return P r"
  by (cases r) simp_all

lemma io_ext_refl [simp]: "io_ext s s"
  by (simp add: io_ext_def)

lemma io_ext_trans: "io_ext s t \<Longrightarrow> io_ext t u \<Longrightarrow> io_ext s u"
  by (auto simp: io_ext_def)

lemma io_ext_io: "e \<in> {EvSend, EvRecv} \<Longrightarrow> io_ext s (s\<lparr>net := w, evs := evs s @ [e]\<rparr>)"
  "e \<in> {EvSend, EvRecv} \<Longrightarrow> io_ext s (s\<lparr>net := w, evs := evs s @ [e], live := n\<rparr>)"
  by (auto simp: io_ext_def)

lemma on_return_lock:
  "(\<not> mu s \<Longrightarrow> on_return P (k (s\<lparr>mu := True, evs := evs s @ [EvLock]\<rparr>))) \<Longrightarrow> on_return P (mu_lock s k)"
  by (simp add: mu_lock_def)

lemma on_return_FNCPY: "(\<And>d. on_return P (k d)) \<Longrightarrow> on_return P (FNCPY dst src k)"
  by (simp add: FNCPY_def split: option.splits)

lemma on_return_mode: "(\<And>d. on_return P (k d)) \<Longrightarrow> on_return P (mode_string strmode m k)"
  by (simp add: mode_string_def split: option.splits)

lemma on_return_send:
  assumes "\<And>v t. io_ext s t \<Longrightarrow> P v (mu_unlock t)" and "\<And>t. io_ext s t \<Longrightarrow> on_return P (k t)"
  shows "on_return P (send_parts ps out s k)"
  using assms by (auto simp: send_parts_def Let_def io_ext_io split: exec.splits prod.splits)

lemma on_return_await:
  assumes "\<And>v t. io_ext s t \<Longrightarrow> P v (mu_unlock t)" and "\<And>rp t. io_ext s t \<Longrightarrow> on_return P (k rp t)"
  shows "on_return P (await_reply out s k)"
  using assms by (auto simp: await_reply_def Let_def io_ext_io split: exec.splits prod.splits option.splits)

lemma on_return_read:
  assumes "\<And>v t. io_ext s t \<Longrightarrow> P v (mu_unlock t)" and "\<And>b t. io_ext s t \<Longrightarrow> on_return P (k b t)"
  shows "on_return P (read_reply buf n out s k)"
  using assms by (auto simp: read_reply_def Let_def io_ext_io split: exec.splits prod.splits option.splits)

lemma on_return_exchange:
  assumes "\<And>v t. io_ext s t \<Longrightarrow> P v (mu_unlock t)" and "\<And>rp t. io_ext s t \<Longrightarrow> on_return P (k rp t)"
  shows "on_return P (exchange ps out s k)"
  unfolding exchange_def
  by (intro on_return_send on_return_await) (auto intro: assms io_ext_trans)

text \<open>
  Between \<open>s\<close> and \<open>t\<close> the handler took the mutex (if \<open>locked\<close>), used the socket, and released the
  mutex; \<^verbatim>\<open>opuid\<close> moved by \<open>inc\<close>.
\<close>

definition bracketed :: "bool \<Rightarrow> u32 \<Rightarrow> srv \<Rightarrow> srv \<Rightarrow> bool" where
  "bracketed locked inc s t \<longleftrightarrow> \<not> mu t \<and> opuid t = opuid s + inc
     \<and> (\<exists>es. evs t = evs s @ (if locked then [EvLock] else []) @ es @ [EvUnlock]
          \<and> set es \<subseteq> {EvSend, EvRecv})"

lemma bracketed_unlock:
  "io_ext s t \<Longrightarrow> bracketed False 0 s (mu_unlock t)"
  "io_ext (s\<lparr>mu := True, evs := evs s @ [EvLock], opuid := opuid s + 1\<rparr>) t
     \<Longrightarrow> bracketed True 1 s (mu_unlock t)"
  "io_ext (s\<lparr>mu := True, evs := evs s @ [EvLock], opuid := opuid s + 1 + 1\<rparr>) t
     \<Longrightarrow> bracketed True 2 s (mu_unlock t)"
  by (auto simp: bracketed_def io_ext_def mu_unlock_def)

lemmas on_return_intros = on_return_lock on_return_FNCPY on_return_exchange on_return_read

definition takes_lock :: "fuse_call \<Rightarrow> bool" where
  "takes_lock c = (case c of Chmod _ _ \<Rightarrow> False | Access _ _ \<Rightarrow> False | Unlink _ \<Rightarrow> False
     | Utimens _ _ _ \<Rightarrow> False | Init \<Rightarrow> False | _ \<Rightarrow> True)"

definition opuid_step :: "fuse_call \<Rightarrow> u32" where
  "opuid_step c = (if \<not> takes_lock c then 0 else case c of Truncate _ _ \<Rightarrow> 2 | _ \<Rightarrow> 1)"

lemma on_return_finish_empty:
  "P v (mu_unlock s) \<Longrightarrow> on_return P (finish_empty v out rp s)"
  by (simp add: finish_empty_def)

lemma on_return_finish_open:
  assumes "\<And>v t. io_ext s t \<Longrightarrow> P v (mu_unlock t)"
  shows "on_return P (finish_open fi rp s)"
  unfolding finish_open_def by (auto intro!: on_return_read assms simp: Let_def)

lemmas handler_intros = on_return_lock on_return_mode on_return_FNCPY on_return_exchange on_return_read
  on_return_finish_empty on_return_finish_open bracketed_unlock

lemma fuse_getattr_bracketed: "on_return (\<lambda>_. bracketed True 1 s) (fuse_getattr rd0 fn st s)"
  unfolding fuse_getattr_def Let_def by (auto intro!: handler_intros; erule (1) io_ext_trans)

lemma fuse_readlink_bracketed:
  "on_return (\<lambda>_. bracketed True 1 s) (fuse_readlink rd0 fn dest n s)"
  unfolding fuse_readlink_def Let_def by (auto intro!: handler_intros; erule (1) io_ext_trans)

lemma fuse_statfs_bracketed: "on_return (\<lambda>_. bracketed True 1 s) (fuse_statfs rd0 fn st s)"
  unfolding fuse_statfs_def Let_def by (auto intro!: handler_intros; erule (1) io_ext_trans)

lemma fuse_read_bracketed:
  "on_return (\<lambda>_. bracketed True 1 s) (fuse_read rd0 fn buf n pos fi s)"
  unfolding fuse_read_def Let_def by (auto intro!: handler_intros; erule (1) io_ext_trans)

lemma on_return_finish_readdir:
  assumes "\<And>v t. io_ext s t \<Longrightarrow> P v (mu_unlock t)"
  shows "on_return P (finish_readdir fill buf rp s)"
  unfolding finish_readdir_def
  using assms io_ext_io(1) [of EvRecv s]
  by (auto simp: Let_def split: option.splits exec.splits prod.splits)

lemma fuse_readdir_bracketed:
  "on_return (\<lambda>_. bracketed True 1 s) (fuse_readdir rd0 dn f fill off fi s)"
  unfolding fuse_readdir_def Let_def
  by (auto intro!: handler_intros on_return_finish_readdir; erule (1) io_ext_trans)

lemma fuse_rmdir_bracketed: "on_return (\<lambda>_. bracketed True 1 s) (fuse_rmdir wr0 dn s)"
  unfolding fuse_rmdir_def Let_def by (auto intro!: handler_intros; erule (1) io_ext_trans)

lemma fuse_symlink_bracketed:
  "on_return (\<lambda>_. bracketed True 1 s) (fuse_symlink wr0 b0 fn src s)"
  unfolding fuse_symlink_def Let_def by (auto intro!: handler_intros; erule (1) io_ext_trans)

lemma fuse_truncate_bracketed: "on_return (\<lambda>_. bracketed True 2 s) (fuse_truncate wr0 fn pos s)"
  unfolding fuse_truncate_def Let_def by (auto intro!: handler_intros; erule (1) io_ext_trans)

lemma fuse_write_bracketed:
  "on_return (\<lambda>_. bracketed True 1 s) (fuse_write wr0 fn buf n pos fi s)"
  unfolding fuse_write_def Let_def by (auto intro!: handler_intros; erule (1) io_ext_trans)

lemma fuse_mkdir_bracketed: "on_return (\<lambda>_. bracketed True 1 s) (fuse_mkdir sm op0 dn m s)"
  unfolding fuse_mkdir_def Let_def by (auto intro!: handler_intros; erule (1) io_ext_trans)

lemma fuse_open_bracketed: "on_return (\<lambda>_. bracketed True 1 s) (fuse_open op0 fn fi s)"
  unfolding fuse_open_def Let_def by (auto intro!: handler_intros; erule (1) io_ext_trans)

lemma fuse_opendir_bracketed: "on_return (\<lambda>_. bracketed True 1 s) (fuse_opendir op0 fn fi s)"
  unfolding fuse_opendir_def Let_def by (auto intro!: handler_intros; erule (1) io_ext_trans)

lemma fuse_creat_bracketed: "on_return (\<lambda>_. bracketed True 1 s) (fuse_creat op0 fn m fi s)"
  unfolding fuse_creat_def Let_def by (auto intro!: handler_intros; erule (1) io_ext_trans)

lemma fuse_release_bracketed: "on_return (\<lambda>_. bracketed True 1 s) (fuse_release cl0 fi s)"
  unfolding fuse_release_def Let_def by (auto intro!: handler_intros; erule (1) io_ext_trans)

lemma fuse_releasedir_bracketed: "on_return (\<lambda>_. bracketed True 1 s) (fuse_releasedir cl0 fi s)"
  unfolding fuse_releasedir_def Let_def by (auto intro!: handler_intros; erule (1) io_ext_trans)

lemma unlocked_bracketed:
  "on_return (\<lambda>_. bracketed False 0 s) (fuse_chmod sm wr0 fn m s)"
  "on_return (\<lambda>_. bracketed False 0 s) (fuse_access sm wr0 fn m s)"
  "on_return (\<lambda>_. bracketed False 0 s) (fuse_unlink wr0 fn s)"
  "on_return (\<lambda>_. bracketed False 0 s) (fuse_utimens wr0 tm0 fn tv0 tv1 s)"
  unfolding fuse_chmod_def fuse_access_def fuse_unlink_def fuse_utimens_def Let_def
  by (auto intro!: handler_intros)

lemmas handlers_bracketed = fuse_getattr_bracketed fuse_readlink_bracketed fuse_statfs_bracketed
  fuse_read_bracketed fuse_readdir_bracketed fuse_rmdir_bracketed fuse_symlink_bracketed
  fuse_truncate_bracketed fuse_write_bracketed fuse_mkdir_bracketed fuse_open_bracketed
  fuse_opendir_bracketed fuse_creat_bracketed fuse_release_bracketed fuse_releasedir_bracketed
  unlocked_bracketed

lemma zhwkrfsp_bracketed:
  "c \<noteq> Init \<Longrightarrow>
   on_return (\<lambda>_. bracketed (takes_lock c) (opuid_step c) s) (zhwkrfsp fill f k c s)"
  by (cases c) (simp_all add: takes_lock_def opuid_step_def handlers_bracketed)
end
