(* ===== verification/FuseSpec.thy ===== *)
theory FuseSpec
  imports FusePaths
begin

text \<open>
  The protocol seen from the server, as a specification: which message a call puts on the wire and
  in which state, and what the caller's objects hold when nothing has been delivered. Every handler
  is shown to be one exchange of that message, which gives the facts that hold for all calls
  uniformly.
\<close>

section \<open>Calls\<close>

text \<open>The arrays of the stack objects have the lengths they are declared with.\<close>

definition stack_ok :: "stack \<Rightarrow> bool" where
  "stack_ok k \<longleftrightarrow> ok_OpRead (k_rd k) \<and> ok_OpWrit (k_wr k) \<and> ok_OpOpen (k_op k) \<and> ok_OpClos (k_cl k)
     \<and> ok_TimeModder (k_tm k) \<and> length (k_srcbuf k) = FILENAME_LEN"

text \<open>The path names a call carries.\<close>

fun call_names :: "fuse_call \<Rightarrow> bytes list" where
  "call_names (Getattr fn st) = [fn]"
| "call_names (Readlink fn dest n) = [fn]"
| "call_names (Mkdir dn m) = [dn]"
| "call_names (Rmdir dn) = [dn]"
| "call_names (Symlink fn src) = [fn, src]"
| "call_names (Chmod fn m) = [fn]"
| "call_names (Truncate fn pos) = [fn]"
| "call_names (Open fn fi) = [fn]"
| "call_names (Read fn buf n pos fi) = [fn]"
| "call_names (Write fn buf n pos fi) = [fn]"
| "call_names (Statfs fn st) = [fn]"
| "call_names (Opendir dn fi) = [dn]"
| "call_names (Readdir dn off fi) = [dn]"
| "call_names (Access fn m) = [fn]"
| "call_names (Create fn m fi) = [fn]"
| "call_names (Unlink fn) = [fn]"
| "call_names (Utimens fn tv0 tv1) = [fn]"
| "call_names _ = []"

definition names_fit :: "fuse_call \<Rightarrow> bool" where
  "names_fit c \<longleftrightarrow> list_all (\<lambda>fn. strlen fn < FILENAME_LEN) (call_names c)"

text \<open>The data of a write is really there, and the message stays below \<open>2\<^sup>3\<^sup>1\<close> bytes.\<close>

fun data_fits :: "fuse_call \<Rightarrow> bool" where
  "data_fits (Write fn buf n pos fi) \<longleftrightarrow> unat n \<le> length buf \<and> unat n < 2 ^ 30"
| "data_fits _ \<longleftrightarrow> True"

definition bad_open_flags :: u32 where
  "bad_open_flags = O_APPEND OR O_ASYNC OR O_CLOEXEC OR O_DSYNC OR O_EXCL OR O_SYNC"

text \<open>Calls that are answered without asking the client.\<close>

fun refused :: "fuse_call \<Rightarrow> bool" where
  "refused (Open fn fi) \<longleftrightarrow> fi_writepage fi \<or> fi_flags fi AND bad_open_flags \<noteq> 0"
| "refused (Create fn m fi) \<longleftrightarrow> fi_writepage fi \<or> fi_flags fi AND bad_open_flags \<noteq> 0"
| "refused (Opendir dn fi) \<longleftrightarrow> fi_writepage fi \<or> fi_flags fi AND (O_TRUNC OR bad_open_flags) \<noteq> 0"
| "refused _ \<longleftrightarrow> False"

text \<open>The calls that convert a mode, with the mode, and whether its text fits the array of eleven bytes.\<close>

fun printed_mode :: "fuse_call \<Rightarrow> u32 option" where
  "printed_mode (Mkdir dn m) = Some m"
| "printed_mode (Chmod fn m) = Some m"
| "printed_mode (Access fn m) = Some m"
| "printed_mode c = None"

definition mode_fits :: "stack \<Rightarrow> fuse_call \<Rightarrow> bool" where
  "mode_fits k c \<longleftrightarrow> (\<forall>m. printed_mode c = Some m \<longrightarrow> strlen (k_strmode k m) < 11)"

definition call_ok :: "fuse_call \<Rightarrow> bool" where
  "call_ok c \<longleftrightarrow> c \<noteq> Init \<and> names_fit c \<and> data_fits c \<and> \<not> refused c"

text \<open>The out-parameter as it was passed.\<close>

fun unchanged :: "'f \<Rightarrow> fuse_call \<Rightarrow> 'f fuse_out" where
  "unchanged f (Getattr fn st) = OStat st"
| "unchanged f (Readlink fn dest n) = OBytes dest"
| "unchanged f (Open fn fi) = OInfo fi"
| "unchanged f (Read fn buf n pos fi) = OBytes buf"
| "unchanged f (Statfs fn st) = OStatvfs st"
| "unchanged f (Opendir dn fi) = OInfo fi"
| "unchanged f (Readdir dn off fi) = ODir f"
| "unchanged f (Create fn m fi) = OInfo fi"
| "unchanged f _ = ONone"

text \<open>
  What a handler does once a reply header has arrived: it returns a negative result of the client with the
  objects as they were, and otherwise takes the content that belongs to the header.
\<close>

fun on_success :: "('f \<Rightarrow> bytes \<Rightarrow> stat \<Rightarrow> bool \<times> 'f) \<Rightarrow> 'f \<Rightarrow> fuse_call \<Rightarrow> RpHdr \<Rightarrow> srv \<Rightarrow> 'f fuse_out outcome" where
  "on_success fill f (Getattr fn st) = (\<lambda>rp s. map_outcome OStat
     (if unat (rp_size rp) \<noteq> sizeof_RpHdr + sizeof_Ustat then ABRT s
      else read_reply (replicate sizeof_Ustat 0) (of_nat sizeof_Ustat) st s (\<lambda>buf s.
        Returns 0 (fall_stat st (dec_Ustat buf)) (mu_unlock s))))"
| "on_success fill f (Readlink fn dest n) = (\<lambda>rp s. map_outcome OBytes
     (if ucast (rp_size rp) > of_nat sizeof_RpHdr + n then ABRT s
      else read_reply dest (ucast (rp_size rp) - of_nat sizeof_RpHdr) dest s (\<lambda>dest' s.
        Returns 0 dest' (mu_unlock s))))"
| "on_success fill f (Statfs fn st) = (\<lambda>rp s. map_outcome OStatvfs
     (if unat (rp_size rp) \<noteq> sizeof_RpHdr + sizeof_Ustatvfs then ABRT s
      else read_reply (replicate sizeof_Ustatvfs 0) (of_nat sizeof_Ustatvfs) st s (\<lambda>buf s.
        Returns 0 (fall_statvfs st (dec_Ustatvfs buf)) (mu_unlock s))))"
| "on_success fill f (Read fn buf n pos fi) = (\<lambda>rp s. map_outcome OBytes
     (if ucast (rp_size rp) > n then ABRT s
      else if ucast (rp_size rp) \<noteq> of_nat sizeof_RpHdr + (scast (rp_rtvl rp) :: u64) then ABRT s
      else read_reply buf (scast (rp_rtvl rp)) buf s (\<lambda>buf' s.
        Returns (sint (rp_rtvl rp)) buf' (mu_unlock s))))"
| "on_success fill f (Readdir dn off fi) = (\<lambda>rp s. map_outcome ODir (finish_readdir fill f rp s))"
| "on_success fill f (Write fn buf n pos fi) =
     (\<lambda>rp s. map_outcome (\<lambda>_. ONone) (finish_empty (sint (rp_rtvl rp)) () rp s))"
| "on_success fill f (Open fn fi) = (\<lambda>rp s. map_outcome OInfo (finish_open fi rp s))"
| "on_success fill f (Opendir dn fi) = (\<lambda>rp s. map_outcome OInfo (finish_open fi rp s))"
| "on_success fill f (Create fn m fi) = (\<lambda>rp s. map_outcome OInfo (finish_open fi rp s))"
| "on_success fill f c = (\<lambda>rp s. map_outcome (\<lambda>_. ONone) (finish_empty 0 () rp s))"

definition after_reply ::
  "('f \<Rightarrow> bytes \<Rightarrow> stat \<Rightarrow> bool \<times> 'f) \<Rightarrow> 'f \<Rightarrow> fuse_call \<Rightarrow> RpHdr \<Rightarrow> srv \<Rightarrow> 'f fuse_out outcome" where
  "after_reply fill f c rp s =
     (if sint (rp_rtvl rp) < 0 then WARN (sint (rp_rtvl rp)) (unchanged f c) s else on_success fill f c rp s)"

section \<open>Messages\<close>

text \<open>A name in its field: the characters, a zero, and what the field held before.\<close>

definition fname_field :: "bytes \<Rightarrow> bytes \<Rightarrow> bytes" where
  "fname_field dst fn = cstr fn @ 0 # drop (Suc (strlen fn)) dst"

definition open_flag :: "bool \<Rightarrow> u8 \<Rightarrow> u8" where
  "open_flag b x = (if b then x else 0)"

text \<open>The protocol's flags for the flags of \<^verbatim>\<open>open(2)\<close>.\<close>

definition proto_flags :: "fuse_file_info \<Rightarrow> u8" where
  "proto_flags fi = open_flag (fi_flags fi AND O_TRUNC \<noteq> 0) OPEN_TRUNC
     OR open_flag (fi_flags fi AND O_NOFOLLOW \<noteq> 0) OPEN_NOFOLLOW
     OR open_flag (fi_direct_io fi) OPEN_DIRECT"

definition rd_body :: "stack \<Rightarrow> bytes \<Rightarrow> u8 \<Rightarrow> OpRead" where
  "rd_body k fn m = (k_rd k)\<lparr>rd_filename := fname_field (rd_filename (k_rd k)) fn, rd_read_mode := m\<rparr>"

definition wr_body :: "stack \<Rightarrow> bytes \<Rightarrow> u8 \<Rightarrow> OpWrit" where
  "wr_body k fn m = (k_wr k)\<lparr>wr_filename := fname_field (wr_filename (k_wr k)) fn, wr_write_mode := m\<rparr>"

definition op_body :: "stack \<Rightarrow> bytes \<Rightarrow> u8 \<Rightarrow> OpOpen" where
  "op_body k fn flags = (k_op k)\<lparr>oo_filename := fname_field (oo_filename (k_op k)) fn, oo_flags := flags\<rparr>"

text \<open>The operation a call asks the client for, and the content of a write.\<close>

datatype rq = RqRead OpRead | RqWrite OpWrit bytes | RqOpen OpOpen | RqClose OpClos

fun request :: "stack \<Rightarrow> fuse_call \<Rightarrow> rq" where
  "request k (Getattr fn st) = RqRead (rd_body k fn RD_STAT)"
| "request k (Readlink fn dest n) = RqRead (rd_body k fn RD_LINK)"
| "request k (Statfs fn st) = RqRead (rd_body k fn RD_STATFS)"
| "request k (Read fn buf n pos fi) = RqRead
     ((rd_body k fn RD_REGULAR)\<lparr>rd_file_handle := fi_fh fi, rd_offset := pos, rd_count := n\<rparr>)"
| "request k (Readdir dn off fi) =
     RqRead ((rd_body k dn RD_DIR)\<lparr>rd_file_handle := fi_fh fi, rd_offset := off\<rparr>)"
| "request k (Rmdir dn) = RqWrite (wr_body k dn WR_RMDIR) []"
| "request k (Symlink fn src) = RqWrite (wr_body k fn WR_SYMLINK) (fname_field (k_srcbuf k) src)"
| "request k (Chmod fn m) = RqWrite (wr_body k fn WR_CHMOD) (le_bytes 4 m)"
| "request k (Truncate fn pos) = RqWrite ((wr_body k fn WR_TRUNC)\<lparr>wr_offset := pos\<rparr>) []"
| "request k (Write fn buf n pos fi) = RqWrite ((wr_body k fn WR_REGULAR)
     \<lparr>wr_file_handle := fi_fh fi, wr_offset := pos, wr_count := n\<rparr>) (take (unat n) buf)"
| "request k (Access fn m) = RqWrite (wr_body k fn WR_ACCES) (le_bytes 4 m)"
| "request k (Unlink fn) = RqWrite (wr_body k fn WR_REMOVE) []"
| "request k (Utimens fn tv0 tv1) = RqWrite (wr_body k fn WR_MODTIME)
     (enc_TimeModder ((k_tm k)\<lparr>tm_atime := fst tv0, tm_atime_nsec := snd tv0, tm_mtime := fst tv1,
        tm_mtime_nsec := snd tv1, tm_flags := utimens_flags tv0 tv1\<rparr>))"
| "request k (Mkdir dn m) = RqOpen ((op_body k dn OPEN_MKDIR)\<lparr>oo_mode := ucast m\<rparr>)"
| "request k (Open fn fi) = RqOpen (op_body k fn (proto_flags fi))"
| "request k (Opendir dn fi) = RqOpen (op_body k dn
     (open_flag (fi_flags fi AND O_NOFOLLOW \<noteq> 0) OPEN_NOFOLLOW OR OPEN_DIRECTORY))"
| "request k (Create fn m fi) =
     RqOpen ((op_body k fn (proto_flags fi OR OPEN_CREAT))\<lparr>oo_mode := ucast m\<rparr>)"
| "request k (Release fi) = RqClose ((k_cl k)\<lparr>cl_file_handle := fi_fh fi, cl_is_dir := 0\<rparr>)"
| "request k (Releasedir fi) = RqClose ((k_cl k)\<lparr>cl_file_handle := fi_fh fi, cl_is_dir := 1\<rparr>)"
| "request k Init = RqClose (k_cl k)"

primrec rq_opid :: "rq \<Rightarrow> u32" where
  "rq_opid (RqRead x) = OPER_READ"
| "rq_opid (RqWrite x cs) = OPER_WRITE"
| "rq_opid (RqOpen x) = OPER_OPEN"
| "rq_opid (RqClose x) = OPER_CLOSE"

primrec rq_bytes :: "rq \<Rightarrow> bytes" where
  "rq_bytes (RqRead x) = enc_OpRead x"
| "rq_bytes (RqWrite x cs) = enc_OpWrit x @ cs"
| "rq_bytes (RqOpen x) = enc_OpOpen x"
| "rq_bytes (RqClose x) = enc_OpClos x"

text \<open>
  The size a header announces is that of the header and the body; \<^verbatim>\<open>symlink\<close> announces the link
  target's characters only, although the whole field follows.
\<close>

definition announced :: "stack \<Rightarrow> fuse_call \<Rightarrow> nat" where
  "announced k c = sizeof_OpHdr + (case c of Symlink fn src \<Rightarrow> sizeof_OpWrit + strlen src
     | _ \<Rightarrow> length (rq_bytes (request k c)))"

definition req_header :: "stack \<Rightarrow> fuse_call \<Rightarrow> u32 \<Rightarrow> OpHdr" where
  "req_header k c uid = \<lparr>op_size = of_nat (announced k c), op_ouid = uid,
     op_opid = rq_opid (request k c)\<rparr>"

definition message :: "stack \<Rightarrow> fuse_call \<Rightarrow> u32 \<Rightarrow> bytes" where
  "message k c uid = enc_OpHdr (req_header k c uid) @ rq_bytes (request k c)"

text \<open>The identifier a request carries: \<^verbatim>\<open>truncate\<close> takes it before its second increment.\<close>

definition req_uid :: "fuse_call \<Rightarrow> u32 \<Rightarrow> u32" where
  "req_uid c u = (if takes_lock c then u + 1 else u)"

text \<open>The state in which the message is sent.\<close>

definition start :: "fuse_call \<Rightarrow> srv \<Rightarrow> srv" where
  "start c s = (if takes_lock c
     then s\<lparr>mu := True, evs := evs s @ [EvLock], opuid := opuid s + opuid_step c\<rparr> else s)"

section \<open>What the blocks keep\<close>

text \<open>Receiving never writes, so a handler writes its message and nothing else.\<close>

lemma qStreamSocket_read_tx:
  "qStreamSocket_read w n = (a, buf, w') \<Longrightarrow> tx w' = tx w \<and> txq w' = txq w"
  by (auto simp: qStreamSocket_read_def split: prod.splits)

lemma sockread_loop_tx:
  assumes "sockread_loop n b w = Some r"
  shows "case r of Done (v, b', w') \<Rightarrow> tx w' = tx w \<and> txq w' = txq w | Fault \<Rightarrow> True"
proof (rule sockread_loop.raw_induct [OF _ assms], goal_cases)
  case (1 f n b w r)
  obtain a buf w1 where rd: "qStreamSocket_read w (word_of_int n) = (a, buf, w1)"
    by (cases "qStreamSocket_read w (word_of_int n)")
  obtain ap err where ap: "q__bss_append True b buf (word_of_int a) (zhwk_error w1) = (ap, err)"
    by (cases "q__bss_append True b buf (word_of_int a) (zhwk_error w1)")
  note step = 1(2) [unfolded rd ap prod.case]
  show ?case
  proof (cases ap)
    case (Done b1)
    then show ?thesis
      using step 1(1) [of "n - a" b1 "w1\<lparr>zhwk_error := err\<rparr>" r] qStreamSocket_read_tx [OF rd]
      by (auto split: if_splits exec.splits)
  qed (use step qStreamSocket_read_tx [OF rd] in \<open>auto split: if_splits\<close>)
qed

lemma sockread_tx: "sockread w b n = Some (Done (v, b', w')) \<Longrightarrow> tx w' = tx w \<and> txq w' = txq w"
  by (auto simp: sockread_def split: if_splits dest: sockread_loop_tx)

text \<open>\<open>P\<close> holds of the last state of a handler that returns, aborts, or waits for ever.\<close>

definition on_end :: "(srv \<Rightarrow> bool) \<Rightarrow> 'a outcome \<Rightarrow> bool" where
  "on_end P r = (case r of Returns v x s \<Rightarrow> P s | Aborts s \<Rightarrow> P s | Hangs s \<Rightarrow> P s | Faults \<Rightarrow> True)"

lemma on_end_simps [simp]:
  "on_end P (Returns v x s) = P s" "on_end P (Aborts s) = P s" "on_end P (ABRT s) = P s"
  "on_end P Faults" "on_end P (Hangs s) = P s" "on_end P (WARN v out s) = P (mu_unlock s)"
  "on_end P (map_outcome g r) = on_end P r"
  by (simp_all add: on_end_def WARN_def ABRT_def split: outcome.split)

lemma on_end_mono: "on_end P r \<Longrightarrow> (\<And>t. P t \<Longrightarrow> Q t) \<Longrightarrow> on_end Q r"
  by (auto simp: on_end_def split: outcome.splits)

text \<open>\<open>same_tx s\<close>: the handler has written nothing and freed nothing since \<open>s\<close>.\<close>

definition same_tx :: "srv \<Rightarrow> srv \<Rightarrow> bool" where
  "same_tx s t \<longleftrightarrow> tx (net t) = tx (net s) \<and> txq (net t) = txq (net s) \<and> live t = live s"

lemma same_tx_simps [simp]:
  "same_tx s s" "same_tx s (mu_unlock t) = same_tx s t"
  by (simp_all add: same_tx_def mu_unlock_def)

lemma re_read_tx:
  "re_read buf n w = Some (Done (r, buf', w')) \<Longrightarrow> tx w' = tx w \<and> txq w' = txq w"
  by (auto simp: re_read_def split: option.splits exec.splits prod.splits if_splits dest: sockread_tx)

lemma wait_reply_tx:
  "wait_reply rp w = Some (Done (r, rp', w')) \<Longrightarrow> tx w' = tx w \<and> txq w' = txq w"
  by (auto simp: wait_reply_def recv_struct_def split: option.splits exec.splits prod.splits if_splits
      dest: sockread_tx)

lemma read_reply_same_tx:
  assumes "\<And>b t. same_tx s t \<Longrightarrow> on_end (same_tx s) (k b t)"
  shows "on_end (same_tx s) (read_reply buf n out s k)"
  using assms
  by (auto simp: read_reply_def Let_def same_tx_def mu_unlock_def split: option.splits exec.splits prod.splits
      dest: re_read_tx)

lemma await_reply_same_tx:
  assumes "\<And>rp t. same_tx s t \<Longrightarrow> on_end (same_tx s) (k rp t)"
  shows "on_end (same_tx s) (await_reply out s k)"
  using assms
  by (auto simp: await_reply_def Let_def same_tx_def mu_unlock_def split: option.splits exec.splits prod.splits
      dest: wait_reply_tx)

lemma finish_same_tx:
  "on_end (same_tx s) (finish_empty v out rp s)" "on_end (same_tx s) (finish_open fi rp s)"
  by (simp_all add: finish_empty_def finish_open_def Let_def read_reply_same_tx)

lemma finish_readdir_same_tx: "on_end (same_tx s) (finish_readdir fill buf rp s)"
  by (auto simp: finish_readdir_def Let_def same_tx_def mu_unlock_def
      split: option.splits exec.splits prod.splits dest: sockread_tx)

section \<open>Every call is one exchange of its message\<close>

lemma FNCPY_ok: "strlen fn < length dst \<Longrightarrow> FNCPY dst fn k = k (fname_field dst fn)"
  by (simp add: FNCPY_def strcpy_eq fname_field_def list_update_append)

lemma mode_string_ok: "strlen (strmode m) < 11 \<Longrightarrow> 
   mode_string strmode m k = k (cstr (strmode m) @ 0 # drop (Suc (strlen (strmode m))) (replicate 11 0))"
  by (simp add: mode_string_def strcpy_eq)

lemma mode_string_Faults: "(\<And>d. k d = Faults) \<Longrightarrow> mode_string strmode m k = Faults"
  by (simp add: mode_string_def split: option.split)

lemma FNCPY_overflow: "length dst \<le> strlen fn \<Longrightarrow> FNCPY dst fn k = Faults"
  by (simp add: FNCPY_def strcpy_eq)

lemma map_outcome_blocks [simp]:
  "map_outcome g (mu_lock s k) = mu_lock s (\<lambda>s. map_outcome g (k s))"
  "map_outcome g (WARN v out s) = WARN v (g out) s"
  "map_outcome g (FNCPY dst src kf) = FNCPY dst src (\<lambda>d. map_outcome g (kf d))"
  "map_outcome g (mode_string sm m kf) = mode_string sm m (\<lambda>d. map_outcome g (kf d))"
  by (simp_all add: mu_lock_def WARN_def FNCPY_def mode_string_def split: option.split)

lemma map_outcome_send [simp]:
  "map_outcome g (send_parts ps out s k) = send_parts ps (g out) s (\<lambda>s. map_outcome g (k s))"
  by (auto simp: send_parts_def Let_def split: exec.split)

lemma map_outcome_await [simp]:
  "map_outcome g (await_reply out s k) = await_reply (g out) s (\<lambda>rp s. map_outcome g (k rp s))"
  by (auto simp: await_reply_def Let_def split: exec.split option.split)

lemma map_outcome_exchange [simp]:
  "map_outcome g (exchange ps out s k) = exchange ps (g out) s (\<lambda>rp s. map_outcome g (k rp s))"
  by (simp add: exchange_def if_distrib [of "map_outcome g"] cong: if_cong)

lemma ucast_size: "(ucast (of_nat a + n :: u64) :: u32) = of_nat (a + unat n)"
proof -
  have "(ucast (word_of_int (int (a + unat n)) :: u64) :: u32) = word_of_int (int (a + unat n))"
    by (rule ucast_down_wi) (simp add: is_down)
  then show ?thesis by simp
qed

lemma unat_ucast_small: "unat (n :: u64) < 2 ^ 32 \<Longrightarrow> unat (ucast n :: u32) = unat n"
  by (simp add: unsigned_ucast_eq unsigned_take_bit_eq take_bit_nat_eq_self)

lemma unat_FILENAME_LEN: "unat (of_nat FILENAME_LEN :: u32) = FILENAME_LEN"
  by (simp add: FILENAME_LEN_def)

lemma length_fname_field: "strlen fn < length dst \<Longrightarrow> length (fname_field dst fn) = length dst"
  by (simp add: fname_field_def)

lemma cstr_fname_field [simp]: "cstr (fname_field dst fn) = cstr fn"
  by (simp add: fname_field_def)

text \<open>The bodies are well formed whatever the other members are set to.\<close>

lemma ok_bodies:
  assumes "stack_ok k" and "strlen fn < FILENAME_LEN"
  shows "ok_OpRead (rd_body k fn m)" "ok_OpWrit (wr_body k fn m)" "ok_OpOpen (op_body k fn m)"
  using assms
  by (simp_all add: stack_ok_def rd_body_def wr_body_def op_body_def ok_OpRead_def ok_OpWrit_def
      ok_OpOpen_def length_fname_field)

lemma ok_updates [simp]:
  "ok_OpRead (x\<lparr>rd_file_handle := h\<rparr>) = ok_OpRead x" "ok_OpRead (x\<lparr>rd_offset := h\<rparr>) = ok_OpRead x"
  "ok_OpRead (x\<lparr>rd_count := h\<rparr>) = ok_OpRead x"
  "ok_OpWrit (y\<lparr>wr_file_handle := h\<rparr>) = ok_OpWrit y" "ok_OpWrit (y\<lparr>wr_offset := h\<rparr>) = ok_OpWrit y"
  "ok_OpWrit (y\<lparr>wr_count := h\<rparr>) = ok_OpWrit y"
  "ok_OpOpen (z\<lparr>oo_mode := m\<rparr>) = ok_OpOpen z"
  "ok_OpClos (c\<lparr>cl_file_handle := h\<rparr>) = ok_OpClos c" "ok_OpClos (c\<lparr>cl_is_dir := b\<rparr>) = ok_OpClos c"
  by (simp_all add: ok_OpRead_def ok_OpWrit_def ok_OpOpen_def ok_OpClos_def)

lemma ok_TimeModder_updates [simp]:
  "ok_TimeModder (t\<lparr>tm_atime := a, tm_atime_nsec := b, tm_mtime := c, tm_mtime_nsec := d, tm_flags := e\<rparr>)
     = ok_TimeModder t"
  by (simp add: ok_TimeModder_def)

lemma length_enc_OpHdr [simp]: "length (enc_OpHdr h) = sizeof_OpHdr"
  by (simp add: c_OpHdr.enc_length)

lemmas enc_lengths = c_OpRead.enc_length c_OpWrit.enc_length c_OpOpen.enc_length c_OpClos.enc_length
  c_TimeModder.enc_length

text \<open>A message made of whole objects, and one whose last part is cut from a buffer.\<close>

lemma unat_BSSAPP: "length x < 2 ^ 32 \<Longrightarrow> unat (snd (BSSAPP x)) = length x"
  by (simp add: BSSAPP_def unat_of_nat)

lemma fst_BSSAPP [simp]: "fst (BSSAPP x) = x"
  by (simp add: BSSAPP_def)

lemma parts_objects:
  assumes "sum_list (map length xs) < 2 ^ 31"
  shows "parts_ok (map BSSAPP xs)" and "parts_bytes (map BSSAPP xs) = concat xs"
proof -
  have small: "\<forall>x \<in> set xs. unat (snd (BSSAPP x)) = length x"
    using assms member_le_sum_list [of _ "map length xs"] by (fastforce intro: unat_BSSAPP)
  then have "map (\<lambda>p. unat (snd p)) (map BSSAPP xs) = map length xs"
    by simp
  then show "parts_ok (map BSSAPP xs)"
    using assms small by (simp add: parts_ok_def del: map_map)
  show "parts_bytes (map BSSAPP xs) = concat xs"
    using small by (auto simp: parts_bytes_def intro!: arg_cong [of _ _ concat] map_idI)
qed

lemma parts_snoc:
  assumes "sum_list (map length xs) + unat n < 2 ^ 31" and "unat n \<le> length buf"
  shows "parts_ok (map BSSAPP xs @ [(buf, n)])"
    and "parts_bytes (map BSSAPP xs @ [(buf, n)]) = concat xs @ take (unat n) buf"
proof -
  have "sum_list (map length xs) < 2 ^ 31"
    using assms(1) by simp
  note objs = parts_objects [OF this]
  show "parts_bytes (map BSSAPP xs @ [(buf, n)]) = concat xs @ take (unat n) buf"
    using objs(2) by (simp add: parts_bytes_def)
  have "map (\<lambda>p. unat (snd p)) (map BSSAPP xs) = map length xs"
    using assms(1) member_le_sum_list [of _ "map length xs"] by (fastforce intro: unat_BSSAPP)
  then show "parts_ok (map BSSAPP xs @ [(buf, n)])"
    using objs(1) assms by (simp add: parts_ok_def del: map_map)
qed

definition is_exchange_by ::
  "(RpHdr \<Rightarrow> srv \<Rightarrow> 'a outcome) \<Rightarrow> bytes \<Rightarrow> 'a \<Rightarrow> srv \<Rightarrow> 'a outcome \<Rightarrow> bool" where
  "is_exchange_by cont msg out s r \<longleftrightarrow> (\<exists>ps. r = exchange ps out s cont \<and> parts_ok ps
     \<and> parts_bytes ps = msg \<and> (\<forall>rp t. on_end (same_tx t) (cont rp t)))"

definition is_exchange :: "bytes \<Rightarrow> 'a \<Rightarrow> srv \<Rightarrow> 'a outcome \<Rightarrow> bool" where
  "is_exchange msg out s r \<longleftrightarrow> (\<exists>cont. is_exchange_by cont msg out s r)"

lemma is_exchange2:
  assumes "\<And>rp t. on_end (same_tx t) (k rp t)" and "length a + length b < 2 ^ 31"
    and "a @ b = msg" and "s = s'"
  shows "is_exchange_by k msg out s (exchange [BSSAPP a, BSSAPP b] out s' k)"
  unfolding is_exchange_by_def
  using assms parts_objects [of "[a, b]"]
  by (intro exI [of _ "[BSSAPP a, BSSAPP b]"]) simp

lemma is_exchange3:
  assumes "\<And>rp t. on_end (same_tx t) (k rp t)" and "length a + length b + unat n < 2 ^ 31"
    and "unat n \<le> length c" and "a @ b @ take (unat n) c = msg" and "s = s'"
  shows "is_exchange_by k msg out s (exchange [BSSAPP a, BSSAPP b, (c, n)] out s' k)"
  unfolding is_exchange_by_def
  using assms parts_snoc [of "[a, b]" n c]
  by (intro exI [of _ "[BSSAPP a, BSSAPP b, (c, n)]"]) simp

lemma is_exchange3_object:
  assumes "\<And>rp t. on_end (same_tx t) (k rp t)" and "length a + length b + length c < 2 ^ 31"
    and "a @ b @ c = msg" and "s = s'"
  shows "is_exchange_by k msg out s (exchange [BSSAPP a, BSSAPP b, BSSAPP c] out s' k)"
  unfolding is_exchange_by_def
  using assms parts_objects [of "[a, b, c]"]
  by (intro exI [of _ "[BSSAPP a, BSSAPP b, BSSAPP c]"]) simp

lemmas spec_simps = takes_lock_def opuid_step_def start_def req_uid_def message_def req_header_def
  announced_def mu_lock_def SIZEHDR_def Let_def call_ok_def names_fit_def

text \<open>The handlers assign the members in their own order.\<close>

lemma assign_order:
  "x\<lparr>rd_read_mode := m, rd_file_handle := h\<rparr> = x\<lparr>rd_file_handle := h, rd_read_mode := m\<rparr>"
  "y\<lparr>wr_write_mode := m, wr_file_handle := h\<rparr> = y\<lparr>wr_file_handle := h, wr_write_mode := m\<rparr>"
  "y\<lparr>wr_write_mode := m, wr_filename := fn\<rparr> = y\<lparr>wr_filename := fn, wr_write_mode := m\<rparr>"
  "z\<lparr>oo_mode := md, oo_flags := m\<rparr> = z\<lparr>oo_flags := m, oo_mode := md\<rparr>"
  by simp_all

lemma zhwkrfsp_exchange_read:
  assumes "stack_ok k" and "call_ok c" and "mode_fits k c" and "\<not> mu s" and "request k c = RqRead rq"
  shows "is_exchange_by (on_success fill f c) (message k c (req_uid c (opuid s))) (unchanged f c) (start c s)
    (zhwkrfsp fill f k c s)"
proof -
  have len: "length (rd_filename (k_rd k)) = FILENAME_LEN"
    using assms(1) by (simp add: stack_ok_def ok_OpRead_def)
  have sz: "length (enc_OpRead rq) = sizeof_OpRead"
    using assms by (cases c) (auto simp: call_ok_def names_fit_def enc_lengths ok_bodies)
  have "sizeof_OpHdr + sizeof_OpRead < 2 ^ 31" by (simp add: sizeof_defs)
  then show ?thesis
    using assms(2-5) sz
    by (cases c) (auto simp: spec_simps fuse_getattr_def fuse_readlink_def fuse_statfs_def fuse_read_def
       fuse_readdir_def FNCPY_ok len rd_body_def assign_order
       intro!: is_exchange2 read_reply_same_tx finish_readdir_same_tx)
qed

lemma zhwkrfsp_exchange_open:
  assumes "stack_ok k" and "call_ok c" and "mode_fits k c" and "\<not> mu s" and "request k c = RqOpen rq"
  shows "is_exchange_by (on_success fill f c) (message k c (req_uid c (opuid s))) (unchanged f c) (start c s)
    (zhwkrfsp fill f k c s)"
proof -
  have len: "length (oo_filename (k_op k)) = FILENAME_LEN"
    using assms(1) by (simp add: stack_ok_def ok_OpOpen_def)
  have sz: "length (enc_OpOpen rq) = sizeof_OpOpen"
    using assms by (cases c) (auto simp: call_ok_def names_fit_def enc_lengths ok_bodies)
  have "sizeof_OpHdr + sizeof_OpOpen < 2 ^ 31" by (simp add: sizeof_defs)
  then show ?thesis
    using assms(2-5) sz
    by (cases c) (auto simp: spec_simps mode_string_ok mode_fits_def fuse_mkdir_def fuse_open_def fuse_opendir_def fuse_creat_def
       FNCPY_ok len op_body_def assign_order bad_open_flags_def proto_flags_def open_flag_def or.assoc
       intro!: is_exchange2 finish_same_tx)
qed

lemma zhwkrfsp_exchange_close:
  assumes "stack_ok k" and "call_ok c" and "mode_fits k c" and "\<not> mu s" and "request k c = RqClose rq"
  shows "is_exchange_by (on_success fill f c) (message k c (req_uid c (opuid s))) (unchanged f c) (start c s)
    (zhwkrfsp fill f k c s)"
proof -
  have sz: "length (enc_OpClos rq) = sizeof_OpClos"
    using assms by (cases c) (auto simp: call_ok_def enc_lengths stack_ok_def)
  have "sizeof_OpHdr + sizeof_OpClos < 2 ^ 31" by (simp add: sizeof_defs)
  then show ?thesis
    using assms(2-5) sz
    by (cases c) (auto simp: spec_simps fuse_release_def fuse_releasedir_def
       intro!: is_exchange2 finish_same_tx)
qed

lemma zhwkrfsp_exchange_write:
  assumes "stack_ok k" and "call_ok c" and "mode_fits k c" and "takes_lock c \<Longrightarrow> \<not> mu s"
    and "request k c = RqWrite rq content"
  shows "is_exchange_by (on_success fill f c) (message k c (req_uid c (opuid s))) (unchanged f c) (start c s)
    (zhwkrfsp fill f k c s)"
proof -
  have len: "length (wr_filename (k_wr k)) = FILENAME_LEN" "length (k_srcbuf k) = FILENAME_LEN"
      "ok_TimeModder (k_tm k)"
    using assms(1) by (simp_all add: stack_ok_def ok_OpWrit_def)
  have sz: "length (enc_OpWrit rq) = sizeof_OpWrit"
    using assms by (cases c) (auto simp: call_ok_def names_fit_def enc_lengths ok_bodies)
  have small: "sizeof_OpHdr + sizeof_OpWrit + 2 ^ 30 < 2 ^ 31" "sizeof_TimeModder < 2 ^ 30"
      "FILENAME_LEN < 2 ^ 30" by (simp_all add: sizeof_defs)
  show ?thesis
    using assms(2-5) sz small
    by (cases c) (auto simp: spec_simps mode_string_ok mode_fits_def fuse_rmdir_def fuse_symlink_def fuse_chmod_def fuse_truncate_def
       fuse_write_def fuse_access_def fuse_unlink_def fuse_utimens_def add.assoc
       FNCPY_ok len wr_body_def assign_order ucast_size [simplified] enc_lengths length_fname_field
       unat_ucast_small unat_FILENAME_LEN
       intro!: is_exchange2 is_exchange3 is_exchange3_object finish_same_tx)
qed

lemma zhwkrfsp_exchange_by:
  assumes "stack_ok k" and "call_ok c" and "mode_fits k c" and "takes_lock c \<Longrightarrow> \<not> mu s"
  shows "is_exchange_by (on_success fill f c) (message k c (req_uid c (opuid s))) (unchanged f c) (start c s)
    (zhwkrfsp fill f k c s)"
proof (cases "request k c")
  case (RqWrite rq cs)
  then show ?thesis
    using assms by (blast intro: zhwkrfsp_exchange_write)
next
  case (RqRead rq)
  moreover have "takes_lock c"
    using RqRead by (cases c) (simp_all add: takes_lock_def)
  ultimately show ?thesis
    using assms by (intro zhwkrfsp_exchange_read)
next
  case (RqOpen rq)
  moreover have "takes_lock c"
    using RqOpen by (cases c) (simp_all add: takes_lock_def)
  ultimately show ?thesis
    using assms by (intro zhwkrfsp_exchange_open)
next
  case (RqClose rq)
  moreover have "takes_lock c"
    using RqClose assms(2) by (cases c) (simp_all add: takes_lock_def call_ok_def)
  ultimately show ?thesis
    using assms by (intro zhwkrfsp_exchange_close)
qed

lemma zhwkrfsp_exchange:
  assumes "stack_ok k" and "call_ok c" and "mode_fits k c" and "takes_lock c \<Longrightarrow> \<not> mu s"
  shows "is_exchange (message k c (req_uid c (opuid s))) (unchanged f c) (start c s)
    (zhwkrfsp fill f k c s)"
  using zhwkrfsp_exchange_by [OF assms, of fill f] by (auto simp: is_exchange_def)

lemma start_simps [simp]:
  "net (start c s) = net s" "live (start c s) = live s"
  by (simp_all add: start_def)

lemma start_mu: "mu (start c s) = (takes_lock c \<or> mu s)"
  by (simp add: start_def)

section \<open>The exchange on every connection\<close>

text \<open>
  Either the whole message is written and the call goes on to wait for the reply, from a state in which nothing
  has been read, and writes nothing more; or a write fails.
\<close>

lemma exchange_run:
  assumes "is_exchange_by cont msg out s r"
  shows "(\<exists>t. r = await_reply out t (\<lambda>rp s. if sint (rp_rtvl rp) < 0 then WARN (sint (rp_rtvl rp)) out s else cont rp s)
        \<and> tx (net t) = tx (net s) @ msg \<and> rx (net t) = rx (net s)
        \<and> mu t = mu s \<and> opuid t = opuid s \<and> live t = live s + 1
        \<and> (tx_good (txq (net s)) \<longrightarrow> tx_good (txq (net t))) \<and> on_end (same_tx t) r)
    \<or> (\<not> tx_good (txq (net s)) \<and> (\<exists>t m. r = Returns (- EBUSY) out (mu_unlock t)
         \<and> tx (net t) = tx (net s) @ take m msg \<and> rx (net t) = rx (net s)))"
proof -
  from assms obtain ps where r: "r = exchange ps out s cont" "parts_ok ps"
    and msg: "parts_bytes ps = msg" and cont: "\<And>rp t. on_end (same_tx t) (cont rp t)"
    by (auto simp: is_exchange_by_def)
  let ?k = "\<lambda>rp s. if sint (rp_rtvl rp) < 0 then WARN (sint (rp_rtvl rp)) out s else cont rp s"
  have tail: "on_end (same_tx t) (await_reply out t ?k)" for t
  proof (intro await_reply_same_tx)
    fix rp u
    assume u: "same_tx t u"
    have "on_end (same_tx t) (cont rp u)"
      using cont [of u rp] u by (simp add: on_end_def same_tx_def split: outcome.splits)
    then show "on_end (same_tx t) (?k rp u)"
      using u by simp
  qed
  from send_parts_cases [OF r(2), of out s "\<lambda>t. await_reply out t ?k"] show ?thesis
  proof (elim disjE exE conjE)
    fix es
    assume good: "tx_good (txq (net s)) \<longrightarrow> tx_good es"
    assume "send_parts ps out s (\<lambda>t. await_reply out t ?k) = await_reply out (s\<lparr>net := (net s)
        \<lparr>txq := es, tx := tx (net s) @ parts_bytes ps\<rparr>, evs := evs s @ [EvSend], live := live s + 1\<rparr>) ?k"
      (is "_ = await_reply out ?t ?k")
    then show ?thesis
      using tail [of ?t] good
      by (intro disjI1 exI [of _ ?t]) (simp add: r(1) exchange_def msg)
  next
    fix w m
    assume "\<not> tx_good (txq (net s))" "tx w = tx (net s) @ take m (parts_bytes ps)" "rx w = rx (net s)"
      "send_parts ps out s (\<lambda>t. await_reply out t ?k) =
         WARN (- EBUSY) out (s\<lparr>net := w, evs := evs s @ [EvSend]\<rparr>)"
    then show ?thesis
      by (intro disjI2 conjI exI [of _ "s\<lparr>net := w, evs := evs s @ [EvSend]\<rparr>"] exI [of _ m])
        (simp_all add: r(1) exchange_def WARN_def msg)
  qed
qed

lemma exchange_sends:
  assumes "is_exchange msg out s r"
  shows "on_end (\<lambda>t. tx (net t) = tx (net s) @ msg \<and> live t = live s + 1
        \<and> (tx_good (txq (net s)) \<longrightarrow> tx_good (txq (net t)))) r
    \<or> (\<not> tx_good (txq (net s)) \<and> (\<exists>t m. r = Returns (- EBUSY) out (mu_unlock t)
         \<and> tx (net t) = tx (net s) @ take m msg \<and> rx (net t) = rx (net s)))"
proof -
  from assms obtain cont where "is_exchange_by cont msg out s r"
    by (auto simp: is_exchange_def)
  from exchange_run [OF this] show ?thesis
    by (fastforce simp: same_tx_def elim!: on_end_mono)
qed

text \<open>The same for a call, with what it does after the reply header spelled out.\<close>

lemma after_reply_eq:
  "after_reply fill f c = (\<lambda>rp s. if sint (rp_rtvl rp) < 0 then WARN (sint (rp_rtvl rp)) (unchanged f c) s
     else on_success fill f c rp s)"
  by (simp add: after_reply_def fun_eq_iff)

lemma call_run:
  assumes "stack_ok k" and "call_ok c" and "mode_fits k c" and "takes_lock c \<longrightarrow> \<not> mu s"
  shows "(\<exists>t. zhwkrfsp fill f k c s = await_reply (unchanged f c) t (after_reply fill f c)
        \<and> tx (net t) = tx (net s) @ message k c (req_uid c (opuid s)) \<and> rx (net t) = rx (net s)
        \<and> mu t = (takes_lock c \<or> mu s) \<and> opuid t = opuid (start c s)
        \<and> (tx_good (txq (net s)) \<longrightarrow> tx_good (txq (net t))) \<and> on_end (same_tx t) (zhwkrfsp fill f k c s))
    \<or> (\<not> tx_good (txq (net s)) \<and> (\<exists>t m. zhwkrfsp fill f k c s = Returns (- EBUSY) (unchanged f c) (mu_unlock t)
         \<and> tx (net t) = tx (net s) @ take m (message k c (req_uid c (opuid s))) \<and> rx (net t) = rx (net s)))"
proof -
  have "is_exchange_by (on_success fill f c) (message k c (req_uid c (opuid s))) (unchanged f c) (start c s)
      (zhwkrfsp fill f k c s)"
    using assms by (intro zhwkrfsp_exchange_by) auto
  from exchange_run [OF this, folded after_reply_eq] show ?thesis
    unfolding start_mu start_simps by blast
qed


lemma exchange_error:
  assumes "is_exchange msg out s r" and "tx_good (txq (net s))"
    and "rx_avail (rx (net s)) = enc_RpHdr rp @ rest" and "sint (rp_rtvl rp) < 0"
  shows "\<exists>w. r = Returns (sint (rp_rtvl rp)) out
      (mu_unlock (s\<lparr>live := live s + 1, net := w, evs := evs s @ [EvSend, EvRecv]\<rparr>))
    \<and> tx w = tx (net s) @ msg \<and> tx_good (txq w) \<and> rx_avail (rx w) = rest"
proof -
  from assms(1) obtain ps cont where r: "r = exchange ps out s cont" "parts_ok ps"
    "parts_bytes ps = msg" by (auto simp: is_exchange_def is_exchange_by_def)
  from exchange_reply [OF r(2) assms(2,3), of out cont] show ?thesis
    using assms(4) by (auto simp: r WARN_def)
qed

lemma exchange_no_reply:
  assumes "is_exchange msg out s r" and "tx_good (txq (net s))"
    and "length (rx_avail (rx (net s))) < sizeof_RpHdr"
  shows "if rx_fails (rx (net s)) then \<exists>t. r = Returns (- EBUSY) out (mu_unlock t)
      \<and> tx (net t) = tx (net s) @ msg
    else \<exists>t. r = Hangs t \<and> tx (net t) = tx (net s) @ msg \<and> mu t = mu s"
proof -
  from assms(1) obtain ps cont where r: "r = exchange ps out s cont" "parts_ok ps"
    "parts_bytes ps = msg" by (auto simp: is_exchange_def is_exchange_by_def)
  let ?k = "\<lambda>rp s. if sint (rp_rtvl rp) < 0 then WARN (sint (rp_rtvl rp)) out s else cont rp s"
  from send_parts_ok [OF r(2) assms(2), of out "\<lambda>t. await_reply out t ?k"] obtain es where
    send: "r = await_reply out (s\<lparr>net := (net s)\<lparr>txq := es, tx := tx (net s) @ msg\<rparr>,
        evs := evs s @ [EvSend], live := live s + 1\<rparr>) ?k" (is "r = await_reply out ?t ?k")
    by (auto simp: r exchange_def)
  have small: "sizeof_RpHdr < 2 ^ 31" by (simp add: sizeof_defs)
  have short: "length (rx_avail (rx (net ?t))) < sizeof_RpHdr"
    using assms(3) by simp
  note fail = recv_struct_fail [OF short small, of dec_RpHdr "\<lparr>rp_size = 0, rp_ouid = 0, rp_rtvl = 0\<rparr>"]
  note hang = recv_struct_hang [OF short small, of dec_RpHdr "\<lparr>rp_size = 0, rp_ouid = 0, rp_rtvl = 0\<rparr>"]
  show ?thesis
    using fail hang
    by (auto simp: send await_reply_def wait_reply_def WARN_def Let_def)
      (rule exI, rule conjI, rule refl, simp)
qed

end
