(* ===== verification/FuseProps.thy ===== *)
theory FuseProps
  imports FuseSpec
begin

text \<open>
  The properties of the handlers: what leaves the process for every call, what a failing or absent
  peer does to it, which calls are refused, and what each handler delivers to its caller when the
  client answers.
\<close>

section \<open>Example values\<close>

text \<open>
  A stack of zeroed objects, with a text of eleven characters for every mode as libbsd promises it, and a process whose connection has the given replies to deliver.
\<close>

definition stack0 :: stack where
  "stack0 = \<lparr>
     k_rd = \<lparr>rd_filename = replicate 4096 0, rd_file_handle = 0, rd_offset = 0, rd_count = 0,
             rd_read_mode = 0, rd_pad = replicate 7 0\<rparr>,
     k_wr = \<lparr>wr_filename = replicate 4096 0, wr_file_handle = 0, wr_offset = 0, wr_count = 0,
             wr_write_mode = 0, wr_pad = replicate 7 0\<rparr>,
     k_op = \<lparr>oo_filename = replicate 4096 0, oo_flags = 0, oo_pad = [0], oo_mode = 0\<rparr>,
     k_cl = \<lparr>cl_file_handle = 0, cl_is_dir = 0, cl_pad = replicate 7 0\<rparr>,
     k_tm = \<lparr>tm_atime = 0, tm_atime_nsec = 0, tm_mtime = 0, tm_mtime_nsec = 0, tm_flags = 0,
             tm_pad = replicate 7 0\<rparr>,
     k_srcbuf = replicate 4096 0, k_strmode = (\<lambda>m. replicate 11 45)\<rparr>"

definition srv0 :: "rxev list \<Rightarrow> txev list \<Rightarrow> srv" where
  "srv0 es qs = \<lparr>net = \<lparr>rx = es, txq = qs, tx = [], zhwk_error = 0\<rparr>, opuid = 0, mu = False,
     evs = [], live = 0\<rparr>"

definition fill0 :: "bytes list \<Rightarrow> bytes \<Rightarrow> stat \<Rightarrow> bool \<times> bytes list" where
  "fill0 ns n st = (False, ns @ [cstr n])"

lemma stack0_ok [simp]: "stack_ok stack0"
  by (simp add: stack_ok_def stack0_def ok_OpRead_def ok_OpWrit_def ok_OpOpen_def ok_OpClos_def
      ok_TimeModder_def FILENAME_LEN_def)

lemma srv0_simps [simp]:
  "mu (srv0 es qs) = False" "rx (net (srv0 es qs)) = es" "txq (net (srv0 es qs)) = qs"
  "tx (net (srv0 es qs)) = []" "opuid (srv0 es qs) = 0"
  by (simp_all add: srv0_def)

lemma call_ok_examples [simp]:
  "call_ok (Unlink [47])" "call_ok (Rmdir [47, 97])" "call_ok (Chmod [47] m)"
  "call_ok (Getattr [47] st)"
  by (simp_all add: call_ok_def names_fit_def FILENAME_LEN_def strlen_def cstr_def)

lemma tx_good_Nil [simp]: "tx_good []"
  by (simp add: tx_good_def)

section \<open>Every call\<close>

lemma mode_fits_examples [simp]:
  "mode_fits k (Unlink fn)" "mode_fits k (Rmdir fn)" "mode_fits k (Getattr fn st)"
  by (simp_all add: mode_fits_def)

text \<open>
  C1: what a call writes, on every connection. Unless a write fails, the call writes exactly its message
  before it reads anything, waits for the reply header, and goes on as \<open>after_reply\<close> says, writing nothing
  more, whether it returns, aborts or waits for ever. When a write fails it returns \<^verbatim>\<open>-EBUSY\<close> and has written a
  prefix of the message, with the caller's objects untouched and the mutex free. The call converts no mode, or
  into a text that fits the array of eleven bytes.
\<close>

theorem call_sends_message:
  assumes "stack_ok k" and "call_ok c" and "mode_fits k c" and "takes_lock c \<longrightarrow> \<not> mu s"
  shows "(\<exists>t. zhwkrfsp fill f k c s = await_reply (unchanged f c) t (after_reply fill f c)
        \<and> tx (net t) = tx (net s) @ message k c (req_uid c (opuid s)) \<and> rx (net t) = rx (net s)
        \<and> mu t = (takes_lock c \<or> mu s)
        \<and> on_end (\<lambda>u. tx (net u) = tx (net s) @ message k c (req_uid c (opuid s))) (zhwkrfsp fill f k c s))
    \<or> (\<not> tx_good (txq (net s)) \<and>
       (\<exists>t m. zhwkrfsp fill f k c s = Returns (- EBUSY) (unchanged f c) t \<and> \<not> mu t
          \<and> tx (net t) = tx (net s) @ take m (message k c (req_uid c (opuid s)))))"
proof -
  from call_run [OF assms, of fill f] show ?thesis
  proof (elim disjE exE conjE, goal_cases)
    case (1 t)
    then have "on_end (\<lambda>u. tx (net u) = tx (net s) @ message k c (req_uid c (opuid s))) (zhwkrfsp fill f k c s)"
      by (elim on_end_mono) (simp add: same_tx_def)
    with 1 show ?case
      by (intro disjI1 exI [of _ t]) simp
  next
    case (2 t m)
    then show ?case
      by (intro disjI2 conjI exI [of _ "mu_unlock t"] exI [of _ m]) (simp_all add: mu_unlock_def)
  qed
qed

definition reply_enoent :: RpHdr where
  "reply_enoent = \<lparr>rp_size = 12, rp_ouid = 0, rp_rtvl = - 2\<rparr>"

text \<open>A call that is answered, and one that waits for ever, on a connection that is closed.\<close>

theorem call_sends_message_witness:
  "(\<exists>t. zhwkrfsp fill0 [] stack0 (Unlink [47]) (srv0 [RxData (enc_RpHdr reply_enoent)] []) = Returns (- 2) ONone t
      \<and> tx (net t) = message stack0 (Unlink [47]) 0)
    \<and> (\<exists>t. zhwkrfsp fill0 [] stack0 (Rmdir [47, 97]) (srv0 [] []) = Hangs t
      \<and> tx (net t) = message stack0 (Rmdir [47, 97]) 1)"
proof
  have exs: "is_exchange (message stack0 c (req_uid c (opuid (srv0 es [])))) (unchanged [] c) (start c (srv0 es []))
      (zhwkrfsp fill0 [] stack0 c (srv0 es []))" if "c = Unlink [47] \<or> c = Rmdir [47, 97]" for c es
    using that by (intro zhwkrfsp_exchange) auto
  obtain t where "zhwkrfsp fill0 [] stack0 (Unlink [47]) (srv0 [RxData (enc_RpHdr reply_enoent)] []) = Returns (- 2) ONone t"
    using exchange_error [OF exs [of "Unlink [47]" "[RxData (enc_RpHdr reply_enoent)]"], where rp = reply_enoent and rest = "[]"]
    by (auto simp: reply_enoent_def)
  then show "\<exists>t. zhwkrfsp fill0 [] stack0 (Unlink [47]) (srv0 [RxData (enc_RpHdr reply_enoent)] []) = Returns (- 2) ONone t
      \<and> tx (net t) = message stack0 (Unlink [47]) 0"
    using call_sends_message [of stack0 "Unlink [47]" "srv0 [RxData (enc_RpHdr reply_enoent)] []" fill0 "[]"]
    by (auto simp: req_uid_def takes_lock_def)
  obtain t where "zhwkrfsp fill0 [] stack0 (Rmdir [47, 97]) (srv0 [] []) = Hangs t"
    using exchange_no_reply [OF exs [of "Rmdir [47, 97]" "[]"]] by (auto simp: sizeof_defs)
  then show "\<exists>t. zhwkrfsp fill0 [] stack0 (Rmdir [47, 97]) (srv0 [] []) = Hangs t
      \<and> tx (net t) = message stack0 (Rmdir [47, 97]) 1"
    using call_sends_message [of stack0 "Rmdir [47, 97]" "srv0 [] []" fill0 "[]"]
    by (auto simp: req_uid_def takes_lock_def)
qed

text \<open>
  C8: when the client reports an error, every call that converts no mode, or into a text that fits its array,
  returns that error, leaves the caller's objects as they were, releases the mutex and leaves the stream just
  behind the reply header.
\<close>

theorem call_returns_client_error:
  assumes "stack_ok k" and "call_ok c" and "mode_fits k c" and "takes_lock c \<longrightarrow> \<not> mu s" and "tx_good (txq (net s))"
    and "rx_avail (rx (net s)) = enc_RpHdr rp @ rest" and "sint (rp_rtvl rp) < 0"
  shows "\<exists>t. zhwkrfsp fill f k c s = Returns (sint (rp_rtvl rp)) (unchanged f c) t
    \<and> \<not> mu t \<and> rx_avail (rx (net t)) = rest
    \<and> tx (net t) = tx (net s) @ message k c (req_uid c (opuid s))"
proof -
  have "takes_lock c \<Longrightarrow> \<not> mu s" using assms(4) by blast
  from exchange_error [OF zhwkrfsp_exchange [OF assms(1-3) this, where f = f and fill = fill],
      where rp = rp and rest = rest] assms(5-)
  show ?thesis
    by (auto simp: mu_unlock_def)
qed

theorem call_returns_client_error_witness:
  "\<exists>t. zhwkrfsp fill0 [] stack0 (Unlink [47]) (srv0 [RxData (enc_RpHdr reply_enoent)] [])
       = Returns (- 2) ONone t \<and> \<not> mu t"
  using call_returns_client_error [of stack0 "Unlink [47]" "srv0 [RxData (enc_RpHdr reply_enoent)] []"
      reply_enoent "[]" fill0 "[]"]
  by (auto simp: reply_enoent_def)

text \<open>
  C9: when the connection breaks before a whole reply header has arrived, a call that converts no mode, or into
  a text that fits its array, returns \<^verbatim>\<open>-EBUSY\<close>; when the client closes the connection instead, the call never
  returns, and whoever takes the mutex waits for ever with it. This includes \<^verbatim>\<open>mkdir\<close>, to which the README says
  the client need not reply.
\<close>

theorem call_without_reply:
  assumes "stack_ok k" and "call_ok c" and "mode_fits k c" and "takes_lock c \<longrightarrow> \<not> mu s" and "tx_good (txq (net s))"
    and "length (rx_avail (rx (net s))) < sizeof_RpHdr"
  shows "if rx_fails (rx (net s))
    then \<exists>t. zhwkrfsp fill f k c s = Returns (- EBUSY) (unchanged f c) t \<and> \<not> mu t
    else \<exists>t. zhwkrfsp fill f k c s = Hangs t \<and> mu t = (takes_lock c \<or> mu s)
      \<and> tx (net t) = tx (net s) @ message k c (req_uid c (opuid s))"
proof -
  have "takes_lock c \<Longrightarrow> \<not> mu s" using assms(4) by blast
  from exchange_no_reply [OF zhwkrfsp_exchange [OF assms(1-3) this, where f = f and fill = fill]] assms(5-)
  show ?thesis
    unfolding start_mu by (auto simp: mu_unlock_def split: if_splits)
qed

theorem call_without_reply_witness:
  "(\<exists>t. zhwkrfsp fill0 [] stack0 (Rmdir [47, 97]) (srv0 [RxData [1, 2], RxFail] [])
       = Returns (- EBUSY) ONone t \<and> \<not> mu t)
   \<and> (\<exists>t. zhwkrfsp fill0 [] stack0 (Rmdir [47, 97]) (srv0 [RxData [1, 2]] []) = Hangs t \<and> mu t)"
  using call_without_reply [of stack0 "Rmdir [47, 97]" "srv0 [RxData [1, 2], RxFail] []" fill0 "[]"]
    call_without_reply [of stack0 "Rmdir [47, 97]" "srv0 [RxData [1, 2]] []" fill0 "[]"]
  by (auto simp: sizeof_defs takes_lock_def)

text \<open>
  The flag combinations the protocol cannot express are refused with \<^verbatim>\<open>-EINVAL\<close>: nothing is
  sent, nothing is read and the mutex is free again.
\<close>

lemma call_refused:
  assumes "stack_ok k" and "names_fit c" and "refused c" and "\<not> mu s"
  shows "zhwkrfsp fill f k c s = Returns (- EINVAL) (unchanged f c)
     (s\<lparr>opuid := opuid s + 1, mu := False, evs := evs s @ [EvLock, EvUnlock]\<rparr>)"
proof -
  have len: "length (oo_filename (k_op k)) = FILENAME_LEN"
    using assms(1) by (simp add: stack_ok_def ok_OpOpen_def)
  show ?thesis
    using assms(2-4)
    by (cases c) (auto simp: fuse_open_def fuse_opendir_def fuse_creat_def names_fit_def FNCPY_ok len
        mu_lock_def Let_def bad_open_flags_def WARN_def mu_unlock_def or.assoc)
qed

lemma call_refused_witness:
  "zhwkrfsp fill0 [] stack0
     (Open [47] \<lparr>fi_flags = 0x400, fi_writepage = False, fi_direct_io = False, fi_fh = 7\<rparr>) (srv0 [] [])
   = Returns (- EINVAL) (OInfo \<lparr>fi_flags = 0x400, fi_writepage = False, fi_direct_io = False, fi_fh = 7\<rparr>)
     ((srv0 [] [])\<lparr>opuid := 1, evs := [EvLock, EvUnlock]\<rparr>)"
proof -
  let ?c = "Open [47] \<lparr>fi_flags = 0x400, fi_writepage = False, fi_direct_io = False, fi_fh = 7\<rparr>"
  have "names_fit ?c"
    by (simp add: names_fit_def FILENAME_LEN_def strlen_def cstr_def)
  moreover have "refused ?c"
    by (simp add: bad_open_flags_def o_flag_defs)
  ultimately show ?thesis
    using call_refused [of stack0 ?c "srv0 [] []" fill0 "[]"] by (simp add: srv0_def)
qed

text \<open>
  C35: a path name of 4096 characters or more runs over the end of the message's name field in every
  call that carries one.
\<close>

theorem long_name_overflows:
  assumes "stack_ok k" and "call_names c = fn # ns" and "FILENAME_LEN \<le> strlen fn"
    and "takes_lock c \<longrightarrow> \<not> mu s"
  shows "zhwkrfsp fill f k c s = Faults"
proof -
  have len: "length (oo_filename (k_op k)) = FILENAME_LEN" "length (rd_filename (k_rd k)) = FILENAME_LEN"
      "length (wr_filename (k_wr k)) = FILENAME_LEN"
    using assms(1) by (simp_all add: stack_ok_def ok_OpOpen_def ok_OpRead_def ok_OpWrit_def)
  show ?thesis
    using assms(2-4)
    by (cases c) (simp_all add: fuse_getattr_def fuse_readlink_def fuse_statfs_def fuse_read_def
        fuse_readdir_def fuse_rmdir_def fuse_symlink_def fuse_chmod_def fuse_truncate_def fuse_write_def
        fuse_access_def fuse_unlink_def fuse_utimens_def fuse_mkdir_def fuse_open_def fuse_opendir_def
        fuse_creat_def FNCPY_overflow mode_string_Faults len mu_lock_def Let_def takes_lock_def)
qed

theorem long_name_overflows_witness:
  "zhwkrfsp fill0 [] stack0 (Unlink (replicate 4096 97)) (srv0 [] []) = Faults"
  using long_name_overflows [of stack0 "Unlink (replicate 4096 97)" "replicate 4096 97" "[]"
      "srv0 [] []" fill0 "[]"]
  by (simp add: takes_lock_def FILENAME_LEN_def strlen_def cstr_id)

text \<open>
  C10: the lock discipline. Whatever the connection does, a call that returns has released the mutex
  as its last step and used the socket only before that; all calls but \<^verbatim>\<open>chmod\<close>, \<^verbatim>\<open>access\<close>, \<^verbatim>\<open>unlink\<close>
  and \<^verbatim>\<open>utimens\<close> took the mutex first and moved \<^verbatim>\<open>opuid\<close> on (\<^verbatim>\<open>truncate\<close> by two); those four take
  no mutex and leave \<^verbatim>\<open>opuid\<close> as it is.
\<close>

theorem call_lock_discipline:
  assumes "c \<noteq> Init"
  shows "on_return (\<lambda>v t. \<not> mu t \<and> opuid t = opuid s + opuid_step c
      \<and> (\<exists>es. evs t = evs s @ (if takes_lock c then [EvLock] else []) @ es @ [EvUnlock]
            \<and> set es \<subseteq> {EvSend, EvRecv}))
    (zhwkrfsp fill f k c s)"
  using zhwkrfsp_bracketed [OF assms, of s fill f k] by (simp add: bracketed_def [abs_def])

theorem call_lock_discipline_witness:
  "on_return (\<lambda>v t. \<not> mu t \<and> opuid t = 2 \<and> (\<exists>es. evs t = [EvLock] @ es @ [EvUnlock]))
     (zhwkrfsp fill0 [] stack0 (Truncate [47] 5) (srv0 [RxFail] []))"
  using call_lock_discipline [of "Truncate [47] 5" "srv0 [RxFail] []" fill0 "[]" stack0]
  by (auto simp: on_return_def takes_lock_def opuid_step_def srv0_def split: outcome.splits)

section \<open>The message at the other end\<close>

text \<open>
  How a client takes the body of an operation from the stream once \<^verbatim>\<open>wait_operation\<close> has returned the
  header \<open>h\<close>: with the function of \<^verbatim>\<open>prot.c\<close> for its kind, into any destination, leaving \<open>rest\<close>.
\<close>

primrec received :: "rq \<Rightarrow> OpHdr \<Rightarrow> world \<Rightarrow> bytes \<Rightarrow> bool" where
  "received (RqRead x) h w rest \<longleftrightarrow>
     (\<forall>d. \<exists>w2. as_read d w = Some (Done (0, x, w2)) \<and> rx_avail (rx w2) = rest)"
| "received (RqWrite x cs) h w rest \<longleftrightarrow>
     (\<forall>d buf. length cs \<le> length buf \<longrightarrow>
        (\<exists>w2. as_write d buf (ucast (op_size h) - of_nat sizeof_OpHdr) w
               = Some (Done (0, x, cs @ drop (length cs) buf, w2)) \<and> rx_avail (rx w2) = rest))"
| "received (RqOpen x) h w rest \<longleftrightarrow>
     (\<forall>d. \<exists>w2. as_open d w = Some (Done (0, x, w2)) \<and> rx_avail (rx w2) = rest)"
| "received (RqClose x) h w rest \<longleftrightarrow>
     (\<forall>d. \<exists>w2. as_close d w = Some (Done (0, x, w2)) \<and> rx_avail (rx w2) = rest)"

primrec rq_ok :: "rq \<Rightarrow> bool" where
  "rq_ok (RqRead x) = ok_OpRead x"
| "rq_ok (RqWrite x cs) = (ok_OpWrit x \<and> length cs < 2 ^ 30)"
| "rq_ok (RqOpen x) = ok_OpOpen x"
| "rq_ok (RqClose x) = ok_OpClos x"

text \<open>The name field of a request.\<close>

primrec rq_name :: "rq \<Rightarrow> bytes" where
  "rq_name (RqRead x) = rd_filename x"
| "rq_name (RqWrite x cs) = wr_filename x"
| "rq_name (RqOpen x) = oo_filename x"
| "rq_name (RqClose x) = []"

lemma request_ok: "stack_ok k \<Longrightarrow> call_ok c \<Longrightarrow> rq_ok (request k c)"
  by (cases c) (auto simp: call_ok_def names_fit_def ok_bodies stack_ok_def enc_lengths
      length_fname_field sizeof_defs)

lemma request_name: "call_names c = fn # ns \<Longrightarrow> cstr (rq_name (request k c)) = cstr fn"
  by (cases c) (auto simp: rd_body_def wr_body_def op_body_def)

lemma small_sizes:
  "sizeof_OpHdr < 2 ^ 31" "sizeof_OpRead < 2 ^ 31" "sizeof_OpWrit < 2 ^ 31" "sizeof_OpOpen < 2 ^ 31"
  "sizeof_OpClos < 2 ^ 31"
  by (simp_all add: sizeof_defs)

lemma remain_of_size:
  assumes "n < 2 ^ 31"
  shows "unat (ucast (of_nat (sizeof_OpHdr + n) :: u32) - of_nat sizeof_OpHdr :: u64) = n"
proof -
  have "unat (of_nat (sizeof_OpHdr + n) :: u32) = sizeof_OpHdr + n"
    using assms by (simp add: unat_of_nat sizeof_OpHdr_def del: of_nat_add)
  moreover have "take_bit 64 (sizeof_OpHdr + n) = sizeof_OpHdr + n"
    using assms by (simp add: take_bit_nat_eq_self sizeof_OpHdr_def)
  ultimately have "unat (ucast (of_nat (sizeof_OpHdr + n) :: u32) :: u64) = sizeof_OpHdr + n"
    by (simp add: unsigned_ucast_eq unsigned_take_bit_eq)
  moreover have "unat (of_nat sizeof_OpHdr :: u64) = sizeof_OpHdr"
    by (simp add: sizeof_OpHdr_def)
  ultimately show ?thesis
    by (subst unat_sub) (simp_all add: word_le_nat_alt)
qed

lemma body_received:
  assumes "rq_ok r" and "rx_avail (rx w) = rq_bytes r @ rest"
    and "op_size h = of_nat (sizeof_OpHdr + length (rq_bytes r))"
  shows "received r h w rest"
proof (cases r)
  case (RqRead x)
  then show ?thesis
    using assms c_OpRead.recv_enc [OF _ small_sizes(2)] by (fastforce simp: as_read_def)
next
  case (RqOpen x)
  then show ?thesis
    using assms c_OpOpen.recv_enc [OF _ small_sizes(4)] by (fastforce simp: as_open_def)
next
  case (RqClose x)
  then show ?thesis
    using assms c_OpClos.recv_enc [OF _ small_sizes(5)] by (fastforce simp: as_close_def)
next
  case (RqWrite x cs)
  then have len: "length (rq_bytes r) = sizeof_OpWrit + length cs"
    using assms(1) by (simp add: enc_lengths)
  have "sizeof_OpWrit + length cs < 2 ^ 31"
    using assms(1) RqWrite by (simp add: sizeof_defs)
  note remain = remain_of_size [OF this]
  show ?thesis
    using as_write_ok [of x w cs rest _ _] remain assms RqWrite len by fastforce
qed

lemma message_taken:
  assumes "stack_ok k" and "call_ok c" and "\<forall>fn src. c \<noteq> Symlink fn src"
    and "rx_avail (rx w) = message k c u @ rest"
  shows "\<exists>h w1. wait_operation h0 w = Some (Done (0, h, w1)) \<and> op_ouid h = u
    \<and> op_opid h = rq_opid (request k c) \<and> received (request k c) h w1 rest
    \<and> (\<forall>fn ns. call_names c = fn # ns \<longrightarrow> cstr (rq_name (request k c)) = cstr fn)"
proof -
  have "announced k c = sizeof_OpHdr + length (rq_bytes (request k c))"
    using assms(3) by (simp add: announced_def split: fuse_call.split)
  then have size: "op_size (req_header k c u) = of_nat (sizeof_OpHdr + length (rq_bytes (request k c)))"
    by (simp add: req_header_def)
  have "rx_avail (rx w) = enc_OpHdr (req_header k c u) @ rq_bytes (request k c) @ rest"
    using assms(4) by (simp add: message_def)
  from c_OpHdr.recv_enc [OF _ small_sizes(1) this, of h0] obtain es where
    hd: "wait_operation h0 w = Some (Done (0, req_header k c u, w\<lparr>rx := es\<rparr>))"
      "rx_avail es = rq_bytes (request k c) @ rest" by (auto simp: wait_operation_def)
  from body_received [OF request_ok [OF assms(1,2)] _ size, of "w\<lparr>rx := es\<rparr>" rest] hd
  show ?thesis
    by (intro exI [of _ "req_header k c u"] exI [of _ "w\<lparr>rx := es\<rparr>"])
      (auto simp: req_header_def request_name)
qed

text \<open>
  C2: what a call sends is what a client that uses \<^verbatim>\<open>wait_operation\<close> and the matching function of
  \<^verbatim>\<open>prot.c\<close> receives, for any segmentation of the stream: the header with the request's identifier
  and kind, the request with the path the caller gave, the content of a write cut off by the announced
  size, and nothing of what follows.
\<close>

theorem message_received:
  assumes "stack_ok k" and "call_ok c" and "\<forall>fn src. c \<noteq> Symlink fn src"
    and "rx_avail (rx w) = message k c u @ rest"
  shows "\<exists>h w1. wait_operation h0 w = Some (Done (0, h, w1)) \<and> op_ouid h = u
    \<and> op_opid h = rq_opid (request k c) \<and> received (request k c) h w1 rest
    \<and> (\<forall>fn ns. call_names c = fn # ns \<longrightarrow> cstr (rq_name (request k c)) = cstr fn)"
  by (rule message_taken [OF assms])

theorem message_received_witness:
  "\<exists>h w1. wait_operation \<lparr>op_size = 0, op_ouid = 0, op_opid = 0\<rparr>
        \<lparr>rx = [RxData (message stack0 (Chmod [47] 420) 9), RxData [1, 2]], txq = [], tx = [], zhwk_error = 0\<rparr>
      = Some (Done (0, h, w1)) \<and> op_ouid h = 9 \<and> op_opid h = OPER_WRITE
    \<and> received (RqWrite (wr_body stack0 [47] WR_CHMOD) (le_bytes 4 (420 :: u32))) h w1 [1, 2]"
  using message_received [of stack0 "Chmod [47] 420"
      "\<lparr>rx = [RxData (message stack0 (Chmod [47] 420) 9), RxData [1, 2]], txq = [], tx = [], zhwk_error = 0\<rparr>"
      9 "[1, 2]" "\<lparr>op_size = 0, op_ouid = 0, op_opid = 0\<rparr>"]
  by (auto simp del: received.simps)

text \<open>
  C38: the exception. A client that takes a \<^verbatim>\<open>symlink\<close> request from the stream by the announced size
  gets the characters of the link target, and the rest of the 4096-byte field stays in the stream in
  front of the next request.
\<close>

theorem symlink_desynchronises:
  assumes "stack_ok k" and "names_fit (Symlink fn src)" and "length buf = strlen src"
    and "rx_avail (rx w) = message k (Symlink fn src) u @ rest"
  shows "\<exists>h w1 x w2. wait_operation h0 w = Some (Done (0, h, w1))
    \<and> as_write d buf (ucast (op_size h) - of_nat sizeof_OpHdr) w1 = Some (Done (0, x, cstr src, w2))
    \<and> (\<exists>junk. rx_avail (rx w2) = junk @ rest \<and> length junk = FILENAME_LEN - strlen src
          \<and> junk \<noteq> [])"
proof -
  let ?c = "Symlink fn src" and ?x = "wr_body k fn WR_SYMLINK"
  let ?junk = "0 # drop (Suc (strlen src)) (k_srcbuf k)"
  have fit: "strlen fn < FILENAME_LEN" "strlen src < FILENAME_LEN"
    and len: "length (k_srcbuf k) = FILENAME_LEN"
    using assms(1,2) by (simp_all add: names_fit_def stack_ok_def)
  have "rx_avail (rx w) = enc_OpHdr (req_header k ?c u) @ enc_OpWrit ?x @ cstr src @ ?junk @ rest"
    using assms(4) by (simp add: message_def fname_field_def)
  from c_OpHdr.recv_enc [OF _ small_sizes(1) this, of h0] obtain es where
    hd: "wait_operation h0 w = Some (Done (0, req_header k ?c u, w\<lparr>rx := es\<rparr>))"
      "rx_avail es = enc_OpWrit ?x @ cstr src @ ?junk @ rest" by (auto simp: wait_operation_def)
  have "sizeof_OpWrit + strlen src < 2 ^ 31"
    using fit(2) by (simp add: sizeof_defs)
  from remain_of_size [OF this] have remain:
    "unat (ucast (op_size (req_header k ?c u)) - of_nat sizeof_OpHdr :: u64)
       = sizeof_OpWrit + length (cstr src)"
    by (simp add: req_header_def announced_def)
  have "length (cstr src) < 2 ^ 31"
    using fit(2) by (simp add: sizeof_defs)
  from as_write_ok [OF ok_bodies(2) [OF assms(1) fit(1)] _ remain this,
      where w = "w\<lparr>rx := es\<rparr>" and rest = "?junk @ rest" and buffer = buf and dest = d] hd(2) assms(3)
  obtain es' where "as_write d buf (ucast (op_size (req_header k ?c u)) - of_nat sizeof_OpHdr)
      (w\<lparr>rx := es\<rparr>) = Some (Done (0, ?x, cstr src, w\<lparr>rx := es'\<rparr>))"
    "rx_avail es' = ?junk @ rest" by auto
  then show ?thesis
    using hd(1) fit(2) len by (intro exI conjI) (assumption | simp)+
qed

theorem symlink_desynchronises_witness:
  "\<exists>h w1 x w2. wait_operation \<lparr>op_size = 0, op_ouid = 0, op_opid = 0\<rparr>
       \<lparr>rx = [RxData (message stack0 (Symlink [47, 97] [98]) 1)], txq = [], tx = [], zhwk_error = 0\<rparr>
     = Some (Done (0, h, w1))
    \<and> as_write (k_wr stack0) [0] (ucast (op_size h) - of_nat sizeof_OpHdr) w1
      = Some (Done (0, x, [98], w2))
    \<and> length (rx_avail (rx w2)) = 4095"
proof -
  have "names_fit (Symlink [47, 97] [98])" "strlen [98] = 1" "cstr [98] = [98]"
    by (simp_all add: names_fit_def strlen_def cstr_def FILENAME_LEN_def)
  then show ?thesis
    using symlink_desynchronises [of stack0 "[47, 97]" "[98]" "[0]"
        "\<lparr>rx = [RxData (message stack0 (Symlink [47, 97] [98]) 1)], txq = [], tx = [], zhwk_error = 0\<rparr>"
        1 "[]" "\<lparr>op_size = 0, op_ouid = 0, op_opid = 0\<rparr>" "k_wr stack0"]
    by (auto simp: FILENAME_LEN_def)
qed

end
