(* ===== verification/FuseDeliver.thy ===== *)
theory FuseDeliver
  imports FuseProps
begin

text \<open>
  What each handler hands to its caller when the client answers as the protocol says: one theorem per
  kind of reply, on any segmentation of the reply and any pattern of partial writes of the request.
\<close>

section \<open>What the handlers deliver\<close>

lemma exchange_pass:
  assumes "parts_ok ps" and "tx_good (txq (net s))" and "rx_avail (rx (net s)) = enc_RpHdr rp @ rest"
    and "0 \<le> sint (rp_rtvl rp)"
  shows "\<exists>w. exchange ps out s k = k rp (s\<lparr>live := live s + 1, net := w, evs := evs s @ [EvSend, EvRecv]\<rparr>)
    \<and> tx w = tx (net s) @ parts_bytes ps \<and> rx_avail (rx w) = rest"
  using exchange_reply [OF assms(1-3), of out k] assms(4) by (auto simp: Let_def)

lemma parts2_ok: "length a + length b < 2 ^ 31 \<Longrightarrow> parts_ok [BSSAPP a, BSSAPP b]"
  using parts_objects(1) [of "[a, b]"] by simp

text \<open>
  The answer to a call reached its handler: the result, the caller's object, a free mutex, and a
  stream that stands exactly behind the answer.
\<close>

definition delivers :: "'a outcome \<Rightarrow> int \<Rightarrow> 'a \<Rightarrow> bytes \<Rightarrow> bool" where
  "delivers r v x rest \<longleftrightarrow> (\<exists>t. r = Returns v x t \<and> \<not> mu t \<and> rx_avail (rx (net t)) = rest)"

lemma delivers_unlock: "rx_avail (rx (net t)) = rest \<Longrightarrow> delivers (Returns v x (mu_unlock t)) v x rest"
  by (simp add: delivers_def mu_unlock_def)

lemma exchange_rule:
  assumes "parts_ok ps" and "tx_good (txq (net s))" and "rx_avail (rx (net s)) = enc_RpHdr rp @ bs"
    and "0 \<le> sint (rp_rtvl rp)"
    and "\<And>t. rx_avail (rx (net t)) = bs \<Longrightarrow> mu t = mu s \<Longrightarrow> live t = live s + 1 \<Longrightarrow> P (k rp t)"
  shows "P (exchange ps out s k)"
proof -
  from exchange_pass [OF assms(1-4), of out k] obtain w where
    ex: "exchange ps out s k = k rp (s\<lparr>live := live s + 1, net := w, evs := evs s @ [EvSend, EvRecv]\<rparr>)"
    and w: "rx_avail (rx w) = bs" by blast
  show ?thesis
    unfolding ex using w by (intro assms(5)) simp_all
qed

lemma delivers_exchange:
  assumes "parts_ok ps" and "tx_good (txq (net s))" and "rx_avail (rx (net s)) = enc_RpHdr rp @ bs"
    and "0 \<le> sint (rp_rtvl rp)" and "\<And>t. rx_avail (rx (net t)) = bs \<Longrightarrow> delivers (k rp t) v x rest"
  shows "delivers (exchange ps out s k) v x rest"
  by (rule exchange_rule [where P = "\<lambda>r. delivers r v x rest"]) (use assms in auto)

lemma delivers_read:
  assumes "rx_avail (rx (net s)) = bs @ rest" and "unat n = length bs" and "length bs < 2 ^ 31"
    and "length bs \<le> length buf"
    and "\<And>t. rx_avail (rx (net t)) = rest \<Longrightarrow> delivers (k (bs @ drop (length bs) buf) t) v x rest"
  shows "delivers (read_reply buf n out s k) v x rest"
proof -
  from read_reply_ok [OF assms(1-4), of out k] obtain es where
    ex: "read_reply buf n out s k = k (bs @ drop (length bs) buf)
      (s\<lparr>net := (net s)\<lparr>rx := es\<rparr>, evs := evs s @ [EvRecv]\<rparr>)" and es: "rx_avail es = rest" by blast
  show ?thesis
    unfolding ex using es by (intro assms(5)) simp
qed

text \<open>The members of \<^verbatim>\<open>struct stat\<close> that make the trip, and those that keep the caller's values.\<close>

definition merge_stat :: "stat \<Rightarrow> stat \<Rightarrow> stat" where
  "merge_stat mine theirs = theirs\<lparr>st_blksize := st_blksize mine, st_blocks := st_blocks mine,
     st_pad0 := st_pad0 mine, st_glibc_reserved := st_glibc_reserved mine\<rparr>"

lemma fall_unify_stat: "fall_stat mine (unify_stat u theirs) = merge_stat mine theirs"
  by (cases mine; cases theirs) (simp add: fall_stat_def unify_stat_def merge_stat_def)

lemma ok_unify_stat [simp]: "ok_Ustat (unify_stat u st) = ok_Ustat u"
  by (simp add: ok_Ustat_def unify_stat_def)

lemmas handler_simps = mu_lock_def Let_def FNCPY_ok length_fname_field enc_lengths ok_OpRead_def
  ok_OpOpen_def sizeof_defs

lemmas delivers_intros = delivers_exchange parts2_ok delivers_read delivers_unlock

text \<open>
  \<^verbatim>\<open>getattr\<close>. A client that answers with its own \<^verbatim>\<open>struct stat\<close>, converted by \<^verbatim>\<open>unify_stat\<close>, gives
  the caller every member of it except the block size and the block count.
\<close>

lemma getattr_delivers:
  assumes "ok_OpRead rd0" and "strlen fn < FILENAME_LEN" and "\<not> mu s" and "tx_good (txq (net s))"
    and "ok_Ustat u" and "0 \<le> sint (rp_rtvl rp)" and "unat (rp_size rp) = sizeof_RpHdr + sizeof_Ustat"
    and "rx_avail (rx (net s)) = enc_RpHdr rp @ enc_Ustat (unify_stat u theirs) @ rest"
  shows "delivers (fuse_getattr rd0 fn mine s) 0 (merge_stat mine theirs) rest"
proof -
  have "length (enc_Ustat (unify_stat u theirs)) = sizeof_Ustat"
      "dec_Ustat (enc_Ustat (unify_stat u theirs)) = unify_stat u theirs"
    using assms(5) by (simp_all add: c_Ustat.enc_length c_Ustat.dec_enc)
  then show ?thesis
    unfolding fuse_getattr_def using assms(1-4,6-8)
    by (auto simp: handler_simps fall_unify_stat usizeof_defs intro!: delivers_intros)
qed

definition reply0 :: "nat \<Rightarrow> u32 \<Rightarrow> RpHdr" where
  "reply0 n v = \<lparr>rp_size = of_nat (12 + n), rp_ouid = 1, rp_rtvl = v\<rparr>"

definition ustat0 :: Ustat where
  "ustat0 = \<lparr>us_dev = 0, us_ino = 0, us_mode = 0, us_pad = [0, 0, 0, 0], us_nlink = 0, us_uid = 0,
     us_gid = 0, us_rdev = 0, us_size = 0, us_atim = 0, us_atimensec = 0, us_mtim = 0, us_mtimensec = 0,
     us_ctim = 0, us_ctimensec = 0\<rparr>"

lemma reply0_simps [simp]:
  "n < 2 ^ 31 \<Longrightarrow> unat (rp_size (reply0 n v)) = 12 + n" "rp_rtvl (reply0 n v) = v"
  by (simp_all add: reply0_def unat_of_nat del: of_nat_add of_nat_numeral)

lemma short_name [simp]: "strlen [47, 97] = 2"
  by (simp add: strlen_def cstr_def)

lemma ok_ustat0 [simp]: "ok_Ustat ustat0"
  by (simp add: ustat0_def ok_Ustat_def)

lemma stack0_members [simp]: "ok_OpRead (k_rd stack0)" "ok_OpWrit (k_wr stack0)" "ok_OpOpen (k_op stack0)"
  using stack0_ok by (simp_all add: stack_ok_def)

lemma getattr_delivers_witness:
  "delivers (fuse_getattr (k_rd stack0) [47, 97] (zero_stat\<lparr>st_blocks := 8\<rparr>)
      (srv0 [RxData (enc_RpHdr (reply0 104 0)),
             RxData (enc_Ustat (unify_stat ustat0 (zero_stat\<lparr>st_size := 5, st_blocks := 9\<rparr>)))] []))
    0 (zero_stat\<lparr>st_size := 5, st_blocks := 8\<rparr>) []"
  using getattr_delivers [of "k_rd stack0" "[47, 97]" "srv0 [RxData (enc_RpHdr (reply0 104 0)),
      RxData (enc_Ustat (unify_stat ustat0 (zero_stat\<lparr>st_size := 5, st_blocks := 9\<rparr>)))] []"
      ustat0 "reply0 104 0" "zero_stat\<lparr>st_size := 5, st_blocks := 9\<rparr>" "[]" "zero_stat\<lparr>st_blocks := 8\<rparr>"]
  by (simp add: sizeof_defs usizeof_defs merge_stat_def zero_stat_def)

lemma fall_unify_statvfs: "fall_statvfs mine (unify_statvfs u theirs) = theirs\<lparr>f_spare := f_spare mine\<rparr>"
  by (cases mine; cases theirs) (simp add: fall_statvfs_def unify_statvfs_def)

text \<open>The call \<^verbatim>\<open>statfs\<close> gives the caller every member of the client's \<^verbatim>\<open>struct statvfs\<close>.\<close>

lemma statfs_delivers:
  assumes "ok_OpRead rd0" and "strlen fn < FILENAME_LEN" and "\<not> mu s" and "tx_good (txq (net s))"
    and "0 \<le> sint (rp_rtvl rp)" and "unat (rp_size rp) = sizeof_RpHdr + sizeof_Ustatvfs"
    and "rx_avail (rx (net s)) = enc_RpHdr rp @ enc_Ustatvfs (unify_statvfs u theirs) @ rest"
  shows "delivers (fuse_statfs rd0 fn mine s) 0 (theirs\<lparr>f_spare := f_spare mine\<rparr>) rest"
proof -
  have "length (enc_Ustatvfs (unify_statvfs u theirs)) = sizeof_Ustatvfs"
      "dec_Ustatvfs (enc_Ustatvfs (unify_statvfs u theirs)) = unify_statvfs u theirs"
    by (simp_all add: c_Ustatvfs.enc_length c_Ustatvfs.dec_enc)
  then show ?thesis
    unfolding fuse_statfs_def using assms
    by (auto simp: handler_simps fall_unify_statvfs usizeof_defs intro!: delivers_intros)
qed

definition statvfs0 :: statvfs where
  "statvfs0 = \<lparr>f_bsize = 512, f_frsize = 512, f_blocks = 100, f_bfree = 50, f_bavail = 40, f_files = 10,
     f_ffree = 5, f_favail = 4, f_fsid = 77, f_flag = 0, f_namemax = 255, f_spare = replicate 24 0\<rparr>"

definition ustatvfs0 :: Ustatvfs where
  "ustatvfs0 = \<lparr>uv_bsize = 0, uv_frsize = 0, uv_blocks = 0, uv_bfree = 0, uv_bavail = 0, uv_files = 0,
     uv_ffree = 0, uv_favail = 0, uv_fsid = 0, uv_flag = 0, uv_namemax = 0\<rparr>"

lemma statfs_delivers_witness:
  "delivers (fuse_statfs (k_rd stack0) [47, 97] (statvfs0\<lparr>f_fsid := 1\<rparr>)
      (srv0 [RxData (enc_RpHdr (reply0 88 0) @ enc_Ustatvfs (unify_statvfs ustatvfs0 statvfs0))]
         [TxPart 3]))
    0 statvfs0 []"
  using statfs_delivers [of "k_rd stack0" "[47, 97]"
      "srv0 [RxData (enc_RpHdr (reply0 88 0) @ enc_Ustatvfs (unify_statvfs ustatvfs0 statvfs0))] [TxPart 3]"
      "reply0 88 0" ustatvfs0 statvfs0 "[]" "statvfs0\<lparr>f_fsid := 1\<rparr>"]
  by (simp add: sizeof_defs usizeof_defs statvfs0_def tx_good_def)

lemma unat_ucast_up [simp]: "unat (ucast (n :: u32) :: u64) = unat n"
proof -
  have "take_bit 64 (unat n) = unat n"
    using unat_less32 [of n] by (simp add: take_bit_nat_eq_self)
  then show ?thesis
    by (simp add: unsigned_ucast_eq unsigned_take_bit_eq)
qed

lemma unat_u64_of_size:
  "unat (n :: u32) = sizeof_RpHdr + m \<Longrightarrow> unat (ucast n - of_nat sizeof_RpHdr :: u64) = m"
  by (subst unat_sub) (simp_all add: word_le_nat_alt sizeof_RpHdr_def)

lemma unat_hdr_add:
  "unat (b :: u64) < 2 ^ 32 \<Longrightarrow> unat (of_nat sizeof_RpHdr + b) = sizeof_RpHdr + unat b"
  by (subst unat_add_lem [THEN iffD1]) (simp_all add: sizeof_RpHdr_def)

lemma unat_scast_small: "unat (v :: u32) < 2 ^ 31 \<Longrightarrow> unat (scast v :: u64) = unat v"
  by (simp add: signed_eq_0_iff scast_eq sint_small unat_of_nat)

text \<open>
  The call \<^verbatim>\<open>readlink\<close> copies the link target the client sends to the start of the caller's buffer and
  leaves the rest of the buffer, a terminator included, as it was.
\<close>

lemma readlink_delivers:
  assumes "ok_OpRead rd0" and "strlen fn < FILENAME_LEN" and "\<not> mu s" and "tx_good (txq (net s))"
    and "0 \<le> sint (rp_rtvl rp)" and "unat (rp_size rp) = sizeof_RpHdr + length target"
    and "rx_avail (rx (net s)) = enc_RpHdr rp @ target @ rest"
    and "length dest = unat buflen" and "length target \<le> unat buflen" and "unat buflen < 2 ^ 31"
  shows "delivers (fuse_readlink rd0 fn dest buflen s) 0 (target @ drop (length target) dest) rest"
proof -
  have "unat (ucast (rp_size rp) - of_nat sizeof_RpHdr :: u64) = length target"
    using assms(6) by (rule unat_u64_of_size)
  moreover have "\<not> of_nat sizeof_RpHdr + buflen < (ucast (rp_size rp) :: u64)"
    using assms(6,9,10) by (simp add: word_less_nat_alt unat_hdr_add)
  ultimately show ?thesis
    unfolding fuse_readlink_def using assms
    by (auto simp: handler_simps intro!: delivers_intros)
qed

lemma readlink_delivers_witness:
  "delivers (fuse_readlink (k_rd stack0) [47, 97] [9, 9, 9, 9] 4
      (srv0 [RxData (enc_RpHdr (reply0 2 0)), RxData [46], RxData [46, 5]] []))
    0 [46, 46, 9, 9] [5]"
  using readlink_delivers [of "k_rd stack0" "[47, 97]"
      "srv0 [RxData (enc_RpHdr (reply0 2 0)), RxData [46], RxData [46, 5]] []" "reply0 2 0" "[46, 46]"
      "[5]" "[9, 9, 9, 9]" 4]
  by (simp add: sizeof_defs)

text \<open>
  \<^verbatim>\<open>read\<close>. A reply that fits the caller's buffer together with its header is copied to the start
  of the buffer and its length is returned.
\<close>

lemma read_delivers:
  assumes "ok_OpRead rd0" and "strlen fn < FILENAME_LEN" and "\<not> mu s" and "tx_good (txq (net s))"
    and "unat (rp_rtvl rp) = length ds" and "unat (rp_size rp) = sizeof_RpHdr + length ds"
    and "rx_avail (rx (net s)) = enc_RpHdr rp @ ds @ rest"
    and "length buf = unat bufsize" and "sizeof_RpHdr + length ds \<le> unat bufsize"
    and "length ds < 2 ^ 31"
  shows "delivers (fuse_read rd0 fn buf bufsize pos fi s) (int (length ds)) (ds @ drop (length ds) buf) rest"
proof -
  have v: "sint (rp_rtvl rp) = int (length ds)" "unat (scast (rp_rtvl rp) :: u64) = length ds"
    using assms(5,10) by (simp_all add: sint_small unat_scast_small)
  have "\<not> bufsize < (ucast (rp_size rp) :: u64)"
    using assms(6,9) by (simp add: word_less_nat_alt)
  moreover have "(ucast (rp_size rp) :: u64) = of_nat sizeof_RpHdr + scast (rp_rtvl rp)"
    using v(2) assms(6,10) by (simp add: word_unat_eq_iff unat_hdr_add)
  ultimately show ?thesis
    unfolding fuse_read_def using assms(1-4,7,8,9,10) v
    by (auto simp: handler_simps SIZEHDR_def intro!: delivers_intros)
qed

lemma read_delivers_witness:
  "delivers (fuse_read (k_rd stack0) [47, 97] (replicate 16 0) 16 0
      \<lparr>fi_flags = 0, fi_writepage = False, fi_direct_io = False, fi_fh = 3\<rparr>
      (srv0 [RxData (enc_RpHdr (reply0 2 2)), RxData [104, 105]] []))
    2 (104 # 105 # replicate 14 0) []"
  using read_delivers [of "k_rd stack0" "[47, 97]" "srv0 [RxData (enc_RpHdr (reply0 2 2)), RxData [104, 105]] []"
      "reply0 2 2" "[104, 105]" "[]" "replicate 16 0" 16 0
      "\<lparr>fi_flags = 0, fi_writepage = False, fi_direct_io = False, fi_fh = 3\<rparr>"]
  by (simp add: sizeof_defs)

text \<open>
  C36: the size test of \<^verbatim>\<open>fuse_read\<close> counts the header, so a well-formed reply whose data fits the
  caller's buffer but leaves less than twelve bytes of it free aborts the server; a client that fills
  the buffer, as \<^verbatim>\<open>read(2)\<close> does inside a file, is such a client.
\<close>

theorem read_full_buffer_aborts:
  assumes "ok_OpRead rd0" and "strlen fn < FILENAME_LEN" and "\<not> mu s" and "tx_good (txq (net s))"
    and "unat (rp_rtvl rp) = length ds" and "unat (rp_size rp) = sizeof_RpHdr + length ds"
    and "rx_avail (rx (net s)) = enc_RpHdr rp @ ds @ rest"
    and "length buf = unat bufsize" and "length ds \<le> unat bufsize"
    and "unat bufsize < sizeof_RpHdr + length ds" and "length ds < 2 ^ 31"
  shows "\<exists>t. fuse_read rd0 fn buf bufsize pos fi s = Aborts t \<and> mu t"
proof -
  have v: "sint (rp_rtvl rp) = int (length ds)"
    using assms(5,11) by (simp add: sint_small)
  have big: "bufsize < (ucast (rp_size rp) :: u64)"
    using assms(6,10) by (simp add: word_less_nat_alt)
  show ?thesis
    unfolding fuse_read_def using assms(1-4,7) v big
    by (auto simp: handler_simps SIZEHDR_def ABRT_def
        intro!: exchange_rule [where P = "\<lambda>r. \<exists>t. r = Aborts t \<and> mu t"] parts2_ok)
qed

theorem read_full_buffer_aborts_witness:
  "\<exists>t. fuse_read (k_rd stack0) [47, 97] [0, 0] 2 0
      \<lparr>fi_flags = 0, fi_writepage = False, fi_direct_io = False, fi_fh = 3\<rparr>
      (srv0 [RxData (enc_RpHdr (reply0 2 2)), RxData [104, 105]] []) = Aborts t \<and> mu t"
  using read_full_buffer_aborts [of "k_rd stack0" "[47, 97]"
      "srv0 [RxData (enc_RpHdr (reply0 2 2)), RxData [104, 105]] []"
      "reply0 2 2" "[104, 105]" "[]" "[0, 0]" 2 0
      "\<lparr>fi_flags = 0, fi_writepage = False, fi_direct_io = False, fi_fh = 3\<rparr>"]
  by (simp add: sizeof_defs)

section \<open>Directory entries\<close>

text \<open>The entries are handed out in order until the callback asks to stop.\<close>

definition dir_stat :: "Udirent \<Rightarrow> stat" where
  "dir_stat d = zero_stat\<lparr>st_ino := ud_ino d, st_mode := push_bit 12 (ucast (ud_type d))\<rparr>"

fun feed :: "('f \<Rightarrow> bytes \<Rightarrow> stat \<Rightarrow> bool \<times> 'f) \<Rightarrow> Udirent list \<Rightarrow> 'f \<Rightarrow> 'f" where
  "feed fill [] f = f"
| "feed fill (d # ds) f = (let r = fill f (ud_name d) (dir_stat d)
     in if fst r then snd r else feed fill ds (snd r))"

lemma readdir_loop_feed:
  "list_all ok_Udirent ds \<Longrightarrow>
   readdir_loop fill (length ds) (concat (map enc_Udirent ds) @ junk) f = feed fill ds f"
proof (induction ds arbitrary: f)
  case (Cons d ds)
  then have "dec_Udirent (take sizeof_Udirent (enc_Udirent d @ concat (map enc_Udirent ds) @ junk)) = d"
    "drop sizeof_Udirent (enc_Udirent d @ concat (map enc_Udirent ds) @ junk)
       = concat (map enc_Udirent ds) @ junk"
    by (simp_all add: c_Udirent.enc_length c_Udirent.dec_enc)
  then show ?case
    using Cons by (simp add: Let_def dir_stat_def split: prod.split)
qed simp

lemma length_dirents: "list_all ok_Udirent ds \<Longrightarrow> length (concat (map enc_Udirent ds)) = length ds * sizeof_Udirent"
  by (induction ds) (simp_all add: c_Udirent.enc_length)

text \<open>
  \<^verbatim>\<open>readdir\<close> passes the entries of the reply to libfuse's callback in order, each with its
  inode number and file type, and stops where the callback asks for it.
\<close>

lemma readdir_delivers:
  assumes "ok_OpRead rd0" and "strlen dn < FILENAME_LEN" and "\<not> mu s" and "tx_good (txq (net s))"
    and "0 \<le> sint (rp_rtvl rp)" and "list_all ok_Udirent ds"
    and "unat (rp_size rp) = sizeof_RpHdr + length ds * sizeof_Udirent"
    and "length ds * sizeof_Udirent < 2 ^ 31"
    and "rx_avail (rx (net s)) = enc_RpHdr rp @ concat (map enc_Udirent ds) @ rest"
  shows "delivers (fuse_readdir rd0 dn f fill offset fi s) 0 (feed fill ds f) rest"
proof -
  let ?bs = "concat (map enc_Udirent ds)"
  note len = length_dirents [OF assms(6)]
  have tail: "delivers (finish_readdir fill f rp t) 0 (feed fill ds f) rest"
    if rx: "rx_avail (rx (net t)) = ?bs @ rest" for t
  proof -
    from sockread_ok [of "length ?bs" "net t" bss_empty] rx len assms(8) obtain b es where
      rd: "sockread (net t) bss_empty (int (length ?bs)) = Some (Done (0, b, (net t)\<lparr>rx := es\<rparr>))"
      and b: "bss_ok b" "bss_content b = ?bs" and es: "rx_avail es = rest" by auto
    from bss_content_block [OF b] obtain blk where blk: "bss_str b = Some blk"
      "length ?bs \<le> length blk" "take (length ?bs) blk = ?bs" by blast
    have loop: "readdir_loop fill (length ds) blk f = feed fill ds f"
      using readdir_loop_feed [OF assms(6), of fill "drop (length ?bs) blk" f]
        append_take_drop_id [of "length ?bs" blk] blk(3) by simp
    have n: "unat (ucast (rp_size rp) - of_nat sizeof_RpHdr :: u64) = length ?bs"
      using assms(7) len by (intro unat_u64_of_size) simp
    have "int_of_size (ucast (rp_size rp) - of_nat sizeof_RpHdr) = int (length ?bs)"
      using n len assms(8) by (simp add: int_of_size_small)
    moreover have "(unat (rp_size rp) - sizeof_RpHdr) div sizeof_Udirent = length ds"
      using assms(7) by (simp add: usizeof_defs)
    ultimately show ?thesis
      using assms(7) rd blk(1,2) loop es len
      by (auto simp: finish_readdir_def Let_def intro: delivers_unlock)
  qed
  show ?thesis
    unfolding fuse_readdir_def using assms(1-5,9)
    by (auto simp: handler_simps SIZEHDR_def intro!: delivers_exchange parts2_ok tail)
qed

definition udirent0 :: "byte \<Rightarrow> Udirent" where
  "udirent0 c = \<lparr>ud_ino = 5, ud_off = 0, ud_reclen = 280, ud_type = 8,
     ud_name = c # replicate 255 0, ud_pad = replicate 5 0\<rparr>"

lemma ok_udirent0 [simp]: "ok_Udirent (udirent0 c)"
  by (simp add: udirent0_def ok_Udirent_def)

lemma readdir_delivers_witness:
  "delivers (fuse_readdir (k_rd stack0) [47, 97] [] fill0 0
      \<lparr>fi_flags = 0, fi_writepage = False, fi_direct_io = False, fi_fh = 3\<rparr>
      (srv0 [RxData (enc_RpHdr (reply0 560 0)), RxData (enc_Udirent (udirent0 97)),
             RxData (enc_Udirent (udirent0 98))] []))
    0 [[97], [98]] []"
proof -
  have "cstr (ud_name (udirent0 97)) = [97]" "cstr (ud_name (udirent0 98)) = [98]"
    by (simp_all add: udirent0_def cstr_def)
  then show ?thesis
    using readdir_delivers [of "k_rd stack0" "[47, 97]" "srv0 [RxData (enc_RpHdr (reply0 560 0)),
        RxData (enc_Udirent (udirent0 97)), RxData (enc_Udirent (udirent0 98))] []" "reply0 560 0"
        "[udirent0 97, udirent0 98]" "[]" "[]" fill0 0
        "\<lparr>fi_flags = 0, fi_writepage = False, fi_direct_io = False, fi_fh = 3\<rparr>"]
    by (simp add: sizeof_defs usizeof_defs fill0_def)
qed

section \<open>Opening\<close>

fun open_info :: "fuse_call \<Rightarrow> fuse_file_info option" where
  "open_info (Open fn fi) = Some fi"
| "open_info (Opendir fn fi) = Some fi"
| "open_info (Create fn m fi) = Some fi"
| "open_info _ = None"

definition opened :: "fuse_file_info \<Rightarrow> RpOpen \<Rightarrow> fuse_file_info" where
  "opened fi ro = (if ro_ignore_above ro = 0 then fi\<lparr>fi_fh := ro_file_handle ro\<rparr> else fi)"

lemma map_outcome_delivers: "delivers r v x rest \<Longrightarrow> delivers (map_outcome g r) v (g x) rest"
  by (auto simp: delivers_def)

lemma finish_open_delivers:
  assumes "ok_RpOpen ro" and "unat (rp_size rp) = sizeof_RpHdr + sizeof_RpOpen"
    and "rx_avail (rx (net t)) = enc_RpOpen ro @ rest"
  shows "delivers (finish_open fi rp t) 0 (opened fi ro) rest"
proof -
  have "length (enc_RpOpen ro) = sizeof_RpOpen" "dec_RpOpen (enc_RpOpen ro) = ro"
    using assms(1) by (simp_all add: c_RpOpen.enc_length c_RpOpen.dec_enc)
  then show ?thesis
    using assms(2,3)
    by (auto simp: finish_open_def Let_def sizeof_defs opened_def intro!: delivers_read delivers_unlock)
qed

text \<open>
  \<^verbatim>\<open>open\<close>, \<^verbatim>\<open>opendir\<close> and \<^verbatim>\<open>create\<close> store the client's file handle in the caller's
  \<^verbatim>\<open>fuse_file_info\<close> unless the client works without handles, and change nothing else of it.
\<close>

lemma open_delivers:
  assumes "stack_ok k" and "call_ok c" and "open_info c = Some fi" and "\<not> mu s"
    and "tx_good (txq (net s))" and "0 \<le> sint (rp_rtvl rp)" and "ok_RpOpen ro"
    and "unat (rp_size rp) = sizeof_RpHdr + sizeof_RpOpen"
    and "rx_avail (rx (net s)) = enc_RpHdr rp @ enc_RpOpen ro @ rest"
  shows "delivers (zhwkrfsp fill f k c s) 0 (OInfo (opened fi ro)) rest"
proof -
  have len: "length (oo_filename (k_op k)) = FILENAME_LEN" "length (oo_pad (k_op k)) = 1"
    using assms(1) by (simp_all add: stack_ok_def ok_OpOpen_def)
  have tail: "delivers (map_outcome OInfo (finish_open fi rp t)) 0 (OInfo (opened fi ro)) rest"
    if "rx_avail (rx (net t)) = enc_RpOpen ro @ rest" for t
    by (rule map_outcome_delivers [OF finish_open_delivers [OF assms(7,8) that]])
  show ?thesis
    using assms(2-6,9) len
    by (cases c) (auto simp: call_ok_def names_fit_def fuse_open_def fuse_opendir_def fuse_creat_def
        handler_simps SIZEHDR_def bad_open_flags_def or.assoc intro!: delivers_exchange parts2_ok tail)
qed

lemma open_delivers_witness:
  "delivers (zhwkrfsp fill0 [] stack0
      (Open [47, 97] \<lparr>fi_flags = 0, fi_writepage = False, fi_direct_io = False, fi_fh = 3\<rparr>)
      (srv0 [RxData (enc_RpHdr (reply0 16 0)),
             RxData (enc_RpOpen \<lparr>ro_file_handle = 42, ro_ignore_above = 0, ro_pad = replicate 7 0\<rparr>)] []))
    0 (OInfo \<lparr>fi_flags = 0, fi_writepage = False, fi_direct_io = False, fi_fh = 42\<rparr>) []"
proof -
  let ?fi = "\<lparr>fi_flags = 0, fi_writepage = False, fi_direct_io = False, fi_fh = 3\<rparr>"
  let ?ro = "\<lparr>ro_file_handle = 42, ro_ignore_above = 0, ro_pad = replicate 7 0\<rparr>"
  have "call_ok (Open [47, 97] ?fi)" "ok_RpOpen ?ro"
    by (simp_all add: call_ok_def names_fit_def FILENAME_LEN_def ok_RpOpen_def)
  then show ?thesis
    using open_delivers [of stack0 "Open [47, 97] ?fi" ?fi "srv0 [RxData (enc_RpHdr (reply0 16 0)),
        RxData (enc_RpOpen ?ro)] []" "reply0 16 0" ?ro "[]" fill0 "[]"]
    by (simp add: sizeof_defs opened_def)
qed

section \<open>Replies without content\<close>

text \<open>The calls whose reply is a bare header, and what they return.\<close>

fun empty_reply :: "fuse_call \<Rightarrow> bool" where
  "empty_reply (Mkdir dn m) = True"
| "empty_reply (Rmdir dn) = True"
| "empty_reply (Symlink fn src) = True"
| "empty_reply (Chmod fn m) = True"
| "empty_reply (Truncate fn pos) = True"
| "empty_reply (Write fn buf n pos fi) = True"
| "empty_reply (Release fi) = True"
| "empty_reply (Releasedir fi) = True"
| "empty_reply (Access fn m) = True"
| "empty_reply (Unlink fn) = True"
| "empty_reply (Utimens fn tv0 tv1) = True"
| "empty_reply _ = False"

definition empty_result :: "fuse_call \<Rightarrow> RpHdr \<Rightarrow> int" where
  "empty_result c rp = (case c of Write _ _ _ _ _ \<Rightarrow> sint (rp_rtvl rp) | _ \<Rightarrow> 0)"

definition empty_outcome :: "RpHdr \<Rightarrow> int \<Rightarrow> bytes \<Rightarrow> 'f fuse_out outcome \<Rightarrow> bool" where
  "empty_outcome rp v rest r \<longleftrightarrow>
     (if unat (rp_size rp) = sizeof_RpHdr then delivers r v ONone rest else \<exists>t. r = Aborts t)"

lemma finish_empty_outcome:
  "rx_avail (rx (net t)) = rest \<Longrightarrow>
   empty_outcome rp v rest (map_outcome (\<lambda>_. ONone) (finish_empty v () rp t))"
  by (auto simp: empty_outcome_def finish_empty_def ABRT_def intro: delivers_unlock)

lemma empty_outcome_exchange:
  assumes "parts_ok ps" and "tx_good (txq (net s))" and "rx_avail (rx (net s)) = enc_RpHdr rp @ rest"
    and "0 \<le> sint (rp_rtvl rp)" and "v = g rp"
  shows "empty_outcome rp v rest
    (exchange ps out s (\<lambda>rp t. map_outcome (\<lambda>_. ONone) (finish_empty (g rp) () rp t)))"
  unfolding assms(5)
  by (rule exchange_rule [where P = "empty_outcome rp (g rp) rest", OF assms(1-4)])
    (auto intro: finish_empty_outcome)

lemma parts3_ok:
  "length a + length b + unat n < 2 ^ 31 \<Longrightarrow> unat n \<le> length c \<Longrightarrow> parts_ok [BSSAPP a, BSSAPP b, (c, n)]"
  "length a + length b + length c < 2 ^ 31 \<Longrightarrow> parts_ok [BSSAPP a, BSSAPP b, BSSAPP c]"
  using parts_snoc(1) [of "[a, b]" n c] parts_objects(1) [of "[a, b, c]"] by simp_all

text \<open>
  A bare header as the reply makes these calls return 0 (\<^verbatim>\<open>write\<close> the client's result); a header
  that announces content makes them abort the server.
\<close>

lemma empty_reply_calls:
  assumes "stack_ok k" and "call_ok c" and "mode_fits k c" and "empty_reply c" and "takes_lock c \<longrightarrow> \<not> mu s"
    and "tx_good (txq (net s))" and "0 \<le> sint (rp_rtvl rp)"
    and "rx_avail (rx (net s)) = enc_RpHdr rp @ rest"
  shows "if unat (rp_size rp) = sizeof_RpHdr
    then delivers (zhwkrfsp fill f k c s) (empty_result c rp) ONone rest
    else \<exists>t. zhwkrfsp fill f k c s = Aborts t"
proof -
  have len: "length (oo_filename (k_op k)) = FILENAME_LEN" "length (oo_pad (k_op k)) = 1"
      "length (wr_filename (k_wr k)) = FILENAME_LEN" "length (wr_pad (k_wr k)) = 7"
      "length (k_srcbuf k) = FILENAME_LEN" "ok_TimeModder (k_tm k)" "ok_OpClos (k_cl k)"
    using assms(1) by (simp_all add: stack_ok_def ok_OpOpen_def ok_OpWrit_def)
  have "empty_outcome rp (empty_result c rp) rest (zhwkrfsp fill f k c s)"
    using assms(2-8) len
    by (cases c) (auto simp: call_ok_def names_fit_def takes_lock_def mode_string_ok mode_fits_def fuse_rmdir_def fuse_symlink_def
       fuse_chmod_def fuse_truncate_def fuse_write_def fuse_access_def fuse_unlink_def fuse_utimens_def
       fuse_mkdir_def fuse_release_def fuse_releasedir_def handler_simps ok_OpWrit_def SIZEHDR_def
       empty_result_def unat_ucast_small
       intro!: empty_outcome_exchange parts2_ok parts3_ok)
  then show ?thesis
    by (simp add: empty_outcome_def)
qed

lemma empty_reply_calls_witness:
  "delivers (zhwkrfsp fill0 [] stack0 (Rmdir [47, 97])
      (srv0 [RxData (enc_RpHdr (reply0 0 0)), RxData [1]] [])) 0 ONone [1]
   \<and> (\<exists>t. zhwkrfsp fill0 [] stack0 (Rmdir [47, 97])
      (srv0 [RxData (enc_RpHdr (reply0 1 0)), RxData [1]] []) = Aborts t)"
  using empty_reply_calls [of stack0 "Rmdir [47, 97]" "srv0 [RxData (enc_RpHdr (reply0 0 0)), RxData [1]] []"
      "reply0 0 0" "[1]" fill0 "[]"]
    empty_reply_calls [of stack0 "Rmdir [47, 97]" "srv0 [RxData (enc_RpHdr (reply0 1 0)), RxData [1]] []"
      "reply0 1 0" "[1]" fill0 "[]"]
  by (simp add: sizeof_defs empty_result_def)

section \<open>Message buffers\<close>

text \<open>
  The buffer a message is built in is never released once the message has been written: every
  call that gets that far leaves one more allocation behind.
\<close>

lemma message_buffer_leaks:
  assumes "stack_ok k" and "call_ok c" and "mode_fits k c" and "takes_lock c \<longrightarrow> \<not> mu s" and "tx_good (txq (net s))"
  shows "on_end (\<lambda>t. live t = live s + 1) (zhwkrfsp fill f k c s)"
proof -
  have "takes_lock c \<Longrightarrow> \<not> mu s" using assms(4) by blast
  from exchange_sends [OF zhwkrfsp_exchange [OF assms(1-3) this, where f = f and fill = fill]] assms(5)
  show ?thesis
    by (auto elim!: on_end_mono)
qed

lemma message_buffer_leaks_witness:
  "on_end (\<lambda>t. live t = 1)
     (zhwkrfsp fill0 [] stack0 (Rmdir [47, 97]) (srv0 [RxData (enc_RpHdr (reply0 0 0))] []))"
  using message_buffer_leaks [of stack0 "Rmdir [47, 97]" "srv0 [RxData (enc_RpHdr (reply0 0 0))] []" fill0 "[]"]
  by (simp add: srv0_def)

end
