(* ===== verification/Locking.thy ===== *)
theory Locking
  imports FuseDeliver
begin

text \<open>
  The purpose of the mutex: handlers that libfuse calls from several threads share one socket.
  (\<^verbatim>\<open>server.c\<close> itself runs libfuse's single-threaded loop, in which every handler runs to its end.) A
  thread is modelled by the mutex and socket operations it still has to perform, which are those its
  handlers record in \<^const>\<open>evs\<close>; the threads interleave in any order. The mutex is a default POSIX
  mutex as glibc implements it: locking waits while it is taken, unlocking frees it whoever holds it.
\<close>

section \<open>Interleaving\<close>

record conf =
  c_mu :: bool
  c_prog :: "nat \<Rightarrow> ev list"

inductive step :: "conf \<Rightarrow> nat \<times> ev \<Rightarrow> conf \<Rightarrow> bool" where
  step_lock: "c_prog c i = EvLock # es \<Longrightarrow> \<not> c_mu c \<Longrightarrow>
     step c (i, EvLock) (c\<lparr>c_mu := True, c_prog := (c_prog c)(i := es)\<rparr>)"
| step_unlock: "c_prog c i = EvUnlock # es \<Longrightarrow>
     step c (i, EvUnlock) (c\<lparr>c_mu := False, c_prog := (c_prog c)(i := es)\<rparr>)"
| step_send: "c_prog c i = EvSend # es \<Longrightarrow>
     step c (i, EvSend) (c\<lparr>c_prog := (c_prog c)(i := es)\<rparr>)"
| step_recv: "c_prog c i = EvRecv # es \<Longrightarrow>
     step c (i, EvRecv) (c\<lparr>c_prog := (c_prog c)(i := es)\<rparr>)"

inductive_cases step_cases [elim!]:
  "step c (i, EvLock) d" "step c (i, EvUnlock) d" "step c (i, EvSend) d" "step c (i, EvRecv) d"

inductive runs :: "conf \<Rightarrow> (nat \<times> ev) list \<Rightarrow> conf \<Rightarrow> bool" where
  runs_Nil: "runs c [] c"
| runs_snoc: "runs c tr d \<Longrightarrow> step d e d' \<Longrightarrow> runs c (tr @ [e]) d'"

inductive_cases runs_snocE: "runs c (tr @ [e]) d"

section \<open>Disciplined threads\<close>

text \<open>\<open>well b es\<close>: the remaining program of a thread that holds the mutex iff \<open>b\<close>.\<close>

fun well :: "bool \<Rightarrow> ev list \<Rightarrow> bool" where
  "well False [] = True"
| "well False (EvLock # es) = well True es"
| "well True (EvSend # es) = well True es"
| "well True (EvRecv # es) = well True es"
| "well True (EvUnlock # es) = well False es"
| "well _ _ = False"

lemma well_exclusive: "well True es \<Longrightarrow> \<not> well False es"
  by (cases "(True, es)" rule: well.cases) auto

lemma well_append: "well b xs \<Longrightarrow> well False ys \<Longrightarrow> well b (xs @ ys)"
proof (induction b xs rule: well.induct)
qed auto

lemma well_bracket:
  "set es \<subseteq> {EvSend, EvRecv} \<Longrightarrow> well True (es @ [EvUnlock])"
  by (induction es) auto

text \<open>At most one thread is between its lock and its unlock, and the mutex is taken iff one is.\<close>

definition holder_inv :: "nat option \<Rightarrow> conf \<Rightarrow> bool" where
  "holder_inv h c \<longleftrightarrow> c_mu c = (h \<noteq> None) \<and> (\<forall>i. well (h = Some i) (c_prog c i))"

lemma holder_inv_other: "holder_inv h c \<Longrightarrow> h \<noteq> Some i \<Longrightarrow> well False (c_prog c i)"
  using spec [of "\<lambda>i. well (h = Some i) (c_prog c i)" i] by (simp add: holder_inv_def)

text \<open>The holder of the mutex after a trace, and whether the trace respects it.\<close>

fun holder :: "(nat \<times> ev) list \<Rightarrow> nat option \<Rightarrow> nat option" where
  "holder [] h = h"
| "holder ((i, EvLock) # tr) h = holder tr (Some i)"
| "holder ((i, EvUnlock) # tr) h = holder tr None"
| "holder ((i, EvSend) # tr) h = holder tr h"
| "holder ((i, EvRecv) # tr) h = holder tr h"

fun serial :: "(nat \<times> ev) list \<Rightarrow> nat option \<Rightarrow> bool" where
  "serial [] h = True"
| "serial ((i, EvLock) # tr) h = (h = None \<and> serial tr (Some i))"
| "serial ((i, EvUnlock) # tr) h = (h = Some i \<and> serial tr None)"
| "serial ((i, EvSend) # tr) h = (h = Some i \<and> serial tr h)"
| "serial ((i, EvRecv) # tr) h = (h = Some i \<and> serial tr h)"

lemma holder_append: "holder (xs @ ys) h = holder ys (holder xs h)"
  by (induction xs h rule: holder.induct) auto

lemma serial_append: "serial (xs @ ys) h = (serial xs h \<and> serial ys (holder xs h))"
  by (induction xs h rule: serial.induct) auto

lemma step_serial:
  assumes "step c (i, e) d" and "holder_inv h c"
  shows "serial [(i, e)] h \<and> holder_inv (holder [(i, e)] h) d"
proof -
  have wi: "well (h = Some i) (c_prog c i)" and mu: "c_mu c = (h \<noteq> None)"
    and others: "\<And>j. j \<noteq> i \<Longrightarrow> h = Some i \<or> h = None \<Longrightarrow> well False (c_prog c j)"
    using assms(2) holder_inv_other [OF assms(2)] by (auto simp: holder_inv_def)
  show ?thesis
  proof (cases e)
    case EvLock
    with assms(1) obtain es where es: "c_prog c i = EvLock # es" "\<not> c_mu c"
      "d = c\<lparr>c_mu := True, c_prog := (c_prog c)(i := es)\<rparr>" by auto
    then have h: "h = None" using mu by simp
    then show ?thesis
      using EvLock es wi others by (auto simp: holder_inv_def)
  next
    case EvUnlock
    with assms(1) obtain es where es: "c_prog c i = EvUnlock # es"
      "d = c\<lparr>c_mu := False, c_prog := (c_prog c)(i := es)\<rparr>" by auto
    then have h: "h = Some i" using wi by (cases "h = Some i") auto
    then show ?thesis
      using EvUnlock es wi others by (auto simp: holder_inv_def)
  next
    case EvSend
    with assms(1) obtain es where es: "c_prog c i = EvSend # es"
      "d = c\<lparr>c_prog := (c_prog c)(i := es)\<rparr>" by auto
    then have h: "h = Some i" using wi by (cases "h = Some i") auto
    then show ?thesis
      using EvSend es wi others mu by (auto simp: holder_inv_def)
  next
    case EvRecv
    with assms(1) obtain es where es: "c_prog c i = EvRecv # es"
      "d = c\<lparr>c_prog := (c_prog c)(i := es)\<rparr>" by auto
    then have h: "h = Some i" using wi by (cases "h = Some i") auto
    then show ?thesis
      using EvRecv es wi others mu by (auto simp: holder_inv_def)
  qed
qed

lemma runs_serial:
  assumes "runs c tr d" and "holder_inv h c"
  shows "serial tr h \<and> holder_inv (holder tr h) d"
  using assms
proof (induction rule: runs.induct)
  case (runs_snoc c tr d e d')
  then show ?case
    using step_serial [of d "fst e" "snd e" d' "holder tr h"]
    by (cases e) (simp add: serial_append holder_append)
qed simp

text \<open>
  A trace that respects the mutex and leaves it free is a sequence of whole critical sections, and
  every trace holds each thread's operations in the order of its program.
\<close>

definition call_block :: "nat \<times> ev list \<Rightarrow> (nat \<times> ev) list" where
  "call_block b = map (Pair (fst b)) (EvLock # snd b @ [EvUnlock])"

definition blocks_of :: "(nat \<times> ev) list \<Rightarrow> (nat \<times> ev list) list \<Rightarrow> bool" where
  "blocks_of tr bs \<longleftrightarrow> tr = concat (map call_block bs) \<and> (\<forall>b \<in> set bs. set (snd b) \<subseteq> {EvSend, EvRecv})"

lemma blocks_of_simps:
  "blocks_of [] []"
  "set es \<subseteq> {EvSend, EvRecv} \<Longrightarrow> blocks_of tr bs \<Longrightarrow>
     blocks_of (map (Pair i) (EvLock # es @ [EvUnlock]) @ tr) ((i, es) # bs)"
  by (simp_all add: blocks_of_def call_block_def)

lemma serial_blocks:
  "serial tr h \<Longrightarrow> holder tr h = None \<Longrightarrow>
   (case h of None \<Rightarrow> \<exists>bs. blocks_of tr bs
    | Some i \<Rightarrow> \<exists>es tr' bs. tr = map (Pair i) (es @ [EvUnlock]) @ tr' \<and> set es \<subseteq> {EvSend, EvRecv} \<and> blocks_of tr' bs)"
proof (induction tr h rule: serial.induct)
  case (2 i tr h)
  then obtain es tr' bs where "tr = map (Pair i) (es @ [EvUnlock]) @ tr'" "set es \<subseteq> {EvSend, EvRecv}" "blocks_of tr' bs"
    by auto
  then have "blocks_of ((i, EvLock) # tr) ((i, es) # bs)"
    using blocks_of_simps(2) by simp
  then show ?case
    using 2(2) by auto
next
  case (3 i tr h)
  then obtain bs where "blocks_of tr bs"
    by auto
  then show ?case
    using 3(2) by (auto intro!: exI [of _ "[]"] exI [of _ tr] exI [of _ bs])
next
  case (4 i tr h)
  then obtain es tr' bs where "tr = map (Pair i) (es @ [EvUnlock]) @ tr'" "set es \<subseteq> {EvSend, EvRecv}" "blocks_of tr' bs"
    by auto
  then show ?case
    using 4(2) by (auto intro!: exI [of _ "EvSend # es"])
next
  case (5 i tr h)
  then obtain es tr' bs where "tr = map (Pair i) (es @ [EvUnlock]) @ tr'" "set es \<subseteq> {EvSend, EvRecv}" "blocks_of tr' bs"
    by auto
  then show ?case
    using 5(2) by (auto intro!: exI [of _ "EvRecv # es"])
qed (auto intro: blocks_of_simps)

definition ops_of :: "nat \<Rightarrow> (nat \<times> ev) list \<Rightarrow> ev list" where
  "ops_of i tr = map snd (filter (\<lambda>e. fst e = i) tr)"

lemma runs_ops: "runs c tr d \<Longrightarrow> ops_of i tr @ c_prog d i = c_prog c i"
proof (induction rule: runs.induct)
  case (runs_snoc c tr d e d')
  from runs_snoc.hyps(2) have "(if fst e = i then [snd e] else []) @ c_prog d' i = c_prog d i"
    by cases auto
  then show ?case
    using runs_snoc.IH by (auto simp: ops_of_def split: if_splits)
qed (simp add: ops_of_def)

section \<open>The program's threads\<close>

lemma locked_call_well:
  assumes "takes_lock c"
  shows "on_return (\<lambda>v t. \<exists>p. evs t = evs s @ p \<and> well False p) (zhwkrfsp fill f k c s)"
proof -
  have "c \<noteq> Init"
    using assms by (auto simp: takes_lock_def)
  moreover have "\<exists>p. evs t = evs s @ p \<and> well False p" if "bracketed True u s t" for u t
  proof -
    from that obtain es where "evs t = evs s @ EvLock # es @ [EvUnlock]" "set es \<subseteq> {EvSend, EvRecv}"
      by (auto simp: bracketed_def)
    then show ?thesis
      using well_bracket by (intro exI [of _ "EvLock # es @ [EvUnlock]"]) simp
  qed
  ultimately show ?thesis
    using zhwkrfsp_bracketed [of c s fill f k] assms
    by (auto simp: on_return_def split: outcome.splits)
qed

text \<open>
  The programs a thread can have: the operations of completed calls, one after the other, each run
  from some state.
\<close>

inductive thread_program :: "('f \<Rightarrow> bytes \<Rightarrow> stat \<Rightarrow> bool \<times> 'f) \<Rightarrow> fuse_call set \<Rightarrow> ev list \<Rightarrow> bool"
  for fill :: "'f \<Rightarrow> bytes \<Rightarrow> stat \<Rightarrow> bool \<times> 'f" and cs :: "fuse_call set" where
  program_Nil: "thread_program fill cs []"
| program_call: "thread_program fill cs es \<Longrightarrow> c \<in> cs \<Longrightarrow> zhwkrfsp fill f k c s = Returns v x t
     \<Longrightarrow> evs t = evs s @ p \<Longrightarrow> thread_program fill cs (es @ p)"

definition locked_calls :: "fuse_call set" where
  "locked_calls = {c. takes_lock c}"

lemma thread_program_well: "thread_program fill locked_calls es \<Longrightarrow> well False es"
proof (induction rule: thread_program.induct)
  case (program_call es c f k s v x t p)
  then have "\<exists>p. evs t = evs s @ p \<and> well False p"
    using locked_call_well [of c s fill f k] by (simp add: locked_calls_def)
  then show ?case
    using program_call by (auto intro: well_append)
qed simp

text \<open>
  C11: threads that serve any calls but \<^verbatim>\<open>chmod\<close>, \<^verbatim>\<open>access\<close>, \<^verbatim>\<open>unlink\<close> and \<^verbatim>\<open>utimens\<close> never disturb each
  other: in every interleaving, between a thread's lock and its unlock no other thread uses the
  socket, so a request and its reply stay together on the stream. Whenever the mutex is free, the
  interleaving so far is a sequence of whole critical sections, in which every thread's operations
  come in the order of its own program.
\<close>

theorem locked_calls_serialise:
  assumes "\<forall>i. thread_program fill locked_calls (c_prog c i)" and "\<not> c_mu c" and "runs c tr d"
  shows "serial tr None \<and> (\<forall>i j. hd (c_prog d i) \<in> {EvSend, EvRecv} \<and> c_prog d i \<noteq> []
      \<and> hd (c_prog d j) \<in> {EvSend, EvRecv} \<and> c_prog d j \<noteq> [] \<longrightarrow> i = j)
    \<and> (\<not> c_mu d \<longrightarrow> (\<exists>bs. blocks_of tr bs)) \<and> (\<forall>i. ops_of i tr @ c_prog d i = c_prog c i)"
proof -
  have "holder_inv None c"
    using assms(1,2) thread_program_well by (auto simp: holder_inv_def)
  from runs_serial [OF assms(3) this] have ser: "serial tr None"
    and inv: "holder_inv (holder tr None) d" by simp_all
  have "holder tr None = Some i" if "hd (c_prog d i) \<in> {EvSend, EvRecv}" "c_prog d i \<noteq> []" for i
  proof (rule ccontr)
    assume "holder tr None \<noteq> Some i"
    then have "well False (c_prog d i)"
      using inv by (intro holder_inv_other)
    then show False
      using that by (cases "c_prog d i") auto
  qed
  then have "\<forall>i j. hd (c_prog d i) \<in> {EvSend, EvRecv} \<and> c_prog d i \<noteq> []
      \<and> hd (c_prog d j) \<in> {EvSend, EvRecv} \<and> c_prog d j \<noteq> [] \<longrightarrow> i = j"
    by (metis option.inject)
  moreover have "\<exists>bs. blocks_of tr bs" if "\<not> c_mu d"
    using serial_blocks [OF ser] inv that by (simp add: holder_inv_def)
  ultimately show ?thesis
    using ser runs_ops [OF assms(3)] by blast
qed

section \<open>Schedules\<close>

text \<open>The next step of thread \<open>i\<close>, and the run of a whole schedule.\<close>

definition do_step :: "conf \<Rightarrow> nat \<Rightarrow> (ev \<times> conf) option" where
  "do_step c i = (case c_prog c i of [] \<Rightarrow> None
     | e # es \<Rightarrow>
         (let p = (c_prog c)(i := es) in
          case e of EvLock \<Rightarrow> if c_mu c then None else Some (e, c\<lparr>c_mu := True, c_prog := p\<rparr>)
          | EvUnlock \<Rightarrow> Some (e, c\<lparr>c_mu := False, c_prog := p\<rparr>)
          | _ \<Rightarrow> Some (e, c\<lparr>c_prog := p\<rparr>)))"

fun do_run :: "conf \<Rightarrow> nat list \<Rightarrow> ((nat \<times> ev) list \<times> conf) option" where
  "do_run c [] = Some ([], c)"
| "do_run c (i # is) = (case do_step c i of None \<Rightarrow> None
     | Some (e, d) \<Rightarrow> map_option (\<lambda>(tr, d'). ((i, e) # tr, d')) (do_run d is))"

lemma do_step_step: "do_step c i = Some (e, d) \<Longrightarrow> step c (i, e) d"
  by (auto simp: do_step_def Let_def intro: step.intros split: list.splits ev.splits if_splits)

lemma do_run_runs: "do_run d is = Some (tr', d') \<Longrightarrow> runs c tr d \<Longrightarrow> runs c (tr @ tr') d'"
proof (induction "is" arbitrary: d tr tr')
  case (Cons i js)
  then obtain e d1 tr1 where st: "do_step d i = Some (e, d1)" "do_run d1 js = Some (tr1, d')"
    "tr' = (i, e) # tr1" by (auto split: option.splits)
  have "runs c (tr @ [(i, e)]) d1"
    using Cons.prems(2) do_step_step [OF st(1)] by (rule runs_snoc)
  from Cons.IH [OF st(2) this] show ?case
    by (simp add: st(3))
qed simp

text \<open>The operations of a call that the client answers with an error.\<close>

lemma error_reply_program:
  assumes "call_ok c" and "mode_fits stack0 c" and "c \<in> cs"
  shows "thread_program fill0 cs ((if takes_lock c then [EvLock] else []) @ [EvSend, EvRecv, EvUnlock])"
proof -
  let ?s = "srv0 [RxData (enc_RpHdr reply_enoent)] []"
  have "is_exchange (message stack0 c (req_uid c (opuid ?s))) (unchanged [] c) (start c ?s)
      (zhwkrfsp fill0 [] stack0 c ?s)"
    using assms(1,2) by (intro zhwkrfsp_exchange) simp_all
  from exchange_error [OF this, where rp = reply_enoent and rest = "[]"] obtain w where
    "zhwkrfsp fill0 [] stack0 c ?s = Returns (sint (rp_rtvl reply_enoent)) (unchanged [] c)
       (mu_unlock ((start c ?s)\<lparr>live := live ?s + 1, net := w, evs := evs (start c ?s) @ [EvSend, EvRecv]\<rparr>))"
    by (auto simp: reply_enoent_def)
  from program_call [OF program_Nil assms(3) this,
      of "(if takes_lock c then [EvLock] else []) @ [EvSend, EvRecv, EvUnlock]"]
  show ?thesis
    by (simp add: mu_unlock_def start_def srv0_def)
qed

definition two_threads :: "ev list \<Rightarrow> ev list \<Rightarrow> conf" where
  "two_threads p q = \<lparr>c_mu = False, c_prog = (\<lambda>i. if i = 0 then p else if i = 1 then q else [])\<rparr>"

definition locked_program :: "ev list" where
  "locked_program = [EvLock, EvSend, EvRecv, EvUnlock]"

definition unlocked_program :: "ev list" where
  "unlocked_program = [EvSend, EvRecv, EvUnlock]"

lemma locked_program_rmdir: "takes_lock (Rmdir [47, 97]) \<Longrightarrow> Rmdir [47, 97] \<in> cs \<Longrightarrow> thread_program fill0 cs locked_program"
  using error_reply_program [of "Rmdir [47, 97]" cs] by (simp add: locked_program_def)

lemma unlocked_program_unlink: "Unlink [47] \<in> cs \<Longrightarrow> thread_program fill0 cs unlocked_program"
  using error_reply_program [of "Unlink [47]" cs] by (simp add: unlocked_program_def takes_lock_def)

theorem locked_calls_serialise_witness:
  "\<exists>d bs. runs (two_threads locked_program locked_program) (map (Pair 1) locked_program @ map (Pair 0) locked_program) d
     \<and> serial (map (Pair 1) locked_program @ map (Pair 0) locked_program) None
     \<and> blocks_of (map (Pair 1) locked_program @ map (Pair 0) locked_program) bs \<and> c_prog d 0 = []"
proof -
  let ?c = "two_threads locked_program locked_program"
  let ?tr = "map (Pair 1) locked_program @ map (Pair 0) locked_program"
  have prog: "\<forall>i. thread_program fill0 locked_calls (c_prog ?c i)"
    using locked_program_rmdir [of locked_calls] program_Nil [of fill0 locked_calls]
    by (simp add: two_threads_def locked_calls_def takes_lock_def)
  obtain d where d: "do_run ?c [1, 1, 1, 1, 0, 0, 0, 0] = Some (?tr, d)" "\<not> c_mu d" "c_prog d 0 = []"
    by (simp add: two_threads_def locked_program_def do_step_def)
  from do_run_runs [OF d(1) runs_Nil] have ex: "runs ?c ?tr d"
    by simp
  have "serial ?tr None \<and> (\<exists>bs. blocks_of ?tr bs)"
    using locked_calls_serialise [OF prog _ ex] d(2) by (simp add: two_threads_def)
  then show ?thesis
    using ex d(3) by blast
qed

text \<open>
  One \<^verbatim>\<open>unlink\<close> is enough to break this. While thread 0 waits for its reply with the mutex held, thread 1 sends its
  own request, receives, and frees the mutex that thread 0 still holds.
\<close>

lemma unlink_breaks_mutual_exclusion:
  "\<exists>tr d. thread_program fill0 {Rmdir [47, 97]} (c_prog (two_threads locked_program unlocked_program) 0)
     \<and> thread_program fill0 {Unlink [47]} (c_prog (two_threads locked_program unlocked_program) 1)
     \<and> runs (two_threads locked_program unlocked_program) tr d
     \<and> tr = [(0, EvLock), (0, EvSend), (1, EvSend), (1, EvRecv), (1, EvUnlock)]
     \<and> \<not> serial tr None \<and> \<not> c_mu d \<and> c_prog d 0 = [EvRecv, EvUnlock]"
proof -
  let ?c = "two_threads locked_program unlocked_program"
  let ?tr = "[(0, EvLock), (0, EvSend), (1, EvSend), (1, EvRecv), (1, EvUnlock)] :: (nat \<times> ev) list"
  obtain d where run: "do_run ?c [0, 0, 1, 1, 1] = Some (?tr, d)" and d: "\<not> c_mu d"
    "c_prog d 0 = [EvRecv, EvUnlock]"
    by (simp add: two_threads_def locked_program_def unlocked_program_def do_step_def)
  have "runs ?c ?tr d"
    using do_run_runs [OF run runs_Nil] by simp
  moreover have "thread_program fill0 {Rmdir [47, 97]} (c_prog ?c 0)"
    using locked_program_rmdir [of "{Rmdir [47, 97]}"] by (simp add: two_threads_def takes_lock_def)
  moreover have "thread_program fill0 {Unlink [47]} (c_prog ?c 1)"
    using unlocked_program_unlink [of "{Unlink [47]}"] by (simp add: two_threads_def)
  ultimately show ?thesis
    using d by (intro exI [of _ ?tr] exI [of _ d]) simp
qed

section \<open>Crossed replies\<close>

text \<open>
  The four calls that do not lock can run while another call waits for its reply. What then happens to the
  replies is a matter of the data: a call takes the reply header that comes next, whatever identifier it has.
\<close>

lemma await_error:
  assumes "rx_avail (rx (net u)) = enc_RpHdr rp @ rest" and "sint (rp_rtvl rp) < 0"
  shows "\<exists>v. await_reply (unchanged f c) u (after_reply fill f c) = Returns (sint (rp_rtvl rp)) (unchanged f c) v
    \<and> rx_avail (rx (net v)) = rest"
  using await_reply_ok [OF assms(1), of "unchanged f c" "after_reply fill f c"] assms(2)
  by (auto simp: after_reply_def WARN_def mu_unlock_def)

text \<open>
  C39: while any call \<open>c\<close> that took the mutex waits for its reply, any \<^verbatim>\<open>chmod\<close>, \<^verbatim>\<open>access\<close>, \<^verbatim>\<open>unlink\<close> or \<^verbatim>\<open>utimens\<close>
  \<open>c'\<close> on another thread runs to its end, although the mutex is taken. If the client reports an error for each of
  the two requests, in the order in which they arrived, \<open>c'\<close> returns the error of \<open>c\<close>, the mutex of \<open>c\<close> is free from
  then on, and \<open>c\<close>, which goes on behind its wait with \<open>after_reply\<close>, returns the error of \<open>c'\<close>, whatever
  identifiers the replies carry. Without \<open>c'\<close>, \<open>c\<close> returns its own. Both requests are written without an error,
  and neither call overflows its array for a mode string (with libbsd \<open>c\<close> is then no \<^verbatim>\<open>mkdir\<close>, and \<open>c'\<close> is an
  \<^verbatim>\<open>unlink\<close> or an \<^verbatim>\<open>utimens\<close>).
\<close>

theorem unlocked_call_takes_reply:
  assumes "stack_ok k" and "call_ok c" and "mode_fits k c" and "takes_lock c"
    and "stack_ok k'" and "call_ok c'" and "mode_fits k' c'" and "\<not> takes_lock c'"
    and "\<not> mu s" and "tx_good (txq (net s))"
    and "rx_avail (rx (net s)) = enc_RpHdr rp @ enc_RpHdr rp' @ rest"
    and "sint (rp_rtvl rp) < 0" and "sint (rp_rtvl rp') < 0"
  shows "(\<exists>w. zhwkrfsp fill f k c s = Returns (sint (rp_rtvl rp)) (unchanged f c) w)
    \<and> (\<exists>t u v. zhwkrfsp fill f k c s = await_reply (unchanged f c) t (after_reply fill f c)
        \<and> mu t \<and> tx (net t) = tx (net s) @ message k c (req_uid c (opuid s)) \<and> rx (net t) = rx (net s)
        \<and> zhwkrfsp fill g k' c' t = Returns (sint (rp_rtvl rp)) (unchanged g c') u
        \<and> \<not> mu u \<and> tx (net u) = tx (net t) @ message k' c' (opuid t)
        \<and> await_reply (unchanged f c) u (after_reply fill f c) = Returns (sint (rp_rtvl rp')) (unchanged f c) v
        \<and> rx_avail (rx (net v)) = rest)"
proof -
  obtain t where t: "zhwkrfsp fill f k c s = await_reply (unchanged f c) t (after_reply fill f c)" "mu t"
      "tx (net t) = tx (net s) @ message k c (req_uid c (opuid s))" "rx (net t) = rx (net s)" "tx_good (txq (net t))"
    using call_run [OF assms(1-3), of s fill f] assms(4,9,10) by auto
  have rx: "rx_avail (rx (net t)) = enc_RpHdr rp @ enc_RpHdr rp' @ rest"
    using assms(11) t(4) by simp
  obtain w where w: "zhwkrfsp fill f k c s = Returns (sint (rp_rtvl rp)) (unchanged f c) w"
    using await_error [OF rx assms(12), of f c fill] t(1) by auto
  have ex': "is_exchange (message k' c' (opuid t)) (unchanged g c') (start c' t) (zhwkrfsp fill g k' c' t)"
    using zhwkrfsp_exchange [OF assms(5-7), of t g fill] assms(8) by (simp add: req_uid_def)
  obtain u where u: "zhwkrfsp fill g k' c' t = Returns (sint (rp_rtvl rp)) (unchanged g c') u" "\<not> mu u"
      "tx (net u) = tx (net t) @ message k' c' (opuid t)" "rx_avail (rx (net u)) = enc_RpHdr rp' @ rest"
    using exchange_error [OF ex', of rp "enc_RpHdr rp' @ rest"] rx assms(12) t(5) by (auto simp: mu_unlock_def)
  obtain v where "await_reply (unchanged f c) u (after_reply fill f c) = Returns (sint (rp_rtvl rp')) (unchanged f c) v"
      "rx_avail (rx (net v)) = rest"
    using await_error [OF u(4) assms(13), of f c fill] by blast
  then show ?thesis
    using w t(1-4) u(1-3) by blast
qed

definition reply_eacces :: RpHdr where
  "reply_eacces = \<lparr>rp_size = 12, rp_ouid = 0, rp_rtvl = - 13\<rparr>"

text \<open>A directory that is not empty is removed while a file is deleted: \<^verbatim>\<open>unlink\<close> reports what happened to the directory.\<close>

theorem unlocked_call_takes_reply_witness:
  "\<exists>t u v. zhwkrfsp fill0 [] stack0 (Rmdir [47, 97]) (srv0 [RxData (enc_RpHdr reply_enoent), RxData (enc_RpHdr reply_eacces)] [])
       = await_reply ONone t (after_reply fill0 [] (Rmdir [47, 97])) \<and> mu t
     \<and> zhwkrfsp fill0 [] stack0 (Unlink [47]) t = Returns (- 2) ONone u \<and> \<not> mu u
     \<and> await_reply ONone u (after_reply fill0 [] (Rmdir [47, 97])) = Returns (- 13) ONone v"
  using unlocked_call_takes_reply [of stack0 "Rmdir [47, 97]" stack0 "Unlink [47]"
      "srv0 [RxData (enc_RpHdr reply_enoent), RxData (enc_RpHdr reply_eacces)] []" reply_enoent reply_eacces "[]" fill0 "[]" "[]"]
  by (simp add: takes_lock_def reply_enoent_def reply_eacces_def del: zhwkrfsp.simps) blast

end
