(* ===== verification/Session.thy ===== *)
theory Session
  imports FuseDeliver
begin

text \<open>
  The server and its client together, over a whole run: a sequence of FUSE calls, the client's
  answers to them, and what the callers get. The specification is a direct call: the client is a
  function from requests to answers, and a run calls it once per request, in order, with no bytes,
  no socket and no mutex. The handlers are shown to implement it on every segmentation of the
  client's stream and every pattern of partial writes.
\<close>

section \<open>Answers\<close>

text \<open>What the protocol lets follow a reply header.\<close>

datatype content = NoContent | StatOf Ustat stat | StatvfsOf Ustatvfs statvfs | Chars bytes
  | Entries "Udirent list" | Handle RpOpen

type_synonym answer = "RpHdr \<times> content"

primrec content_bytes :: "content \<Rightarrow> bytes" where
  "content_bytes NoContent = []"
| "content_bytes (StatOf u st) = enc_Ustat (unify_stat u st)"
| "content_bytes (StatvfsOf u st) = enc_Ustatvfs (unify_statvfs u st)"
| "content_bytes (Chars bs) = bs"
| "content_bytes (Entries ds) = concat (map enc_Udirent ds)"
| "content_bytes (Handle ro) = enc_RpOpen ro"

definition answer_bytes :: "answer \<Rightarrow> bytes" where
  "answer_bytes a = enc_RpHdr (fst a) @ content_bytes (snd a)"

text \<open>
  The content that fits a call. The data of a \<^verbatim>\<open>read\<close> must leave room for the header in the caller's
  buffer, because the handler compares the size of the whole reply with the size of the buffer.
\<close>

primrec content_fits :: "content \<Rightarrow> fuse_call \<Rightarrow> RpHdr \<Rightarrow> bool" where
  "content_fits NoContent c rp = empty_reply c"
| "content_fits (StatOf u theirs) c rp = (case c of Getattr fn st \<Rightarrow> ok_Ustat u | _ \<Rightarrow> False)"
| "content_fits (StatvfsOf u theirs) c rp = (case c of Statfs fn st \<Rightarrow> True | _ \<Rightarrow> False)"
| "content_fits (Chars bs) c rp = (case c of
       Readlink fn dest n \<Rightarrow> length dest = unat n \<and> length bs \<le> unat n \<and> unat n < 2 ^ 31
     | Read fn buf n pos fi \<Rightarrow> length buf = unat n \<and> sizeof_RpHdr + length bs \<le> unat n
         \<and> length bs < 2 ^ 31 \<and> unat (rp_rtvl rp) = length bs
     | _ \<Rightarrow> False)"
| "content_fits (Entries ds) c rp = (case c of
       Readdir dn off fi \<Rightarrow> list_all ok_Udirent ds \<and> length ds * sizeof_Udirent < 2 ^ 31
     | _ \<Rightarrow> False)"
| "content_fits (Handle ro) c rp = (open_info c \<noteq> None \<and> ok_RpOpen ro)"

text \<open>An answer to a call as the protocol has it: an error is a bare header.\<close>

definition answers :: "fuse_call \<Rightarrow> answer \<Rightarrow> bool" where
  "answers c a \<longleftrightarrow> (if sint (rp_rtvl (fst a)) < 0 then snd a = NoContent
     else unat (rp_size (fst a)) = sizeof_RpHdr + length (content_bytes (snd a))
       \<and> content_fits (snd a) c (fst a))"

text \<open>What the answer means to the caller: the return value and the caller's object afterwards.\<close>

primrec meaning :: "content \<Rightarrow> ('f \<Rightarrow> bytes \<Rightarrow> stat \<Rightarrow> bool \<times> 'f) \<Rightarrow> 'f \<Rightarrow> fuse_call \<Rightarrow> RpHdr
    \<Rightarrow> int \<times> 'f fuse_out" where
  "meaning NoContent fill f c rp = (empty_result c rp, ONone)"
| "meaning (StatOf u theirs) fill f c rp =
     (0, case c of Getattr fn st \<Rightarrow> OStat (merge_stat st theirs) | _ \<Rightarrow> ONone)"
| "meaning (StatvfsOf u theirs) fill f c rp =
     (0, case c of Statfs fn st \<Rightarrow> OStatvfs (theirs\<lparr>f_spare := f_spare st\<rparr>) | _ \<Rightarrow> ONone)"
| "meaning (Chars bs) fill f c rp = (case c of
       Readlink fn dest n \<Rightarrow> (0, OBytes (bs @ drop (length bs) dest))
     | Read fn buf n pos fi \<Rightarrow> (int (length bs), OBytes (bs @ drop (length bs) buf))
     | _ \<Rightarrow> (0, ONone))"
| "meaning (Entries ds) fill f c rp = (0, ODir (feed fill ds f))"
| "meaning (Handle ro) fill f c rp = (0, OInfo (opened (the (open_info c)) ro))"

definition handed :: "('f \<Rightarrow> bytes \<Rightarrow> stat \<Rightarrow> bool \<times> 'f) \<Rightarrow> 'f \<Rightarrow> fuse_call \<Rightarrow> answer
    \<Rightarrow> int \<times> 'f fuse_out" where
  "handed fill f c a = (if sint (rp_rtvl (fst a)) < 0 then (sint (rp_rtvl (fst a)), unchanged f c)
     else meaning (snd a) fill f c (fst a))"

section \<open>One call\<close>

lemma delivers_content:
  assumes "stack_ok k" and "call_ok c" and "mode_fits k c" and "takes_lock c \<longrightarrow> \<not> mu s" and "tx_good (txq (net s))"
    and "0 \<le> sint (rp_rtvl rp)" and "content_fits x c rp"
    and "unat (rp_size rp) = sizeof_RpHdr + length (content_bytes x)"
    and "rx_avail (rx (net s)) = enc_RpHdr rp @ content_bytes x @ rest"
  shows "delivers (zhwkrfsp fill f k c s) (fst (meaning x fill f c rp)) (snd (meaning x fill f c rp)) rest"
proof -
  have k: "ok_OpRead (k_rd k)"
    using assms(1) by (simp add: stack_ok_def)
  have names: "\<And>fn. fn \<in> set (call_names c) \<Longrightarrow> strlen fn < FILENAME_LEN"
    using assms(2) by (simp add: call_ok_def names_fit_def list_all_iff)
  show ?thesis
  proof (cases x)
    case NoContent
    then show ?thesis
      using empty_reply_calls [OF assms(1-3) _ assms(4,5,6), of rest fill f] assms(7-9)
      by simp
  next
    case (Handle ro)
    then obtain fi where fi: "open_info c = Some fi" and ro: "ok_RpOpen ro"
      using assms(7) by auto
    then have "\<not> mu s"
      using assms(4) by (cases c) (simp_all add: takes_lock_def)
    then show ?thesis
      using open_delivers [OF assms(1,2) fi _ assms(5,6) ro, of rest fill f] assms(8,9) Handle fi ro
      by (simp add: c_RpOpen.enc_length)
  next
    case (StatOf u theirs)
    then obtain fn st where "c = Getattr fn st" "ok_Ustat u"
      using assms(7) by (auto split: fuse_call.splits)
    then show ?thesis
      using getattr_delivers [OF k, of fn s u rp theirs rest st] names assms(4-6,8,9) StatOf
      by (auto simp: takes_lock_def c_Ustat.enc_length intro: map_outcome_delivers)
  next
    case (StatvfsOf u theirs)
    then obtain fn st where "c = Statfs fn st"
      using assms(7) by (auto split: fuse_call.splits)
    then show ?thesis
      using statfs_delivers [OF k, of fn s rp u theirs rest st] names assms(4-6,8,9) StatvfsOf
      by (auto simp: takes_lock_def c_Ustatvfs.enc_length intro: map_outcome_delivers)
  next
    case (Entries ds)
    then obtain dn off fi where "c = Readdir dn off fi" "list_all ok_Udirent ds"
        "length ds * sizeof_Udirent < 2 ^ 31"
      using assms(7) by (auto split: fuse_call.splits)
    then show ?thesis
      using readdir_delivers [OF k, of dn s rp ds rest f fill off fi] names assms(4-6,8,9) Entries
      by (auto simp: takes_lock_def length_dirents intro: map_outcome_delivers)
  next
    case (Chars bs)
    then consider (link) fn dest n where "c = Readlink fn dest n" | (data) fn buf n pos fi where "c = Read fn buf n pos fi"
      using assms(7) by (auto split: fuse_call.splits)
    then show ?thesis
    proof cases
      case link
      then show ?thesis
        using readlink_delivers [OF k, of fn s rp bs rest dest n] names assms(4-9) Chars
        by (auto simp: takes_lock_def intro: map_outcome_delivers)
    next
      case data
      then show ?thesis
        using read_delivers [OF k, of fn s rp bs rest buf n pos fi] names assms(4-9) Chars
        by (auto simp: takes_lock_def intro: map_outcome_delivers)
    qed
  qed
qed

text \<open>
  A finished call: the result \<open>v\<close> and object \<open>x\<close>, the stream behind the answer, \<open>sent\<close> on the wire, and
  everything in order for the next call.
\<close>

definition completes :: "int \<Rightarrow> 'a \<Rightarrow> bytes \<Rightarrow> bytes \<Rightarrow> u32 \<Rightarrow> srv \<Rightarrow> 'a outcome \<Rightarrow> bool" where
  "completes v x sent rest inc s r \<longleftrightarrow> (\<exists>t. r = Returns v x t \<and> \<not> mu t \<and> tx_good (txq (net t))
     \<and> rx_avail (rx (net t)) = rest \<and> tx (net t) = tx (net s) @ sent \<and> opuid t = opuid s + inc)"

lemma zhwkrfsp_delivers:
  assumes "stack_ok k" and "call_ok c" and "mode_fits k c" and "takes_lock c \<longrightarrow> \<not> mu s" and "tx_good (txq (net s))"
    and "answers c a" and "rx_avail (rx (net s)) = answer_bytes a @ rest"
  shows "delivers (zhwkrfsp fill f k c s) (fst (handed fill f c a)) (snd (handed fill f c a)) rest"
proof (cases "sint (rp_rtvl (fst a)) < 0")
  case True
  then have "rx_avail (rx (net s)) = enc_RpHdr (fst a) @ rest"
    using assms(6,7) by (simp add: answers_def answer_bytes_def)
  moreover have "takes_lock c \<Longrightarrow> \<not> mu s"
    using assms(4) by blast
  ultimately show ?thesis
    using exchange_error [OF zhwkrfsp_exchange [OF assms(1-3), of s f fill] _ _ True, of rest] assms(5) True
    by (auto simp: handed_def delivers_def mu_unlock_def)
next
  case False
  then show ?thesis
    using delivers_content [OF assms(1-5), of "fst a" "snd a" rest fill f] assms(6,7)
    by (simp add: answers_def answer_bytes_def handed_def)
qed

lemma zhwkrfsp_answered:
  assumes "stack_ok k" and "call_ok c" and "mode_fits k c" and "takes_lock c \<longrightarrow> \<not> mu s" and "tx_good (txq (net s))"
    and "answers c a" and "rx_avail (rx (net s)) = answer_bytes a @ rest"
  shows "completes (fst (handed fill f c a)) (snd (handed fill f c a))
    (message k c (req_uid c (opuid s))) rest (opuid_step c) s (zhwkrfsp fill f k c s)"
proof -
  from zhwkrfsp_delivers [OF assms, of fill f] obtain t where
    t: "zhwkrfsp fill f k c s = Returns (fst (handed fill f c a)) (snd (handed fill f c a)) t"
      "\<not> mu t" "rx_avail (rx (net t)) = rest" by (auto simp: delivers_def)
  have "takes_lock c \<Longrightarrow> \<not> mu s" "c \<noteq> Init"
    using assms(2,4) by (auto simp: call_ok_def)
  with exchange_sends [OF zhwkrfsp_exchange [OF assms(1-3), of s f fill]] assms(5) t(1)
    zhwkrfsp_bracketed [of c s fill f k]
  have "tx (net t) = tx (net s) @ message k c (req_uid c (opuid s)) \<and> tx_good (txq (net t))"
      "opuid t = opuid s + opuid_step c"
    by (simp_all add: bracketed_def on_return_def on_end_def)
  then show ?thesis
    using t by (simp add: completes_def)
qed

lemma zhwkrfsp_refused:
  assumes "stack_ok k" and "names_fit c" and "refused c" and "\<not> mu s" and "tx_good (txq (net s))"
    and "rx_avail (rx (net s)) = rest"
  shows "completes (- EINVAL) (unchanged f c) [] rest (opuid_step c) s (zhwkrfsp fill f k c s)"
proof -
  have "opuid_step c = 1"
    using assms(3) by (cases c) (simp_all add: opuid_step_def takes_lock_def)
  then show ?thesis
    using call_refused [OF assms(1-4), of fill f] assms(5,6) by (simp add: completes_def assms(4))
qed

section \<open>A run of calls\<close>

text \<open>A call with what it starts from: the uninitialised stack and the caller's directory state.\<close>

type_synonym 'f request = "stack \<times> 'f \<times> fuse_call"

text \<open>
  libfuse's single-threaded loop as \<^verbatim>\<open>server.c\<close> starts it: each request is handled to its end. The
  results are collected; \<open>None\<close> stands for a run that aborts, faults or never ends.
\<close>

fun run_calls :: "('f \<Rightarrow> bytes \<Rightarrow> stat \<Rightarrow> bool \<times> 'f) \<Rightarrow> 'f request list \<Rightarrow> srv
    \<Rightarrow> ((int \<times> 'f fuse_out) list \<times> srv) option" where
  "run_calls fill [] s = Some ([], s)"
| "run_calls fill ((k, f, c) # rs) s = (case zhwkrfsp fill f k c s of
       Returns v x t \<Rightarrow> map_option (\<lambda>(ys, u). ((v, x) # ys, u)) (run_calls fill rs t)
     | _ \<Rightarrow> None)"

text \<open>
  The specification: the client \<open>cl\<close> with its state \<open>a\<close> is called directly. A step is a request with
  its identifier and the client's answer, or a call that is refused and makes no request.
\<close>

type_synonym 'a client = "'a \<Rightarrow> u32 \<Rightarrow> rq \<Rightarrow> answer \<times> 'a"

datatype 'f rpc = Refused 'f fuse_call | Asked stack 'f fuse_call u32 answer

fun direct :: "'a client \<Rightarrow> 'f request list \<Rightarrow> u32 \<Rightarrow> 'a \<Rightarrow> 'f rpc list" where
  "direct cl [] u a = []"
| "direct cl ((k, f, c) # rs) u a =
     (if refused c then Refused f c # direct cl rs (u + opuid_step c) a
      else let r = cl a (req_uid c u) (request k c)
           in Asked k f c (req_uid c u) (fst r) # direct cl rs (u + opuid_step c) (snd r))"

primrec rpc_result :: "('f \<Rightarrow> bytes \<Rightarrow> stat \<Rightarrow> bool \<times> 'f) \<Rightarrow> 'f rpc \<Rightarrow> int \<times> 'f fuse_out" where
  "rpc_result fill (Refused f c) = (- EINVAL, unchanged f c)"
| "rpc_result fill (Asked k f c u a) = handed fill f c a"

primrec rpc_message :: "'f rpc \<Rightarrow> bytes" where
  "rpc_message (Refused f c) = []"
| "rpc_message (Asked k f c u a) = message k c u"

primrec rpc_reply :: "'f rpc \<Rightarrow> bytes" where
  "rpc_reply (Refused f c) = []"
| "rpc_reply (Asked k f c u a) = answer_bytes a"

primrec rpc_request :: "'f rpc \<Rightarrow> (u32 \<times> rq) list" where
  "rpc_request (Refused f c) = []"
| "rpc_request (Asked k f c u a) = [(u, request k c)]"

primrec rpc_ok :: "'f rpc \<Rightarrow> bool" where
  "rpc_ok (Refused f c) = True"
| "rpc_ok (Asked k f c u a) = answers c a"

text \<open>Requests the server can take: declared arrays, names, data and mode strings that fit.\<close>

definition request_fits :: "'f request \<Rightarrow> bool" where
  "request_fits r = (case r of (k, f, c) \<Rightarrow> stack_ok k \<and> c \<noteq> Init \<and> names_fit c \<and> data_fits c \<and> mode_fits k c)"

definition uid_after :: "'f request list \<Rightarrow> u32 \<Rightarrow> u32" where
  "uid_after rs u = u + sum_list (map (\<lambda>(k, f, c). opuid_step c) rs)"

lemma run_calls_direct:
  assumes "list_all request_fits rs" and "list_all rpc_ok (direct cl rs (opuid s) a)"
    and "\<not> mu s" and "tx_good (txq (net s))"
    and "rx_avail (rx (net s)) = concat (map rpc_reply (direct cl rs (opuid s) a)) @ rest"
  shows "\<exists>t. run_calls fill rs s = Some (map (rpc_result fill) (direct cl rs (opuid s) a), t)
    \<and> \<not> mu t \<and> rx_avail (rx (net t)) = rest \<and> opuid t = uid_after rs (opuid s)
    \<and> tx (net t) = tx (net s) @ concat (map rpc_message (direct cl rs (opuid s) a))"
  using assms
proof (induction rs arbitrary: s a)
  case Nil
  then show ?case by (simp add: uid_after_def)
next
  case (Cons r rs)
  obtain k f c where r: "r = (k, f, c)" by (cases r)
  have fits: "stack_ok k" "c \<noteq> Init" "names_fit c" "data_fits c" "mode_fits k c" "list_all request_fits rs"
    using Cons.prems(1) by (auto simp: r request_fits_def [of "(k, f, c)"])
  define a' where "a' = (if refused c then a else snd (cl a (req_uid c (opuid s)) (request k c)))"
  define p where "p = (if refused c then Refused f c
    else Asked k f c (req_uid c (opuid s)) (fst (cl a (req_uid c (opuid s)) (request k c))))"
  let ?ps = "direct cl rs (opuid s + opuid_step c) a'"
  have direct: "direct cl (r # rs) (opuid s) a = p # ?ps"
    by (simp add: r p_def a'_def Let_def)
  let ?tail = "concat (map rpc_reply ?ps) @ rest"
  have "completes (fst (rpc_result fill p)) (snd (rpc_result fill p)) (rpc_message p) ?tail
      (opuid_step c) s (zhwkrfsp fill f k c s)"
  proof (cases "refused c")
    case True
    then show ?thesis
      using zhwkrfsp_refused [of k c s ?tail f fill] fits Cons.prems direct by (simp add: p_def)
  next
    case False
    then have "call_ok c"
      using fits by (simp add: call_ok_def)
    then show ?thesis
      using zhwkrfsp_answered [of k c s "fst (cl a (req_uid c (opuid s)) (request k c))" ?tail fill f]
        fits Cons.prems direct False by (simp add: p_def)
  qed
  then obtain t where t: "zhwkrfsp fill f k c s = Returns (fst (rpc_result fill p)) (snd (rpc_result fill p)) t"
      "\<not> mu t" "tx_good (txq (net t))" "rx_avail (rx (net t)) = ?tail"
      "tx (net t) = tx (net s) @ rpc_message p" "opuid t = opuid s + opuid_step c"
    by (auto simp: completes_def)
  from Cons.IH [of t a'] t fits Cons.prems(2) direct obtain u where
    "run_calls fill rs t = Some (map (rpc_result fill) ?ps, u)" "\<not> mu u" "rx_avail (rx (net u)) = rest"
    "opuid u = uid_after rs (opuid t)" "tx (net u) = tx (net t) @ concat (map rpc_message ?ps)"
    by auto
  then show ?case
    using t direct by (simp add: r uid_after_def add.assoc)
qed

section \<open>The client's side of a run\<close>

text \<open>
  A client that takes one operation after the other from its stream gets these requests, each with its
  identifier and kind, and then stands in front of \<open>rest\<close>.
\<close>

fun receives :: "(u32 \<times> rq) list \<Rightarrow> world \<Rightarrow> bytes \<Rightarrow> bool" where
  "receives [] w rest \<longleftrightarrow> rx_avail (rx w) = rest"
| "receives ((u, r) # rs) w rest \<longleftrightarrow> (\<forall>h0. \<exists>h w1 mid. wait_operation h0 w = Some (Done (0, h, w1))
     \<and> op_ouid h = u \<and> op_opid h = rq_opid r \<and> received r h w1 mid
     \<and> (\<forall>w2. rx_avail (rx w2) = mid \<longrightarrow> receives rs w2 rest))"

definition no_symlink :: "'f request \<Rightarrow> bool" where
  "no_symlink r = (case r of (k, f, c) \<Rightarrow> (case c of Symlink fn src \<Rightarrow> False | _ \<Rightarrow> True))"

lemma direct_received:
  assumes "list_all request_fits rs" and "list_all no_symlink rs"
    and "rx_avail (rx w) = concat (map rpc_message (direct cl rs u a)) @ rest"
  shows "receives (concat (map rpc_request (direct cl rs u a))) w rest"
  using assms
proof (induction rs arbitrary: u a w)
  case (Cons r rs)
  obtain k f c where r: "r = (k, f, c)" by (cases r)
  have fits: "stack_ok k" "c \<noteq> Init" "names_fit c" "data_fits c" "mode_fits k c" "list_all request_fits rs"
    and sym: "\<forall>fn src. c \<noteq> Symlink fn src" "list_all no_symlink rs"
    using Cons.prems(1,2)
    by (auto simp: r request_fits_def [of "(k, f, c)"] no_symlink_def [of "(k, f, c)"])
  show ?case
  proof (cases "refused c")
    case True
    then show ?thesis
      using Cons.IH [OF fits(6) sym(2)] Cons.prems(3) by (simp add: r)
  next
    case False
    let ?u = "req_uid c u" and ?ps = "direct cl rs (u + opuid_step c) (snd (cl a (req_uid c u) (request k c)))"
    let ?mid = "concat (map rpc_message ?ps) @ rest"
    have "call_ok c"
      using fits False by (simp add: call_ok_def)
    moreover have "rx_avail (rx w) = message k c ?u @ ?mid"
      using Cons.prems(3) False by (simp add: r Let_def)
    ultimately have "\<exists>h w1. wait_operation h0 w = Some (Done (0, h, w1)) \<and> op_ouid h = ?u
        \<and> op_opid h = rq_opid (request k c) \<and> received (request k c) h w1 ?mid" for h0
      using message_taken [OF fits(1) _ sym(1), of w ?u ?mid h0] by blast
    moreover have "receives (concat (map rpc_request ?ps)) w2 rest" if "rx_avail (rx w2) = ?mid" for w2
      using Cons.IH [OF fits(6) sym(2) that] .
    ultimately show ?thesis
      using False by (simp add: r Let_def) blast
  qed
qed simp

section \<open>Properties\<close>

text \<open>
  C3: one call, of the nineteen that ask the client. When the client answers with a reply header and the content
  of its call, on any segmentation of the answer and any pattern of partial writes, the call returns what the
  answer means to the caller, its message is on the wire, and the stream, the mutex, the connection and the
  operation counter are in order for the next call. A call that converts a mode (\<^verbatim>\<open>mkdir\<close>, \<^verbatim>\<open>chmod\<close>, \<^verbatim>\<open>access\<close>)
  has to convert it into a text that fits the array of eleven bytes, which the texts of libbsd do not. \<^verbatim>\<open>mkdir\<close> is
  answered like the others, although the README lets the client leave its reply out.
\<close>

theorem call_answered:
  assumes "stack_ok k" and "call_ok c" and "mode_fits k c" and "takes_lock c \<longrightarrow> \<not> mu s" and "tx_good (txq (net s))"
    and "answers c a" and "rx_avail (rx (net s)) = answer_bytes a @ rest"
  shows "\<exists>t. zhwkrfsp fill f k c s = Returns (fst (handed fill f c a)) (snd (handed fill f c a)) t
    \<and> \<not> mu t \<and> tx_good (txq (net t)) \<and> rx_avail (rx (net t)) = rest
    \<and> tx (net t) = tx (net s) @ message k c (req_uid c (opuid s))
    \<and> opuid t = opuid s + opuid_step c"
  using zhwkrfsp_answered [OF assms, of fill f] by (simp add: completes_def)

theorem call_answered_witness:
  "\<exists>t. zhwkrfsp fill0 [] stack0 (Getattr [47, 97] (zero_stat\<lparr>st_blocks := 8\<rparr>))
      (srv0 [RxData (enc_RpHdr (reply0 104 0)),
             RxData (enc_Ustat (unify_stat ustat0 (zero_stat\<lparr>st_size := 5, st_blocks := 9\<rparr>)) @ [1])]
         [TxPart 3])
    = Returns 0 (OStat (zero_stat\<lparr>st_size := 5, st_blocks := 8\<rparr>)) t \<and> rx_avail (rx (net t)) = [1]"
proof -
  let ?a = "(reply0 104 0, StatOf ustat0 (zero_stat\<lparr>st_size := 5, st_blocks := 9\<rparr>))"
  have "call_ok (Getattr [47, 97] (zero_stat\<lparr>st_blocks := 8\<rparr>))"
    by (simp add: call_ok_def names_fit_def FILENAME_LEN_def)
  moreover have "answers (Getattr [47, 97] (zero_stat\<lparr>st_blocks := 8\<rparr>)) ?a"
    by (simp add: answers_def c_Ustat.enc_length sizeof_defs usizeof_defs)
  moreover have "tx_good [TxPart 3]"
    by (simp add: tx_good_def)
  ultimately show ?thesis
    using call_answered [of stack0 "Getattr [47, 97] (zero_stat\<lparr>st_blocks := 8\<rparr>)"
        "srv0 [RxData (enc_RpHdr (reply0 104 0)), RxData (enc_Ustat (unify_stat ustat0
           (zero_stat\<lparr>st_size := 5, st_blocks := 9\<rparr>)) @ [1])] [TxPart 3]" ?a "[1]" fill0 "[]"]
    by (auto simp: answer_bytes_def handed_def merge_stat_def zero_stat_def)
qed

text \<open>
  C4: a run of calls refines the direct use of the client. If the client's answers, in order and cut
  into segments anywhere, are what arrives, every call returns, the callers get exactly what the client
  called directly gives them, each call its own answer; the requests have gone out in order, one
  message each, and nothing of the stream is left over or missing. The mode strings of the calls that make
  one fit their array, so that with libbsd the run has no \<^verbatim>\<open>mkdir\<close>, \<^verbatim>\<open>chmod\<close> or \<^verbatim>\<open>access\<close>.
\<close>

theorem run_refines_direct_calls:
  assumes "list_all request_fits rs" and "list_all rpc_ok (direct cl rs (opuid s) a)"
    and "\<not> mu s" and "tx_good (txq (net s))"
    and "rx_avail (rx (net s)) = concat (map rpc_reply (direct cl rs (opuid s) a)) @ rest"
  shows "\<exists>t. run_calls fill rs s = Some (map (rpc_result fill) (direct cl rs (opuid s) a), t)
    \<and> \<not> mu t \<and> rx_avail (rx (net t)) = rest \<and> opuid t = uid_after rs (opuid s)
    \<and> tx (net t) = tx (net s) @ concat (map rpc_message (direct cl rs (opuid s) a))"
  by (rule run_calls_direct [OF assms])

text \<open>A client that answers \<^verbatim>\<open>getattr\<close> and fails everything else with \<^verbatim>\<open>ENOENT\<close>, counting the requests.\<close>

definition client0 :: "nat client" where
  "client0 n u r = (if rq_opid r = OPER_READ then (reply0 104 0, StatOf ustat0 (zero_stat\<lparr>st_size := 5\<rparr>))
     else (reply_enoent, NoContent), Suc n)"

definition run0 :: "bytes list request list" where
  "run0 = [(stack0, [], Getattr [47, 97] zero_stat),
     (stack0, [], Open [47] \<lparr>fi_flags = 0x400, fi_writepage = False, fi_direct_io = False, fi_fh = 7\<rparr>),
     (stack0, [], Unlink [47])]"

lemma run0_fits: "list_all request_fits run0" "list_all no_symlink run0"
  by (simp_all add: run0_def request_fits_def no_symlink_def names_fit_def FILENAME_LEN_def strlen_def
      cstr_def mode_fits_def)

lemma run0_direct: "direct client0 run0 0 0 =
  [Asked stack0 [] (Getattr [47, 97] zero_stat) 1 (reply0 104 0, StatOf ustat0 (zero_stat\<lparr>st_size := 5\<rparr>)),
   Refused [] (Open [47] \<lparr>fi_flags = 0x400, fi_writepage = False, fi_direct_io = False, fi_fh = 7\<rparr>),
   Asked stack0 [] (Unlink [47]) 2 (reply_enoent, NoContent)]"
  by (simp add: run0_def client0_def Let_def req_uid_def takes_lock_def opuid_step_def bad_open_flags_def
      o_flag_defs OPER_READ_def OPER_WRITE_def)

lemma run0_ok: "list_all rpc_ok (direct client0 run0 0 0)"
  by (simp add: run0_direct answers_def reply_enoent_def c_Ustat.enc_length sizeof_defs usizeof_defs)

lemma run0_uid: "uid_after run0 0 = 2"
  by (simp add: uid_after_def run0_def opuid_step_def takes_lock_def)

theorem run_refines_direct_calls_witness:
  "\<exists>t. run_calls fill0 run0 (srv0 [RxData (concat (map rpc_reply (direct client0 run0 0 0)))] [])
    = Some ([(0, OStat (zero_stat\<lparr>st_size := 5\<rparr>)),
         (- EINVAL, OInfo \<lparr>fi_flags = 0x400, fi_writepage = False, fi_direct_io = False, fi_fh = 7\<rparr>),
         (- 2, ONone)], t) \<and> opuid t = 2"
  using run_refines_direct_calls [of run0 client0 "srv0 [RxData (concat (map rpc_reply
      (direct client0 run0 0 0)))] []" 0 "[]" fill0] run0_fits(1) run0_ok
  by (auto simp: run0_direct run0_uid handed_def reply_enoent_def merge_stat_def zero_stat_def)

text \<open>
  C5: both ends of a run. What the server has written in the run above is, on any segmentation, what a
  client that takes operations with \<^verbatim>\<open>wait_operation\<close> and the functions of \<^verbatim>\<open>prot.c\<close> receives as exactly the
  requests of the calls, in order and with their identifiers; link creation is the exception. The requests
  are those of the code: a removal carries no content, where the README has the name once more in 4096 bytes.
\<close>

theorem run_reaches_client:
  assumes "list_all request_fits rs" and "list_all no_symlink rs"
    and "list_all rpc_ok (direct cl rs (opuid s) a)"
    and "\<not> mu s" and "tx_good (txq (net s))" and "tx (net s) = []"
    and "rx_avail (rx (net s)) = concat (map rpc_reply (direct cl rs (opuid s) a)) @ rest"
  shows "\<exists>ys t. run_calls fill rs s = Some (ys, t) \<and> length ys = length rs
    \<and> (\<forall>w. rx_avail (rx w) = tx (net t) \<longrightarrow>
         receives (concat (map rpc_request (direct cl rs (opuid s) a))) w [])"
proof -
  from run_calls_direct [OF assms(1,3,4,5,7), of fill] obtain t where
    "run_calls fill rs s = Some (map (rpc_result fill) (direct cl rs (opuid s) a), t)"
    "tx (net t) = concat (map rpc_message (direct cl rs (opuid s) a))"
    using assms(6) by auto
  moreover have "length (direct cl rs u b) = length rs" for u b
    by (induction cl rs u b rule: direct.induct) (simp_all add: Let_def)
  ultimately show ?thesis
    using direct_received [OF assms(1,2), of _ cl "opuid s" a "[]"] by simp
qed

theorem run_reaches_client_witness:
  "\<exists>ys t. run_calls fill0 run0 (srv0 [RxData (concat (map rpc_reply (direct client0 run0 0 0)))] [])
      = Some (ys, t)
    \<and> receives [(1, request stack0 (Getattr [47, 97] zero_stat)), (2, request stack0 (Unlink [47]))]
        \<lparr>rx = [RxData (tx (net t))], txq = [], tx = [], zhwk_error = 0\<rparr> []"
  using run_reaches_client [of run0 client0 "srv0 [RxData (concat (map rpc_reply
      (direct client0 run0 0 0)))] []" 0 "[]" fill0] run0_fits run0_ok
  by (auto simp: run0_direct simp del: receives.simps request.simps)

end
