(* ===== verification/FuseTypes.thy ===== *)
theory FuseTypes
  imports Session
begin

text \<open>
  What a call can hand back at all, whatever the peer sends: the shape of the result for each call, with
  the lengths of the caller's buffers and the members of the caller's objects that no reply can change.
\<close>

section \<open>Result types\<close>

primrec result_type :: "fuse_call \<Rightarrow> int \<Rightarrow> 'f fuse_out \<Rightarrow> bool" where
  "result_type (Getattr fn st) v x = (v \<le> 0 \<and> (\<exists>st'. x = OStat (merge_stat st st')))"
| "result_type (Readlink fn dest n) v x = (v \<le> 0 \<and> (\<exists>b. x = OBytes b \<and> length b = length dest))"
| "result_type (Mkdir dn m) v x = (v \<le> 0 \<and> x = ONone)"
| "result_type (Rmdir dn) v x = (v \<le> 0 \<and> x = ONone)"
| "result_type (Symlink fn src) v x = (v \<le> 0 \<and> x = ONone)"
| "result_type (Chmod fn m) v x = (v \<le> 0 \<and> x = ONone)"
| "result_type (Truncate fn pos) v x = (v \<le> 0 \<and> x = ONone)"
| "result_type (Open fn fi) v x = (v \<le> 0 \<and> (\<exists>h. x = OInfo (fi\<lparr>fi_fh := h\<rparr>)))"
| "result_type (Read fn buf n pos fi) v x =
     ((0 \<le> v \<longrightarrow> v + int sizeof_RpHdr \<le> int (unat n)) \<and> (\<exists>b. x = OBytes b \<and> length b = length buf))"
| "result_type (Write fn buf n pos fi) v x = (v < 2 ^ 31 \<and> x = ONone)"
| "result_type (Statfs fn st) v x = (v \<le> 0 \<and> (\<exists>st'. x = OStatvfs (st'\<lparr>f_spare := f_spare st\<rparr>)))"
| "result_type (Release fi) v x = (v \<le> 0 \<and> x = ONone)"
| "result_type (Opendir dn fi) v x = (v \<le> 0 \<and> (\<exists>h. x = OInfo (fi\<lparr>fi_fh := h\<rparr>)))"
| "result_type (Readdir dn off fi) v x = (v \<le> 0 \<and> (\<exists>g. x = ODir g))"
| "result_type (Releasedir fi) v x = (v \<le> 0 \<and> x = ONone)"
| "result_type Init v x = (v = 0 \<and> x = ONone)"
| "result_type (Access fn m) v x = (v \<le> 0 \<and> x = ONone)"
| "result_type (Create fn m fi) v x = (v \<le> 0 \<and> (\<exists>h. x = OInfo (fi\<lparr>fi_fh := h\<rparr>)))"
| "result_type (Unlink fn) v x = (v \<le> 0 \<and> x = ONone)"
| "result_type (Utimens fn tv0 tv1) v x = (v \<le> 0 \<and> x = ONone)"

text \<open>Errors carry the object as it was passed; everything else has the type of its call.\<close>

definition result_ok :: "'f \<Rightarrow> fuse_call \<Rightarrow> int \<Rightarrow> 'f fuse_out \<Rightarrow> bool" where
  "result_ok f c v x \<longleftrightarrow> result_type c v x \<and> (v < 0 \<longrightarrow> x = unchanged f c)"

section \<open>Rules for the blocks of a handler\<close>

definition on_result :: "(int \<Rightarrow> 'a \<Rightarrow> bool) \<Rightarrow> 'a outcome \<Rightarrow> bool" where
  "on_result P r = (case r of Returns v x s \<Rightarrow> P v x | _ \<Rightarrow> True)"

lemma on_result_simps [simp]:
  "on_result P (Returns v x s) = P v x" "on_result P (Aborts s)" "on_result P (ABRT s)"
  "on_result P Faults" "on_result P (Hangs s)" "on_result P (WARN v x s) = P v x"
  by (simp_all add: on_result_def WARN_def ABRT_def)

lemma on_result_map: "on_result P (map_outcome g r) = on_result (\<lambda>v x. P v (g x)) r"
  by (cases r) simp_all

lemma on_result_lock: "(\<And>t. on_result P (k t)) \<Longrightarrow> on_result P (mu_lock s k)"
  by (simp add: mu_lock_def)

lemma on_result_FNCPY: "(\<And>d. on_result P (k d)) \<Longrightarrow> on_result P (FNCPY dst src k)"
  by (simp add: FNCPY_def split: option.splits)

lemma on_result_mode: "(\<And>d. on_result P (k d)) \<Longrightarrow> on_result P (mode_string sm m k)"
  by (simp add: mode_string_def split: option.splits)

lemma on_result_exchange:
  assumes "\<And>v. v < 0 \<Longrightarrow> P v out"
    and "\<And>rp t. 0 \<le> sint (rp_rtvl rp) \<Longrightarrow> on_result P (k rp t)"
  shows "on_result P (exchange ps out s k)"
  using assms
  by (auto simp: exchange_def send_parts_def await_reply_def Let_def EBUSY_def not_less
      split: exec.splits prod.splits option.splits)

lemma re_read_length: "re_read buf n w = Some (Done (r, buf', w')) \<Longrightarrow> length buf' = length buf"
  by (auto simp: re_read_def memcpy_def split: option.splits exec.splits prod.splits if_splits)

lemma on_result_read:
  assumes "\<And>v. v < 0 \<Longrightarrow> P v out" and "\<And>b t. length b = length buf \<Longrightarrow> on_result P (k b t)"
  shows "on_result P (read_reply buf n out s k)"
  using assms
  by (auto simp: read_reply_def Let_def EBUSY_def dest: re_read_length
      split: exec.splits prod.splits option.splits)

lemma on_result_empty: "P v out \<Longrightarrow> on_result P (finish_empty v out rp s)"
  by (simp add: finish_empty_def)

lemma on_result_open:
  assumes "\<And>v. v < 0 \<Longrightarrow> P v fi" and "\<And>h. P 0 (fi\<lparr>fi_fh := h\<rparr>)"
  shows "on_result P (finish_open fi rp s)"
  using assms(1) assms(2) assms(2) [of "fi_fh fi"]
  by (auto simp: finish_open_def Let_def intro!: on_result_read)

lemma on_result_readdir:
  assumes "\<And>v. v < 0 \<Longrightarrow> P v f" and "\<And>g. P 0 g"
  shows "on_result P (finish_readdir fill f rp s)"
  using assms
  by (auto simp: finish_readdir_def Let_def EBUSY_def split: exec.splits prod.splits option.splits)

lemmas on_result_intros = on_result_lock on_result_mode on_result_FNCPY on_result_exchange on_result_read
  on_result_empty on_result_open on_result_readdir

lemma merge_fall_stat: "fall_stat st u = merge_stat st (fall_stat st u)"
  by (simp add: fall_stat_def merge_stat_def)

lemma spare_fall_statvfs: "fall_statvfs st u = (fall_statvfs st u)\<lparr>f_spare := f_spare st\<rparr>"
  by (simp add: fall_statvfs_def)

lemma merge_stat_same: "st = merge_stat st st"
  by (simp add: merge_stat_def)

lemma sint_nonneg_unat:
  assumes "0 \<le> sint (v :: u32)"
  shows "unat v < 2 ^ 31 \<and> sint v = int (unat v)"
proof -
  have pos: "\<not> bit (uint v) 31"
    using assms by (simp add: sint_uint signed_take_bit_nonnegative_iff)
  have "take_bit (Suc 31) (uint v) = uint v"
    using unsigned_less [of v] by (intro take_bit_int_eq_self) simp_all
  then have "sint v = uint v"
    using pos take_bit_Suc_from_most [of 31 "uint v"]
    by (simp add: sint_uint signed_take_bit_eq_if_positive)
  moreover have "sint v < 2 ^ 31"
    using sint_lt [of v] by simp
  ultimately have "uint v < 2 ^ 31"
    by linarith
  then have "unat v < 2 ^ 31"
    by (metis of_nat_less_iff of_nat_numeral of_nat_power uint_nat)
  then show ?thesis
    using sint_small by blast
qed

lemma sint_less31: "sint (v :: u32) < 2147483648"
  using sint_lt [of v] by simp

lemma read_bound:
  assumes "\<not> n < of_nat sizeof_RpHdr + (scast (v :: u32) :: u64)" and "0 \<le> sint v"
  shows "sint v + int sizeof_RpHdr \<le> uint n"
proof -
  have lt: "unat v < 2 ^ 31" and eq: "sint v = int (unat v)"
    using sint_nonneg_unat [OF assms(2)] by auto
  have "unat (scast v :: u64) = unat v"
    by (rule unat_scast_small [OF lt])
  then have "unat (of_nat sizeof_RpHdr + scast v :: u64) = sizeof_RpHdr + unat v"
    using lt by (subst unat_hdr_add) simp_all
  then have "sizeof_RpHdr + unat v \<le> unat n"
    using assms(1) by (simp add: word_less_nat_alt)
  then have "int (unat v) + int sizeof_RpHdr \<le> int (unat n)"
    by linarith
  then show ?thesis
    by (simp add: eq)
qed

section \<open>The result of every call\<close>

lemma zhwkrfsp_result: "on_result (result_ok f c) (zhwkrfsp fill f k c s)"
proof (cases c)
  case (Getattr fn st)
  have "\<And>u. result_ok f c 0 (OStat (fall_stat st u))"
    unfolding Getattr by (subst merge_fall_stat) (auto simp: result_ok_def)
  moreover have "\<And>v. v < 0 \<Longrightarrow> result_ok f c v (OStat st)"
    unfolding Getattr using merge_stat_same by (auto simp: result_ok_def)
  ultimately show ?thesis
    unfolding Getattr
    by (auto simp: fuse_getattr_def Let_def on_result_map intro!: on_result_intros)
next
  case (Statfs fn st)
  have "\<And>u. result_ok f c 0 (OStatvfs (fall_statvfs st u))"
    unfolding Statfs by (subst spare_fall_statvfs) (auto simp: result_ok_def)
  moreover have "\<And>v. v < 0 \<Longrightarrow> result_ok f c v (OStatvfs st)"
    unfolding Statfs by (auto simp: result_ok_def intro: exI [of _ st])
  ultimately show ?thesis
    unfolding Statfs
    by (auto simp: fuse_statfs_def Let_def on_result_map intro!: on_result_intros)
next
  case (Read fn buf n pos fi)
  have "result_ok f c v (OBytes buf)" if "v < 0" for v
    using that by (simp add: Read result_ok_def)
  moreover have "result_ok f c (sint v) (OBytes b)"
    if "\<not> n < of_nat sizeof_RpHdr + (scast v :: u64)" "0 \<le> sint v" "length b = length buf" for v :: u32 and b
    using read_bound [OF that(1,2)] that by (simp add: Read result_ok_def)
  ultimately show ?thesis
    unfolding Read
    by (auto simp: fuse_read_def Let_def on_result_map intro!: on_result_intros)
next
  case (Open fn fi)
  have "\<exists>h. fi = fi\<lparr>fi_fh := h\<rparr>" by (rule exI [of _ "fi_fh fi"]) simp
  then show ?thesis
    unfolding Open
    by (auto simp: fuse_open_def Let_def on_result_map result_ok_def EINVAL_def intro!: on_result_intros)
next
  case (Opendir fn fi)
  have "\<exists>h. fi = fi\<lparr>fi_fh := h\<rparr>" by (rule exI [of _ "fi_fh fi"]) simp
  then show ?thesis
    unfolding Opendir
    by (auto simp: fuse_opendir_def Let_def on_result_map result_ok_def EINVAL_def intro!: on_result_intros)
next
  case (Create fn m fi)
  have "\<exists>h. fi = fi\<lparr>fi_fh := h\<rparr>" by (rule exI [of _ "fi_fh fi"]) simp
  then show ?thesis
    unfolding Create
    by (auto simp: fuse_creat_def Let_def on_result_map result_ok_def EINVAL_def intro!: on_result_intros)
qed (auto simp: fuse_readlink_def fuse_mkdir_def fuse_rmdir_def fuse_symlink_def fuse_chmod_def
    fuse_truncate_def fuse_write_def fuse_release_def fuse_readdir_def fuse_releasedir_def
    fuse_access_def fuse_unlink_def fuse_utimens_def Let_def on_result_map result_ok_def sint_less31
    intro!: on_result_intros)

text \<open>
  C6: whatever the peer sends and however the connection behaves, a call that returns has the result of
  its kind: zero or an error, for \<^verbatim>\<open>read\<close> at most the size of the buffer less that of a header; a buffer
  keeps its length, \<^verbatim>\<open>getattr\<close> and \<^verbatim>\<open>statfs\<close> keep the members that are not sent, the open calls change
  nothing of \<^verbatim>\<open>fuse_file_info\<close> but the handle; and an error leaves the caller's object as it was.
\<close>

theorem call_result_type:
  "case zhwkrfsp fill f k c s of
     Returns v x t \<Rightarrow> result_type c v x \<and> (v < 0 \<longrightarrow> x = unchanged f c)
   | _ \<Rightarrow> True"
  using zhwkrfsp_result [of f c fill k s] by (auto simp: on_result_def result_ok_def split: outcome.splits)

theorem call_result_type_witness:
  "case zhwkrfsp fill0 [] stack0 (Unlink [47]) (srv0 [RxFail] []) of
     Returns v x t \<Rightarrow> v \<le> 0 \<and> x = ONone | _ \<Rightarrow> True"
  using call_result_type [where fill = fill0 and f = "[]" and k = stack0 and c = "Unlink [47]"
      and s = "srv0 [RxFail] []"]
  by (auto split: outcome.splits)

section \<open>Replies of the wrong size\<close>

text \<open>
  The sizes that a reply without an error can have: a header and the content of the call. The target of a link
  is at most as long as the caller's buffer; the data of a \<^verbatim>\<open>read\<close> has the announced length and fits the buffer.
  Of the entries of a directory only that there is room for the header.
\<close>

fun size_possible :: "fuse_call \<Rightarrow> RpHdr \<Rightarrow> bool" where
  "size_possible (Getattr fn st) rp \<longleftrightarrow> unat (rp_size rp) = sizeof_RpHdr + sizeof_Ustat"
| "size_possible (Statfs fn st) rp \<longleftrightarrow> unat (rp_size rp) = sizeof_RpHdr + sizeof_Ustatvfs"
| "size_possible (Open fn fi) rp \<longleftrightarrow> unat (rp_size rp) = sizeof_RpHdr + sizeof_RpOpen"
| "size_possible (Opendir dn fi) rp \<longleftrightarrow> unat (rp_size rp) = sizeof_RpHdr + sizeof_RpOpen"
| "size_possible (Create fn m fi) rp \<longleftrightarrow> unat (rp_size rp) = sizeof_RpHdr + sizeof_RpOpen"
| "size_possible (Readlink fn dest n) rp \<longleftrightarrow>
     sizeof_RpHdr \<le> unat (rp_size rp) \<and> unat (rp_size rp) \<le> sizeof_RpHdr + unat n"
| "size_possible (Read fn buf n pos fi) rp \<longleftrightarrow>
     unat (rp_size rp) = sizeof_RpHdr + unat (rp_rtvl rp) \<and> unat (rp_rtvl rp) \<le> unat n"
| "size_possible (Readdir dn off fi) rp \<longleftrightarrow> sizeof_RpHdr \<le> unat (rp_size rp)"
| "size_possible c rp \<longleftrightarrow> unat (rp_size rp) = sizeof_RpHdr"

text \<open>The tests the handlers make of the size.\<close>

primrec size_rejected :: "fuse_call \<Rightarrow> RpHdr \<Rightarrow> bool" where
  "size_rejected (Getattr fn st) rp = (unat (rp_size rp) \<noteq> sizeof_RpHdr + sizeof_Ustat)"
| "size_rejected (Readlink fn dest n) rp = (of_nat sizeof_RpHdr + n < ucast (rp_size rp))"
| "size_rejected (Mkdir dn m) rp = (unat (rp_size rp) \<noteq> sizeof_RpHdr)"
| "size_rejected (Rmdir dn) rp = (unat (rp_size rp) \<noteq> sizeof_RpHdr)"
| "size_rejected (Symlink fn src) rp = (unat (rp_size rp) \<noteq> sizeof_RpHdr)"
| "size_rejected (Chmod fn m) rp = (unat (rp_size rp) \<noteq> sizeof_RpHdr)"
| "size_rejected (Truncate fn pos) rp = (unat (rp_size rp) \<noteq> sizeof_RpHdr)"
| "size_rejected (Open fn fi) rp = (unat (rp_size rp) \<noteq> sizeof_RpHdr + sizeof_RpOpen)"
| "size_rejected (Read fn buf n pos fi) rp =
     (n < ucast (rp_size rp) \<or> ucast (rp_size rp) \<noteq> of_nat sizeof_RpHdr + (scast (rp_rtvl rp) :: u64))"
| "size_rejected (Write fn buf n pos fi) rp = (unat (rp_size rp) \<noteq> sizeof_RpHdr)"
| "size_rejected (Statfs fn st) rp = (unat (rp_size rp) \<noteq> sizeof_RpHdr + sizeof_Ustatvfs)"
| "size_rejected (Release fi) rp = (unat (rp_size rp) \<noteq> sizeof_RpHdr)"
| "size_rejected (Opendir dn fi) rp = (unat (rp_size rp) \<noteq> sizeof_RpHdr + sizeof_RpOpen)"
| "size_rejected (Readdir dn off fi) rp = (unat (rp_size rp) < sizeof_RpHdr)"
| "size_rejected (Releasedir fi) rp = (unat (rp_size rp) \<noteq> sizeof_RpHdr)"
| "size_rejected Init rp = False"
| "size_rejected (Access fn m) rp = (unat (rp_size rp) \<noteq> sizeof_RpHdr)"
| "size_rejected (Create fn m fi) rp = (unat (rp_size rp) \<noteq> sizeof_RpHdr + sizeof_RpOpen)"
| "size_rejected (Unlink fn) rp = (unat (rp_size rp) \<noteq> sizeof_RpHdr)"
| "size_rejected (Utimens fn tv0 tv1) rp = (unat (rp_size rp) \<noteq> sizeof_RpHdr)"

definition aborts :: "bool \<Rightarrow> 'a outcome \<Rightarrow> bool" where
  "aborts b r \<longleftrightarrow> (\<exists>t. r = Aborts t \<and> mu t = b)"

lemma aborts_simps [simp]: "aborts b (ABRT t) = (mu t = b)" "aborts b (Aborts t) = (mu t = b)"
  by (auto simp: aborts_def ABRT_def)

lemma aborts_map [simp]: "aborts b (map_outcome g r) = aborts b r"
  by (cases r) (simp_all add: aborts_def)

lemma aborts_exchange:
  assumes "parts_ok ps" and "tx_good (txq (net s))" and "rx_avail (rx (net s)) = enc_RpHdr rp @ bs"
    and "0 \<le> sint (rp_rtvl rp)" and "mu s = b" and "\<And>t. mu t = b \<Longrightarrow> aborts b (k rp t)"
  shows "aborts b (exchange ps out s k)"
  by (rule exchange_rule [where P = "aborts b", OF assms(1-4)]) (use assms(5,6) in auto)

lemma ucast_minus_one: "(ucast (- 1 :: u64) :: u32) = - 1"
proof -
  have "(ucast (word_of_int (- 1) :: u64) :: u32) = word_of_int (- 1)"
    by (rule ucast_down_wi) (simp add: is_down)
  then show ?thesis by simp
qed

text \<open>A size below that of the header becomes a negative length of an array in \<^verbatim>\<open>sockread\<close>.\<close>

lemma short_size_negative:
  assumes "unat (m :: u32) < sizeof_RpHdr"
  shows "int_of_size (ucast m - of_nat sizeof_RpHdr) < 0"
proof -
  have twelve: "i = 0 \<or> i = 1 \<or> i = 2 \<or> i = 3 \<or> i = 4 \<or> i = 5 \<or> i = 6 \<or> i = 7 \<or> i = 8 \<or> i = 9 \<or> i = 10 \<or> i = 11"
    if "i < 12" for i :: nat
    using that by presburger
  define i where "i = unat m"
  have "i < 12"
    using assms by (simp add: i_def sizeof_RpHdr_def)
  moreover have "m = of_nat i"
    by (simp add: i_def)
  ultimately show ?thesis
    unfolding int_of_size_def sizeof_RpHdr_def using ucast_minus_one by (auto dest!: twelve)
qed

lemma short_read_faults:
  "unat (m :: u32) < sizeof_RpHdr \<Longrightarrow> read_reply buf (ucast m - of_nat sizeof_RpHdr) out s k = Faults"
  using short_size_negative [of m] by (simp add: read_reply_def re_read_def sockread_def)

lemma short_readlink_faults:
  assumes "stack_ok k" and "call_ok (Readlink fn dest n)" and "\<not> mu s" and "tx_good (txq (net s))"
    and "rx_avail (rx (net s)) = enc_RpHdr rp @ rest" and "0 \<le> sint (rp_rtvl rp)"
    and "unat (rp_size rp) < sizeof_RpHdr" and "unat n < 2 ^ 63"
  shows "zhwkrfsp fill f k (Readlink fn dest n) s = Faults"
proof -
  have "unat (of_nat sizeof_RpHdr + n) = sizeof_RpHdr + unat n"
    using assms(8) by (subst unat_add_lem [THEN iffD1]) (simp_all add: sizeof_RpHdr_def)
  then have "\<not> of_nat sizeof_RpHdr + n < (ucast (rp_size rp) :: u64)"
    using assms(7) by (simp add: word_less_nat_alt)
  moreover have "length (rd_filename (k_rd k)) = FILENAME_LEN" "length (rd_pad (k_rd k)) = 7"
    using assms(1) by (simp_all add: stack_ok_def ok_OpRead_def)
  ultimately have "fuse_readlink (k_rd k) fn dest n s = Faults"
    unfolding fuse_readlink_def using assms(2-6) short_read_faults [OF assms(7)]
    by (simp add: call_ok_def names_fit_def handler_simps)
      (rule exchange_rule [where P = "\<lambda>r. r = Faults", OF parts2_ok], auto simp: handler_simps)
  then show ?thesis
    by simp
qed

lemma zhwkrfsp_rejects:
  assumes "stack_ok k" and "call_ok c" and "mode_fits k c" and "takes_lock c \<longrightarrow> \<not> mu s" and "tx_good (txq (net s))"
    and "rx_avail (rx (net s)) = enc_RpHdr rp @ rest" and "0 \<le> sint (rp_rtvl rp)" and "size_rejected c rp"
  shows "aborts (takes_lock c \<or> mu s) (zhwkrfsp fill f k c s)"
proof -
  have len: "length (oo_filename (k_op k)) = FILENAME_LEN" "length (oo_pad (k_op k)) = 1"
      "length (wr_filename (k_wr k)) = FILENAME_LEN" "length (wr_pad (k_wr k)) = 7"
      "length (k_srcbuf k) = FILENAME_LEN" "ok_TimeModder (k_tm k)" "ok_OpClos (k_cl k)"
      "length (rd_filename (k_rd k)) = FILENAME_LEN" "length (rd_pad (k_rd k)) = 7"
    using assms(1) by (simp_all add: stack_ok_def ok_OpOpen_def ok_OpWrit_def ok_OpRead_def)
  show ?thesis
    using assms(2-8) len
    by (cases c) (auto simp: call_ok_def names_fit_def takes_lock_def mode_string_ok mode_fits_def fuse_rmdir_def fuse_symlink_def
       fuse_chmod_def fuse_truncate_def fuse_write_def fuse_access_def fuse_unlink_def fuse_utimens_def
       fuse_mkdir_def fuse_release_def fuse_releasedir_def fuse_open_def fuse_opendir_def fuse_creat_def
       fuse_getattr_def fuse_readlink_def fuse_statfs_def fuse_read_def fuse_readdir_def finish_empty_def
       finish_open_def finish_readdir_def handler_simps ok_OpWrit_def SIZEHDR_def bad_open_flags_def or.assoc
       unat_ucast_small
       intro!: aborts_exchange parts2_ok parts3_ok)
qed

lemma link_size_rejected:
  assumes "sizeof_RpHdr + unat n < unat (m :: u32)"
  shows "of_nat sizeof_RpHdr + n < (ucast m :: u64)"
proof -
  have "unat n < 2 ^ 32"
    using assms unat_less32 [of m] by linarith
  from unat_hdr_add [OF this] show ?thesis
    using assms unfolding word_less_nat_alt unat_ucast_up by linarith
qed

lemma read_size_rejected:
  assumes "\<not> n < (ucast m :: u64)" and "(ucast m :: u64) = of_nat sizeof_RpHdr + scast v" and "0 \<le> sint (v :: u32)"
  shows "unat (m :: u32) = sizeof_RpHdr + unat v \<and> unat v \<le> unat n"
proof -
  have "unat v < 2 ^ 31"
    using sint_nonneg_unat [OF assms(3)] by blast
  note small = unat_scast_small [OF this] this
  have "unat (ucast m :: u64) = sizeof_RpHdr + unat v"
    unfolding assms(2) using small by (subst unat_hdr_add) simp_all
  then have "unat m = sizeof_RpHdr + unat v"
    by simp
  moreover have "unat m \<le> unat n"
    using assms(1) by (simp add: word_less_nat_alt)
  ultimately show ?thesis
    by linarith
qed

lemma impossible_rejected:
  assumes "\<not> size_possible c rp" and "call_ok c" and "0 \<le> sint (rp_rtvl rp)"
  shows "size_rejected c rp \<or> (\<exists>fn dest n. c = Readlink fn dest n) \<and> unat (rp_size rp) < sizeof_RpHdr"
proof (cases c)
  case (Readlink fn dest n)
  then show ?thesis
    using assms(1) link_size_rejected [of n "rp_size rp"] by auto
next
  case (Read fn buf n pos fi)
  then show ?thesis
    using assms(1) read_size_rejected [of n "rp_size rp" "rp_rtvl rp"] assms(3) by auto
qed (use assms(1,2) in \<open>auto simp: call_ok_def\<close>)



end
