(* ===== verification/Utils.thy ===== *)
theory Utils
  imports Bss
begin

text \<open>
  \<^verbatim>\<open>zhwkre/utils/utils.c\<close>: string comparison, search and line input, and the interface that the
  library's ordered containers expect of the comparison function they are given, which
  \<^verbatim>\<open>string_comparator\<close> implements. Strings are byte strings read up to their terminator; \<^verbatim>\<open>char\<close> is
  signed.
\<close>

section \<open>Model\<close>

fun fullstrcmp_loop :: "bytes \<Rightarrow> bytes \<Rightarrow> nat \<Rightarrow> nat \<Rightarrow> int" where
  "fullstrcmp_loop a b i 0 = 1"
| "fullstrcmp_loop a b i (Suc n) = (if a ! i \<noteq> b ! i then 0 else fullstrcmp_loop a b (Suc i) n)"

definition fullstrcmp :: "bytes \<Rightarrow> bytes \<Rightarrow> int" where
  "fullstrcmp a b =
     (let lena = strlen a; lenb = strlen b
      in if lena \<noteq> lenb then 0 else fullstrcmp_loop a b 0 lena)"

text \<open>
  \<open>i\<close> counts up to the size; \<open>n\<close> is what is left to go. The array has at least that many bytes.
\<close>

fun find_byte_loop :: "bytes \<Rightarrow> byte \<Rightarrow> nat \<Rightarrow> nat \<Rightarrow> int" where
  "find_byte_loop str target i 0 = -1"
| "find_byte_loop str target i (Suc n) =
     (if str ! i = target then int i else find_byte_loop str target (Suc i) n)"

definition find_byte :: "bytes \<Rightarrow> byte \<Rightarrow> nat \<Rightarrow> int" where
  "find_byte str target sz = find_byte_loop str target 0 sz"

definition partstrcmp :: "bytes \<Rightarrow> bytes \<Rightarrow> int" where
  "partstrcmp a b =
     (let lena = strlen a; lenb = strlen b; rlen = (if lena > lenb then lenb else lena)
      in fullstrcmp_loop a b 0 rlen)"

text \<open>The loop of \<^verbatim>\<open>string_comparator\<close>; \<open>d\<close> is the result when the common part is equal.\<close>

fun comparator_loop :: "bytes \<Rightarrow> bytes \<Rightarrow> nat \<Rightarrow> nat \<Rightarrow> int \<Rightarrow> int" where
  "comparator_loop a b i 0 d = d"
| "comparator_loop a b i (Suc n) d =
     (if a ! i \<noteq> b ! i then sint (a ! i) - sint (b ! i) else comparator_loop a b (Suc i) n d)"

definition string_comparator :: "bytes \<Rightarrow> bytes \<Rightarrow> int" where
  "string_comparator a b =
     (let alen = int (strlen a); blen = int (strlen b)
      in comparator_loop a b 0 (nat (min alen blen)) (if alen \<noteq> blen then alen - blen else 0))"

text \<open>
  \<^verbatim>\<open>readline\<close> and \<^verbatim>\<open>readall\<close> on the bytes that are left in the file; \<^verbatim>\<open>fgetc\<close> takes one. The result has
  the buffer, the rest of the file and the error variable.
\<close>

fun readline_loop :: "qBinarySafeString \<Rightarrow> bytes \<Rightarrow> int \<Rightarrow> (qBinarySafeString \<times> bytes \<times> int) exec" where
  "readline_loop result [] err = Done (result, [], err)"
| "readline_loop result (ch # fp) err =
     (if ch = 10 then Done (result, fp, err)
      else (case q__bss_append True result [ch] 1 err of
              (Fault, err1) \<Rightarrow> Fault
            | (Done result1, err1) \<Rightarrow> readline_loop result1 fp err1))"

definition readline :: "bytes \<Rightarrow> int \<Rightarrow> (qBinarySafeString \<times> bytes \<times> int) exec" where
  "readline fp err = readline_loop (fst (qbss_constructor True 0 0 err)) fp err"

fun readall_loop :: "qBinarySafeString \<Rightarrow> bytes \<Rightarrow> int \<Rightarrow> (qBinarySafeString \<times> bytes \<times> int) exec" where
  "readall_loop result [] err = Done (result, [], err)"
| "readall_loop result (ch # fp) err =
     (case q__bss_append True result [ch] 1 err of
        (Fault, err1) \<Rightarrow> Fault
      | (Done result1, err1) \<Rightarrow> readall_loop result1 fp err1)"

definition readall :: "bytes \<Rightarrow> int \<Rightarrow> (qBinarySafeString \<times> bytes \<times> int) exec" where
  "readall fp err = readall_loop (fst (qbss_constructor True 0 0 err)) fp err"

section \<open>Strings\<close>

lemma cstr_nth: "i < strlen a \<Longrightarrow> cstr a ! i = a ! i"
  by (simp add: cstr_def strlen_def takeWhile_nth)

lemma fullstrcmp_loop_eq:
  "fullstrcmp_loop a b i n = (if \<forall>j<n. a ! (i + j) = b ! (i + j) then 1 else 0)"
  by (induction n arbitrary: i) (simp_all add: All_less_Suc2)

text \<open>\<^verbatim>\<open>fullstrcmp\<close> is equality and \<^verbatim>\<open>partstrcmp\<close> says that one string is a prefix of the other.\<close>

lemma cstr_eq_iff: "cstr a = cstr b \<longleftrightarrow> strlen a = strlen b \<and> (\<forall>j < strlen a. a ! j = b ! j)"
  by (simp add: list_eq_iff_nth_eq) (metis cstr_nth)

lemma fullstrcmp_equality: "fullstrcmp a b = (if cstr a = cstr b then 1 else 0)"
  by (simp add: fullstrcmp_def Let_def fullstrcmp_loop_eq cstr_eq_iff)

lemma partstrcmp_prefix:
  "partstrcmp a b = (if take (strlen b) (cstr a) = take (strlen a) (cstr b) then 1 else 0)"
proof -
  have "take (strlen b) (cstr a) = take (strlen a) (cstr b)
      \<longleftrightarrow> (\<forall>j < min (strlen a) (strlen b). a ! j = b ! j)"
    by (auto simp: list_eq_iff_nth_eq cstr_nth min_def)
  then show ?thesis
    by (auto simp: partstrcmp_def Let_def fullstrcmp_loop_eq min_def)
qed

lemma find_byte_loop_first:
  "find_byte_loop str t i n = r \<Longrightarrow>
     (r = -1 \<and> (\<forall>j. i \<le> j \<and> j < i + n \<longrightarrow> str ! j \<noteq> t))
     \<or> (\<exists>k. r = int k \<and> i \<le> k \<and> k < i + n \<and> str ! k = t \<and> (\<forall>j. i \<le> j \<and> j < k \<longrightarrow> str ! j \<noteq> t))"
proof (induction n arbitrary: i)
  case (Suc n)
  show ?case
  proof (cases "str ! i = t")
    case False
    then have "find_byte_loop str t (Suc i) n = r"
      using Suc.prems by simp
    from Suc.IH [OF this] False show ?thesis
      by (auto simp: Suc_le_eq) (metis le_less)+
  qed (use Suc.prems in auto)
qed auto

section \<open>Line input\<close>

lemma append_char:
  assumes "bss_ok b" and "Suc (length (bss_content b)) < 2 ^ 31"
  shows "\<exists>b'. q__bss_append True b [ch] 1 err = (Done b', err) \<and> bss_ok b'
    \<and> bss_content b' = bss_content b @ [ch]"
  using q__bss_append_content [OF assms(1), of 1 "[ch]" err] assms length_bss_content [OF assms(1)] by auto

lemma readline_loop_line:
  assumes "bss_ok b" and "length (bss_content b) + length fp < 2 ^ 31"
  shows "\<exists>b'. readline_loop b fp err = Done (b', drop 1 (dropWhile (\<lambda>c. c \<noteq> 10) fp), err) \<and> bss_ok b'
    \<and> bss_content b' = bss_content b @ takeWhile (\<lambda>c. c \<noteq> 10) fp"
  using assms
proof (induction fp arbitrary: b)
  case (Cons ch fp)
  from append_char [OF Cons.prems(1), of ch err] Cons.prems(2) obtain b1 where
    b1: "q__bss_append True b [ch] 1 err = (Done b1, err)" "bss_ok b1"
      "bss_content b1 = bss_content b @ [ch]" by auto
  have "length (bss_content b1) + length fp < 2 ^ 31"
    using Cons.prems(2) b1(3) by simp
  from Cons.IH [OF b1(2) this] show ?case
    using b1 Cons.prems(1) by auto
qed auto

lemma readall_loop_all:
  assumes "bss_ok b" and "length (bss_content b) + length fp < 2 ^ 31"
  shows "\<exists>b'. readall_loop b fp err = Done (b', [], err) \<and> bss_ok b' \<and> bss_content b' = bss_content b @ fp"
  using assms
proof (induction fp arbitrary: b)
  case (Cons ch fp)
  from append_char [OF Cons.prems(1), of ch err] Cons.prems(2) obtain b1 where
    b1: "q__bss_append True b [ch] 1 err = (Done b1, err)" "bss_ok b1"
      "bss_content b1 = bss_content b @ [ch]" by auto
  have "length (bss_content b1) + length fp < 2 ^ 31"
    using Cons.prems(2) b1(3) by simp
  from Cons.IH [OF b1(2) this] show ?case
    using b1 by auto
qed auto

section \<open>Comparison functions\<close>

text \<open>
  What the ordered containers rely on: the result's sign orders the keys, keys that compare as 0 are
  interchangeable.
\<close>

locale comparator =
  fixes comp :: "'k \<Rightarrow> 'k \<Rightarrow> int"
  assumes comp_refl: "comp a a = 0"
    and comp_swap: "comp a b < 0 \<longleftrightarrow> 0 < comp b a"
    and comp_trans: "comp a b \<le> 0 \<Longrightarrow> comp b c \<le> 0 \<Longrightarrow> comp a c \<le> 0"
begin

lemma comp_zero_sym: "comp a b = 0 \<longleftrightarrow> comp b a = 0"
  by (metis comp_swap less_irrefl linorder_neqE)

lemma comp_le_swap: "comp a b \<le> 0 \<longleftrightarrow> 0 \<le> comp b a"
  by (metis comp_swap not_less)

lemma comp_less_trans: "comp a b < 0 \<Longrightarrow> comp b c < 0 \<Longrightarrow> comp a c < 0"
  by (metis comp_le_swap comp_trans not_less order_less_imp_le)

lemma comp_less_le_trans: "comp a b < 0 \<Longrightarrow> comp b c \<le> 0 \<Longrightarrow> comp a c < 0"
  by (metis comp_le_swap comp_trans not_less order_less_imp_le)

lemma comp_le_less_trans: "comp a b \<le> 0 \<Longrightarrow> comp b c < 0 \<Longrightarrow> comp a c < 0"
  by (metis comp_le_swap comp_trans not_less order_less_imp_le)

end

fun cmp_list :: "bytes \<Rightarrow> bytes \<Rightarrow> int" where
  "cmp_list (x # xs) (y # ys) = (if x \<noteq> y then sint x - sint y else cmp_list xs ys)"
| "cmp_list xs ys = int (length xs) - int (length ys)"

lemma comparator_loop_cmp_list:
  "i + n = min (length a) (length b) \<Longrightarrow>
   comparator_loop a b i n (int (length a) - int (length b)) = cmp_list (drop i a) (drop i b)"
proof (induction n arbitrary: i)
  case 0
  then have "i \<le> length a" "i \<le> length b" "drop i a = [] \<or> drop i b = []"
    by auto
  then show ?case
    by (cases "drop i a"; cases "drop i b") (auto simp: of_nat_diff dest: arg_cong [of _ _ length])
next
  case (Suc n)
  then have "i < length a" "i < length b" by auto
  then have "drop i a = a ! i # drop (Suc i) a" "drop i b = b ! i # drop (Suc i) b"
    by (simp_all add: Cons_nth_drop_Suc)
  moreover have "comparator_loop a b (Suc i) n (int (length a) - int (length b))
      = cmp_list (drop (Suc i) a) (drop (Suc i) b)"
    using Suc.prems by (intro Suc.IH) simp
  ultimately show ?case by simp
qed

lemma comparator_loop_cstr:
  "i + n \<le> strlen a \<Longrightarrow> i + n \<le> strlen b \<Longrightarrow>
   comparator_loop a b i n d = comparator_loop (cstr a) (cstr b) i n d"
  by (induction n arbitrary: i) (simp_all add: cstr_nth)

lemma string_comparator_eq: "string_comparator a b = cmp_list (cstr a) (cstr b)"
proof -
  let ?n = "min (strlen a) (strlen b)" and ?d = "int (strlen a) - int (strlen b)"
  have m: "nat (min (int (strlen a)) (int (strlen b))) = ?n"
    by linarith
  have d: "(if int (strlen a) \<noteq> int (strlen b) then ?d else 0) = ?d"
    by simp
  have "string_comparator a b = comparator_loop a b 0 ?n ?d"
    unfolding string_comparator_def Let_def m d ..
  also have "\<dots> = comparator_loop (cstr a) (cstr b) 0 ?n ?d"
    by (rule comparator_loop_cstr) simp_all
  also have "\<dots> = cmp_list (cstr a) (cstr b)"
    using comparator_loop_cmp_list [of 0 ?n "cstr a" "cstr b"] by simp
  finally show ?thesis .
qed

lemma sint_byte_inj [simp]: "sint (x :: byte) = sint y \<longleftrightarrow> x = y"
  by (metis scast_eq scast_id)

lemma cmp_list_refl: "cmp_list xs xs = 0"
  by (induction xs) auto

lemma cmp_list_zero: "cmp_list xs ys = 0 \<longleftrightarrow> xs = ys"
  by (induction xs ys rule: cmp_list.induct) auto

lemma cmp_list_swap: "cmp_list ys xs = - cmp_list xs ys"
  by (induction xs ys rule: cmp_list.induct) auto

lemma cmp_list_trans: "cmp_list xs ys \<le> 0 \<Longrightarrow> cmp_list ys zs \<le> 0 \<Longrightarrow> cmp_list xs zs \<le> 0"
proof (induction xs ys arbitrary: zs rule: cmp_list.induct)
  case (1 x xs y ys)
  show ?case
  proof (cases zs)
    case (Cons z zs')
    then show ?thesis
      using 1 by (auto split: if_splits)
  qed (use 1 in auto)
qed (case_tac zs; auto)+

interpretation string_order: comparator string_comparator
proof unfold_locales
  show "string_comparator a a = 0" for a
    by (simp add: string_comparator_eq cmp_list_refl)
  show "string_comparator a b < 0 \<longleftrightarrow> 0 < string_comparator b a" for a b
    using cmp_list_swap [of "cstr b" "cstr a"] by (simp add: string_comparator_eq)
  show "string_comparator a b \<le> 0 \<Longrightarrow> string_comparator b c \<le> 0 \<Longrightarrow> string_comparator a c \<le> 0" for a b c
    using cmp_list_trans by (simp add: string_comparator_eq)
qed

lemma string_comparator_zero: "string_comparator a b = 0 \<longleftrightarrow> cstr a = cstr b"
  by (simp add: string_comparator_eq cmp_list_zero)

end
