(* ===== verification/Log.thy ===== *)
theory Log
  imports Utils
begin

text \<open>
  \<^verbatim>\<open>zhwkre/format.h\<close>, \<^verbatim>\<open>zhwkre/format/format.c\<close>, \<^verbatim>\<open>zhwkre/log.h\<close> and \<^verbatim>\<open>printSomeSpaces\<close> of
  \<^verbatim>\<open>zhwkre/utils/utils.c\<close>: coloured text and the log macros. The two standard streams are the bytes written
  to them; \<^verbatim>\<open>printf\<close> is modelled for the conversions the program uses, with every other conversion and every
  mismatch between format and arguments as undefined behaviour. The time of day is an argument.
\<close>

section \<open>Text\<close>

definition lit :: "string \<Rightarrow> bytes" where
  "lit s = map of_char s"

datatype stream = Stdout | Stderr

record io =
  io_out :: bytes
  io_err :: bytes

primrec write_to :: "stream \<Rightarrow> bytes \<Rightarrow> io \<Rightarrow> io" where
  "write_to Stdout bs io = io\<lparr>io_out := io_out io @ bs\<rparr>"
| "write_to Stderr bs io = io\<lparr>io_err := io_err io @ bs\<rparr>"

text \<open>The decimal digits of a number, and \<^verbatim>\<open>%.pd\<close>: at least \<open>p\<close> digits after the sign.\<close>

fun digits :: "nat \<Rightarrow> bytes" where
  "digits n = (if n < 10 then [of_nat (48 + n)] else digits (n div 10) @ [of_nat (48 + n mod 10)])"

declare digits.simps [simp del]

definition fmt_int :: "nat \<Rightarrow> int \<Rightarrow> bytes" where
  "fmt_int p i = (if i < 0 then [45] else [])
     @ replicate (p - length (digits (nat \<bar>i\<bar>))) 48 @ digits (nat \<bar>i\<bar>)"

text \<open>An argument with its promoted C type: \<^verbatim>\<open>int\<close>, \<^verbatim>\<open>unsigned\<close>, \<^verbatim>\<open>long\<close>, \<^verbatim>\<open>unsigned long\<close>, \<^verbatim>\<open>char*\<close>.\<close>

datatype arg = AInt int | AUInt u32 | ALong u64 | AULong u64 | AStr bytes

datatype conv = CPercent | CStr | CInt nat | CUInt | CLong | CULong

text \<open>The conversion a directive names, with the number of characters after the \<^verbatim>\<open>%\<close>.\<close>

definition directive :: "bytes \<Rightarrow> (conv \<times> nat) option" where
  "directive cs =
     (if take 1 cs = lit ''%'' then Some (CPercent, 1)
      else if take 1 cs = lit ''s'' then Some (CStr, 1)
      else if take 1 cs = lit ''d'' then Some (CInt 1, 1)
      else if take 1 cs = lit ''u'' then Some (CUInt, 1)
      else if take 2 cs = lit ''ld'' then Some (CLong, 2)
      else if take 2 cs = lit ''lu'' then Some (CULong, 2)
      else if take 3 cs = lit ''.2d'' then Some (CInt 2, 3)
      else if take 3 cs = lit ''.4d'' then Some (CInt 4, 3)
      else None)"

text \<open>
  One conversion takes its argument. A signed argument may stand for an unsigned conversion, and the other
  way round, when the value is the same in both types; anything else is undefined.
\<close>

fun expand :: "conv \<Rightarrow> arg list \<Rightarrow> (bytes \<times> arg list) exec" where
  "expand CPercent as = Done ([37], as)"
| "expand CStr (AStr b # as) = Done (cstr b, as)"
| "expand (CInt p) (AInt i # as) = Done (fmt_int p i, as)"
| "expand (CInt p) (AUInt n # as) =
     (if unat n < 2 ^ 31 then Done (fmt_int p (int (unat n)), as) else Fault)"
| "expand CUInt (AUInt n # as) = Done (digits (unat n), as)"
| "expand CUInt (AInt i # as) = (if 0 \<le> i then Done (digits (nat i), as) else Fault)"
| "expand CLong (ALong n # as) = Done (fmt_int 1 (sint n), as)"
| "expand CLong (AULong n # as) =
     (if unat n < 2 ^ 63 then Done (fmt_int 1 (int (unat n)), as) else Fault)"
| "expand CULong (AULong n # as) = Done (digits (unat n), as)"
| "expand CULong (ALong n # as) = (if 0 \<le> sint n then Done (digits (unat n), as) else Fault)"
| "expand cv as = Fault"

definition emit :: "bytes \<Rightarrow> bytes exec \<Rightarrow> bytes exec" where
  "emit bs r = (case r of Fault \<Rightarrow> Fault | Done cs \<Rightarrow> Done (bs @ cs))"

fun printf :: "bytes \<Rightarrow> arg list \<Rightarrow> bytes exec" where
  "printf [] as = Done []"
| "printf (c # cs) as =
     (if c \<noteq> 37 then emit [c] (printf cs as)
      else (case directive cs of
          None \<Rightarrow> Fault
        | Some (cv, n) \<Rightarrow> (case expand cv as of
            Fault \<Rightarrow> Fault
          | Done (bs, as') \<Rightarrow> emit bs (printf (drop n cs) as'))))"

definition fprintf :: "stream \<Rightarrow> bytes \<Rightarrow> arg list \<Rightarrow> io \<Rightarrow> io exec" where
  "fprintf f fmt as io = (case printf fmt as of Fault \<Rightarrow> Fault | Done bs \<Rightarrow> Done (write_to f bs io))"

section \<open>Colours\<close>

definition Q_ESCAPE_CHAR :: bytes where "Q_ESCAPE_CHAR = [27]"

definition Q_FMT_APPLY :: "bytes \<Rightarrow> bytes" where
  "Q_FMT_APPLY x = Q_ESCAPE_CHAR @ x"

definition Q_COLOR_RESET :: bytes where "Q_COLOR_RESET = lit ''[0m''"
definition Q_COLOR_RED :: bytes where "Q_COLOR_RED = lit ''[31m''"
definition Q_COLOR_GREEN :: bytes where "Q_COLOR_GREEN = lit ''[32m''"
definition Q_COLOR_YELLOW :: bytes where "Q_COLOR_YELLOW = lit ''[33m''"
definition Q_COLOR_BLUE :: bytes where "Q_COLOR_BLUE = lit ''[34m''"
definition Q_COLOR_MAGENTA :: bytes where "Q_COLOR_MAGENTA = lit ''[35m''"
definition Q_COLOR_CYAN :: bytes where "Q_COLOR_CYAN = lit ''[36m''"
definition Q_COLOR_WHITE :: bytes where "Q_COLOR_WHITE = lit ''[37m''"

definition qfmtColor :: "bytes \<Rightarrow> io \<Rightarrow> io exec" where
  "qfmtColor c io = fprintf Stdout (27 # lit ''%s'') [AStr c] io"

definition qfmtClearColor :: "io \<Rightarrow> io exec" where
  "qfmtClearColor io = qfmtColor Q_COLOR_RESET io"

definition qfmtColorizerF :: "stream \<Rightarrow> bytes \<Rightarrow> bytes \<Rightarrow> bytes \<Rightarrow> bytes \<Rightarrow> io \<Rightarrow> io exec" where
  "qfmtColorizerF f pre colored suffix c io =
     fprintf f (lit ''%s'' @ [27] @ lit ''%s%s'' @ [27] @ lit ''%s%s'')
       [AStr pre, AStr c, AStr colored, AStr Q_COLOR_RESET, AStr suffix] io"

definition qfmtColorizer :: "bytes \<Rightarrow> bytes \<Rightarrow> bytes \<Rightarrow> bytes \<Rightarrow> io \<Rightarrow> io exec" where
  "qfmtColorizer pre colored suffix c io = qfmtColorizerF Stdout pre colored suffix c io"

section \<open>Log lines\<close>

definition Q_LOG_FAIL :: int where "Q_LOG_FAIL = 40"
definition Q_LOG_WARN :: int where "Q_LOG_WARN = 30"
definition Q_LOG_SUCC :: int where "Q_LOG_SUCC = 20"
definition Q_LOG_INFO :: int where "Q_LOG_INFO = 10"
definition Q_LOG_DEBUG :: int where "Q_LOG_DEBUG = 0"

text \<open>The members of \<^verbatim>\<open>struct tm\<close> that are printed: the month from 0, the year from 1900.\<close>

record tm =
  tm_mon :: int
  tm_mday :: int
  tm_year :: int
  tm_hour :: int
  tm_min :: int
  tm_sec :: int

definition qLog_TIME_FMT_STR :: bytes where
  "qLog_TIME_FMT_STR = lit ''(%.2d/%.2d/%.4d %.2d:%.2d:%.2d) ''"

definition qLogCurrTime :: "tm \<Rightarrow> io \<Rightarrow> io exec" where
  "qLogCurrTime t io = fprintf Stderr qLog_TIME_FMT_STR
     [AInt (tm_mon t + 1), AInt (tm_mday t), AInt (tm_year t + 1900), AInt (tm_hour t), AInt (tm_min t),
      AInt (tm_sec t)] io"

text \<open>\<open>L\<close> is \<^verbatim>\<open>Q_LOG_LOGLEVEL\<close> where the macro is used, \<open>t\<close> the local time.\<close>

definition qLog :: "int \<Rightarrow> tm \<Rightarrow> int \<Rightarrow> bytes \<Rightarrow> bytes \<Rightarrow> bytes \<Rightarrow> io \<Rightarrow> io exec" where
  "qLog L t lvl tag color str io =
     (if L \<le> lvl then
        bind_exec (qfmtColorizerF Stderr (lit ''['') tag (lit '']'') color io) (\<lambda>io.
        bind_exec (qLogCurrTime t io) (\<lambda>io.
        bind_exec (fprintf Stderr str [] io) (\<lambda>io. fprintf Stderr [10] [] io)))
      else Done io)"

definition qLogfmt :: "int \<Rightarrow> tm \<Rightarrow> int \<Rightarrow> bytes \<Rightarrow> bytes \<Rightarrow> bytes \<Rightarrow> arg list \<Rightarrow> io \<Rightarrow> io exec" where
  "qLogfmt L t lvl tag color fmtstr as io =
     (if L \<le> lvl then
        bind_exec (qfmtColorizerF Stderr (lit ''['') tag (lit '']'') color io) (\<lambda>io.
        bind_exec (qLogCurrTime t io) (\<lambda>io.
        bind_exec (fprintf Stderr fmtstr as io) (\<lambda>io. fprintf Stderr [10] [] io)))
      else Done io)"

definition qLogDebug :: "int \<Rightarrow> tm \<Rightarrow> bytes \<Rightarrow> io \<Rightarrow> io exec" where
  "qLogDebug L t str = qLog L t Q_LOG_DEBUG (lit ''DEBG'') Q_COLOR_WHITE str"

definition qLogInfo :: "int \<Rightarrow> tm \<Rightarrow> bytes \<Rightarrow> io \<Rightarrow> io exec" where
  "qLogInfo L t str = qLog L t Q_LOG_INFO (lit ''INFO'') Q_COLOR_RESET str"

definition qLogSucc :: "int \<Rightarrow> tm \<Rightarrow> bytes \<Rightarrow> io \<Rightarrow> io exec" where
  "qLogSucc L t str = qLog L t Q_LOG_SUCC (lit ''SUCC'') Q_COLOR_GREEN str"

definition qLogWarn :: "int \<Rightarrow> tm \<Rightarrow> bytes \<Rightarrow> io \<Rightarrow> io exec" where
  "qLogWarn L t str = qLog L t Q_LOG_WARN (lit ''WARN'') Q_COLOR_YELLOW str"

definition qLogFail :: "int \<Rightarrow> tm \<Rightarrow> bytes \<Rightarrow> io \<Rightarrow> io exec" where
  "qLogFail L t str = qLog L t Q_LOG_FAIL (lit ''FAIL'') Q_COLOR_RED str"

definition qLogDebugfmt :: "int \<Rightarrow> tm \<Rightarrow> bytes \<Rightarrow> arg list \<Rightarrow> io \<Rightarrow> io exec" where
  "qLogDebugfmt L t fmtstr = qLogfmt L t Q_LOG_DEBUG (lit ''DEBG'') Q_COLOR_WHITE fmtstr"

definition qLogInfofmt :: "int \<Rightarrow> tm \<Rightarrow> bytes \<Rightarrow> arg list \<Rightarrow> io \<Rightarrow> io exec" where
  "qLogInfofmt L t fmtstr = qLogfmt L t Q_LOG_INFO (lit ''INFO'') Q_COLOR_RESET fmtstr"

definition qLogSuccfmt :: "int \<Rightarrow> tm \<Rightarrow> bytes \<Rightarrow> arg list \<Rightarrow> io \<Rightarrow> io exec" where
  "qLogSuccfmt L t fmtstr = qLogfmt L t Q_LOG_SUCC (lit ''SUCC'') Q_COLOR_GREEN fmtstr"

definition qLogWarnfmt :: "int \<Rightarrow> tm \<Rightarrow> bytes \<Rightarrow> arg list \<Rightarrow> io \<Rightarrow> io exec" where
  "qLogWarnfmt L t fmtstr = qLogfmt L t Q_LOG_WARN (lit ''WARN'') Q_COLOR_YELLOW fmtstr"

definition qLogFailfmt :: "int \<Rightarrow> tm \<Rightarrow> bytes \<Rightarrow> arg list \<Rightarrow> io \<Rightarrow> io exec" where
  "qLogFailfmt L t fmtstr = qLogfmt L t Q_LOG_FAIL (lit ''FAIL'') Q_COLOR_RED fmtstr"

section \<open>\<^verbatim>\<open>printSomeSpaces\<close>\<close>

text \<open>The loop counter is an \<^verbatim>\<open>int\<close> that is compared as an unsigned number.\<close>

fun spaces_loop :: "nat \<Rightarrow> io \<Rightarrow> io" where
  "spaces_loop 0 io = io"
| "spaces_loop (Suc n) io = spaces_loop n (write_to Stdout (lit '' '') io)"

definition printSomeSpaces :: "u32 \<Rightarrow> io \<Rightarrow> io" where
  "printSomeSpaces spcs io = spaces_loop (unat spcs) io"

lemma printSomeSpaces_output:
  "printSomeSpaces n io = io\<lparr>io_out := io_out io @ replicate (unat n) 32\<rparr>"
proof -
  have "spaces_loop m io = io\<lparr>io_out := io_out io @ replicate m 32\<rparr>" for m
    by (induction m arbitrary: io) (simp_all add: lit_def replicate_append_same flip: replicate_Suc)
  then show ?thesis by (simp add: printSomeSpaces_def)
qed

section \<open>What a line consists of\<close>

lemma emit_simps [simp]: "emit bs (Done cs) = Done (bs @ cs)" "emit bs Fault = Fault"
  by (simp_all add: emit_def)

lemma printf_plain: "37 \<notin> set cs \<Longrightarrow> printf cs as = Done cs"
  by (induction cs) auto

text \<open>The coloured tag in brackets and the time, as they stand in front of the text.\<close>

definition time_stamp :: "tm \<Rightarrow> bytes" where
  "time_stamp t = lit ''('' @ fmt_int 2 (tm_mon t + 1) @ lit ''/'' @ fmt_int 2 (tm_mday t) @ lit ''/''
     @ fmt_int 4 (tm_year t + 1900) @ lit '' '' @ fmt_int 2 (tm_hour t) @ lit '':'' @ fmt_int 2 (tm_min t)
     @ lit '':'' @ fmt_int 2 (tm_sec t) @ lit '') ''"

definition log_head :: "tm \<Rightarrow> bytes \<Rightarrow> bytes \<Rightarrow> bytes" where
  "log_head t tag color = lit ''['' @ 27 # cstr color @ cstr tag @ 27 # lit ''[0m]'' @ time_stamp t"

lemma cstr_lit_reset: "cstr Q_COLOR_RESET = lit ''[0m''"
  by (simp add: Q_COLOR_RESET_def cstr_def lit_def)

lemma colorizer_output:
  "qfmtColorizerF f pre colored suffix c io
     = Done (write_to f (cstr pre @ 27 # cstr c @ cstr colored @ 27 # lit ''[0m'' @ cstr suffix) io)"
  by (simp add: qfmtColorizerF_def fprintf_def directive_def cstr_lit_reset lit_def)

lemma time_output: "qLogCurrTime t io = Done (write_to Stderr (time_stamp t) io)"
  by (simp add: qLogCurrTime_def qLog_TIME_FMT_STR_def fprintf_def directive_def lit_def time_stamp_def)

lemma write_to_write_to [simp]: "write_to f bs (write_to f cs io) = write_to f (cs @ bs) io"
  by (cases f) simp_all

lemma cstr_brackets [simp]: "cstr (lit ''['') = lit ''[''" "cstr (lit '']'') = lit '']''"
  by (simp_all add: lit_def cstr_def)

lemma qLogfmt_output:
  "qLogfmt L t lvl tag color fmt as io = (if L \<le> lvl
     then (case printf fmt as of Fault \<Rightarrow> Fault
       | Done bs \<Rightarrow> Done (write_to Stderr (log_head t tag color @ bs @ [10]) io))
     else Done io)"
  by (simp add: qLogfmt_def colorizer_output time_output log_head_def fprintf_def split: exec.split)
    (simp add: lit_def)

lemma qLog_qLogfmt: "qLog L t lvl tag color str io = qLogfmt L t lvl tag color str [] io"
  by (simp add: qLog_def qLogfmt_def)

text \<open>
  A log macro whose level reaches the threshold writes exactly one line to standard error: the
  coloured tag in brackets with the colour switched off behind it, the time of day, the text the format
  and the arguments give, and a line end; below the threshold it writes nothing at all.
\<close>

lemma log_line_written:
  assumes "printf fmt as = Done text"
  shows "qLogfmt L t lvl tag color fmt as io = Done (if lvl < L then io
     else io\<lparr>io_err := io_err io @ lit ''['' @ 27 # cstr color @ cstr tag @ 27 # lit ''[0m]''
       @ time_stamp t @ text @ [10]\<rparr>)"
  using assms by (simp add: qLogfmt_output log_head_def)

lemma log_line_written_witness:
  "qLogfmt 0 \<lparr>tm_mon = 0, tm_mday = 9, tm_year = 124, tm_hour = 23, tm_min = 5, tm_sec = 7\<rparr> Q_LOG_WARN
     (lit ''WARN'') Q_COLOR_YELLOW (lit ''%s: %d'') [AStr (lit ''ab''), AInt (- 7)] \<lparr>io_out = [], io_err = []\<rparr>
   = Done \<lparr>io_out = [], io_err = lit ''['' @ 27 # lit ''[33mWARN'' @ 27 # lit ''[0m](01/09/2024 23:05:07) ab: -7''
       @ [10]\<rparr>"
proof -
  have "printf (lit ''%s: %d'') [AStr (lit ''ab''), AInt (- 7)] = Done (lit ''ab: -7'')"
    by (simp add: lit_def directive_def fmt_int_def digits.simps cstr_def)
  from log_line_written [OF this, of 0 "\<lparr>tm_mon = 0, tm_mday = 9, tm_year = 124, tm_hour = 23, tm_min = 5,
      tm_sec = 7\<rparr>" Q_LOG_WARN "lit ''WARN''" Q_COLOR_YELLOW "\<lparr>io_out = [], io_err = []\<rparr>"]
  show ?thesis
    by (simp add: Q_LOG_WARN_def Q_COLOR_YELLOW_def time_stamp_def fmt_int_def digits.simps lit_def cstr_def)
qed

end
