(* ===== verification/FuseLog.thy ===== *)
theory FuseLog
  imports FuseTypes Log
begin

text \<open>
  What the handlers of \<^verbatim>\<open>fuse_server.c\<close> log: the line each of them prints on entry, before it touches the
  mutex or the connection, and the lines of the macros \<^verbatim>\<open>ABRT\<close>, \<^verbatim>\<open>WARN\<close> and \<^verbatim>\<open>WARNE\<close>. The file does not
  set \<^verbatim>\<open>Q_LOG_LOGLEVEL\<close>, so everything is printed.
\<close>

section \<open>The lines\<close>

text \<open>\<^verbatim>\<open>Q_LOG_LOGLEVEL\<close> as \<^verbatim>\<open>log.h\<close> sets it when nobody else has.\<close>

definition Q_LOG_LOGLEVEL :: int where "Q_LOG_LOGLEVEL = 0"

definition debug_line :: "tm \<Rightarrow> string \<Rightarrow> string \<Rightarrow> arg list \<Rightarrow> io \<Rightarrow> io exec" where
  "debug_line t func fmt as = qLogDebugfmt Q_LOG_LOGLEVEL t (lit fmt) (AStr (lit func) # as)"

text \<open>
  \<^verbatim>\<open>char modestr[11]; strmode(mode, modestr);\<close> \<open>strmode\<close> is the text that the function of libbsd stores,
  without its terminator. What the array holds before makes no difference.
\<close>

definition mode_line :: "(u32 \<Rightarrow> bytes) \<Rightarrow> tm \<Rightarrow> string \<Rightarrow> bytes \<Rightarrow> u32 \<Rightarrow> io \<Rightarrow> io exec" where
  "mode_line strmode t func fn m io =
     (case strcpy (replicate 11 0) (strmode m) of
        None \<Rightarrow> Fault
      | Some modestr \<Rightarrow> debug_line t func (''%s(): [%s] perm %s '' @ [CHR 0x0A]) [AStr fn, AStr modestr] io)"

text \<open>
  The first lines of each handler. \<open>path\<close> is the path libfuse passes to \<^verbatim>\<open>release\<close> and \<^verbatim>\<open>releasedir\<close>, which
  they only print.
\<close>

fun entry_log :: "(u32 \<Rightarrow> bytes) \<Rightarrow> tm \<Rightarrow> bytes \<Rightarrow> fuse_call \<Rightarrow> io \<Rightarrow> io exec" where
  "entry_log sm t path (Getattr fn st) = debug_line t ''fuse_getattr'' ''%s(): [%s]'' [AStr fn]"
| "entry_log sm t path (Readlink fn dest n) =
     debug_line t ''fuse_readlink'' (''%s(): [%s] -> char[%lu]'' @ [CHR 0x0A]) [AStr fn, AULong n]"
| "entry_log sm t path (Mkdir dn m) = mode_line sm t ''fuse_mkdir'' dn m"
| "entry_log sm t path (Rmdir dn) = debug_line t ''fuse_rmdir'' ''%s(): [%s]'' [AStr dn]"
| "entry_log sm t path (Symlink fn src) =
     debug_line t ''fuse_symlink'' ''%s(): %s -> %s'' [AStr src, AStr fn]"
| "entry_log sm t path (Chmod fn m) = mode_line sm t ''fuse_chmod'' fn m"
| "entry_log sm t path (Truncate fn pos) =
     debug_line t ''fuse_truncate'' ''%s(): [%s] trunc at %lu'' [AStr fn, ALong pos]"
| "entry_log sm t path (Open fn fi) = debug_line t ''fuse_open'' (''%s(): %s'' @ [CHR 0x0A]) [AStr fn]"
| "entry_log sm t path (Read fn buf n pos fi) =
     debug_line t ''fuse_read'' ''%s(): [%s]@%lu, <%lu> -> char[%lu]'' [AStr fn, AULong (fi_fh fi), ALong pos, AULong n]"
| "entry_log sm t path (Write fn buf n pos fi) =
     debug_line t ''fuse_write'' ''%s(): [%s]@%lu, <%lu> <- char[%lu]'' [AStr fn, AULong (fi_fh fi), ALong pos, AULong n]"
| "entry_log sm t path (Statfs fn st) = debug_line t ''fuse_statfs'' ''%s(): %s (ignored)'' [AStr fn]"
| "entry_log sm t path (Release fi) =
     debug_line t ''fuse_release'' ''%s(): [%s]@%lu'' [AStr path, AULong (fi_fh fi)]"
| "entry_log sm t path (Opendir dn fi) = debug_line t ''fuse_opendir'' (''%s(): %s'' @ [CHR 0x0A]) [AStr dn]"
| "entry_log sm t path (Readdir dn off fi) =
     debug_line t ''fuse_readdir'' ''%s(): [%s]@%lu, <%lu> '' [AStr dn, AULong (fi_fh fi), ALong off]"
| "entry_log sm t path (Releasedir fi) =
     debug_line t ''fuse_releasedir'' ''%s(): [%s]@%lu'' [AStr path, AULong (fi_fh fi)]"
| "entry_log sm t path Init = Done"
| "entry_log sm t path (Access fn m) = mode_line sm t ''fuse_access'' fn m"
| "entry_log sm t path (Create fn m fi) =
     debug_line t ''fuse_creat'' (''%s(): %s as mode %d'' @ [CHR 0x0A]) [AStr fn, AUInt m]"
| "entry_log sm t path (Unlink fn) = debug_line t ''fuse_unlink'' ''%s(): [%s] !'' [AStr fn]"
| "entry_log sm t path (Utimens fn tv0 tv1) =
     debug_line t ''fuse_utimens'' (''%s(): [%s] A %ld.%ld, M %ld,%ld '' @ [CHR 0x0A])
       [AStr fn, ALong (fst tv0), ALong (snd tv0), ALong (fst tv1), ALong (snd tv1)]"

text \<open>\<open>strerror\<close> is the C library's message for an error number.\<close>

definition ABRT_log :: "tm \<Rightarrow> bytes \<Rightarrow> int \<Rightarrow> bytes \<Rightarrow> io \<Rightarrow> io exec" where
  "ABRT_log t file line func =
     qLogFailfmt Q_LOG_LOGLEVEL t (lit ''Unrecoverable failure: at %s:%d - %s(). Aborting..'')
       [AStr file, AInt line, AStr func]"

definition WARN_log :: "tm \<Rightarrow> bytes \<Rightarrow> bytes \<Rightarrow> io \<Rightarrow> io exec" where
  "WARN_log t func str = qLogWarnfmt Q_LOG_LOGLEVEL t (lit ''%s(): %s.'') [AStr func, AStr str]"

definition WARNE_log :: "(int \<Rightarrow> bytes) \<Rightarrow> tm \<Rightarrow> bytes \<Rightarrow> bytes \<Rightarrow> int \<Rightarrow> io \<Rightarrow> io exec" where
  "WARNE_log strerror t func str errn =
     qLogWarnfmt Q_LOG_LOGLEVEL t (lit ''%s(): %s reported error %s.'') [AStr func, AStr str, AStr (strerror errn)]"

section \<open>What is printed\<close>

text \<open>The text of a line, put together without formats.\<close>

definition dec :: "u64 \<Rightarrow> bytes" where
  "dec n = digits (unat n)"

definition sdec :: "u64 \<Rightarrow> bytes" where
  "sdec n = fmt_int 1 (sint n)"

fun entry_text :: "(u32 \<Rightarrow> bytes) \<Rightarrow> bytes \<Rightarrow> fuse_call \<Rightarrow> bytes" where
  "entry_text sm path (Getattr fn st) = lit ''fuse_getattr(): ['' @ cstr fn @ lit '']''"
| "entry_text sm path (Readlink fn dest n) =
     lit ''fuse_readlink(): ['' @ cstr fn @ lit ''] -> char['' @ dec n @ lit '']'' @ [10]"
| "entry_text sm path (Rmdir dn) = lit ''fuse_rmdir(): ['' @ cstr dn @ lit '']''"
| "entry_text sm path (Symlink fn src) = lit ''fuse_symlink(): '' @ cstr src @ lit '' -> '' @ cstr fn"
| "entry_text sm path (Truncate fn pos) =
     lit ''fuse_truncate(): ['' @ cstr fn @ lit ''] trunc at '' @ dec pos"
| "entry_text sm path (Open fn fi) = lit ''fuse_open(): '' @ cstr fn @ [10]"
| "entry_text sm path (Read fn buf n pos fi) = lit ''fuse_read(): ['' @ cstr fn @ lit '']@'' @ dec (fi_fh fi)
     @ lit '', <'' @ dec pos @ lit ''> -> char['' @ dec n @ lit '']''"
| "entry_text sm path (Write fn buf n pos fi) = lit ''fuse_write(): ['' @ cstr fn @ lit '']@'' @ dec (fi_fh fi)
     @ lit '', <'' @ dec pos @ lit ''> <- char['' @ dec n @ lit '']''"
| "entry_text sm path (Statfs fn st) = lit ''fuse_statfs(): '' @ cstr fn @ lit '' (ignored)''"
| "entry_text sm path (Release fi) = lit ''fuse_release(): ['' @ cstr path @ lit '']@'' @ dec (fi_fh fi)"
| "entry_text sm path (Opendir dn fi) = lit ''fuse_opendir(): '' @ cstr dn @ [10]"
| "entry_text sm path (Readdir dn off fi) = lit ''fuse_readdir(): ['' @ cstr dn @ lit '']@'' @ dec (fi_fh fi)
     @ lit '', <'' @ dec off @ lit ''> ''"
| "entry_text sm path (Releasedir fi) = lit ''fuse_releasedir(): ['' @ cstr path @ lit '']@'' @ dec (fi_fh fi)"
| "entry_text sm path (Create fn m fi) =
     lit ''fuse_creat(): '' @ cstr fn @ lit '' as mode '' @ digits (unat m) @ [10]"
| "entry_text sm path (Unlink fn) = lit ''fuse_unlink(): ['' @ cstr fn @ lit ''] !''"
| "entry_text sm path (Utimens fn tv0 tv1) = lit ''fuse_utimens(): ['' @ cstr fn @ lit ''] A '' @ sdec (fst tv0)
     @ lit ''.'' @ sdec (snd tv0) @ lit '', M '' @ sdec (fst tv1) @ lit '','' @ sdec (snd tv1) @ lit '' '' @ [10]"
| "entry_text sm path (Mkdir dn m) = lit ''fuse_mkdir(): ['' @ cstr dn @ lit ''] perm '' @ cstr (sm m) @ lit '' '' @ [10]"
| "entry_text sm path (Chmod fn m) = lit ''fuse_chmod(): ['' @ cstr fn @ lit ''] perm '' @ cstr (sm m) @ lit '' '' @ [10]"
| "entry_text sm path (Access fn m) = lit ''fuse_access(): ['' @ cstr fn @ lit ''] perm '' @ cstr (sm m) @ lit '' '' @ [10]"
| "entry_text sm path Init = []"

text \<open>
  Calls that print a line whose formats fit: file positions are not negative (they are printed as unsigned
  numbers), the mode of a new file is below \<open>2\<^sup>3\<^sup>1\<close> (it is printed as a signed one), and a mode string fits the
  array it is stored in.
\<close>

fun line_fits :: "(u32 \<Rightarrow> bytes) \<Rightarrow> fuse_call \<Rightarrow> bool" where
  "line_fits sm (Mkdir dn m) = (strlen (sm m) < 11)"
| "line_fits sm (Chmod fn m) = (strlen (sm m) < 11)"
| "line_fits sm (Access fn m) = (strlen (sm m) < 11)"
| "line_fits sm Init = False"
| "line_fits sm (Truncate fn pos) = (0 \<le> sint pos)"
| "line_fits sm (Read fn buf n pos fi) = (0 \<le> sint pos)"
| "line_fits sm (Write fn buf n pos fi) = (0 \<le> sint pos)"
| "line_fits sm (Readdir dn off fi) = (0 \<le> sint off)"
| "line_fits sm (Create fn m fi) = (unat m < 2 ^ 31)"
| "line_fits sm c = True"

lemma fmt_int_digits: "fmt_int 1 (int n) = digits n"
proof -
  have "0 < length (digits n)"
    by (cases "n < 10") (simp_all add: digits.simps [of n])
  then have "Suc 0 - length (digits n) = 0"
    by linarith
  then show ?thesis
    by (simp add: fmt_int_def)
qed

lemma fmt_int_unat: "fmt_int (Suc 0) (uint w) = digits (unat w)"
  using fmt_int_digits [of "unat w"] by simp

lemma lit_simps: "lit [] = []" "lit (c # cs) = of_char c # lit cs"
  by (simp_all add: lit_def)

lemma cstr_func: "0 \<notin> set (lit s) \<Longrightarrow> cstr (lit s) = lit s"
  by (rule cstr_id)

text \<open>The text of one line, and what a line amounts to once its text is known.\<close>

lemma debug_line_output:
  "printf (lit fmt) (AStr (lit func) # as) = Done text \<Longrightarrow> debug_line t func fmt as io =
     Done (write_to Stderr (log_head t (lit ''DEBG'') Q_COLOR_WHITE @ text @ [10]) io)"
  by (simp add: debug_line_def qLogDebugfmt_def qLogfmt_output Q_LOG_LOGLEVEL_def Q_LOG_DEBUG_def)

lemma directive_simps:
  "directive (115 # cs) = Some (CStr, 1)" "directive (100 # cs) = Some (CInt 1, 1)"
  "directive (108 # 117 # cs) = Some (CULong, 2)" "directive (108 # 100 # cs) = Some (CLong, 2)"
  by (simp_all add: directive_def lit_def)

lemma mode_line_output:
  "strlen (sm m) < 11 \<Longrightarrow> mode_line sm t func fn m io =
     debug_line t func (''%s(): [%s] perm %s '' @ [CHR 0x0A])
       [AStr fn, AStr (cstr (sm m) @ 0 # drop (Suc (strlen (sm m))) (replicate 11 0))] io"
  by (simp add: mode_line_def strcpy_eq)

lemma entry_log_plain:
  "line_fits sm c \<Longrightarrow> printed_mode c = None \<Longrightarrow> entry_log sm t path c io =
    Done (write_to Stderr (log_head t (lit ''DEBG'') Q_COLOR_WHITE @ entry_text sm path c @ [10]) io)"
  by (cases c; (simp only: entry_log.simps entry_text.simps line_fits.simps printed_mode.simps option.distinct)?;
      rule debug_line_output;
      simp add: lit_simps directive_simps cstr_id fmt_int_unat dec_def sdec_def)

lemma entry_log_mode:
  "line_fits sm c \<Longrightarrow> printed_mode c = Some m \<Longrightarrow> entry_log sm t path c io =
    Done (write_to Stderr (log_head t (lit ''DEBG'') Q_COLOR_WHITE @ entry_text sm path c @ [10]) io)"
  by (cases c; (simp only: entry_log.simps entry_text.simps line_fits.simps printed_mode.simps option.distinct
        mode_line_output)?;
      rule debug_line_output; simp add: lit_simps directive_simps cstr_id)

lemma entry_log_text:
  "line_fits sm c \<Longrightarrow> entry_log sm t path c io =
    Done (write_to Stderr (log_head t (lit ''DEBG'') Q_COLOR_WHITE @ entry_text sm path c @ [10]) io)"
  using entry_log_plain entry_log_mode by (cases "printed_mode c") blast+

section \<open>Handlers with their lines\<close>

text \<open>
  A handler as it stands: its first lines, then the rest of its body. The process state and the standard
  streams are disjoint, so the lines of \<open>WARN\<close> and \<open>ABRT\<close>, which come later, are not part of the result.
\<close>

definition logged_call ::
  "tm \<Rightarrow> bytes \<Rightarrow> ('f \<Rightarrow> bytes \<Rightarrow> stat \<Rightarrow> bool \<times> 'f) \<Rightarrow> 'f \<Rightarrow> stack \<Rightarrow> fuse_call \<Rightarrow> srv \<Rightarrow> io \<Rightarrow>
   'f fuse_out outcome \<times> io" where
  "logged_call t path fill f k c s io =
     (case entry_log (k_strmode k) t path c io of
        Fault \<Rightarrow> (Faults, io)
      | Done io1 \<Rightarrow> (zhwkrfsp fill f k c s, io1))"


definition tm0 :: tm where
  "tm0 = \<lparr>tm_mon = 0, tm_mday = 9, tm_year = 124, tm_hour = 23, tm_min = 5, tm_sec = 7\<rparr>"

definition io0 :: io where
  "io0 = \<lparr>io_out = [], io_err = []\<rparr>"


text \<open>
  \<^verbatim>\<open>mkdir\<close>, \<^verbatim>\<open>chmod\<close> and \<^verbatim>\<open>access\<close> convert the mode into an array of eleven bytes before they do anything
  else. The manual of \<^verbatim>\<open>strmode\<close> promises a string of eleven characters and a terminator, twelve bytes: each of
  these calls writes one byte past the array, in its first lines and thus as a whole.
\<close>

lemma mode_string_overflows:
  assumes "\<forall>m. strlen (k_strmode k m) = 11" and "printed_mode c = Some m"
  shows "zhwkrfsp fill f k c s = Faults \<and> entry_log (k_strmode k) t path c io = Fault
    \<and> \<not> mode_fits k c"
proof -
  have "strcpy (replicate 11 0) (k_strmode k m) = None" for m
    using assms(1) by (simp add: strcpy_eq)
  then show ?thesis
    using assms
    by (cases c) (simp_all add: mode_line_def mode_string_def fuse_mkdir_def fuse_chmod_def fuse_access_def
        mode_fits_def)
qed

lemma mode_string_overflows_witness:
  "zhwkrfsp fill0 [] (stack0\<lparr>k_strmode := \<lambda>m. lit ''drwxr-xr-x ''\<rparr>) (Mkdir [47, 97] 16877)
     (srv0 [RxData (enc_RpHdr reply_enoent)] []) = Faults"
  using mode_string_overflows [of "stack0\<lparr>k_strmode := \<lambda>m. lit ''drwxr-xr-x ''\<rparr>" "Mkdir [47, 97] 16877"
      16877 fill0 "[]" "srv0 [RxData (enc_RpHdr reply_enoent)] []" tm0 "[]" io0]
  by (simp add: strlen_def lit_simps cstr_id)

text \<open>The lines of the macros have formats that fit their arguments, too.\<close>

lemma warn_lines:
  "WARN_log t func str io = Done (write_to Stderr (log_head t (lit ''WARN'') Q_COLOR_YELLOW
     @ cstr func @ lit ''(): '' @ cstr str @ lit ''.'' @ [10]) io)"
  "WARNE_log strerror t func str errn io = Done (write_to Stderr (log_head t (lit ''WARN'') Q_COLOR_YELLOW
     @ cstr func @ lit ''(): '' @ cstr str @ lit '' reported error '' @ cstr (strerror errn) @ lit ''.'' @ [10]) io)"
  "ABRT_log t file line func io = Done (write_to Stderr (log_head t (lit ''FAIL'') Q_COLOR_RED
     @ lit ''Unrecoverable failure: at '' @ cstr file @ lit '':'' @ fmt_int 1 line @ lit '' - '' @ cstr func
     @ lit ''(). Aborting..'' @ [10]) io)"
  by (simp_all add: WARN_log_def WARNE_log_def ABRT_log_def qLogWarnfmt_def qLogFailfmt_def qLogfmt_output
      Q_LOG_LOGLEVEL_def Q_LOG_WARN_def Q_LOG_FAIL_def lit_simps directive_simps)

end
