(* ===== verification/BTree.thy ===== *)
theory BTree
  imports Utils
begin

text \<open>
  \<^verbatim>\<open>zhwkre/btree.h\<close> and \<^verbatim>\<open>zhwkre/containers/btree.c\<close>: a B-tree of order three with delayed splits.
  Nodes are owned by their parents alone, so a pointer to a node is modelled by the node: \<^verbatim>\<open>*root\<close> is
  an argument and the node as it is left is part of the result. A pair whose key is the null pointer
  is \<open>None\<close>, a null node is \<open>BNull\<close>; using either where the code dereferences it is \<^const>\<open>Fault\<close>. The
  comparison function of the descriptor is a parameter, and so is the outcome of every allocation
  (the calls that are not checked go on to write through the null pointer, a \<^const>\<open>Fault\<close>). The
  error variable, which a failed allocation sets, and freeing are not modelled.
\<close>

section \<open>Data\<close>

type_synonym ('k, 'v) qPair = "('k \<times> 'v) option"

datatype ('k, 'v) qBTreeNode =
    is_BNull: BNull
  | BNode (kv0: "('k, 'v) qPair") (kv1: "('k, 'v) qPair")
      (childs0: "('k, 'v) qBTreeNode") (childs1: "('k, 'v) qBTreeNode") (childs2: "('k, 'v) qBTreeNode")
      (extrakv: "('k, 'v) qPair") (extrachild: "('k, 'v) qBTreeNode")

record ('k, 'v) qBTreeDescriptor =
  bt_size :: u32
  bt_root :: "('k, 'v) qBTreeNode"

text \<open>\<^verbatim>\<open>track[0..top)\<close>, the nodes above the current one and the child taken in each.\<close>

record ('k, 'v) qBTreeIterator =
  it_node :: "('k, 'v) qBTreeNode"
  it_which :: nat
  it_track :: "(('k, 'v) qBTreeNode \<times> nat) list"

definition zero_iter :: "('k, 'v) qBTreeIterator" where
  "zero_iter = \<lparr>it_node = BNull, it_which = 0, it_track = []\<rparr>"

text \<open>Calling the comparison function on the key of a pair.\<close>

definition kcmp :: "('k \<Rightarrow> 'k \<Rightarrow> int) \<Rightarrow> 'k \<Rightarrow> ('k, 'v) qPair \<Rightarrow> int exec" where
  "kcmp cmp k p = (case p of None \<Rightarrow> Fault | Some q \<Rightarrow> Done (cmp k (fst q)))"

lemma kcmp_Some [simp]: "kcmp cmp k (Some q) = Done (cmp k (fst q))"
  by (simp add: kcmp_def)

section \<open>Insertion\<close>

text \<open>A fresh node holds a single pair.\<close>

definition node1 :: "('k, 'v) qPair \<Rightarrow> ('k, 'v) qBTreeNode \<Rightarrow> ('k, 'v) qBTreeNode \<Rightarrow> ('k, 'v) qBTreeNode" where
  "node1 p a b = BNode p None a b BNull None BNull"

text \<open>The promoted pair, the new left node and what is left of the node that was split.\<close>

definition qBTreeNode__split_up ::
  "('k \<Rightarrow> 'k \<Rightarrow> int) \<Rightarrow> ('k, 'v) qBTreeNode
     \<Rightarrow> (('k, 'v) qPair \<times> ('k, 'v) qBTreeNode \<times> ('k, 'v) qBTreeNode) exec" where
  "qBTreeNode__split_up cmp nodesplit =
     (case nodesplit of
        BNull \<Rightarrow> Fault
      | BNode k0 k1 c0 c1 c2 xk xc \<Rightarrow>
          (case xk of
             None \<Rightarrow> Fault
           | Some x \<Rightarrow>
               bind_exec (kcmp cmp (fst x) k0) (\<lambda>firstcmp.
               if firstcmp < 0 then Done (k0, node1 xk xc c0, node1 k1 c1 c2)
               else
                 bind_exec (kcmp cmp (fst x) k1) (\<lambda>secondcmp.
                 if secondcmp < 0 then Done (xk, node1 k0 c0 xc, node1 k1 c1 c2)
                 else Done (k1, node1 k0 c0 c1, node1 xk xc c2)))))"

text \<open>
  -1: the key exists or no node could be allocated, 0: done, 1: the node waits for a split. Every
  activation allocates at most one node; \<open>mok n\<close> says whether the allocation of the activation \<open>n\<close>
  levels down succeeds.
\<close>

fun qBTree__recursive_insert ::
  "('k \<Rightarrow> 'k \<Rightarrow> int) \<Rightarrow> (nat \<Rightarrow> bool) \<Rightarrow> ('k, 'v) qBTreeNode \<Rightarrow> 'k \<times> 'v \<Rightarrow> (int \<times> ('k, 'v) qBTreeNode) exec" where
  "qBTree__recursive_insert cmp mok BNull pair =
     (if \<not> mok 0 then Done (-1, BNull) else Done (0, node1 (Some pair) BNull BNull))"
| "qBTree__recursive_insert cmp mok (BNode k0 k1 c0 c1 c2 xk xc) pair =
     (if is_BNull c0 \<and> is_BNull c1 \<and> is_BNull c2 then
        (if k1 \<noteq> None then Done (1, BNode k0 k1 c0 c1 c2 (Some pair) xc)
         else
           bind_exec (kcmp cmp (fst pair) k0) (\<lambda>firstcmp.
           if firstcmp = 0 then Done (-1, BNode k0 k1 c0 c1 c2 xk xc)
           else if firstcmp > 0 then Done (0, BNode k0 (Some pair) c0 c1 c2 xk xc)
           else Done (0, BNode (Some pair) k0 c0 c1 c2 xk xc)))
      else
        bind_exec (kcmp cmp (fst pair) k0) (\<lambda>firstcmp.
        if firstcmp = 0 then Done (-1, BNode k0 k1 c0 c1 c2 xk xc)
        else if firstcmp < 0 then
          bind_exec (qBTree__recursive_insert cmp (\<lambda>n. mok (Suc n)) c0 pair) (\<lambda>(issp, c0).
          if issp = 0 \<or> issp = -1 then Done (issp, BNode k0 k1 c0 c1 c2 xk xc)
          else if \<not> mok 0 then Fault
          else
            bind_exec (qBTreeNode__split_up cmp c0) (\<lambda>(topropair, topronode, c0).
            if k1 \<noteq> None then Done (1, BNode k0 k1 c0 c1 c2 topropair topronode)
            else Done (0, BNode k0 topropair c0 topronode c1 xk xc)))
        else
          bind_exec (if k1 \<noteq> None then kcmp cmp (fst pair) k1 else Done 0) (\<lambda>secondcmp.
          if k1 = None \<or> secondcmp < 0 then
            bind_exec (qBTree__recursive_insert cmp (\<lambda>n. mok (Suc n)) c1 pair) (\<lambda>(issp, c1).
            if issp = 0 \<or> issp = -1 then Done (issp, BNode k0 k1 c0 c1 c2 xk xc)
            else if \<not> mok 0 then Fault
            else
              bind_exec (qBTreeNode__split_up cmp c1) (\<lambda>(topropair, topronode, c1).
              if k1 \<noteq> None then Done (1, BNode k0 k1 c0 c1 c2 topropair topronode)
              else Done (0, BNode k0 topropair c0 topronode c1 xk xc)))
          else if secondcmp = 0 then Done (-1, BNode k0 k1 c0 c1 c2 xk xc)
          else
            bind_exec (qBTree__recursive_insert cmp (\<lambda>n. mok (Suc n)) c2 pair) (\<lambda>(issp, c2).
            if issp = 0 \<or> issp = -1 then Done (issp, BNode k0 k1 c0 c1 c2 xk xc)
            else if \<not> mok 0 then Fault
            else
              bind_exec (qBTreeNode__split_up cmp c2) (\<lambda>(topropair, topronode, c2).
              Done (1, BNode k0 k1 c0 c1 c2 topropair topronode))))))"

definition qBTree_constructor :: "('k, 'v) qBTreeDescriptor" where
  "qBTree_constructor = \<lparr>bt_size = 0, bt_root = BNull\<rparr>"

text \<open>The outcomes of the allocations of an insertion.\<close>

record bt_alloc =
  al_key :: bool
  al_value :: bool
  al_node :: "nat \<Rightarrow> bool"
  al_rootchild :: bool
  al_root :: bool

definition qBTree__insert ::
  "('k \<Rightarrow> 'k \<Rightarrow> int) \<Rightarrow> bt_alloc \<Rightarrow> ('k, 'v) qBTreeDescriptor \<Rightarrow> 'k \<Rightarrow> 'v
     \<Rightarrow> (int \<times> ('k, 'v) qBTreeDescriptor) exec" where
  "qBTree__insert cmp al desc key value =
     (if \<not> al_key al then Done (-1, desc)
      else if \<not> al_value al then Done (-1, desc)
      else
        bind_exec (qBTree__recursive_insert cmp (al_node al) (bt_root desc) (key, value)) (\<lambda>(stat, root).
        if stat = 0 \<or> stat = -1
        then Done (stat, desc\<lparr>bt_root := root, bt_size := bt_size desc + of_int (stat + 1)\<rparr>)
        else if \<not> al_rootchild al then Done (-1, desc\<lparr>bt_root := root\<rparr>)
        else
          bind_exec (qBTreeNode__split_up cmp root) (\<lambda>(newrootpair, newrootchild, root).
          if \<not> al_root al then Done (-1, desc\<lparr>bt_root := root\<rparr>)
          else Done (0, desc\<lparr>bt_root := node1 newrootpair newrootchild root,
                            bt_size := bt_size desc + 1\<rparr>))))"

definition al_ok :: bt_alloc where
  "al_ok = \<lparr>al_key = True, al_value = True, al_node = (\<lambda>n. True), al_rootchild = True, al_root = True\<rparr>"

lemma al_ok_simps [simp]:
  "al_key al_ok" "al_value al_ok" "al_node al_ok = (\<lambda>n. True)" "al_rootchild al_ok" "al_root al_ok"
  by (simp_all add: al_ok_def)

section \<open>Search\<close>

text \<open>\<^verbatim>\<open>track[top].parent = n; track[top].childno = i; top++\<close> on an array of 100 entries.\<close>

definition track_push ::
  "('k, 'v) qBTreeNode \<Rightarrow> nat \<Rightarrow> ('k, 'v) qBTreeIterator \<Rightarrow> ('k, 'v) qBTreeIterator exec" where
  "track_push n i it = (if length (it_track it) < 100
     then Done (it\<lparr>it_track := it_track it @ [(n, i)]\<rparr>) else Fault)"

fun qBTree__recursive_search ::
  "('k \<Rightarrow> 'k \<Rightarrow> int) \<Rightarrow> ('k, 'v) qBTreeNode \<Rightarrow> ('k, 'v) qBTreeIterator \<Rightarrow> 'k
     \<Rightarrow> (int \<times> ('k, 'v) qBTreeIterator) exec" where
  "qBTree__recursive_search cmp BNull lastit key = Done (-1, zero_iter)"
| "qBTree__recursive_search cmp (BNode k0 k1 c0 c1 c2 xk xc) lastit key =
     (let root = BNode k0 k1 c0 c1 c2 xk xc in
      bind_exec (kcmp cmp key k0) (\<lambda>first_cmp.
      if first_cmp = 0 then Done (0, lastit\<lparr>it_node := root, it_which := 0\<rparr>)
      else if first_cmp < 0
      then bind_exec (track_push root 0 lastit) (\<lambda>it. qBTree__recursive_search cmp c0 it key)
      else if k1 = None then
        (if \<not> is_BNull c1
         then bind_exec (track_push root 1 lastit) (\<lambda>it. qBTree__recursive_search cmp c1 it key)
         else Done (-1, zero_iter))
      else
        bind_exec (kcmp cmp key k1) (\<lambda>second_cmp.
        if second_cmp = 0 then Done (0, lastit\<lparr>it_node := root, it_which := 1\<rparr>)
        else if second_cmp < 0
        then bind_exec (track_push root 1 lastit) (\<lambda>it. qBTree__recursive_search cmp c1 it key)
        else bind_exec (track_push root 2 lastit) (\<lambda>it. qBTree__recursive_search cmp c2 it key))))"

definition qBTree__ptr_at ::
  "('k \<Rightarrow> 'k \<Rightarrow> int) \<Rightarrow> ('k, 'v) qBTreeDescriptor \<Rightarrow> 'k \<Rightarrow> (int \<times> ('k, 'v) qBTreeIterator) exec" where
  "qBTree__ptr_at cmp desc key = qBTree__recursive_search cmp (bt_root desc) zero_iter key"

definition qBTreeIterator_isvalid :: "('k, 'v) qBTreeIterator \<Rightarrow> bool" where
  "qBTreeIterator_isvalid i \<longleftrightarrow> \<not> is_BNull (it_node i)"

definition kv_at :: "('k, 'v) qBTreeNode \<Rightarrow> nat \<Rightarrow> ('k, 'v) qPair" where
  "kv_at n i = (if i = 0 then kv0 n else kv1 n)"

definition childs_at :: "('k, 'v) qBTreeNode \<Rightarrow> nat \<Rightarrow> ('k, 'v) qBTreeNode" where
  "childs_at n i = (if i = 0 then childs0 n else if i = 1 then childs1 n else childs2 n)"

definition qBTreeIterator_deref :: "('k, 'v) qBTreeIterator \<Rightarrow> ('k, 'v) qPair exec" where
  "qBTreeIterator_deref i = (if is_BNull (it_node i) then Fault else Done (kv_at (it_node i) (it_which i)))"

section \<open>Removal\<close>

text \<open>
  \<^verbatim>\<open>rotate_left\<close> and \<^verbatim>\<open>rotate_right\<close> on the child that lost its pair, the pair of the parent beside it
  and the sibling; \<open>None\<close> when the sibling has no pair to spare.
\<close>

definition rot_left ::
  "('k, 'v) qBTreeNode \<Rightarrow> ('k, 'v) qPair \<Rightarrow> ('k, 'v) qBTreeNode
     \<Rightarrow> ((('k, 'v) qBTreeNode \<times> ('k, 'v) qPair \<times> ('k, 'v) qBTreeNode) option) exec" where
  "rot_left child mid sib =
     (case sib of
        BNull \<Rightarrow> Done None
      | BNode s0 s1 d0 d1 d2 sx sy \<Rightarrow>
          (if s1 = None then Done None
           else
             (case child of
                BNull \<Rightarrow> Fault
              | BNode k0 k1 c0 c1 c2 xk xc \<Rightarrow>
                  Done (Some (BNode mid k1 c0 d0 c2 xk xc, s0, BNode s1 None d1 d2 BNull sx sy)))))"

definition rot_right ::
  "('k, 'v) qBTreeNode \<Rightarrow> ('k, 'v) qPair \<Rightarrow> ('k, 'v) qBTreeNode
     \<Rightarrow> ((('k, 'v) qBTreeNode \<times> ('k, 'v) qPair \<times> ('k, 'v) qBTreeNode) option) exec" where
  "rot_right sib mid child =
     (case sib of
        BNull \<Rightarrow> Done None
      | BNode s0 s1 d0 d1 d2 sx sy \<Rightarrow>
          (if s1 = None then Done None
           else
             (case child of
                BNull \<Rightarrow> Fault
              | BNode k0 k1 c0 c1 c2 xk xc \<Rightarrow>
                  Done (Some (BNode s0 None d0 d1 BNull sx sy, s1, BNode mid k1 d2 c0 c2 xk xc)))))"

text \<open>Result 0 and the node afterwards, or -1 and the node as it was.\<close>

definition qBTree__rotate_left ::
  "('k, 'v) qBTreeNode \<Rightarrow> nat \<Rightarrow> (int \<times> ('k, 'v) qBTreeNode) exec" where
  "qBTree__rotate_left root which =
     (case root of
        BNull \<Rightarrow> Fault
      | BNode k0 k1 c0 c1 c2 xk xc \<Rightarrow>
          (if which = 2 then Done (-1, root)
           else if which = 0 then
             bind_exec (rot_left c0 k0 c1) (\<lambda>r. case r of None \<Rightarrow> Done (-1, root)
               | Some (c, m, s) \<Rightarrow> Done (0, BNode m k1 c s c2 xk xc))
           else
             bind_exec (rot_left c1 k1 c2) (\<lambda>r. case r of None \<Rightarrow> Done (-1, root)
               | Some (c, m, s) \<Rightarrow> Done (0, BNode k0 m c0 c s xk xc))))"

definition qBTree__rotate_right ::
  "('k, 'v) qBTreeNode \<Rightarrow> nat \<Rightarrow> (int \<times> ('k, 'v) qBTreeNode) exec" where
  "qBTree__rotate_right root which =
     (case root of
        BNull \<Rightarrow> Fault
      | BNode k0 k1 c0 c1 c2 xk xc \<Rightarrow>
          (if which = 0 then Done (-1, root)
           else if which = 1 then
             bind_exec (rot_right c0 k0 c1) (\<lambda>r. case r of None \<Rightarrow> Done (-1, root)
               | Some (s, m, c) \<Rightarrow> Done (0, BNode m k1 s c c2 xk xc))
           else
             bind_exec (rot_right c1 k1 c2) (\<lambda>r. case r of None \<Rightarrow> Done (-1, root)
               | Some (s, m, c) \<Rightarrow> Done (0, BNode k0 m c0 s c xk xc))))"

definition merge_into ::
  "('k, 'v) qBTreeNode \<Rightarrow> ('k, 'v) qPair \<Rightarrow> ('k, 'v) qBTreeNode \<Rightarrow> ('k, 'v) qBTreeNode exec" where
  "merge_into left mid right =
     (case left of
        BNull \<Rightarrow> Fault
      | BNode k0 k1 c0 c1 c2 xk xc \<Rightarrow>
          (case right of
             BNull \<Rightarrow> Fault
           | BNode s0 s1 d0 d1 d2 sx sy \<Rightarrow>
               Done (if is_BNull c1 then BNode k0 mid c0 d0 c2 xk xc else BNode k0 mid c0 c1 d0 xk xc)))"

definition qBTree__merge ::
  "('k, 'v) qBTreeNode \<Rightarrow> nat \<Rightarrow> (int \<times> ('k, 'v) qBTreeNode) exec" where
  "qBTree__merge root which =
     (case root of
        BNull \<Rightarrow> Fault
      | BNode k0 k1 c0 c1 c2 xk xc \<Rightarrow>
          (if which = 0 then
             (case c0 of
                BNull \<Rightarrow> Fault
              | BNode a0 a1 e0 e1 e2 ax ay \<Rightarrow>
                  (case c1 of
                     BNull \<Rightarrow> Fault
                   | BNode s0 s1 d0 d1 d2 sx sy \<Rightarrow>
                       Done (if k1 = None then 1 else 0,
                             BNode k1 None (BNode k0 s0 e0 d0 d1 ax ay) c2 BNull xk xc)))
           else if which = 1 then
             bind_exec (merge_into c0 k0 c1) (\<lambda>c0.
             Done (if k1 = None then 1 else 0, BNode k1 None c0 c2 BNull xk xc))
           else if which = 2 then
             bind_exec (merge_into c1 k1 c2) (\<lambda>c1. Done (0, BNode k0 None c0 c1 BNull xk xc))
           else Done (-1, root)))"

text \<open>
  The work after a removal has left a child without a pair: the rotations the source tries, and the
  merge when none of them applies.
\<close>

definition try_rotate ::
  "(int \<times> ('k, 'v) qBTreeNode) exec \<Rightarrow> (int \<times> ('k, 'v) qBTreeNode) exec \<Rightarrow> (int \<times> ('k, 'v) qBTreeNode) exec" where
  "try_rotate rotation otherwise = bind_exec rotation (\<lambda>(r, n). if r = 0 then Done (0, n) else otherwise)"

definition post_left :: "('k, 'v) qBTreeNode \<Rightarrow> (int \<times> ('k, 'v) qBTreeNode) exec" where
  "post_left root = try_rotate (qBTree__rotate_left root 0) (qBTree__merge root 0)"

definition post_mid :: "('k, 'v) qBTreeNode \<Rightarrow> (int \<times> ('k, 'v) qBTreeNode) exec" where
  "post_mid root = try_rotate (qBTree__rotate_left root 1)
     (try_rotate (qBTree__rotate_right root 1) (qBTree__merge root 1))"

definition post_right :: "nat \<Rightarrow> ('k, 'v) qBTreeNode \<Rightarrow> (int \<times> ('k, 'v) qBTreeNode) exec" where
  "post_right which root = try_rotate (qBTree__rotate_right root which) (qBTree__merge root which)"

fun qBTree__recursive_erase_min :: "('k, 'v) qBTreeNode \<Rightarrow> (int \<times> ('k, 'v) qBTreeNode) exec" where
  "qBTree__recursive_erase_min BNull = Done (-1, BNull)"
| "qBTree__recursive_erase_min (BNode k0 k1 c0 c1 c2 xk xc) =
     (if \<not> is_BNull c0 then
        bind_exec (qBTree__recursive_erase_min c0) (\<lambda>(status, c0).
        if status = 0 \<or> status = -1 then Done (status, BNode k0 k1 c0 c1 c2 xk xc)
        else post_left (BNode k0 k1 c0 c1 c2 xk xc))
      else if k1 \<noteq> None then Done (0, BNode k1 None c0 c1 c2 xk xc)
      else Done (1, BNode None k1 c0 c1 c2 xk xc))"

text \<open>\<open>None\<close> is the result -1.\<close>

fun qBTree__get_min :: "('k, 'v) qBTreeNode \<Rightarrow> ('k, 'v) qPair option" where
  "qBTree__get_min BNull = None"
| "qBTree__get_min (BNode k0 k1 c0 c1 c2 xk xc) =
     (if \<not> is_BNull c0 then qBTree__get_min c0 else Some k0)"

fun qBTree__recursive_erase ::
  "('k \<Rightarrow> 'k \<Rightarrow> int) \<Rightarrow> ('k, 'v) qBTreeNode \<Rightarrow> 'k \<Rightarrow> (int \<times> ('k, 'v) qBTreeNode) exec" where
  "qBTree__recursive_erase cmp BNull target = Done (-1, BNull)"
| "qBTree__recursive_erase cmp (BNode k0 k1 c0 c1 c2 xk xc) target =
     bind_exec (kcmp cmp target k0) (\<lambda>firstcmp.
     if firstcmp = 0 then
       (case qBTree__get_min c1 of
          None \<Rightarrow> qBTree__recursive_erase_min (BNode k0 k1 c0 c1 c2 xk xc)
        | Some k0 \<Rightarrow>
            bind_exec (qBTree__recursive_erase_min c1) (\<lambda>(erasestat, c1).
            if erasestat = 0 \<or> erasestat = -1 then Done (erasestat, BNode k0 k1 c0 c1 c2 xk xc)
            else post_mid (BNode k0 k1 c0 c1 c2 xk xc)))
     else if firstcmp < 0 then
       bind_exec (qBTree__recursive_erase cmp c0 target) (\<lambda>(status, c0).
       if status = 0 \<or> status = -1 then Done (status, BNode k0 k1 c0 c1 c2 xk xc)
       else post_left (BNode k0 k1 c0 c1 c2 xk xc))
     else if k1 = None then
       bind_exec (qBTree__recursive_erase cmp c1 target) (\<lambda>(status, c1).
       if status = 0 \<or> status = -1 then Done (status, BNode k0 k1 c0 c1 c2 xk xc)
       else post_right 1 (BNode k0 k1 c0 c1 c2 xk xc))
     else
       bind_exec (kcmp cmp target k1) (\<lambda>secondcmp.
       if secondcmp = 0 then
         (case qBTree__get_min c2 of
            None \<Rightarrow> Done (0, BNode k0 None c0 c1 c2 xk xc)
          | Some k1 \<Rightarrow>
              bind_exec (qBTree__recursive_erase_min c2) (\<lambda>(erasestat, c2).
              if erasestat = 0 \<or> erasestat = -1 then Done (erasestat, BNode k0 k1 c0 c1 c2 xk xc)
              else post_right 2 (BNode k0 k1 c0 c1 c2 xk xc)))
       else if secondcmp < 0 then
         bind_exec (qBTree__recursive_erase cmp c1 target) (\<lambda>(status, c1).
         if status = 0 \<or> status = -1 then Done (status, BNode k0 k1 c0 c1 c2 xk xc)
         else post_mid (BNode k0 k1 c0 c1 c2 xk xc))
       else
         bind_exec (qBTree__recursive_erase cmp c2 target) (\<lambda>(status, c2).
         if status = 0 \<or> status = -1 then Done (status, BNode k0 k1 c0 c1 c2 xk xc)
         else post_right 2 (BNode k0 k1 c0 c1 c2 xk xc))))"

text \<open>The element is given by an iterator; only a copy of its key is used to find it again.\<close>

definition qBTree__erase ::
  "('k \<Rightarrow> 'k \<Rightarrow> int) \<Rightarrow> bool \<Rightarrow> bool \<Rightarrow> ('k, 'v) qBTreeDescriptor \<Rightarrow> ('k, 'v) qBTreeIterator
     \<Rightarrow> (int \<times> ('k, 'v) qBTreeDescriptor) exec" where
  "qBTree__erase cmp mok1 mok2 desc elem =
     bind_exec (qBTreeIterator_deref elem) (\<lambda>tmpair.
     case tmpair of
       None \<Rightarrow> Fault
     | Some p \<Rightarrow>
         if \<not> mok1 \<or> \<not> mok2 then Fault else
         bind_exec (qBTree__recursive_erase cmp (bt_root desc) (fst p)) (\<lambda>(status, root).
         if status = -1 then Done (-1, desc\<lparr>bt_root := root\<rparr>)
         else if status = 1 then
           (if is_BNull root then Fault
            else Done (0, desc\<lparr>bt_root := childs0 root, bt_size := bt_size desc - 1\<rparr>))
         else Done (0, desc\<lparr>bt_root := root, bt_size := bt_size desc - 1\<rparr>)))"

section \<open>Iteration\<close>

text \<open>The descent to the leftmost node below the iterator's node.\<close>

fun go_leftmost :: "('k, 'v) qBTreeNode \<Rightarrow> ('k, 'v) qBTreeIterator \<Rightarrow> ('k, 'v) qBTreeIterator exec" where
  "go_leftmost BNull it = Done it"
| "go_leftmost (BNode k0 k1 c0 c1 c2 xk xc) it =
     (if is_BNull c0 then Done (it\<lparr>it_node := BNode k0 k1 c0 c1 c2 xk xc\<rparr>)
      else bind_exec (track_push (BNode k0 k1 c0 c1 c2 xk xc) 0 it) (\<lambda>it.
           go_leftmost c0 (it\<lparr>it_which := 0\<rparr>)))"

fun go_rightmost :: "('k, 'v) qBTreeNode \<Rightarrow> ('k, 'v) qBTreeIterator \<Rightarrow> ('k, 'v) qBTreeIterator exec" where
  "go_rightmost BNull it = Done it"
| "go_rightmost (BNode k0 k1 c0 c1 c2 xk xc) it =
     (let n = BNode k0 k1 c0 c1 c2 xk xc in
      if k1 = None then
        (if is_BNull c1 then Done (it\<lparr>it_node := n, it_which := 0\<rparr>)
         else bind_exec (track_push n 1 it) (go_rightmost c1))
      else
        (if is_BNull c2 then Done (it\<lparr>it_node := n, it_which := 1\<rparr>)
         else bind_exec (track_push n 2 it) (go_rightmost c2)))"

definition qBTree_begin :: "('k, 'v) qBTreeDescriptor \<Rightarrow> ('k, 'v) qBTreeIterator exec" where
  "qBTree_begin desc = go_leftmost (bt_root desc) zero_iter"

definition qBTree_end :: "('k, 'v) qBTreeDescriptor \<Rightarrow> ('k, 'v) qBTreeIterator exec" where
  "qBTree_end desc = go_rightmost (bt_root desc) zero_iter"

text \<open>Climbing: the last entry of the track (the list is reversed here) that offers a pair.\<close>

fun climb_prev :: "(('k, 'v) qBTreeNode \<times> nat) list \<Rightarrow> ('k, 'v) qBTreeIterator" where
  "climb_prev [] = zero_iter"
| "climb_prev ((parent, childno) # up) =
     (if childno = 0 then climb_prev up
      else \<lparr>it_node = parent, it_which = childno - 1, it_track = rev up\<rparr>)"

fun climb_next :: "(('k, 'v) qBTreeNode \<times> nat) list \<Rightarrow> ('k, 'v) qBTreeIterator" where
  "climb_next [] = zero_iter"
| "climb_next ((parent, childno) # up) =
     (if childno = 2 \<or> kv_at parent childno = None then climb_next up
      else \<lparr>it_node = parent, it_which = childno, it_track = rev up\<rparr>)"

definition qBTreeIterator_prev :: "('k, 'v) qBTreeIterator \<Rightarrow> ('k, 'v) qBTreeIterator exec" where
  "qBTreeIterator_prev it =
     (if is_BNull (it_node it) then Fault
      else
        (let below = childs_at (it_node it) (it_which it) in
         if is_BNull below then
           (if it_which it = 1 then Done (it\<lparr>it_which := 0\<rparr>) else Done (climb_prev (rev (it_track it))))
         else bind_exec (track_push (it_node it) (it_which it) it) (go_rightmost below)))"

definition qBTreeIterator_next :: "('k, 'v) qBTreeIterator \<Rightarrow> ('k, 'v) qBTreeIterator exec" where
  "qBTreeIterator_next it =
     (if is_BNull (it_node it) then Fault
      else
        (let below = childs_at (it_node it) (it_which it + 1) in
         if is_BNull below then
           (if it_which it = 0 \<and> kv1 (it_node it) \<noteq> None then Done (it\<lparr>it_which := 1\<rparr>)
            else Done (climb_next (rev (it_track it))))
         else bind_exec (track_push (it_node it) (it_which it + 1) it) (\<lambda>it.
              go_leftmost below (it\<lparr>it_which := 0\<rparr>))))"

end
