(* ===== verification/BTreeSpec.thy ===== *)
theory BTreeSpec
  imports BTree "HOL-Library.Multiset"
begin

text \<open>
  The trees the nodes stand for: 2-3 trees, with \<open>rep\<close> giving the node of a tree. The operations of
  \<^verbatim>\<open>btree.c\<close> on \<open>rep t\<close> are refined to operations on \<open>t\<close>, about which the properties are proved.
\<close>

section \<open>2-3 trees\<close>

datatype 'p t23 = L | N2 "'p t23" 'p "'p t23" | N3 "'p t23" 'p "'p t23" 'p "'p t23"

fun rep :: "('k \<times> 'v) t23 \<Rightarrow> ('k, 'v) qBTreeNode" where
  "rep L = BNull"
| "rep (N2 l p r) = BNode (Some p) None (rep l) (rep r) BNull None BNull"
| "rep (N3 l p m q r) = BNode (Some p) (Some q) (rep l) (rep m) (rep r) None BNull"

fun inord :: "'p t23 \<Rightarrow> 'p list" where
  "inord L = []"
| "inord (N2 l p r) = inord l @ p # inord r"
| "inord (N3 l p m q r) = inord l @ p # inord m @ q # inord r"

fun ht :: "'p t23 \<Rightarrow> nat" where
  "ht L = 0"
| "ht (N2 l p r) = Suc (max (ht l) (ht r))"
| "ht (N3 l p m q r) = Suc (max (ht l) (max (ht m) (ht r)))"

text \<open>All leaves are at the same depth.\<close>

fun bal :: "'p t23 \<Rightarrow> bool" where
  "bal L = True"
| "bal (N2 l p r) = (bal l \<and> bal r \<and> ht l = ht r)"
| "bal (N3 l p m q r) = (bal l \<and> bal m \<and> bal r \<and> ht l = ht m \<and> ht m = ht r)"

lemma is_BNull_rep [simp]: "is_BNull (rep t) \<longleftrightarrow> t = L"
  by (cases t) auto

lemma ht_0 [simp]: "ht t = 0 \<longleftrightarrow> t = L"
  by (cases t) auto

lemma ht_0' [simp]: "0 = ht t \<longleftrightarrow> t = L"
  by (cases t) auto

lemma rep_inj: "rep t = rep u \<Longrightarrow> t = u"
proof (induction t arbitrary: u)
  case L
  then show ?case by (cases u) auto
next
  case (N2 l p r)
  then show ?case by (cases u) auto
next
  case (N3 l p m q r)
  then show ?case by (cases u) auto
qed

section \<open>Insertion\<close>

text \<open>
  The outcome of an insertion: the key is there, the new tree, or a full node \<open>l p m q r\<close> with a pair
  \<open>x\<close> and a tree \<open>a\<close> to its left that wait for a split.
\<close>

datatype 'p insres = Exists | Fits "'p t23" | Pending "'p t23" 'p "'p t23" 'p "'p t23" 'p "'p t23"

text \<open>Splitting a full node.\<close>

definition split_tree ::
  "('k \<Rightarrow> 'k \<Rightarrow> int) \<Rightarrow> ('k \<times> 'v) t23 \<Rightarrow> 'k \<times> 'v \<Rightarrow> ('k \<times> 'v) t23 \<Rightarrow> 'k \<times> 'v \<Rightarrow> ('k \<times> 'v) t23
     \<Rightarrow> 'k \<times> 'v \<Rightarrow> ('k \<times> 'v) t23 \<Rightarrow> ('k \<times> 'v) \<times> ('k \<times> 'v) t23 \<times> ('k \<times> 'v) t23" where
  "split_tree cmp l p m q r x a =
     (if cmp (fst x) (fst p) < 0 then (p, N2 a x l, N2 m q r)
      else if cmp (fst x) (fst q) < 0 then (x, N2 l p a, N2 m q r)
      else (q, N2 l p m, N2 a x r))"

text \<open>
  Insertion as the code does it. When the left child of a node with a single pair splits, the
  promoted pair and the new node are put behind the node's pair instead of before it.
\<close>

fun ins :: "('k \<Rightarrow> 'k \<Rightarrow> int) \<Rightarrow> ('k \<times> 'v) t23 \<Rightarrow> 'k \<times> 'v \<Rightarrow> ('k \<times> 'v) insres" where
  "ins cmp L x = Fits (N2 L x L)"
| "ins cmp (N2 l p r) x =
     (if l = L \<and> r = L then
        (if cmp (fst x) (fst p) = 0 then Exists
         else if cmp (fst x) (fst p) > 0 then Fits (N3 l p r x L) else Fits (N3 l x r p L))
      else if cmp (fst x) (fst p) = 0 then Exists
      else if cmp (fst x) (fst p) < 0 then
        (case ins cmp l x of Exists \<Rightarrow> Exists | Fits l' \<Rightarrow> Fits (N2 l' p r)
         | Pending l1 p1 m1 q1 r1 x1 a1 \<Rightarrow>
             (case split_tree cmp l1 p1 m1 q1 r1 x1 a1 of (y, a, b) \<Rightarrow> Fits (N3 b p a y r)))
      else
        (case ins cmp r x of Exists \<Rightarrow> Exists | Fits r' \<Rightarrow> Fits (N2 l p r')
         | Pending l1 p1 m1 q1 r1 x1 a1 \<Rightarrow>
             (case split_tree cmp l1 p1 m1 q1 r1 x1 a1 of (y, a, b) \<Rightarrow> Fits (N3 l p a y b))))"
| "ins cmp (N3 l p m q r) x =
     (if l = L \<and> m = L \<and> r = L then Pending l p m q r x L
      else if cmp (fst x) (fst p) = 0 then Exists
      else if cmp (fst x) (fst p) < 0 then
        (case ins cmp l x of Exists \<Rightarrow> Exists | Fits l' \<Rightarrow> Fits (N3 l' p m q r)
         | Pending l1 p1 m1 q1 r1 x1 a1 \<Rightarrow>
             (case split_tree cmp l1 p1 m1 q1 r1 x1 a1 of (y, a, b) \<Rightarrow> Pending b p m q r y a))
      else if cmp (fst x) (fst q) < 0 then
        (case ins cmp m x of Exists \<Rightarrow> Exists | Fits m' \<Rightarrow> Fits (N3 l p m' q r)
         | Pending l1 p1 m1 q1 r1 x1 a1 \<Rightarrow>
             (case split_tree cmp l1 p1 m1 q1 r1 x1 a1 of (y, a, b) \<Rightarrow> Pending l p b q r y a))
      else if cmp (fst x) (fst q) = 0 then Exists
      else
        (case ins cmp r x of Exists \<Rightarrow> Exists | Fits r' \<Rightarrow> Fits (N3 l p m q r')
         | Pending l1 p1 m1 q1 r1 x1 a1 \<Rightarrow>
             (case split_tree cmp l1 p1 m1 q1 r1 x1 a1 of (y, a, b) \<Rightarrow> Pending l p m q b y a)))"

text \<open>The node and the status that stand for an outcome.\<close>

fun rep_ins :: "('k \<times> 'v) t23 \<Rightarrow> ('k \<times> 'v) insres \<Rightarrow> (int \<times> ('k, 'v) qBTreeNode) exec" where
  "rep_ins t Exists = Done (-1, rep t)"
| "rep_ins t (Fits u) = Done (0, rep u)"
| "rep_ins t (Pending l p m q r x a) =
     Done (1, BNode (Some p) (Some q) (rep l) (rep m) (rep r) (Some x) (rep a))"

lemma split_up_rep:
  "qBTreeNode__split_up cmp (BNode (Some p) (Some q) (rep l) (rep m) (rep r) (Some x) (rep a)) =
   (case split_tree cmp l p m q r x a of (y, u, v) \<Rightarrow> Done (Some y, rep u, rep v))"
  by (simp add: qBTreeNode__split_up_def split_tree_def node1_def)

lemma recursive_insert_rep: "qBTree__recursive_insert cmp (\<lambda>n. True) (rep t) x = rep_ins t (ins cmp t x)"
proof (induction t)
  case (N2 l p r)
  show ?case
    by (auto simp: N2.IH split_up_rep split: insres.split prod.split)
next
  case (N3 l p m q r)
  show ?case
    by (auto simp: N3.IH split_up_rep split: insres.split prod.split)
qed (simp add: node1_def)

text \<open>Insertion keeps the tree balanced and loses no pair, wherever it puts them.\<close>

fun ins_ok :: "'p t23 \<Rightarrow> 'p \<Rightarrow> 'p insres \<Rightarrow> bool" where
  "ins_ok t x Exists = True"
| "ins_ok t x (Fits u) = (bal u \<and> ht u = max 1 (ht t) \<and> mset (inord u) = add_mset x (mset (inord t)))"
| "ins_ok t x (Pending l p m q r y a) = (bal (N3 l p m q r) \<and> bal a \<and> ht a = ht l \<and> Suc (ht l) = ht t
     \<and> add_mset y (mset (inord (N3 l p m q r)) + mset (inord a)) = add_mset x (mset (inord t)))"

lemma split_tree_ok:
  assumes "split_tree cmp l p m q r x a = (y, u, v)" and "bal (N3 l p m q r)" and "bal a" and "ht a = ht l"
  shows "bal u" "bal v" "ht u = Suc (ht l)" "ht v = Suc (ht l)"
    "add_mset y (mset (inord u) + mset (inord v)) = add_mset x (mset (inord (N3 l p m q r)) + mset (inord a))"
  using assms by (auto simp: split_tree_def ac_simps split: if_splits)

text \<open>\<open>graft f g\<close>: what the parent makes of its child's outcome.\<close>

definition graft ::
  "('k \<Rightarrow> 'k \<Rightarrow> int) \<Rightarrow> ('k \<times> 'v) insres \<Rightarrow> (('k \<times> 'v) t23 \<Rightarrow> ('k \<times> 'v) insres)
     \<Rightarrow> (('k \<times> 'v) t23 \<Rightarrow> 'k \<times> 'v \<Rightarrow> ('k \<times> 'v) t23 \<Rightarrow> ('k \<times> 'v) insres) \<Rightarrow> ('k \<times> 'v) insres" where
  "graft cmp res f g = (case res of Exists \<Rightarrow> Exists | Fits u \<Rightarrow> f u
     | Pending l p m q r x a \<Rightarrow> (case split_tree cmp l p m q r x a of (y, u, v) \<Rightarrow> g u y v))"

lemma ins_graft:
  "ins cmp (N2 l p r) x =
     (if l = L \<and> r = L then
        (if cmp (fst x) (fst p) = 0 then Exists
         else if cmp (fst x) (fst p) > 0 then Fits (N3 L p L x L) else Fits (N3 L x L p L))
      else if cmp (fst x) (fst p) = 0 then Exists
      else if cmp (fst x) (fst p) < 0
      then graft cmp (ins cmp l x) (\<lambda>u. Fits (N2 u p r)) (\<lambda>u y v. Fits (N3 v p u y r))
      else graft cmp (ins cmp r x) (\<lambda>u. Fits (N2 l p u)) (\<lambda>u y v. Fits (N3 l p u y v)))"
  "ins cmp (N3 l p m q r) x =
     (if l = L \<and> m = L \<and> r = L then Pending L p L q L x L
      else if cmp (fst x) (fst p) = 0 then Exists
      else if cmp (fst x) (fst p) < 0
      then graft cmp (ins cmp l x) (\<lambda>u. Fits (N3 u p m q r)) (\<lambda>u y v. Pending v p m q r y u)
      else if cmp (fst x) (fst q) < 0
      then graft cmp (ins cmp m x) (\<lambda>u. Fits (N3 l p u q r)) (\<lambda>u y v. Pending l p v q r y u)
      else if cmp (fst x) (fst q) = 0 then Exists
      else graft cmp (ins cmp r x) (\<lambda>u. Fits (N3 l p m q u)) (\<lambda>u y v. Pending l p m q v y u))"
  by (simp_all add: graft_def)

lemma graft_ok:
  assumes "ins_ok c x res" and "c \<noteq> L"
    and fits: "\<And>u. bal u \<Longrightarrow> ht u = ht c \<Longrightarrow> mset (inord u) = add_mset x (mset (inord c)) \<Longrightarrow> ins_ok t x (f u)"
    and split: "\<And>u y v. bal u \<Longrightarrow> bal v \<Longrightarrow> ht u = ht c \<Longrightarrow> ht v = ht c \<Longrightarrow>
      add_mset y (mset (inord u) + mset (inord v)) = add_mset x (mset (inord c)) \<Longrightarrow> ins_ok t x (g u y v)"
  shows "ins_ok t x (graft cmp res f g)"
proof (cases res)
  case (Fits u)
  have "max 1 (ht c) = ht c"
    using assms(2) by (cases c) auto
  then show ?thesis
    using assms(1) Fits by (auto simp: graft_def intro: fits)
next
  case (Pending l p m q r z a)
  obtain y u v where sp: "split_tree cmp l p m q r z a = (y, u, v)"
    by (cases "split_tree cmp l p m q r z a")
  show ?thesis
    using assms(1) split_tree_ok [OF sp] sp Pending by (auto simp: graft_def intro!: split)
qed (simp add: graft_def)

lemma mset_graft:
  "add_mset y (mset us + mset vs) = add_mset x (mset cs) \<Longrightarrow>
     add_mset y (A + (mset us + mset vs)) = add_mset x (A + mset cs)"
  by (metis union_mset_add_mset_right)

lemma ins_ok_ins: "bal t \<Longrightarrow> ins_ok t x (ins cmp t x)"
proof (induction t)
  case (N2 l p r)
  have IH: "ins_ok l x (ins cmp l x)" "ins_ok r x (ins cmp r x)" and b: "bal (N2 l p r)"
    using N2 by auto
  show ?case
    unfolding ins_graft using b
    by (auto intro!: graft_ok [OF IH(1)] graft_ok [OF IH(2)] simp: ac_simps mset_graft)
next
  case (N3 l p m q r)
  have IH: "ins_ok l x (ins cmp l x)" "ins_ok m x (ins cmp m x)" "ins_ok r x (ins cmp r x)"
    and b: "bal (N3 l p m q r)"
    using N3 by auto
  show ?case
    unfolding ins_graft using b
    by (auto intro!: graft_ok [OF IH(1)] graft_ok [OF IH(2)] graft_ok [OF IH(3)] simp: ac_simps mset_graft)
qed simp

section \<open>Order\<close>

definition key_le :: "('k \<Rightarrow> 'k \<Rightarrow> int) \<Rightarrow> 'k \<times> 'v \<Rightarrow> 'k \<times> 'v \<Rightarrow> bool" where
  "key_le cmp p q \<longleftrightarrow> cmp (fst p) (fst q) \<le> 0"

definition key_less :: "('k \<Rightarrow> 'k \<Rightarrow> int) \<Rightarrow> 'k \<times> 'v \<Rightarrow> 'k \<times> 'v \<Rightarrow> bool" where
  "key_less cmp p q \<longleftrightarrow> cmp (fst p) (fst q) < 0"

text \<open>The sorted insertion that an insertion into the tree is meant to be.\<close>

fun insl :: "('k \<Rightarrow> 'k \<Rightarrow> int) \<Rightarrow> 'k \<times> 'v \<Rightarrow> ('k \<times> 'v) list \<Rightarrow> ('k \<times> 'v) list" where
  "insl cmp x [] = [x]"
| "insl cmp x (y # ys) = (if cmp (fst x) (fst y) < 0 then x # y # ys else y # insl cmp x ys)"

text \<open>No left child of a node with a single pair splits on the way of \<open>x\<close>.\<close>

fun safe :: "('k \<Rightarrow> 'k \<Rightarrow> int) \<Rightarrow> ('k \<times> 'v) t23 \<Rightarrow> 'k \<times> 'v \<Rightarrow> bool" where
  "safe cmp L x = True"
| "safe cmp (N2 l p r) x =
     (if cmp (fst x) (fst p) < 0
      then safe cmp l x \<and> (case ins cmp l x of Pending l1 p1 m1 q1 r1 x1 a1 \<Rightarrow> False | _ \<Rightarrow> True)
      else safe cmp r x)"
| "safe cmp (N3 l p m q r) x =
     (if cmp (fst x) (fst p) < 0 then safe cmp l x
      else if cmp (fst x) (fst q) < 0 then safe cmp m x else safe cmp r x)"

definition pend_inord ::
  "('k \<Rightarrow> 'k \<Rightarrow> int) \<Rightarrow> ('k \<times> 'v) t23 \<Rightarrow> 'k \<times> 'v \<Rightarrow> ('k \<times> 'v) t23 \<Rightarrow> 'k \<times> 'v \<Rightarrow> ('k \<times> 'v) t23
     \<Rightarrow> 'k \<times> 'v \<Rightarrow> ('k \<times> 'v) t23 \<Rightarrow> ('k \<times> 'v) list" where
  "pend_inord cmp l p m q r x a = (case split_tree cmp l p m q r x a of (y, u, v) \<Rightarrow> inord u @ y # inord v)"

fun res_inord :: "('k \<Rightarrow> 'k \<Rightarrow> int) \<Rightarrow> ('k \<times> 'v) insres \<Rightarrow> ('k \<times> 'v) list option" where
  "res_inord cmp Exists = None"
| "res_inord cmp (Fits u) = Some (inord u)"
| "res_inord cmp (Pending l p m q r x a) = Some (pend_inord cmp l p m q r x a)"

lemma set_insl [simp]: "set (insl cmp x xs) = insert x (set xs)"
  by (induction xs) auto

lemma insl_left: "cmp (fst x) (fst p) < 0 \<Longrightarrow> insl cmp x (xs @ p # ys) = insl cmp x xs @ p # ys"
  by (induction xs) auto

lemma insl_right: "\<forall>q \<in> set xs. \<not> cmp (fst x) (fst q) < 0 \<Longrightarrow> insl cmp x (xs @ ys) = xs @ insl cmp x ys"
  by (induction xs) auto

context comparator
begin

lemma insl_right_of:
  assumes "0 < comp (fst x) (fst p)" and "\<forall>q \<in> set xs. key_less comp q p"
  shows "insl comp x (xs @ p # ys) = xs @ p # insl comp x ys"
proof -
  have "\<not> comp (fst x) (fst q) < 0" if "q \<in> set (xs @ [p])" for q
  proof
    assume "comp (fst x) (fst q) < 0"
    moreover have "comp (fst q) (fst p) \<le> 0"
      using that assms(2) comp_refl by (auto simp: key_less_def)
    ultimately show False
      using assms(1) comp_less_le_trans by fastforce
  qed
  then show ?thesis
    using insl_right [of "xs @ [p]" comp x ys] by simp
qed

lemma key_less_not: "key_less comp a b \<Longrightarrow> \<not> comp (fst b) (fst a) < 0"
  using comp_swap [of "fst a" "fst b"] by (simp add: key_less_def)

text \<open>The pending pair of a left, middle or right child finds its place again when the node splits.\<close>

lemma pend_place:
  assumes "inord u @ y # inord v = zs" and "key_less comp p q"
  shows "\<forall>z \<in> set zs. key_less comp z p \<Longrightarrow>
      pend_inord comp v p m q r y u = zs @ p # inord m @ q # inord r"
    and "\<forall>z \<in> set zs. key_less comp p z \<and> key_less comp z q \<Longrightarrow>
      pend_inord comp l p v q r y u = inord l @ p # zs @ q # inord r"
    and "\<forall>z \<in> set zs. key_less comp q z \<Longrightarrow>
      pend_inord comp l p m q v y u = inord l @ p # inord m @ q # zs"
proof -
  have y: "y \<in> set zs"
    using assms(1) by auto
  show "\<forall>z \<in> set zs. key_less comp z p \<Longrightarrow>
      pend_inord comp v p m q r y u = zs @ p # inord m @ q # inord r"
    using y by (auto simp: pend_inord_def split_tree_def key_less_def simp flip: assms(1))
  show "\<forall>z \<in> set zs. key_less comp p z \<and> key_less comp z q \<Longrightarrow>
      pend_inord comp l p v q r y u = inord l @ p # zs @ q # inord r"
    using y key_less_not [of p y] by (auto simp: pend_inord_def split_tree_def key_less_def simp flip: assms(1))
  assume q: "\<forall>z \<in> set zs. key_less comp q z"
  then have "key_less comp p y"
    using y assms(2) comp_less_trans by (auto simp: key_less_def)
  then show "pend_inord comp l p m q v y u = inord l @ p # inord m @ q # zs"
    using y q key_less_not [of q y] key_less_not [of p y] by (auto simp: pend_inord_def split_tree_def simp flip: assms(1))
qed

lemma graft_inord:
  assumes "res_inord comp res = Some zs"
    and "\<And>u. inord u = zs \<Longrightarrow> res_inord comp (f u) = Some ws"
    and "\<And>u y v. inord u @ y # inord v = zs \<Longrightarrow> res_inord comp (g u y v) = Some ws"
  shows "res_inord comp (graft comp res f g) = Some ws"
  using assms by (cases res) (auto simp: graft_def pend_inord_def split: prod.splits)

lemma res_inord_None: "res_inord comp res = None \<longleftrightarrow> res = Exists"
  by (cases res) auto

lemma ins_inord:
  assumes "sorted_wrt (key_less comp) (inord t)" and "safe comp t x"
    and "\<forall>p \<in> set (inord t). comp (fst x) (fst p) \<noteq> 0"
  shows "res_inord comp (ins comp t x) = Some (insl comp x (inord t))"
  using assms
proof (induction t)
  case (N2 l p r)
  have l: "sorted_wrt (key_less comp) (inord l)" "\<forall>q \<in> set (inord l). key_less comp q p"
      "\<forall>q \<in> set (inord l). comp (fst x) (fst q) \<noteq> 0"
    and r: "sorted_wrt (key_less comp) (inord r)" "\<forall>q \<in> set (inord r). comp (fst x) (fst q) \<noteq> 0"
    and p: "comp (fst x) (fst p) \<noteq> 0"
    using N2.prems by (auto simp: sorted_wrt_append)
  show ?case
  proof (cases "comp (fst x) (fst p) < 0")
    case True
    then have "res_inord comp (ins comp l x) = Some (insl comp x (inord l))"
      using N2.IH(1) l N2.prems(2) by simp
    moreover have "\<not> (\<exists>l1 p1 m1 q1 r1 x1 a1. ins comp l x = Pending l1 p1 m1 q1 r1 x1 a1)"
      using True N2.prems(2) by auto
    ultimately obtain u where "ins comp l x = Fits u" "inord u = insl comp x (inord l)"
      by (cases "ins comp l x") auto
    then show ?thesis
      unfolding ins_graft using True p by (auto simp: insl_left graft_def)
  next
    case False
    then have "res_inord comp (ins comp r x) = Some (insl comp x (inord r))"
      using N2.IH(2) r N2.prems(2) by simp
    then show ?thesis
      unfolding ins_graft using False p insl_right_of [of x p "inord l" "inord r"] l(2)
      by (auto intro!: graft_inord)
  qed
next
  case (N3 l p m q r)
  have l: "sorted_wrt (key_less comp) (inord l)" "\<forall>z \<in> set (inord l). key_less comp z p"
      "\<forall>z \<in> set (inord l). comp (fst x) (fst z) \<noteq> 0"
    and m: "sorted_wrt (key_less comp) (inord m)" "\<forall>z \<in> set (inord m). key_less comp p z \<and> key_less comp z q"
      "\<forall>z \<in> set (inord m). comp (fst x) (fst z) \<noteq> 0"
    and r: "sorted_wrt (key_less comp) (inord r)" "\<forall>z \<in> set (inord r). key_less comp q z"
      "\<forall>z \<in> set (inord r). comp (fst x) (fst z) \<noteq> 0"
    and pq: "key_less comp p q" "comp (fst x) (fst p) \<noteq> 0" "comp (fst x) (fst q) \<noteq> 0"
    and lq: "\<forall>z \<in> set (inord l @ p # inord m). key_less comp z q"
    using N3.prems by (auto simp: sorted_wrt_append)
  show ?case
  proof (cases "l = L \<and> m = L \<and> r = L")
    case True
    then show ?thesis
      using pq by (auto simp: pend_inord_def split_tree_def key_less_def intro: comp_less_trans)
  next
    case inner: False
    consider "comp (fst x) (fst p) < 0" | "0 < comp (fst x) (fst p)" "comp (fst x) (fst q) < 0"
      | "0 < comp (fst x) (fst p)" "0 < comp (fst x) (fst q)"
      using pq by linarith
    then show ?thesis
    proof cases
      case 1
      then have "res_inord comp (ins comp l x) = Some (insl comp x (inord l))"
        using N3.IH(1) l N3.prems(2) by simp
      moreover have "\<forall>z \<in> set (insl comp x (inord l)). key_less comp z p"
        using l(2) 1 by (simp add: key_less_def)
      ultimately show ?thesis
        unfolding ins_graft using 1 inner insl_left [of comp x p "inord l"]
        by (auto intro!: graft_inord simp: pend_place(1) [OF _ pq(1)])
    next
      case 2
      then have "res_inord comp (ins comp m x) = Some (insl comp x (inord m))"
        using N3.IH(2) m N3.prems(2) by simp
      moreover have "\<forall>z \<in> set (insl comp x (inord m)). key_less comp p z \<and> key_less comp z q"
        using m(2) 2 comp_swap [of "fst p" "fst x"] by (simp add: key_less_def)
      ultimately show ?thesis
        unfolding ins_graft using 2 inner insl_left [of comp x q "inord m"] insl_right_of [OF 2(1) l(2)]
        by (auto intro!: graft_inord simp: pend_place(2) [OF _ pq(1)])
    next
      case 3
      then have "res_inord comp (ins comp r x) = Some (insl comp x (inord r))"
        using N3.IH(3) r N3.prems(2) by simp
      moreover have "\<forall>z \<in> set (insl comp x (inord r)). key_less comp q z"
        using r(2) 3 comp_swap [of "fst q" "fst x"] by (simp add: key_less_def)
      ultimately show ?thesis
        unfolding ins_graft using 3 inner insl_right_of [OF 3(2) lq]
        by (auto intro!: graft_inord simp: pend_place(3) [OF _ pq(1)])
    qed
  qed
qed simp

end

end
