(* ===== verification/BTreeIter.thy ===== *)
theory BTreeIter
  imports BTreeSpec
begin

text \<open>
  Search and iteration. An iterator is a position in the tree: \<open>zipper\<close> relates its track to the pairs
  before and after the subtree it has reached, \<open>iter_at\<close> to the pairs before and after its own.
\<close>

section \<open>Positions\<close>

inductive zipper ::
  "('k \<times> 'v) t23 \<Rightarrow> (('k, 'v) qBTreeNode \<times> nat) list \<Rightarrow> ('k \<times> 'v) t23 \<Rightarrow> ('k \<times> 'v) list
     \<Rightarrow> ('k \<times> 'v) list \<Rightarrow> bool" for t :: "('k \<times> 'v) t23" where
  zip_root: "zipper t [] t [] []"
| zip_20: "zipper t tr (N2 l p r) xs ys \<Longrightarrow>
     zipper t (tr @ [(rep (N2 l p r), 0)]) l xs (p # inord r @ ys)"
| zip_21: "zipper t tr (N2 l p r) xs ys \<Longrightarrow>
     zipper t (tr @ [(rep (N2 l p r), 1)]) r (xs @ inord l @ [p]) ys"
| zip_30: "zipper t tr (N3 l p m q r) xs ys \<Longrightarrow>
     zipper t (tr @ [(rep (N3 l p m q r), 0)]) l xs (p # inord m @ q # inord r @ ys)"
| zip_31: "zipper t tr (N3 l p m q r) xs ys \<Longrightarrow>
     zipper t (tr @ [(rep (N3 l p m q r), 1)]) m (xs @ inord l @ [p]) (q # inord r @ ys)"
| zip_32: "zipper t tr (N3 l p m q r) xs ys \<Longrightarrow>
     zipper t (tr @ [(rep (N3 l p m q r), 2)]) r (xs @ inord l @ p # inord m @ [q]) ys"

lemma zipper_inord: "zipper t tr u xs ys \<Longrightarrow> inord t = xs @ inord u @ ys"
  by (induction rule: zipper.induct) auto

lemma zipper_depth: "zipper t tr u xs ys \<Longrightarrow> length tr + ht u \<le> ht t"
  by (induction rule: zipper.induct) auto

inductive iter_at ::
  "('k \<times> 'v) t23 \<Rightarrow> ('k, 'v) qBTreeIterator \<Rightarrow> ('k \<times> 'v) list \<Rightarrow> 'k \<times> 'v \<Rightarrow> ('k \<times> 'v) list \<Rightarrow> bool"
  for t :: "('k \<times> 'v) t23" where
  at_2: "zipper t tr (N2 l p r) xs ys \<Longrightarrow>
     iter_at t \<lparr>it_node = rep (N2 l p r), it_which = 0, it_track = tr\<rparr> (xs @ inord l) p (inord r @ ys)"
| at_30: "zipper t tr (N3 l p m q r) xs ys \<Longrightarrow>
     iter_at t \<lparr>it_node = rep (N3 l p m q r), it_which = 0, it_track = tr\<rparr>
       (xs @ inord l) p (inord m @ q # inord r @ ys)"
| at_31: "zipper t tr (N3 l p m q r) xs ys \<Longrightarrow>
     iter_at t \<lparr>it_node = rep (N3 l p m q r), it_which = 1, it_track = tr\<rparr>
       (xs @ inord l @ p # inord m) q (inord r @ ys)"

lemma iter_at_inord: "iter_at t it xs p ys \<Longrightarrow> inord t = xs @ p # ys"
  by (induction rule: iter_at.induct) (auto dest: zipper_inord)

lemma iter_at_deref: "iter_at t it xs p ys \<Longrightarrow> qBTreeIterator_deref it = Done (Some p)"
  by (induction rule: iter_at.induct) (auto simp: qBTreeIterator_deref_def kv_at_def)

lemma iter_at_valid: "iter_at t it xs p ys \<Longrightarrow> qBTreeIterator_isvalid it"
  by (induction rule: iter_at.induct) (auto simp: qBTreeIterator_isvalid_def)

lemma zero_iter_invalid [simp]: "\<not> qBTreeIterator_isvalid zero_iter"
  by (simp add: qBTreeIterator_isvalid_def zero_iter_def)

section \<open>Moving\<close>

lemma push_ok:
  assumes "zipper t (it_track it) u xs ys" and "u \<noteq> L" and "ht t \<le> 100"
  shows "track_push n i it = Done (it\<lparr>it_track := it_track it @ [(n, i)]\<rparr>)"
proof -
  have "0 < ht u" using assms(2) by (cases u) auto
  then show ?thesis
    using zipper_depth [OF assms(1)] assms(3) by (simp add: track_push_def)
qed

lemma go_leftmost_at:
  assumes "zipper t (it_track it) u xs ys" and "u \<noteq> L" and "ht t \<le> 100" and "it_which it = 0"
  shows "\<exists>it' p zs. go_leftmost (rep u) it = Done it' \<and> inord u = p # zs \<and> iter_at t it' xs p (zs @ ys)"
  using assms
proof (induction u arbitrary: it ys)
  case (N2 l p r)
  note push = push_ok [OF N2.prems(1-3)]
  show ?case
  proof (cases "l = L")
    case True
    then show ?thesis
      using at_2 [of t "it_track it" l p r xs ys] N2.prems(1,4) by (cases it) auto
  next
    case False
    let ?it = "it\<lparr>it_track := it_track it @ [(rep (N2 l p r), 0)]\<rparr>"
    have "zipper t (it_track (?it\<lparr>it_which := 0\<rparr>)) l xs (p # inord r @ ys)"
      using zip_20 [OF N2.prems(1)] by simp
    from N2.IH(1) [OF this False N2.prems(3)] obtain it' q zs where
      "go_leftmost (rep l) (?it\<lparr>it_which := 0\<rparr>) = Done it'" "inord l = q # zs"
      "iter_at t it' xs q (zs @ p # inord r @ ys)" by auto
    then show ?thesis
      using False push by simp
  qed
next
  case (N3 l p m q r)
  note push = push_ok [OF N3.prems(1-3)]
  show ?case
  proof (cases "l = L")
    case True
    then show ?thesis
      using at_30 [of t "it_track it" l p m q r xs ys] N3.prems(1,4) by (cases it) auto
  next
    case False
    let ?it = "it\<lparr>it_track := it_track it @ [(rep (N3 l p m q r), 0)]\<rparr>"
    have "zipper t (it_track (?it\<lparr>it_which := 0\<rparr>)) l xs (p # inord m @ q # inord r @ ys)"
      using zip_30 [OF N3.prems(1)] by simp
    from N3.IH(1) [OF this False N3.prems(3)] obtain it' z zs where
      "go_leftmost (rep l) (?it\<lparr>it_which := 0\<rparr>) = Done it'" "inord l = z # zs"
      "iter_at t it' xs z (zs @ p # inord m @ q # inord r @ ys)" by auto
    then show ?thesis
      using False push by simp
  qed
qed simp

lemma go_rightmost_at:
  assumes "zipper t (it_track it) u xs ys" and "u \<noteq> L" and "ht t \<le> 100"
  shows "\<exists>it' p zs. go_rightmost (rep u) it = Done it' \<and> inord u = zs @ [p] \<and> iter_at t it' (xs @ zs) p ys"
  using assms
proof (induction u arbitrary: it xs)
  case (N2 l p r)
  note push = push_ok [OF N2.prems(1-3)]
  show ?case
  proof (cases "r = L")
    case True
    then show ?thesis
      using at_2 [of t "it_track it" l p r xs ys] N2.prems(1) by (cases it) auto
  next
    case False
    let ?it = "it\<lparr>it_track := it_track it @ [(rep (N2 l p r), 1)]\<rparr>"
    have "zipper t (it_track ?it) r (xs @ inord l @ [p]) ys"
      using zip_21 [OF N2.prems(1)] by simp
    from N2.IH(2) [OF this False N2.prems(3)] obtain it' q zs where
      "go_rightmost (rep r) ?it = Done it'" "inord r = zs @ [q]"
      "iter_at t it' ((xs @ inord l @ [p]) @ zs) q ys" by auto
    then show ?thesis
      using False push by simp
  qed
next
  case (N3 l p m q r)
  note push = push_ok [OF N3.prems(1-3)]
  show ?case
  proof (cases "r = L")
    case True
    then show ?thesis
      using at_31 [of t "it_track it" l p m q r xs ys] N3.prems(1) by (cases it) auto
  next
    case False
    let ?it = "it\<lparr>it_track := it_track it @ [(rep (N3 l p m q r), 2)]\<rparr>"
    have "zipper t (it_track ?it) r (xs @ inord l @ p # inord m @ [q]) ys"
      using zip_32 [OF N3.prems(1)] by simp
    from N3.IH(3) [OF this False N3.prems(3)] obtain it' z zs where
      "go_rightmost (rep r) ?it = Done it'" "inord r = zs @ [z]"
      "iter_at t it' ((xs @ inord l @ p # inord m @ [q]) @ zs) z ys" by auto
    then show ?thesis
      using False push by simp
  qed
qed simp

lemma climb_next_at:
  "zipper t tr u xs ys \<Longrightarrow> (case ys of [] \<Rightarrow> climb_next (rev tr) = zero_iter
     | p # zs \<Rightarrow> iter_at t (climb_next (rev tr)) (xs @ inord u) p zs)"
proof (induction rule: zipper.induct)
  case (zip_20 tr l p r xs ys)
  then show ?case using at_2 [OF zip_20.hyps] by (simp add: kv_at_def)
next
  case (zip_30 tr l p m q r xs ys)
  then show ?case using at_30 [OF zip_30.hyps] by (simp add: kv_at_def)
next
  case (zip_31 tr l p m q r xs ys)
  then show ?case using at_31 [OF zip_31.hyps] by (simp add: kv_at_def)
qed (auto simp: kv_at_def split: list.splits)

lemma climb_prev_at:
  "zipper t tr u xs ys \<Longrightarrow> (case rev xs of [] \<Rightarrow> climb_prev (rev tr) = zero_iter
     | p # zs \<Rightarrow> iter_at t (climb_prev (rev tr)) (rev zs) p (inord u @ ys))"
proof (induction rule: zipper.induct)
  case (zip_21 tr l p r xs ys)
  then show ?case using at_2 [OF zip_21.hyps] by simp
next
  case (zip_31 tr l p m q r xs ys)
  then show ?case using at_30 [OF zip_31.hyps] by simp
next
  case (zip_32 tr l p m q r xs ys)
  then show ?case using at_31 [OF zip_32.hyps] by simp
qed (auto split: list.splits)

lemma descend_left:
  assumes "zipper t tr u xs ys" and "zipper t (tr @ [(rep u, i)]) c xs' ys'" and "u \<noteq> L" and "c \<noteq> L"
    and "ht t \<le> 100"
  shows "\<exists>it' p zs. bind_exec (track_push (rep u) i \<lparr>it_node = n, it_which = w, it_track = tr\<rparr>)
      (\<lambda>it. go_leftmost (rep c) (it\<lparr>it_which := 0\<rparr>)) = Done it'
    \<and> inord c = p # zs \<and> iter_at t it' xs' p (zs @ ys')"
  using push_ok [of t "\<lparr>it_node = n, it_which = w, it_track = tr\<rparr>" u xs ys "rep u" i]
    go_leftmost_at [of t "\<lparr>it_node = n, it_which = 0, it_track = tr @ [(rep u, i)]\<rparr>" c xs' ys'] assms
  by auto

lemma descend_right:
  assumes "zipper t tr u xs ys" and "zipper t (tr @ [(rep u, i)]) c xs' ys'" and "u \<noteq> L" and "c \<noteq> L"
    and "ht t \<le> 100"
  shows "\<exists>it' p zs. bind_exec (track_push (rep u) i \<lparr>it_node = n, it_which = w, it_track = tr\<rparr>)
      (go_rightmost (rep c)) = Done it' \<and> inord c = zs @ [p] \<and> iter_at t it' (xs' @ zs) p ys'"
  using push_ok [of t "\<lparr>it_node = n, it_which = w, it_track = tr\<rparr>" u xs ys "rep u" i]
    go_rightmost_at [of t "\<lparr>it_node = n, it_which = w, it_track = tr @ [(rep u, i)]\<rparr>" c xs' ys'] assms
  by auto

lemma next_at:
  assumes "iter_at t it xs p ys" and "ht t \<le> 100"
  shows "case ys of [] \<Rightarrow> qBTreeIterator_next it = Done zero_iter
    | q # zs \<Rightarrow> \<exists>it'. qBTreeIterator_next it = Done it' \<and> iter_at t it' (xs @ [p]) q zs"
  using assms
proof (induction rule: iter_at.induct)
  case (at_2 tr l p r xs ys)
  then show ?case
    using climb_next_at [OF at_2(1)] descend_left [OF at_2(1) zip_21 [OF at_2(1)] _ _ at_2(2),
        where n = "rep (N2 l p r)" and w = 0]
    by (cases "r = L") (auto simp: qBTreeIterator_next_def childs_at_def split: list.splits)
next
  case (at_30 tr l p m q r xs ys)
  then show ?case
    using iter_at.at_31 [OF at_30(1)] descend_left [OF at_30(1) zip_31 [OF at_30(1)] _ _ at_30(2),
        where n = "rep (N3 l p m q r)" and w = 0]
    by (cases "m = L") (auto simp: qBTreeIterator_next_def childs_at_def)
next
  case (at_31 tr l p m q r xs ys)
  then show ?case
    using climb_next_at [OF at_31(1)] descend_left [OF at_31(1) zip_32 [OF at_31(1)] _ _ at_31(2),
        where n = "rep (N3 l p m q r)" and w = 1]
    by (cases "r = L")
      (auto simp: qBTreeIterator_next_def childs_at_def numeral_2_eq_2 split: list.splits)
qed

lemma prev_at:
  assumes "iter_at t it xs p ys" and "ht t \<le> 100"
  shows "case rev xs of [] \<Rightarrow> qBTreeIterator_prev it = Done zero_iter
    | q # zs \<Rightarrow> \<exists>it'. qBTreeIterator_prev it = Done it' \<and> iter_at t it' (rev zs) q (p # ys)"
  using assms
proof (induction rule: iter_at.induct)
  case (at_2 tr l p r xs ys)
  then show ?case
    using climb_prev_at [OF at_2(1)] descend_right [OF at_2(1) zip_20 [OF at_2(1)] _ _ at_2(2),
        where n = "rep (N2 l p r)" and w = 0]
    by (cases "l = L") (auto simp: qBTreeIterator_prev_def childs_at_def split: list.splits)
next
  case (at_30 tr l p m q r xs ys)
  then show ?case
    using climb_prev_at [OF at_30(1)] descend_right [OF at_30(1) zip_30 [OF at_30(1)] _ _ at_30(2),
        where n = "rep (N3 l p m q r)" and w = 0]
    by (cases "l = L") (auto simp: qBTreeIterator_prev_def childs_at_def split: list.splits)
next
  case (at_31 tr l p m q r xs ys)
  then show ?case
    using iter_at.at_30 [OF at_31(1)] descend_right [OF at_31(1) zip_31 [OF at_31(1)] _ _ at_31(2),
        where n = "rep (N3 l p m q r)" and w = 1]
    by (cases "m = L") (auto simp: qBTreeIterator_prev_def childs_at_def)
qed

section \<open>The whole tree in order\<close>

text \<open>
  \<^verbatim>\<open>for(it = first; isvalid(it); it = step(it)) .. deref(it) ..\<close>, collecting the pairs; \<open>n\<close> bounds the
  number of turns and the result is \<open>Fault\<close> when they do not suffice.
\<close>

fun collect ::
  "(('k, 'v) qBTreeIterator \<Rightarrow> ('k, 'v) qBTreeIterator exec) \<Rightarrow> nat \<Rightarrow> ('k, 'v) qBTreeIterator
     \<Rightarrow> ('k, 'v) qPair list exec" where
  "collect step n it =
     (if \<not> qBTreeIterator_isvalid it then Done []
      else (case n of 0 \<Rightarrow> Fault
        | Suc n \<Rightarrow> bind_exec (qBTreeIterator_deref it) (\<lambda>p. bind_exec (step it) (\<lambda>it'.
            bind_exec (collect step n it') (\<lambda>ps. Done (p # ps))))))"

declare collect.simps [simp del]

lemma collect_invalid [simp]: "collect step n zero_iter = Done []"
  by (subst collect.simps) simp

lemma collect_next:
  assumes "iter_at t it xs p ys" and "ht t \<le> 100"
  shows "collect qBTreeIterator_next (Suc (length ys)) it = Done (map Some (p # ys))"
  using assms(1)
proof (induction ys arbitrary: it xs p rule: list.induct)
  case Nil
  then show ?case
    using next_at [OF Nil assms(2)] iter_at_valid [OF Nil] iter_at_deref [OF Nil]
    by (subst collect.simps) simp
next
  case (Cons q zs)
  from next_at [OF Cons.prems assms(2)] obtain it' where
    nx: "qBTreeIterator_next it = Done it'" and at: "iter_at t it' (xs @ [p]) q zs" by auto
  show ?case
    using nx Cons.IH [OF at] iter_at_valid [OF Cons.prems] iter_at_deref [OF Cons.prems]
    by (subst collect.simps) simp
qed

lemma collect_prev:
  assumes "iter_at t it (rev xs) p ys" and "ht t \<le> 100"
  shows "collect qBTreeIterator_prev (Suc (length xs)) it = Done (map Some (p # xs))"
  using assms(1)
proof (induction xs arbitrary: it ys p rule: list.induct)
  case Nil
  then show ?case
    using prev_at [OF Nil assms(2)] iter_at_valid [OF Nil] iter_at_deref [OF Nil]
    by (subst collect.simps) simp
next
  case (Cons q zs)
  from prev_at [OF Cons.prems assms(2)] obtain it' where
    nx: "qBTreeIterator_prev it = Done it'" and at: "iter_at t it' (rev zs) q (p # ys)" by auto
  show ?case
    using nx Cons.IH [OF at] iter_at_valid [OF Cons.prems] iter_at_deref [OF Cons.prems]
    by (subst collect.simps) simp
qed

lemma begin_end_at:
  assumes "bt_root desc = rep t" and "t \<noteq> L" and "ht t \<le> 100"
  shows "\<exists>it p zs. qBTree_begin desc = Done it \<and> inord t = p # zs \<and> iter_at t it [] p zs"
    and "\<exists>it p zs. qBTree_end desc = Done it \<and> inord t = zs @ [p] \<and> iter_at t it zs p []"
  using go_leftmost_at [of t zero_iter t "[]" "[]"] go_rightmost_at [of t zero_iter t "[]" "[]"]
    zip_root [of t] assms
  by (auto simp: qBTree_begin_def qBTree_end_def zero_iter_def)

section \<open>Search\<close>

text \<open>What a search in the subtree \<open>u\<close> of \<open>t\<close> finds.\<close>

definition finds ::
  "('k \<Rightarrow> 'k \<Rightarrow> int) \<Rightarrow> ('k \<times> 'v) t23 \<Rightarrow> ('k \<times> 'v) t23 \<Rightarrow> 'k \<Rightarrow> (int \<times> ('k, 'v) qBTreeIterator) exec \<Rightarrow> bool" where
  "finds cmp t u k res \<longleftrightarrow>
     (\<exists>it xs p ys. res = Done (0, it) \<and> iter_at t it xs p ys \<and> p \<in> set (inord u) \<and> cmp k (fst p) = 0)
     \<or> (res = Done (-1, zero_iter) \<and> (\<forall>p \<in> set (inord u). cmp k (fst p) \<noteq> 0))"

context comparator
begin

lemma search_skip:
  "comp k (fst p) < 0 \<Longrightarrow> key_less comp p q \<Longrightarrow> comp k (fst q) \<noteq> 0"
  "0 < comp k (fst p) \<Longrightarrow> key_less comp q p \<Longrightarrow> comp k (fst q) \<noteq> 0"
proof -
  show "comp k (fst p) < 0 \<Longrightarrow> key_less comp p q \<Longrightarrow> comp k (fst q) \<noteq> 0"
    using comp_less_trans [of k "fst p" "fst q"] by (simp add: key_less_def)
  show "0 < comp k (fst p) \<Longrightarrow> key_less comp q p \<Longrightarrow> comp k (fst q) \<noteq> 0"
    using comp_le_less_trans [of k "fst q" "fst p"] by (auto simp: key_less_def)
qed

lemma search_skip_all:
  "comp k (fst p) < 0 \<Longrightarrow> \<forall>q \<in> A. key_less comp p q \<Longrightarrow> \<forall>q \<in> A. comp k (fst q) \<noteq> 0"
  "0 < comp k (fst p) \<Longrightarrow> \<forall>q \<in> A. key_less comp q p \<Longrightarrow> \<forall>q \<in> A. comp k (fst q) \<noteq> 0"
  using search_skip by blast+

lemma finds_here:
  "iter_at t it xs p ys \<Longrightarrow> p \<in> set (inord u) \<Longrightarrow> comp k (fst p) = 0 \<Longrightarrow> finds comp t u k (Done (0, it))"
  unfolding finds_def by blast

lemma finds_child:
  "finds comp t c k res \<Longrightarrow> set (inord c) \<subseteq> set (inord u) \<Longrightarrow>
   \<forall>p \<in> set (inord u) - set (inord c). comp k (fst p) \<noteq> 0 \<Longrightarrow> finds comp t u k res"
  by (fastforce simp: finds_def)

lemma search_finds:
  assumes "zipper t (it_track it) u xs ys" and "sorted_wrt (key_less comp) (inord u)" and "ht t \<le> 100"
  shows "finds comp t u k (qBTree__recursive_search comp (rep u) it k)"
  using assms
proof (induction u arbitrary: it xs ys)
  case L
  then show ?case by (simp add: finds_def)
next
  case (N2 l p r)
  note push = push_ok [OF N2.prems(1) _ N2.prems(3)]
  let ?it = "\<lambda>i. it\<lparr>it_track := it_track it @ [(rep (N2 l p r), i)]\<rparr>"
  have srt: "sorted_wrt (key_less comp) (inord l)" "sorted_wrt (key_less comp) (inord r)"
      "\<forall>q \<in> set (inord l). key_less comp q p" "\<forall>q \<in> set (inord r). key_less comp p q"
      "\<forall>z \<in> set (inord l). \<forall>w \<in> set (inord r). key_less comp z w"
    using N2.prems(2) by (auto simp: sorted_wrt_append)
  have l: "finds comp t l k (qBTree__recursive_search comp (rep l) (?it 0) k)"
    using N2.IH(1) [of "?it 0"] zip_20 [OF N2.prems(1)] srt(1) N2.prems(3) by simp
  have r: "finds comp t r k (qBTree__recursive_search comp (rep r) (?it 1) k)"
    using N2.IH(2) [of "?it 1"] zip_21 [OF N2.prems(1)] srt(2) N2.prems(3) by simp
  consider "comp k (fst p) = 0" | "comp k (fst p) < 0" | "0 < comp k (fst p)" by linarith
  then show ?case
  proof cases
    case 1
    then show ?thesis
      using at_2 [OF N2.prems(1)] by (cases it) (auto intro: finds_here)
  next
    case 2
    then show ?thesis
      using push l search_skip_all(1) [OF 2 srt(4)] by (auto simp: ball_Un elim!: finds_child; force)
  next
    case 3
    then have "r = L \<Longrightarrow> finds comp t (N2 l p r) k (Done (-1, zero_iter))"
      using search_skip_all(2) [OF 3 srt(3)] by (auto simp: finds_def)
    then show ?thesis
      using 3 push r search_skip_all(2) [OF 3 srt(3)] by (auto simp: ball_Un elim!: finds_child; force)
  qed
next
  case (N3 l p m q r)
  note push = push_ok [OF N3.prems(1) _ N3.prems(3)]
  let ?it = "\<lambda>i. it\<lparr>it_track := it_track it @ [(rep (N3 l p m q r), i)]\<rparr>"
  have srt: "sorted_wrt (key_less comp) (inord l)" "sorted_wrt (key_less comp) (inord m)"
      "sorted_wrt (key_less comp) (inord r)"
    and lp: "\<forall>z \<in> set (inord l). key_less comp z p" and pz: "\<forall>z \<in> set (inord m @ q # inord r). key_less comp p z"
    and zq: "\<forall>z \<in> set (inord l @ p # inord m). key_less comp z q" and qr: "\<forall>z \<in> set (inord r). key_less comp q z"
    using N3.prems(2) by (auto simp: sorted_wrt_append)
  have l: "finds comp t l k (qBTree__recursive_search comp (rep l) (?it 0) k)"
    using N3.IH(1) [of "?it 0"] zip_30 [OF N3.prems(1)] srt(1) N3.prems(3) by simp
  have m: "finds comp t m k (qBTree__recursive_search comp (rep m) (?it 1) k)"
    using N3.IH(2) [of "?it 1"] zip_31 [OF N3.prems(1)] srt(2) N3.prems(3) by simp
  have r: "finds comp t r k (qBTree__recursive_search comp (rep r) (?it 2) k)"
    using N3.IH(3) [of "?it 2"] zip_32 [OF N3.prems(1)] srt(3) N3.prems(3) by simp
  consider "comp k (fst p) = 0" | "comp k (fst p) < 0" | "0 < comp k (fst p)" "comp k (fst q) = 0"
    | "0 < comp k (fst p)" "comp k (fst q) < 0" | "0 < comp k (fst p)" "0 < comp k (fst q)" by linarith
  then show ?case
  proof cases
    case 1
    then show ?thesis
      using at_30 [OF N3.prems(1)] by (cases it) (auto intro: finds_here)
  next
    case 2
    then show ?thesis
      using push l search_skip_all(1) [OF 2 pz] by (auto simp: ball_Un elim!: finds_child; force)
  next
    case 3
    then show ?thesis
      using at_31 [OF N3.prems(1)] by (cases it) (auto intro: finds_here)
  next
    case 4
    then show ?thesis
      using push m search_skip_all(2) [OF 4(1) lp] search_skip_all(1) [OF 4(2) qr] by (auto simp: ball_Un elim!: finds_child; force)
  next
    case 5
    then show ?thesis
      using push r search_skip_all(2) [OF 5(2) zq] by (auto simp: ball_Un elim!: finds_child; force)
  qed
qed

end

end
