(* ===== verification/BTreeErase.thy ===== *)
theory BTreeErase
  imports BTreeIter
begin

text \<open>
  Removal. A node that has lost its last pair keeps one subtree (\<open>hole\<close>) until its parent rotates or
  merges; \<open>shrinks n zs r\<close> says that a removal from a tree of height \<open>n\<close> left the pairs \<open>zs\<close>, in a tree
  of the same height or in a hole.
\<close>

section \<open>Repairing a node\<close>

definition hole :: "('k \<times> 'v) t23 \<Rightarrow> ('k, 'v) qBTreeNode" where
  "hole h = BNode None None (rep h) BNull BNull None BNull"

definition shrinks :: "nat \<Rightarrow> ('k \<times> 'v) list \<Rightarrow> (int \<times> ('k, 'v) qBTreeNode) exec \<Rightarrow> bool" where
  "shrinks n zs r \<longleftrightarrow> (\<exists>u. bal u \<and> inord u = zs
     \<and> (r = Done (0, rep u) \<and> ht u = n \<or> r = Done (1, hole u) \<and> Suc (ht u) = n))"

lemma shrinks_keep: "r = Done (0, rep u) \<Longrightarrow> bal u \<Longrightarrow> ht u = n \<Longrightarrow> inord u = zs \<Longrightarrow> shrinks n zs r"
  by (auto simp: shrinks_def)

lemma shrinks_hole: "r = Done (1, hole u) \<Longrightarrow> bal u \<Longrightarrow> Suc (ht u) = n \<Longrightarrow> inord u = zs \<Longrightarrow> shrinks n zs r"
  by (auto simp: shrinks_def)

lemma shrinks_bind:
  assumes "shrinks m ws f"
    and "\<And>u. bal u \<Longrightarrow> ht u = m \<Longrightarrow> inord u = ws \<Longrightarrow> shrinks n zs (g (0, rep u))"
    and "\<And>u. bal u \<Longrightarrow> Suc (ht u) = m \<Longrightarrow> inord u = ws \<Longrightarrow> shrinks n zs (g (1, hole u))"
  shows "shrinks n zs (bind_exec f g)"
  using assms by (auto simp: shrinks_def [of m])

lemmas repair_defs = post_left_def post_mid_def post_right_def try_rotate_def qBTree__rotate_left_def
  qBTree__rotate_right_def qBTree__merge_def rot_left_def rot_right_def merge_into_def hole_def

lemma post_left_2:
  assumes "bal h" and "bal r" and "ht r = Suc (ht h)"
  shows "shrinks (Suc (ht r)) (inord h @ p # inord r)
    (post_left (BNode (Some p) None (hole h) (rep r) BNull None BNull))"
proof (cases r)
  case (N2 a x b)
  then show ?thesis
    using assms by (intro shrinks_hole [of _ "N3 h p a x b"]) (auto simp: repair_defs)
next
  case (N3 a x b y c)
  then show ?thesis
    using assms by (intro shrinks_keep [of _ "N2 (N2 h p a) x (N2 b y c)"]) (auto simp: repair_defs)
qed (use assms in simp)

lemma post_left_3:
  assumes "bal h" and "bal m" and "bal r" and "ht m = Suc (ht h)" and "ht r = ht m"
  shows "shrinks (Suc (ht m)) (inord h @ p # inord m @ q # inord r)
    (post_left (BNode (Some p) (Some q) (hole h) (rep m) (rep r) None BNull))"
proof (cases m)
  case (N2 a x b)
  then show ?thesis
    using assms by (intro shrinks_keep [of _ "N2 (N3 h p a x b) q r"]) (auto simp: repair_defs)
next
  case (N3 a x b y c)
  then show ?thesis
    using assms by (intro shrinks_keep [of _ "N3 (N2 h p a) x (N2 b y c) q r"]) (auto simp: repair_defs)
qed (use assms in simp)

lemma post_right_2:
  assumes "bal l" and "bal h" and "ht l = Suc (ht h)"
  shows "shrinks (Suc (ht l)) (inord l @ p # inord h)
      (post_right 1 (BNode (Some p) None (rep l) (hole h) BNull None BNull))"
    and "shrinks (Suc (ht l)) (inord l @ p # inord h)
      (post_mid (BNode (Some p) None (rep l) (hole h) BNull None BNull))"
proof -
  have "shrinks (Suc (ht l)) (inord l @ p # inord h)
      (post_right 1 (BNode (Some p) None (rep l) (hole h) BNull None BNull))
    \<and> shrinks (Suc (ht l)) (inord l @ p # inord h)
      (post_mid (BNode (Some p) None (rep l) (hole h) BNull None BNull))"
  proof (cases l)
    case (N2 a x b)
    then show ?thesis
      using assms by (intro conjI; intro shrinks_hole [of _ "N3 a x b p h"]) (auto simp: repair_defs)
  next
    case (N3 a x b y c)
    then show ?thesis
      using assms by (intro conjI; intro shrinks_keep [of _ "N2 (N2 a x b) y (N2 c p h)"]) (auto simp: repair_defs)
  qed (use assms in simp)
  then show "shrinks (Suc (ht l)) (inord l @ p # inord h)
      (post_right 1 (BNode (Some p) None (rep l) (hole h) BNull None BNull))"
    "shrinks (Suc (ht l)) (inord l @ p # inord h)
      (post_mid (BNode (Some p) None (rep l) (hole h) BNull None BNull))" by simp_all
qed

lemma post_mid_3:
  assumes "bal l" and "bal h" and "bal r" and "ht l = Suc (ht h)" and "ht r = ht l"
  shows "shrinks (Suc (ht l)) (inord l @ p # inord h @ q # inord r)
    (post_mid (BNode (Some p) (Some q) (rep l) (hole h) (rep r) None BNull))"
proof (cases r)
  case (N3 a x b y c)
  then show ?thesis
    using assms by (intro shrinks_keep [of _ "N3 l p (N2 h q a) x (N2 b y c)"]) (auto simp: repair_defs)
next
  case r: (N2 a' x' b')
  show ?thesis
  proof (cases l)
    case (N2 a x b)
    then show ?thesis
      using assms r by (intro shrinks_keep [of _ "N2 (N3 a x b p h) q r"]) (auto simp: repair_defs)
  next
    case (N3 a x b y c)
    then show ?thesis
      using assms r by (intro shrinks_keep [of _ "N3 (N2 a x b) y (N2 c p h) q r"]) (auto simp: repair_defs)
  qed (use assms in simp)
qed (use assms in simp)

lemma post_right_3:
  assumes "bal l" and "bal m" and "bal h" and "ht m = Suc (ht h)" and "ht l = ht m"
  shows "shrinks (Suc (ht m)) (inord l @ p # inord m @ q # inord h)
    (post_right 2 (BNode (Some p) (Some q) (rep l) (rep m) (hole h) None BNull))"
proof (cases m)
  case (N2 a x b)
  then show ?thesis
    using assms by (intro shrinks_keep [of _ "N2 l p (N3 a x b q h)"]) (auto simp: repair_defs)
next
  case (N3 a x b y c)
  then show ?thesis
    using assms by (intro shrinks_keep [of _ "N3 l p (N2 a x b) y (N2 c q h)"]) (auto simp: repair_defs)
qed (use assms in simp)

text \<open>The step of a parent whose child has shrunk.\<close>

lemma step_left_2:
  assumes "shrinks (ht l) ws f" and "bal r" and "ht r = ht l"
  shows "shrinks (Suc (ht l)) (ws @ p # inord r) (bind_exec f (\<lambda>(status, c).
    if status = 0 \<or> status = -1 then Done (status, BNode (Some p) None c (rep r) BNull None BNull)
    else post_left (BNode (Some p) None c (rep r) BNull None BNull)))"
proof (rule shrinks_bind [OF assms(1)], goal_cases)
  case (1 u)
  then show ?case
    using assms(2-) by (auto intro!: shrinks_keep [of _ "N2 u p r"])
next
  case (2 u)
  then show ?case
    using assms(2-) post_left_2 [of u r p] by simp
qed

lemma step_left_3:
  assumes "shrinks (ht l) ws f" and "bal m" and "bal r" and "ht m = ht l" and "ht r = ht l"
  shows "shrinks (Suc (ht l)) (ws @ p # inord m @ q # inord r) (bind_exec f (\<lambda>(status, c).
    if status = 0 \<or> status = -1 then Done (status, BNode (Some p) (Some q) c (rep m) (rep r) None BNull)
    else post_left (BNode (Some p) (Some q) c (rep m) (rep r) None BNull)))"
proof (rule shrinks_bind [OF assms(1)], goal_cases)
  case (1 u)
  then show ?case
    using assms(2-) by (auto intro!: shrinks_keep [of _ "N3 u p m q r"])
next
  case (2 u)
  then show ?case
    using assms(2-) post_left_3 [of u m r p q] by simp
qed

lemma step_right_2:
  assumes "shrinks (ht r) ws f" and "bal l" and "ht l = ht r"
  shows "shrinks (Suc (ht r)) (inord l @ p # ws) (bind_exec f (\<lambda>(status, c).
    if status = 0 \<or> status = -1 then Done (status, BNode (Some p) None (rep l) c BNull None BNull)
    else post_right 1 (BNode (Some p) None (rep l) c BNull None BNull)))"
proof (rule shrinks_bind [OF assms(1)], goal_cases)
  case (1 u)
  then show ?case
    using assms(2-) by (auto intro!: shrinks_keep [of _ "N2 l p u"])
next
  case (2 u)
  then show ?case
    using assms(2-) post_right_2(1) [of l u p] by simp
qed

lemma step_mid_2:
  assumes "shrinks (ht r) ws f" and "bal l" and "ht l = ht r"
  shows "shrinks (Suc (ht r)) (inord l @ p # ws) (bind_exec f (\<lambda>(status, c).
    if status = 0 \<or> status = -1 then Done (status, BNode (Some p) None (rep l) c BNull None BNull)
    else post_mid (BNode (Some p) None (rep l) c BNull None BNull)))"
proof (rule shrinks_bind [OF assms(1)], goal_cases)
  case (1 u)
  then show ?case
    using assms(2-) by (auto intro!: shrinks_keep [of _ "N2 l p u"])
next
  case (2 u)
  then show ?case
    using assms(2-) post_right_2(2) [of l u p] by simp
qed

lemma step_mid_3:
  assumes "shrinks (ht m) ws f" and "bal l" and "bal r" and "ht l = ht m" and "ht r = ht m"
  shows "shrinks (Suc (ht m)) (inord l @ p # ws @ q # inord r) (bind_exec f (\<lambda>(status, c).
    if status = 0 \<or> status = -1 then Done (status, BNode (Some p) (Some q) (rep l) c (rep r) None BNull)
    else post_mid (BNode (Some p) (Some q) (rep l) c (rep r) None BNull)))"
proof (rule shrinks_bind [OF assms(1)], goal_cases)
  case (1 u)
  then show ?case
    using assms(2-) by (auto intro!: shrinks_keep [of _ "N3 l p u q r"])
next
  case (2 u)
  then show ?case
    using assms(2-) post_mid_3 [of l u r p q] by simp
qed

lemma step_right_3:
  assumes "shrinks (ht r) ws f" and "bal l" and "bal m" and "ht l = ht r" and "ht m = ht r"
  shows "shrinks (Suc (ht r)) (inord l @ p # inord m @ q # ws) (bind_exec f (\<lambda>(status, c).
    if status = 0 \<or> status = -1 then Done (status, BNode (Some p) (Some q) (rep l) (rep m) c None BNull)
    else post_right 2 (BNode (Some p) (Some q) (rep l) (rep m) c None BNull)))"
proof (rule shrinks_bind [OF assms(1)], goal_cases)
  case (1 u)
  then show ?case
    using assms(2-) by (auto intro!: shrinks_keep [of _ "N3 l p m q u"])
next
  case (2 u)
  then show ?case
    using assms(2-) post_right_3 [of l m u p q] by simp
qed

section \<open>Removing the least pair\<close>

lemma inord_Nil [simp]: "inord t = [] \<longleftrightarrow> t = L"
  by (cases t) auto

lemma erase_min_shrinks:
  "bal t \<Longrightarrow> t \<noteq> L \<Longrightarrow> shrinks (ht t) (tl (inord t)) (qBTree__recursive_erase_min (rep t))"
proof (induction t)
  case (N2 l p r)
  show ?case
  proof (cases "l = L")
    case True
    then show ?thesis
      using N2.prems by (intro shrinks_hole [of _ L]) (auto simp: hole_def)
  next
    case False
    have b: "bal l" "bal r" "ht r = ht l"
      using N2.prems by auto
    show ?thesis
      using step_left_2 [OF N2.IH(1) [OF b(1) False] b(2,3), of p] False b(3) by simp
  qed
next
  case (N3 l p m q r)
  show ?case
  proof (cases "l = L")
    case True
    then show ?thesis
      using N3.prems by (intro shrinks_keep [of _ "N2 L q L"]) auto
  next
    case False
    have b: "bal l" "bal m" "bal r" "ht m = ht l" "ht r = ht l"
      using N3.prems by auto
    show ?thesis
      using step_left_3 [OF N3.IH(1) [OF b(1) False] b(2-5), of p q] False b(4,5) by simp
  qed
qed simp

lemma get_min_rep: "qBTree__get_min (rep t) = (if t = L then None else Some (Some (hd (inord t))))"
  by (induction t) auto

section \<open>Removing a key\<close>

text \<open>The pairs that stay.\<close>

definition without :: "('k \<Rightarrow> 'k \<Rightarrow> int) \<Rightarrow> 'k \<Rightarrow> ('k \<times> 'v) list \<Rightarrow> ('k \<times> 'v) list" where
  "without cmp k xs = filter (\<lambda>p. cmp k (fst p) \<noteq> 0) xs"

lemma without_append [simp]: "without cmp k (xs @ ys) = without cmp k xs @ without cmp k ys"
  by (simp add: without_def)

lemma without_Cons [simp]:
  "without cmp k (p # xs) = (if cmp k (fst p) = 0 then without cmp k xs else p # without cmp k xs)"
  by (simp add: without_def)

lemma without_id: "\<forall>p \<in> set xs. cmp k (fst p) \<noteq> 0 \<Longrightarrow> without cmp k xs = xs"
  by (simp add: without_def)

text \<open>What removing \<open>k\<close> from \<open>t\<close> gives.\<close>

definition erases :: "('k \<Rightarrow> 'k \<Rightarrow> int) \<Rightarrow> 'k \<Rightarrow> ('k \<times> 'v) t23 \<Rightarrow> (int \<times> ('k, 'v) qBTreeNode) exec \<Rightarrow> bool" where
  "erases cmp k t r \<longleftrightarrow>
     (if \<exists>p \<in> set (inord t). cmp k (fst p) = 0 then shrinks (ht t) (without cmp k (inord t)) r
      else r = Done (-1, rep t))"

context comparator
begin

lemma zero_skip: "comp k (fst p) = 0 \<Longrightarrow> key_less comp p q \<or> key_less comp q p \<Longrightarrow> comp k (fst q) \<noteq> 0"
  using comp_le_less_trans [of k "fst p" "fst q"] comp_less_le_trans [of "fst q" "fst p" k]
    comp_zero_sym [of k "fst p"] comp_zero_sym [of k "fst q"]
  by (auto simp: key_less_def)

lemma zero_skip_all:
  "comp k (fst p) = 0 \<Longrightarrow> \<forall>q \<in> A. key_less comp p q \<or> key_less comp q p \<Longrightarrow> \<forall>q \<in> A. comp k (fst q) \<noteq> 0"
  using zero_skip by blast

lemma erases_found:
  "p \<in> set (inord t) \<Longrightarrow> comp k (fst p) = 0 \<Longrightarrow>
   erases comp k t r \<longleftrightarrow> shrinks (ht t) (without comp k (inord t)) r"
  by (auto simp: erases_def)

lemma erases_descend:
  assumes "erases comp k c f" and "inord t = xs @ inord c @ ys"
    and "\<forall>q \<in> set xs. comp k (fst q) \<noteq> 0" and "\<forall>q \<in> set ys. comp k (fst q) \<noteq> 0"
    and "\<And>ws. shrinks (ht c) ws f \<Longrightarrow> shrinks (ht t) (xs @ ws @ ys) r"
    and "f = Done (-1, rep c) \<Longrightarrow> r = Done (-1, rep t)"
  shows "erases comp k t r"
proof (cases "\<exists>q \<in> set (inord c). comp k (fst q) = 0")
  case True
  then have "shrinks (ht t) (xs @ without comp k (inord c) @ ys) r"
    using assms(1) by (intro assms(5)) (auto simp: erases_def)
  then show ?thesis
    using True assms(2-4) by (auto simp: erases_def without_id)
next
  case False
  then have "r = Done (-1, rep t)"
    using assms(1) by (intro assms(6)) (auto simp: erases_def)
  then show ?thesis
    using False assms(2-4) by (auto simp: erases_def)
qed

lemma erases_here:
  assumes "comp k (fst p) = 0" and "inord t = xs @ p # ys" and "sorted_wrt (key_less comp) (inord t)"
    and "shrinks (ht t) (xs @ ys) r"
  shows "erases comp k t r"
proof -
  have "\<forall>q \<in> set xs. comp k (fst q) \<noteq> 0" "\<forall>q \<in> set ys. comp k (fst q) \<noteq> 0"
    using zero_skip_all [OF assms(1)] assms(2,3) by (auto simp: sorted_wrt_append)
  then show ?thesis
    using assms by (simp add: erases_found [of p] without_id)
qed

text \<open>The pair of a node is replaced by its successor, which is removed from the subtree behind it.\<close>

lemma successor: "r \<noteq> L \<Longrightarrow> hd (inord r) # tl (inord r) @ zs = inord r @ zs"
  by simp

lemma erases_N2:
  assumes l: "erases comp k l (qBTree__recursive_erase comp (rep l) k)"
    and r: "erases comp k r (qBTree__recursive_erase comp (rep r) k)"
    and b: "bal (N2 l p r)" and s: "sorted_wrt (key_less comp) (inord (N2 l p r))"
  shows "erases comp k (N2 l p r) (qBTree__recursive_erase comp (rep (N2 l p r)) k)"
proof -
  have lp: "\<forall>q \<in> set (inord l). key_less comp q p" and pr: "\<forall>q \<in> set (inord r). key_less comp p q"
    and h: "bal l" "bal r" "ht r = ht l" "ht l = ht r"
    using s b by (auto simp: sorted_wrt_append)
  consider "comp k (fst p) = 0" | "comp k (fst p) < 0" | "0 < comp k (fst p)" by linarith
  then show ?thesis
  proof cases
    case 1
    have "shrinks (ht (N2 l p r)) (inord l @ inord r) (qBTree__recursive_erase comp (rep (N2 l p r)) k)"
      using 1 erase_min_shrinks [OF b] h(4)
        step_mid_2 [OF erase_min_shrinks [OF h(2)] h(1,4), of "hd (inord r)"] successor [of r "[]"]
      by (cases "r = L") (simp_all add: get_min_rep)
    then show ?thesis
      using 1 s by (intro erases_here [of k p _ "inord l" "inord r"]) simp_all
  next
    case 2
    then show ?thesis
      using search_skip_all(1) [OF 2 pr] h step_left_2 [OF _ h(2,3), of _ _ p]
      by (intro erases_descend [OF l, of _ "[]" "p # inord r"]) auto
  next
    case 3
    then show ?thesis
      using search_skip_all(2) [OF 3 lp] h(4) step_right_2 [OF _ h(1,4), of _ _ p]
      by (intro erases_descend [OF r, of _ "inord l @ [p]" "[]"]) auto
  qed
qed

lemma erases_N3:
  assumes l: "erases comp k l (qBTree__recursive_erase comp (rep l) k)"
    and m: "erases comp k m (qBTree__recursive_erase comp (rep m) k)"
    and r: "erases comp k r (qBTree__recursive_erase comp (rep r) k)"
    and b: "bal (N3 l p m q r)" and s: "sorted_wrt (key_less comp) (inord (N3 l p m q r))"
  shows "erases comp k (N3 l p m q r) (qBTree__recursive_erase comp (rep (N3 l p m q r)) k)"
proof -
  have lp: "\<forall>z \<in> set (inord l). key_less comp z p"
    and pz: "\<forall>z \<in> set (inord m @ q # inord r). key_less comp p z"
    and zq: "\<forall>z \<in> set (inord l @ p # inord m). key_less comp z q"
    and qr: "\<forall>z \<in> set (inord r). key_less comp q z"
    and h: "bal l" "bal m" "bal r" "ht m = ht l" "ht r = ht l" "ht l = ht m" "ht r = ht m" "ht l = ht r" "ht m = ht r"
    using s b by (auto simp: sorted_wrt_append)
  let ?t = "N3 l p m q r"
  consider "comp k (fst p) = 0" | "comp k (fst p) < 0" | "0 < comp k (fst p)" "comp k (fst q) = 0"
    | "0 < comp k (fst p)" "comp k (fst q) < 0" | "0 < comp k (fst p)" "0 < comp k (fst q)" by linarith
  then show ?thesis
  proof cases
    case 1
    have "shrinks (ht ?t) (inord l @ inord m @ q # inord r) (qBTree__recursive_erase comp (rep ?t) k)"
    proof (cases "m = L")
      case True
      then show ?thesis
        using 1 erase_min_shrinks [OF b] h(6) by (simp add: get_min_rep)
    next
      case False
      then show ?thesis
        using 1 step_mid_3 [OF erase_min_shrinks [OF h(2) False] h(1,3,6,7), of "hd (inord m)" q]
          successor [OF False, of "q # inord r"] h(6,7) by (simp add: get_min_rep)
    qed
    then show ?thesis
      using 1 s by (intro erases_here [of k p _ "inord l" "inord m @ q # inord r"]) simp_all
  next
    case 2
    then show ?thesis
      using search_skip_all(1) [OF 2 pz] h(4,5) step_left_3 [OF _ h(2,3,4,5), of _ _ p q]
      by (intro erases_descend [OF l, of _ "[]" "p # inord m @ q # inord r"]) auto
  next
    case 3
    have "shrinks (ht ?t) (inord l @ p # inord m @ inord r) (qBTree__recursive_erase comp (rep ?t) k)"
    proof (cases "r = L")
      case True
      then have "l = L" "m = L" using h(8,9) by auto
      then show ?thesis
        using 3 True by (intro shrinks_keep [of _ "N2 L p L"]) (simp_all add: get_min_rep)
    next
      case False
      then show ?thesis
        using 3 step_right_3 [OF erase_min_shrinks [OF h(3) False] h(1,2,8,9), of p "hd (inord r)"]
          successor [OF False, of "[]"] h(8,9) by (simp add: get_min_rep)
    qed
    then show ?thesis
      using 3 s by (intro erases_here [of k q _ "inord l @ p # inord m" "inord r"]) simp_all
  next
    case 4
    then show ?thesis
      using search_skip_all(2) [OF 4(1) lp] search_skip_all(1) [OF 4(2) qr] h(6,7)
        step_mid_3 [OF _ h(1,3,6,7), of _ _ p q]
      by (intro erases_descend [OF m, of _ "inord l @ [p]" "q # inord r"]) auto
  next
    case 5
    then show ?thesis
      using search_skip_all(2) [OF 5(2) zq] h(8,9) step_right_3 [OF _ h(1,2,8,9), of _ _ p q]
      by (intro erases_descend [OF r, of _ "inord l @ p # inord m @ [q]" "[]"]) auto
  qed
qed

lemma recursive_erase_erases:
  "bal t \<Longrightarrow> sorted_wrt (key_less comp) (inord t) \<Longrightarrow>
   erases comp k t (qBTree__recursive_erase comp (rep t) k)"
proof (induction t)
  case L
  then show ?case by (simp add: erases_def)
next
  case (N2 l p r)
  then show ?case
    by (intro erases_N2) (auto simp: sorted_wrt_append)
next
  case (N3 l p m q r)
  then show ?case
    by (intro erases_N3) (auto simp: sorted_wrt_append)
qed

end

end
