(* ===== verification/BTreeOrd.thy ===== *)
theory BTreeOrd
  imports BTreeErase
begin

text \<open>
  The B-tree as a map, for every comparison function that is an order: lookup, insertion of a largest
  key, removal and iteration of a whole tree.
\<close>

section \<open>The map a descriptor stands for\<close>

text \<open>The tree is balanced, its pairs in order are \<open>ps\<close> and the size counts them.\<close>

definition bt_holds :: "('k, 'v) qBTreeDescriptor \<Rightarrow> ('k \<times> 'v) list \<Rightarrow> bool" where
  "bt_holds d ps \<longleftrightarrow> (\<exists>t. bt_root d = rep t \<and> bal t \<and> inord t = ps \<and> bt_size d = of_nat (length ps))"

lemma bal_size: "bal t \<Longrightarrow> 2 ^ ht t \<le> length (inord t) + 1"
  by (induction t) auto

lemma bt_height: "bal t \<Longrightarrow> length (inord t) < 2 ^ 32 \<Longrightarrow> ht t \<le> 100"
proof (rule ccontr)
  assume t: "bal t" "length (inord t) < 2 ^ 32" and "\<not> ht t \<le> 100"
  then have "(2 :: nat) ^ 33 \<le> 2 ^ ht t"
    by (intro power_increasing) auto
  then show False
    using bal_size [OF t(1)] t(2) by simp
qed

lemma bt_holds_empty [simp]: "bt_holds qBTree_constructor []"
  by (auto simp: bt_holds_def qBTree_constructor_def intro!: exI [of _ L])

lemma insert_rep:
  assumes "bt_root d = rep t"
  shows "qBTree__insert cmp al_ok d k v =
    (case ins cmp t (k, v) of
       Exists \<Rightarrow> Done (-1, d\<lparr>bt_root := rep t\<rparr>)
     | Fits u \<Rightarrow> Done (0, d\<lparr>bt_root := rep u, bt_size := bt_size d + 1\<rparr>)
     | Pending l p m q r x a \<Rightarrow> (case split_tree cmp l p m q r x a of
         (y, u, w) \<Rightarrow> Done (0, d\<lparr>bt_root := rep (N2 u y w), bt_size := bt_size d + 1\<rparr>)))"
  using assms
  by (simp add: qBTree__insert_def recursive_insert_rep split_up_rep node1_def split: insres.split prod.split)

text \<open>A key above all others always takes the rightmost way.\<close>

lemma safe_largest:
  "\<forall>p \<in> set (inord t). 0 < cmp (fst x) (fst p) \<Longrightarrow> safe cmp t x"
  by (induction t) auto

lemma insl_largest:
  "\<forall>p \<in> set ps. 0 < cmp (fst x) (fst p) \<Longrightarrow> insl cmp x ps = ps @ [x]"
  by (induction ps) auto

section \<open>Operations\<close>

context comparator
begin

lemma lookup_holds:
  assumes "bt_holds d ps" and "sorted_wrt (key_less comp) ps" and "length ps < 2 ^ 32"
  shows "(\<exists>it p. qBTree__ptr_at comp d k = Done (0, it) \<and> p \<in> set ps \<and> comp k (fst p) = 0
        \<and> qBTreeIterator_isvalid it \<and> qBTreeIterator_deref it = Done (Some p))
    \<or> (qBTree__ptr_at comp d k = Done (-1, zero_iter) \<and> (\<forall>p \<in> set ps. comp k (fst p) \<noteq> 0))"
proof -
  obtain t where t: "bt_root d = rep t" "bal t" "inord t = ps"
    using assms(1) by (auto simp: bt_holds_def)
  have "ht t \<le> 100"
    using bt_height [OF t(2)] t(3) assms(3) by simp
  from search_finds [OF _ _ this, of zero_iter t "[]" "[]" k]
  have "finds comp t t k (qBTree__ptr_at comp d k)"
    using zip_root [of t] assms(2) t by (simp add: zero_iter_def qBTree__ptr_at_def)
  then show ?thesis
    unfolding finds_def t(3)
  proof (elim disjE exE conjE)
    fix it xs p ys
    assume "qBTree__ptr_at comp d k = Done (0, it)" "p \<in> set ps" "comp k (fst p) = 0"
      and "iter_at t it xs p ys"
    then show ?thesis
      using iter_at_deref [of t it xs p ys] iter_at_valid [of t it xs p ys]
      by (intro disjI1 exI [of _ it] exI [of _ p]) simp
  qed auto
qed

text \<open>
  An insertion that splits no left child of a single-pair node on its way puts the new pair in its
  place.
\<close>

lemma insert_in_order:
  assumes "bt_root d = rep t" and "bal t" and "bt_size d = of_nat (length (inord t))"
    and "sorted_wrt (key_less comp) (inord t)" and "safe comp t (k, v)"
    and "\<forall>p \<in> set (inord t). comp k (fst p) \<noteq> 0"
  shows "\<exists>d'. qBTree__insert comp al_ok d k v = Done (0, d') \<and> bt_holds d' (insl comp (k, v) (inord t))"
proof -
  have "\<forall>p \<in> set (inord t). comp (fst (k, v)) (fst p) \<noteq> 0"
    using assms(6) by simp
  from ins_inord [OF assms(4,5) this]
  have res: "res_inord comp (ins comp t (k, v)) = Some (insl comp (k, v) (inord t))" .
  have len: "length (insl comp (k, v) ps) = Suc (length ps)" for ps
    by (induction ps) auto
  note ok = ins_ok_ins [OF assms(2), of "(k, v)" comp]
  show ?thesis
  proof (cases "ins comp t (k, v)")
    case (Fits u)
    then show ?thesis
      using insert_rep [OF assms(1)] ok res assms(3) by (auto simp: bt_holds_def len)
  next
    case (Pending l p m q r x a)
    obtain y u w where sp: "split_tree comp l p m q r x a = (y, u, w)"
      by (cases "split_tree comp l p m q r x a")
    have "bal (N2 u y w)" "inord (N2 u y w) = insl comp (k, v) (inord t)"
      using ok Pending split_tree_ok [OF sp] res sp by (auto simp: pend_inord_def)
    then show ?thesis
      using insert_rep [OF assms(1)] Pending sp assms(3)
      by (auto simp: bt_holds_def len intro!: exI [of _ "N2 u y w"])
  qed (use res in simp)
qed

lemma insert_largest:
  assumes "bt_holds d ps" and "sorted_wrt (key_less comp) (ps @ [(k, v)])"
  shows "\<exists>d'. qBTree__insert comp al_ok d k v = Done (0, d') \<and> bt_holds d' (ps @ [(k, v)])"
proof -
  obtain t where t: "bt_root d = rep t" "bal t" "inord t = ps" "bt_size d = of_nat (length ps)"
    using assms(1) by (auto simp: bt_holds_def)
  have gt: "\<forall>p \<in> set (inord t). 0 < comp (fst (k, v)) (fst p)"
    using assms(2) t(3) comp_swap by (auto simp: sorted_wrt_append key_less_def)
  then have "\<forall>p \<in> set (inord t). comp k (fst p) \<noteq> 0"
    by fastforce
  then show ?thesis
    using insert_in_order [OF t(1,2), where k = k and v = v] t(3,4) assms(2)
      safe_largest [of t comp "(k, v)"] insl_largest [of ps comp "(k, v)"] gt
    by (auto simp: sorted_wrt_append)
qed

lemma length_without:
  assumes "sorted_wrt (key_less comp) ps" and "p \<in> set ps" and "comp k (fst p) = 0"
  shows "Suc (length (without comp k ps)) = length ps"
proof -
  obtain xs ys where ps: "ps = xs @ p # ys"
    using assms(2) by (auto dest: split_list)
  then have "\<forall>q \<in> set xs. comp k (fst q) \<noteq> 0" "\<forall>q \<in> set ys. comp k (fst q) \<noteq> 0"
    using assms(1) zero_skip_all [OF assms(3)] by (auto simp: sorted_wrt_append)
  then show ?thesis
    using ps assms(3) by (simp add: without_id)
qed

lemma erase_holds:
  assumes "bt_holds d ps" and "sorted_wrt (key_less comp) ps" and "p \<in> set ps"
    and "qBTreeIterator_deref it = Done (Some p)"
  shows "\<exists>d'. qBTree__erase comp True True d it = Done (0, d') \<and> bt_holds d' (without comp (fst p) ps)"
proof -
  obtain t where t: "bt_root d = rep t" "bal t" "inord t = ps" "bt_size d = of_nat (length ps)"
    using assms(1) by (auto simp: bt_holds_def)
  have "\<exists>q \<in> set (inord t). comp (fst p) (fst q) = 0"
    using assms(3) t(3) comp_refl by blast
  then have "shrinks (ht t) (without comp (fst p) (inord t)) (qBTree__recursive_erase comp (rep t) (fst p))"
    using recursive_erase_erases [OF t(2), of "fst p"] assms(2) t(3) unfolding erases_def by argo
  then obtain u where u: "qBTree__erase comp True True d it = Done (0, d\<lparr>bt_root := rep u, bt_size := bt_size d - 1\<rparr>)"
      "bal u" "inord u = without comp (fst p) ps"
    using assms(4) t(1,3) by (auto simp: shrinks_def qBTree__erase_def hole_def)
  have "Suc (length (inord u)) = length ps"
    using length_without [OF assms(2,3) comp_refl] by (simp add: u(3))
  then have "bt_size d - 1 = of_nat (length (inord u))"
    using t(4) by (metis add_diff_cancel_left' of_nat_Suc)
  then show ?thesis
    using u by (auto simp: bt_holds_def)
qed

end

section \<open>Iteration\<close>

lemma first_and_last:
  assumes "bt_holds d ps" and "length ps < 2 ^ 32" and "ps \<noteq> []"
  shows "\<exists>t it p zs. ht t \<le> 100 \<and> qBTree_begin d = Done it \<and> ps = p # zs \<and> iter_at t it [] p zs"
    and "\<exists>t it p zs. ht t \<le> 100 \<and> qBTree_end d = Done it \<and> ps = zs @ [p] \<and> iter_at t it zs p []"
proof -
  obtain t where t: "bt_root d = rep t" "bal t" "inord t = ps"
    using assms(1) by (auto simp: bt_holds_def)
  have "ht t \<le> 100"
    using bt_height [OF t(2)] t(3) assms(2) by simp
  moreover have "t \<noteq> L"
    using t(3) assms(3) by auto
  ultimately show "\<exists>t it p zs. ht t \<le> 100 \<and> qBTree_begin d = Done it \<and> ps = p # zs \<and> iter_at t it [] p zs"
    and "\<exists>t it p zs. ht t \<le> 100 \<and> qBTree_end d = Done it \<and> ps = zs @ [p] \<and> iter_at t it zs p []"
    using begin_end_at [OF t(1)] t(3) by blast+
qed

lemma begin_end_empty:
  "bt_holds d [] \<Longrightarrow> qBTree_begin d = Done zero_iter \<and> qBTree_end d = Done zero_iter"
  by (auto simp: bt_holds_def qBTree_begin_def qBTree_end_def)

end
