(* ===== verification/BTreeProps.thy ===== *)
theory BTreeProps
  imports BTreeOrd
begin

text \<open>
  The B-tree with C strings as keys, compared by \<^verbatim>\<open>string_comparator\<close>: the map it represents, and what
  lookup, insertion, removal and iteration do to it.
\<close>

section \<open>Maps of strings\<close>

definition str_sorted :: "(bytes \<times> 'v) list \<Rightarrow> bool" where
  "str_sorted ps \<longleftrightarrow> sorted_wrt (key_less string_comparator) ps"

section \<open>Lookup\<close>

text \<open>
  C16: in a tree whose pairs are in order a lookup returns 0 and an iterator to the pair with that
  key, or -1 and the invalid iterator when there is none.
\<close>

theorem btree_lookup:
  assumes "bt_holds d ps" and "str_sorted ps" and "length ps < 2 ^ 32"
  shows "(\<exists>it p. qBTree__ptr_at string_comparator d k = Done (0, it) \<and> p \<in> set ps \<and> cstr (fst p) = cstr k
        \<and> qBTreeIterator_isvalid it \<and> qBTreeIterator_deref it = Done (Some p))
    \<or> (qBTree__ptr_at string_comparator d k = Done (-1, zero_iter) \<and> (\<forall>p \<in> set ps. cstr (fst p) \<noteq> cstr k))"
  using string_order.lookup_holds [OF assms(1) _ assms(3), of k] assms(2)
  by (simp add: str_sorted_def string_comparator_zero eq_commute [of "cstr k"])

definition btree3 :: "(bytes, nat) qBTreeDescriptor" where
  "btree3 = \<lparr>bt_size = 3, bt_root = rep (N2 (N2 L ([97], 1) L) ([98], 2) (N2 L ([99], 3) L))\<rparr>"

lemma btree3_holds: "bt_holds btree3 [([97], 1), ([98], 2), ([99], 3)]"
  unfolding bt_holds_def btree3_def
  by (intro exI [of _ "N2 (N2 L ([97], 1) L) ([98], 2) (N2 L ([99], 3) L)"]) simp

lemma btree3_sorted: "str_sorted [([97], 1 :: nat), ([98], 2), ([99], 3)]"
  unfolding str_sorted_def key_less_def by code_simp

theorem btree_lookup_witness:
  "\<exists>it. qBTree__ptr_at string_comparator btree3 [99] = Done (0, it)
     \<and> qBTreeIterator_deref it = Done (Some ([99], 3))"
proof -
  have "cstr [97] = [97]" "cstr [98] = [98]" "cstr [99] = [99]"
    by (simp_all add: cstr_def)
  then show ?thesis
    using btree_lookup [OF btree3_holds btree3_sorted, of "[99]"] by auto
qed

section \<open>Insertion\<close>

lemma bt_holds_grown:
  assumes "bal u" and "mset (inord u) = add_mset x (mset ps)" and "bt_size d = of_nat (length ps)"
  shows "bt_holds (d\<lparr>bt_root := rep u, bt_size := bt_size d + 1\<rparr>) (inord u)"
proof -
  have "length (inord u) = Suc (length ps)"
    by (metis assms(2) size_add_mset size_mset)
  then show ?thesis
    using assms(1,3) by (auto simp: bt_holds_def)
qed

text \<open>
  C18: whatever the tree holds, an insertion whose allocations all succeed ends, keeps the tree balanced and
  its size right, and either reports that the key is there and changes nothing or adds the pair and loses none.
  (When the allocation of a new root fails, pairs are lost: \<open>btree_failed_root_allocation_loses_keys\<close>.)
\<close>

theorem btree_insert_keeps_pairs:
  assumes "bt_holds d ps"
  shows "\<exists>st d' ps'. qBTree__insert string_comparator al_ok d k v = Done (st, d') \<and> bt_holds d' ps'
    \<and> (st = -1 \<and> ps' = ps \<or> st = 0 \<and> mset ps' = add_mset (k, v) (mset ps))"
proof -
  obtain t where t: "bt_root d = rep t" "bal t" "inord t = ps" "bt_size d = of_nat (length ps)"
    using assms by (auto simp: bt_holds_def)
  note ok = ins_ok_ins [OF t(2), of "(k, v)" string_comparator]
  note ins = insert_rep [OF t(1), of string_comparator k v]
  show ?thesis
  proof (cases "ins string_comparator t (k, v)")
    case Exists
    then show ?thesis
      using ins t by (auto simp: bt_holds_def)
  next
    case (Fits u)
    then have "bal u" and u: "mset (inord u) = add_mset (k, v) (mset ps)"
      using ok t(3) by simp_all
    from bt_holds_grown [OF this t(4)] u show ?thesis
      using ins Fits by (intro exI [of _ 0]) auto
  next
    case (Pending l p m q r x a)
    obtain y u w where sp: "split_tree string_comparator l p m q r x a = (y, u, w)"
      by (cases "split_tree string_comparator l p m q r x a")
    have "bal (N2 u y w)" and u: "mset (inord (N2 u y w)) = add_mset (k, v) (mset ps)"
      using ok Pending t(3) split_tree_ok [OF sp] by auto
    from bt_holds_grown [OF this t(4)] u show ?thesis
      using ins Pending sp by (intro exI [of _ 0]) auto
  qed
qed

theorem btree_insert_keeps_pairs_witness:
  "\<exists>st d' ps'. qBTree__insert string_comparator al_ok btree3 [96] 0 = Done (st, d') \<and> bt_holds d' ps'
    \<and> (st = -1 \<or> st = 0)"
  using btree_insert_keeps_pairs [OF btree3_holds, of "[96]" 0] by blast

text \<open>Insertion of a list of pairs, one after the other.\<close>

fun insert_all ::
  "('k \<Rightarrow> 'k \<Rightarrow> int) \<Rightarrow> ('k, 'v) qBTreeDescriptor \<Rightarrow> ('k \<times> 'v) list \<Rightarrow> (int list \<times> ('k, 'v) qBTreeDescriptor) exec" where
  "insert_all cmp d [] = Done ([], d)"
| "insert_all cmp d (p # ps) =
     bind_exec (qBTree__insert cmp al_ok d (fst p) (snd p)) (\<lambda>(st, d').
     bind_exec (insert_all cmp d' ps) (\<lambda>(sts, d''). Done (st # sts, d'')))"

lemma insert_all_ascending:
  "bt_holds d qs \<Longrightarrow> str_sorted (qs @ ps) \<Longrightarrow>
   \<exists>d'. insert_all string_comparator d ps = Done (replicate (length ps) 0, d') \<and> bt_holds d' (qs @ ps)"
proof (induction ps arbitrary: d qs)
  case (Cons p ps)
  from string_order.insert_largest [OF Cons.prems(1), of "fst p" "snd p"] Cons.prems(2) obtain d1 where
    d1: "qBTree__insert string_comparator al_ok d (fst p) (snd p) = Done (0, d1)" "bt_holds d1 (qs @ [p])"
    by (auto simp: str_sorted_def sorted_wrt_append)
  from Cons.IH [OF d1(2)] Cons.prems(2) d1(1) show ?case
    by auto
qed auto

text \<open>
  Keys that are inserted in ascending order are all accepted, and the tree then holds exactly
  these pairs in that order.
\<close>

lemma btree_ascending_inserts:
  assumes "str_sorted ps"
  shows "\<exists>d. insert_all string_comparator qBTree_constructor ps = Done (replicate (length ps) 0, d)
    \<and> bt_holds d ps"
  using insert_all_ascending [of qBTree_constructor "[]" ps] assms by simp

lemma btree_ascending_inserts_witness:
  "\<exists>d. insert_all string_comparator qBTree_constructor [([97], 1 :: nat), ([97, 98], 2), ([98], 3), ([99], 4)]
       = Done ([0, 0, 0, 0], d)
     \<and> bt_holds d [([97], 1), ([97, 98], 2), ([98], 3), ([99], 4)]"
proof -
  have "str_sorted [([97], 1 :: nat), ([97, 98], 2), ([98], 3), ([99], 4)]"
    unfolding str_sorted_def key_less_def by code_simp
  from btree_ascending_inserts [OF this] show ?thesis
    by (simp add: eval_nat_numeral)
qed

definition digit_pairs :: "byte list \<Rightarrow> (bytes \<times> unit) list" where
  "digit_pairs ds = map (\<lambda>c. ([48 + c], ())) ds"

text \<open>
  In another order it fails. After 5, 6, 7, 4, 3 all five insertions have reported success, and the
  tree holds five pairs, but neither 3 nor 4 is found.
\<close>

lemma btree_descending_inserts_lose_keys:
  "case insert_all string_comparator qBTree_constructor (digit_pairs [5, 6, 7, 4, 3]) of
     Done (sts, d) \<Rightarrow> sts = [0, 0, 0, 0, 0] \<and> bt_size d = 5
       \<and> qBTree__ptr_at string_comparator d [51] = Done (-1, zero_iter)
       \<and> qBTree__ptr_at string_comparator d [52] = Done (-1, zero_iter)
   | Fault \<Rightarrow> False"
  by code_simp

text \<open>A key that is already in a full leaf is not noticed and stored a second time.\<close>

lemma btree_duplicate_in_full_leaf:
  "case insert_all string_comparator qBTree_constructor (digit_pairs [1, 2, 1]) of
     Done (sts, d) \<Rightarrow> sts = [0, 0, 0] \<and> bt_size d = 3
   | Fault \<Rightarrow> False"
  by code_simp

text \<open>
  When the new root cannot be allocated the insertion answers -1 but has already given half of the
  tree away: 1 and 2 are no longer found and the rejected 3 is.
\<close>

lemma btree_failed_root_allocation_loses_keys:
  "case bind_exec (insert_all string_comparator qBTree_constructor (digit_pairs [1, 2])) (\<lambda>(sts, d).
        qBTree__insert string_comparator (al_ok\<lparr>al_root := False\<rparr>) d [51] ()) of
     Done (st, d) \<Rightarrow> st = -1 \<and> bt_size d = 2
       \<and> qBTree__ptr_at string_comparator d [49] = Done (-1, zero_iter)
       \<and> qBTree__ptr_at string_comparator d [50] = Done (-1, zero_iter)
       \<and> (\<exists>it. qBTree__ptr_at string_comparator d [51] = Done (0, it))
   | Fault \<Rightarrow> False"
proof -
  define d where "d = bind_exec (insert_all string_comparator qBTree_constructor (digit_pairs [1, 2])) (\<lambda>(sts, d).
        qBTree__insert string_comparator (al_ok\<lparr>al_root := False\<rparr>) d [51] ())"
  have "d = Done (-1, \<lparr>bt_size = 2, bt_root = node1 (Some ([51], ())) BNull BNull\<rparr>)"
    unfolding d_def by code_simp
  moreover have "qBTree__ptr_at string_comparator \<lparr>bt_size = 2, bt_root = node1 (Some ([51], ())) BNull BNull\<rparr> [49]
      = Done (-1, zero_iter)"
    by code_simp
  moreover have "qBTree__ptr_at string_comparator \<lparr>bt_size = 2, bt_root = node1 (Some ([51], ())) BNull BNull\<rparr> [50]
      = Done (-1, zero_iter)"
    by code_simp
  moreover have "qBTree__ptr_at string_comparator \<lparr>bt_size = 2, bt_root = node1 (Some ([51], ())) BNull BNull\<rparr> [51]
      = Done (0, \<lparr>it_node = node1 (Some ([51], ())) BNull BNull, it_which = 0, it_track = []\<rparr>)"
    by code_simp
  ultimately show ?thesis
    unfolding d_def [symmetric] by auto
qed

section \<open>Removal\<close>

text \<open>
  C15: removing the element an iterator points to removes exactly the pair with its key, keeps the
  others in order and the tree balanced, and counts the size down.
\<close>

theorem btree_erase:
  assumes "bt_holds d ps" and "str_sorted ps" and "p \<in> set ps"
    and "qBTreeIterator_deref it = Done (Some p)"
  shows "\<exists>d'. qBTree__erase string_comparator True True d it = Done (0, d')
    \<and> bt_holds d' (filter (\<lambda>q. cstr (fst q) \<noteq> cstr (fst p)) ps)"
proof -
  have "without string_comparator (fst p) ps = filter (\<lambda>q. cstr (fst q) \<noteq> cstr (fst p)) ps"
    by (auto simp: without_def string_comparator_zero intro!: filter_cong)
  then show ?thesis
    using string_order.erase_holds [OF assms(1) _ assms(3,4)] assms(2) by (simp add: str_sorted_def)
qed

definition iter_b :: "(bytes, nat) qBTreeIterator" where
  "iter_b = \<lparr>it_node = bt_root btree3, it_which = 0, it_track = []\<rparr>"

theorem btree_erase_witness:
  "\<exists>d'. qBTree__erase string_comparator True True btree3 iter_b = Done (0, d') \<and> bt_holds d' [([97], 1), ([99], 3)]"
proof -
  have "qBTreeIterator_deref iter_b = Done (Some ([98], 2))"
    by (simp add: iter_b_def btree3_def qBTreeIterator_deref_def kv_at_def)
  moreover have "cstr [97] = [97]" "cstr [98] = [98]" "cstr [99] = [99]"
    by (simp_all add: cstr_def)
  ultimately show ?thesis
    using btree_erase [OF btree3_holds btree3_sorted, of "([98], 2)" iter_b] by simp
qed

section \<open>Iteration\<close>

text \<open>
  C17: iterating from \<^verbatim>\<open>qBTree_begin\<close> with \<^verbatim>\<open>qBTreeIterator_next\<close> visits all pairs in order, each once,
  and ends; from \<^verbatim>\<open>qBTree_end\<close> with \<^verbatim>\<open>qBTreeIterator_prev\<close> it visits them in reverse order.
\<close>

theorem btree_iteration:
  assumes "bt_holds d ps" and "length ps < 2 ^ 32"
  shows "bind_exec (qBTree_begin d) (collect qBTreeIterator_next (length ps)) = Done (map Some ps)
    \<and> bind_exec (qBTree_end d) (collect qBTreeIterator_prev (length ps)) = Done (map Some (rev ps))"
proof (cases "ps = []")
  case True
  then show ?thesis
    using begin_end_empty [of d] assms(1) by simp
next
  case False
  from first_and_last(1) [OF assms False] obtain t it1 p zs where
    b: "ht t \<le> 100" "qBTree_begin d = Done it1" "ps = p # zs" "iter_at t it1 [] p zs"
    by blast
  from first_and_last(2) [OF assms False] obtain u it2 q ws where
    e: "ht u \<le> 100" "qBTree_end d = Done it2" "ps = ws @ [q]" "iter_at u it2 ws q []"
    by blast
  have "collect qBTreeIterator_next (length ps) it1 = Done (map Some ps)"
    using collect_next [OF b(4,1)] b(3) by simp
  moreover have "collect qBTreeIterator_prev (length ps) it2 = Done (map Some (rev ps))"
    using collect_prev [of u it2 "rev ws" q "[]"] e by simp
  ultimately show ?thesis
    using b(2) e(2) by simp
qed

theorem btree_iteration_witness:
  "bind_exec (qBTree_end btree3) (collect qBTreeIterator_prev 3)
     = Done [Some ([99], 3), Some ([98], 2), Some ([97], 1)]"
proof -
  have "length [([97], 1), ([98], 2), ([99], 3)] < (2::nat) ^ 32"
    by simp
  from conjunct2 [OF btree_iteration [OF btree3_holds this]] show ?thesis
    by (simp add: numeral_3_eq_3 del: collect.simps)
qed

end
