(* ===== verification/QList.thy ===== *)
theory QList
  imports Zerror
begin

text \<open>
  \<^verbatim>\<open>zhwkre/list.h\<close>, \<^verbatim>\<open>zhwkre/listd.h\<close> and \<^verbatim>\<open>zhwkre/containers/list.c\<close>: the doubly linked list, on an
  explicit store. A pointer is a number and 0 is the null pointer; the store maps the addresses of
  the live nodes to the nodes. The block behind \<^verbatim>\<open>data\<close> is owned by its node and modelled by the
  object in it (\<open>None\<close>: no block). Where the code allocates, the address \<^verbatim>\<open>malloc\<close> returns is an
  argument, \<open>None\<close> when it fails, and so is the outcome of the allocation of the data block. Reading
  or writing through an address without a live node is \<^const>\<open>Fault\<close>.
\<close>

section \<open>Data\<close>

type_synonym ptr = nat

record 'd q__List =
  l_data :: "'d option"
  l_size :: u32
  l_prev :: ptr
  l_next :: ptr

record qListDescriptor =
  ldmagic :: bytes
  l_head :: ptr
  l_tail :: ptr
  l_count :: u32

text \<open>The store of nodes and the library's error variable.\<close>

record 'd lmem =
  nodes :: "ptr \<Rightarrow> 'd q__List option"
  lerr :: int

definition Q__LD_MAGIC :: bytes where
  "Q__LD_MAGIC = [95, 95, 108, 105, 115, 116, 100, 101, 115, 99]"

definition l_load :: "'d lmem \<Rightarrow> ptr \<Rightarrow> 'd q__List exec" where
  "l_load m p = (case nodes m p of None \<Rightarrow> Fault | Some n \<Rightarrow> Done n)"

definition l_store :: "'d lmem \<Rightarrow> ptr \<Rightarrow> ('d q__List \<Rightarrow> 'd q__List) \<Rightarrow> 'd lmem exec" where
  "l_store m p f = (case nodes m p of None \<Rightarrow> Fault | Some n \<Rightarrow> Done (m\<lparr>nodes := (nodes m)(p \<mapsto> f n)\<rparr>))"

text \<open>\<^verbatim>\<open>free(p)\<close> of a node: it must be live.\<close>

definition lfree :: "'d lmem \<Rightarrow> ptr \<Rightarrow> 'd lmem exec" where
  "lfree m p = (case nodes m p of None \<Rightarrow> Fault | Some n \<Rightarrow> Done (m\<lparr>nodes := (nodes m)(p := None)\<rparr>))"

section \<open>Operations\<close>

definition q__List_new :: "ptr option \<Rightarrow> 'd lmem \<Rightarrow> ptr \<times> 'd lmem" where
  "q__List_new a m =
     (case a of
        None \<Rightarrow> (0, m\<lparr>lerr := ZHWK_ERR_MM_ALLOC_FAIL\<rparr>)
      | Some p \<Rightarrow>
          (p, m\<lparr>nodes := (nodes m)(p \<mapsto> \<lparr>l_data = None, l_size = 0, l_prev = 0, l_next = 0\<rparr>)\<rparr>))"

definition qList_constructor :: qListDescriptor where
  "qList_constructor = \<lparr>ldmagic = Q__LD_MAGIC, l_head = 0, l_tail = 0, l_count = 0\<rparr>"

text \<open>
  \<^verbatim>\<open>p->data = malloc(size); if(NULL) return -1; memcpy(p->data, target, size); p->size = size;\<close>; the
  flag says whether the code goes on.
\<close>

definition fill_node :: "bool \<Rightarrow> ptr \<Rightarrow> 'd \<Rightarrow> u32 \<Rightarrow> 'd lmem \<Rightarrow> (bool \<times> 'd lmem) exec" where
  "fill_node mok p target sz m =
     (if \<not> mok
      then bind_exec (l_store m p (\<lambda>n. n\<lparr>l_data := None\<rparr>)) (\<lambda>m. Done (False, m\<lparr>lerr := ZHWK_ERR_MM_ALLOC_FAIL\<rparr>))
      else bind_exec (l_store m p (\<lambda>n. n\<lparr>l_data := Some target, l_size := sz\<rparr>)) (\<lambda>m. Done (True, m)))"

text \<open>The first element, in \<^verbatim>\<open>push_back\<close> and \<^verbatim>\<open>push_front\<close> alike.\<close>

definition push_first ::
  "ptr option \<Rightarrow> bool \<Rightarrow> qListDescriptor \<Rightarrow> 'd \<Rightarrow> u32 \<Rightarrow> 'd lmem \<Rightarrow> (int \<times> qListDescriptor \<times> 'd lmem) exec" where
  "push_first a mok desc target sz m =
     (case q__List_new a m of
        (p, m) \<Rightarrow>
          if p = 0 then Done (-1, desc\<lparr>l_head := 0\<rparr>, m)
          else
            bind_exec (fill_node mok p target sz m) (\<lambda>(go, m).
            if \<not> go then Done (-1, desc\<lparr>l_head := p, l_tail := p\<rparr>, m)
            else Done (0, desc\<lparr>l_head := p, l_tail := p, l_count := l_count desc + 1\<rparr>, m)))"

definition q__List_push_back ::
  "ptr option \<Rightarrow> bool \<Rightarrow> qListDescriptor \<Rightarrow> 'd \<Rightarrow> u32 \<Rightarrow> 'd lmem \<Rightarrow> (int \<times> qListDescriptor \<times> 'd lmem) exec" where
  "q__List_push_back a mok desc target sz m =
     (if l_tail desc = 0 then push_first a mok desc target sz m
      else
        (case q__List_new a m of
           (p, m) \<Rightarrow>
             bind_exec (l_store m (l_tail desc) (\<lambda>n. n\<lparr>l_next := p\<rparr>)) (\<lambda>m.
             if p = 0 then Done (-1, desc, m)
             else
               bind_exec (l_store m p (\<lambda>n. n\<lparr>l_prev := l_tail desc\<rparr>)) (\<lambda>m.
               bind_exec (fill_node mok p target sz m) (\<lambda>(go, m).
               if \<not> go then Done (-1, desc, m)
               else Done (0, desc\<lparr>l_tail := p, l_count := l_count desc + 1\<rparr>, m))))))"

text \<open>After the allocation the code tests \<^verbatim>\<open>desc->head\<close>, which is not null here.\<close>

definition q__List_push_front ::
  "ptr option \<Rightarrow> bool \<Rightarrow> qListDescriptor \<Rightarrow> 'd \<Rightarrow> u32 \<Rightarrow> 'd lmem \<Rightarrow> (int \<times> qListDescriptor \<times> 'd lmem) exec" where
  "q__List_push_front a mok desc target sz m =
     (if l_tail desc = 0 then push_first a mok desc target sz m
      else
        (case q__List_new a m of
           (p, m) \<Rightarrow>
             bind_exec (l_store m (l_head desc) (\<lambda>n. n\<lparr>l_prev := p\<rparr>)) (\<lambda>m.
             if l_head desc = 0 then Done (-1, desc, m)
             else
               bind_exec (l_store m p (\<lambda>n. n\<lparr>l_next := l_head desc\<rparr>)) (\<lambda>m.
               bind_exec (fill_node mok p target sz m) (\<lambda>(go, m).
               if \<not> go then Done (-1, desc, m)
               else Done (0, desc\<lparr>l_head := p, l_count := l_count desc + 1\<rparr>, m))))))"

text \<open>The last element, in \<^verbatim>\<open>pop_back\<close> and \<^verbatim>\<open>pop_front\<close> alike.\<close>

definition pop_only :: "qListDescriptor \<Rightarrow> 'd lmem \<Rightarrow> (int \<times> qListDescriptor \<times> 'd lmem) exec" where
  "pop_only desc m =
     bind_exec (lfree m (l_tail desc)) (\<lambda>m.
     Done (0, desc\<lparr>l_tail := 0, l_head := 0, l_count := l_count desc - 1\<rparr>, m))"

definition q__List_pop_back :: "qListDescriptor \<Rightarrow> 'd lmem \<Rightarrow> (int \<times> qListDescriptor \<times> 'd lmem) exec" where
  "q__List_pop_back desc m =
     (if l_tail desc = 0 then Done (-1, desc, m\<lparr>lerr := ZHWK_ERR_LIST_EMPTY\<rparr>)
      else if l_tail desc = l_head desc then pop_only desc m
      else
        bind_exec (l_load m (l_tail desc)) (\<lambda>n.
        let tail = l_prev n in
        bind_exec (l_load m tail) (\<lambda>t.
        bind_exec (lfree m (l_next t)) (\<lambda>m.
        bind_exec (l_store m tail (\<lambda>n. n\<lparr>l_next := 0\<rparr>)) (\<lambda>m.
        Done (0, desc\<lparr>l_tail := tail, l_count := l_count desc - 1\<rparr>, m))))))"

definition q__List_pop_front :: "qListDescriptor \<Rightarrow> 'd lmem \<Rightarrow> (int \<times> qListDescriptor \<times> 'd lmem) exec" where
  "q__List_pop_front desc m =
     (if l_head desc = 0 then Done (-1, desc, m\<lparr>lerr := ZHWK_ERR_LIST_EMPTY\<rparr>)
      else if l_tail desc = l_head desc then pop_only desc m
      else
        bind_exec (l_load m (l_head desc)) (\<lambda>n.
        let head = l_next n in
        bind_exec (l_load m head) (\<lambda>h.
        bind_exec (lfree m (l_prev h)) (\<lambda>m.
        bind_exec (l_store m head (\<lambda>n. n\<lparr>l_prev := 0\<rparr>)) (\<lambda>m.
        Done (0, desc\<lparr>l_head := head, l_count := l_count desc - 1\<rparr>, m))))))"

definition q__List_swap_elem :: "ptr \<Rightarrow> ptr \<Rightarrow> 'd lmem \<Rightarrow> (int \<times> 'd lmem) exec" where
  "q__List_swap_elem a b m =
     bind_exec (l_load m a) (\<lambda>na.
     bind_exec (l_load m b) (\<lambda>nb.
     bind_exec (l_store m a (\<lambda>n. n\<lparr>l_data := l_data nb, l_size := l_size nb\<rparr>)) (\<lambda>m.
     bind_exec (l_store m b (\<lambda>n. n\<lparr>l_data := l_data na, l_size := l_size na\<rparr>)) (\<lambda>m.
     Done (0, m)))))"

text \<open>The data block is released, the node itself is not.\<close>

definition q__List_erase_elem ::
  "qListDescriptor \<Rightarrow> ptr \<Rightarrow> 'd lmem \<Rightarrow> (int \<times> qListDescriptor \<times> 'd lmem) exec" where
  "q__List_erase_elem desc a m =
     bind_exec (l_load m a) (\<lambda>n.
     bind_exec (if l_prev n \<noteq> 0 then l_store m (l_prev n) (\<lambda>q. q\<lparr>l_next := l_next n\<rparr>) else Done m) (\<lambda>m.
     bind_exec (if l_next n \<noteq> 0 then l_store m (l_next n) (\<lambda>q. q\<lparr>l_prev := l_prev n\<rparr>) else Done m) (\<lambda>m.
     let head = (if l_head desc = a then l_next n else l_head desc);
         tail = (if l_tail desc = a then l_prev n else l_tail desc)
     in bind_exec (l_store m a (\<lambda>q. q\<lparr>l_data := None\<rparr>)) (\<lambda>m.
        Done (0, desc\<lparr>l_head := head, l_tail := tail, l_count := l_count desc - 1\<rparr>, m)))))"

text \<open>\<open>None\<close> is a loop that does not end.\<close>

partial_function (option) destroy_loop :: "ptr \<Rightarrow> 'd lmem \<Rightarrow> ('d lmem exec) option" where
  "destroy_loop it m =
     (if it = 0 then Some (Done m)
      else
        (case l_load m it of
           Fault \<Rightarrow> Some Fault
         | Done n \<Rightarrow>
             (case lfree m it of
                Fault \<Rightarrow> Some Fault
              | Done m \<Rightarrow> destroy_loop (l_next n) m)))"

definition q__List_destructor ::
  "qListDescriptor \<Rightarrow> 'd lmem \<Rightarrow> ((int \<times> qListDescriptor \<times> 'd lmem) exec) option" where
  "q__List_destructor desc m =
     (case destroy_loop (l_head desc) m of
        None \<Rightarrow> None
      | Some Fault \<Rightarrow> Some Fault
      | Some (Done m) \<Rightarrow> Some (Done (0, desc\<lparr>l_head := 0, l_tail := 0, l_count := 0\<rparr>, m)))"

text \<open>
  \<^verbatim>\<open>q__List_islist\<close> on an object of \<open>sz\<close> bytes; \<^verbatim>\<open>sizeof(struct q__ListDescriptor)\<close> is 40. The magic
  number contains no zero byte, so that \<^verbatim>\<open>strncmp\<close> compares all of its ten bytes.
\<close>

definition sizeof_qListDescriptor :: u32 where
  "sizeof_qListDescriptor = 40"

definition q__List_islist :: "bytes \<Rightarrow> u32 \<Rightarrow> int" where
  "q__List_islist descriptor sz =
     (if sz < sizeof_qListDescriptor then 0
      else if take (length Q__LD_MAGIC) descriptor \<noteq> Q__LD_MAGIC then 0
      else 1)"

text \<open>The copy; \<open>as\<close> are the outcomes of the allocations for the new nodes, in order.\<close>

definition next_alloc :: "(ptr option \<times> bool) list \<Rightarrow> ptr option \<times> bool" where
  "next_alloc as = (case as of [] \<Rightarrow> (None, False) | a # _ \<Rightarrow> a)"

partial_function (option) copy_loop ::
  "(ptr option \<times> bool) list \<Rightarrow> ptr \<Rightarrow> qListDescriptor \<Rightarrow> 'd lmem \<Rightarrow> ((qListDescriptor \<times> 'd lmem) exec) option" where
  "copy_loop as it rdesc m =
     (if it = 0 then Some (Done (rdesc, m))
      else
        (case l_load m it of
           Fault \<Rightarrow> Some Fault
         | Done n \<Rightarrow>
             (case l_data n of
                None \<Rightarrow> Some Fault
              | Some d \<Rightarrow>
                  (case q__List_push_back (fst (next_alloc as)) (snd (next_alloc as)) rdesc d (l_size n) m of
                     Fault \<Rightarrow> Some Fault
                   | Done (r, rdesc, m) \<Rightarrow>
                       (case l_load m it of
                          Fault \<Rightarrow> Some Fault
                        | Done n \<Rightarrow> copy_loop (tl as) (l_next n) rdesc m)))))"

definition q__List_copy ::
  "(ptr option \<times> bool) list \<Rightarrow> qListDescriptor \<Rightarrow> 'd lmem \<Rightarrow> ((qListDescriptor \<times> 'd lmem) exec) option" where
  "q__List_copy as desc m = copy_loop as (l_head desc) qList_constructor m"

definition qList_begin :: "qListDescriptor \<Rightarrow> ptr" where
  "qList_begin desc = l_head desc"

definition qList_end :: "qListDescriptor \<Rightarrow> ptr" where
  "qList_end desc = l_tail desc"

definition qListIterator_prev :: "'d lmem \<Rightarrow> ptr \<Rightarrow> ptr exec" where
  "qListIterator_prev m iter = bind_exec (l_load m iter) (\<lambda>n. Done (l_prev n))"

definition qListIterator_next :: "'d lmem \<Rightarrow> ptr \<Rightarrow> ptr exec" where
  "qListIterator_next m iter = bind_exec (l_load m iter) (\<lambda>n. Done (l_next n))"

definition qListIterator_isvalid :: "ptr \<Rightarrow> bool" where
  "qListIterator_isvalid iter \<longleftrightarrow> iter \<noteq> 0"

definition qListIterator_deref :: "'d lmem \<Rightarrow> ptr \<Rightarrow> 'd option exec" where
  "qListIterator_deref m iter = bind_exec (l_load m iter) (\<lambda>n. Done (l_data n))"

end
