(* ===== verification/QListSpec.thy ===== *)
theory QListSpec
  imports QList
begin

text \<open>
  The abstract list a descriptor and the store stand for, and what the operations do to it: each one
  refines the operation on sequences and touches no node outside its list.
\<close>

section \<open>Segments\<close>

definition hd0 :: "ptr list \<Rightarrow> ptr \<Rightarrow> ptr" where
  "hd0 ps nx = (case ps of [] \<Rightarrow> nx | p # _ \<Rightarrow> p)"

definition last0 :: "ptr \<Rightarrow> ptr list \<Rightarrow> ptr" where
  "last0 pr ps = (if ps = [] then pr else last ps)"

lemma hd0_simps [simp]:
  "hd0 [] nx = nx" "hd0 (p # ps) nx = p" "hd0 (xs @ ys) nx = hd0 xs (hd0 ys nx)"
  by (auto simp: hd0_def split: list.split)

lemma last0_simps [simp]:
  "last0 pr [] = pr" "last0 pr (p # ps) = last0 p ps" "last0 pr (xs @ ys) = last0 (last0 pr xs) ys"
  by (auto simp: last0_def)

text \<open>The nodes \<open>ps\<close> in a row, linked both ways, between the node \<open>pr\<close> before and \<open>nx\<close> after them.\<close>

primrec seg :: "(ptr \<Rightarrow> 'd q__List option) \<Rightarrow> ptr \<Rightarrow> ptr list \<Rightarrow> ptr \<Rightarrow> bool" where
  "seg h pr [] nx \<longleftrightarrow> True"
| "seg h pr (p # ps) nx \<longleftrightarrow> p \<noteq> 0 \<and> (\<exists>n. h p = Some n \<and> l_prev n = pr \<and> l_next n = hd0 ps nx) \<and> seg h p ps nx"

lemma seg_append [simp]: "seg h pr (xs @ ys) nx \<longleftrightarrow> seg h pr xs (hd0 ys nx) \<and> seg h (last0 pr xs) ys nx"
  by (induction xs arbitrary: pr) auto

lemma seg_cong: "(\<And>p. p \<in> set ps \<Longrightarrow> h' p = h p) \<Longrightarrow> seg h' pr ps nx = seg h pr ps nx"
  by (induction ps arbitrary: pr) auto

lemma seg_upd [simp]: "p \<notin> set ps \<Longrightarrow> seg (h(p := v)) pr ps nx = seg h pr ps nx"
  by (rule seg_cong) auto

lemma seg_nonnull: "seg h pr ps nx \<Longrightarrow> 0 \<notin> set ps"
  by (induction ps arbitrary: pr) auto

lemma seg_live: "seg h pr ps nx \<Longrightarrow> p \<in> set ps \<Longrightarrow> h p \<noteq> None"
  by (induction ps arbitrary: pr) auto

section \<open>Lists\<close>

definition cell :: "(ptr \<Rightarrow> 'd q__List option) \<Rightarrow> ptr \<Rightarrow> ('d option \<times> u32) option" where
  "cell h p = map_option (\<lambda>n. (l_data n, l_size n)) (h p)"

definition full :: "'d \<times> u32 \<Rightarrow> ('d option \<times> u32) option" where
  "full x = Some (Some (fst x), snd x)"

text \<open>
  The descriptor \<open>d\<close> has the nodes \<open>ps\<close>, in this order, and they hold the elements \<open>xs\<close> with their
  sizes.
\<close>

definition list_holds :: "'d lmem \<Rightarrow> qListDescriptor \<Rightarrow> ptr list \<Rightarrow> ('d \<times> u32) list \<Rightarrow> bool" where
  "list_holds m d ps xs \<longleftrightarrow> seg (nodes m) 0 ps 0 \<and> distinct ps \<and> l_head d = hd0 ps 0 \<and> l_tail d = last0 0 ps
     \<and> l_count d = of_nat (length ps) \<and> map (cell (nodes m)) ps = map full xs"

text \<open>Two stores that agree outside the given nodes.\<close>

definition agree_off :: "ptr set \<Rightarrow> 'd lmem \<Rightarrow> 'd lmem \<Rightarrow> bool" where
  "agree_off S m m' \<longleftrightarrow> (\<forall>p. p \<notin> S \<longrightarrow> nodes m' p = nodes m p)"

lemma cell_upd [simp]: "p \<notin> set ps \<Longrightarrow> map (cell (h(p := v))) ps = map (cell h) ps"
  by (auto simp: cell_def)

lemma cell_simps [simp]: "h p = Some n \<Longrightarrow> cell h p = Some (l_data n, l_size n)"
  by (simp add: cell_def)

lemma cell_new [simp]: "cell (h(p := Some n)) p = Some (l_data n, l_size n)"
  by (simp add: cell_def)

lemma list_holds_empty [simp]: "list_holds m qList_constructor [] []"
  by (simp add: list_holds_def qList_constructor_def)

lemma list_holds_length: "list_holds m d ps xs \<Longrightarrow> length ps = length xs"
  by (metis list_holds_def length_map)

lemma list_holds_cell:
  assumes "list_holds m d ps xs" and "i < length xs"
  shows "cell (nodes m) (ps ! i) = full (xs ! i)"
proof -
  have "map (cell (nodes m)) ps ! i = map full xs ! i"
    using assms(1) by (simp add: list_holds_def)
  then show ?thesis
    using assms(2) list_holds_length [OF assms(1)] by simp
qed

lemma list_holds_frame: "list_holds m d ps xs \<Longrightarrow> agree_off S m m' \<Longrightarrow> set ps \<inter> S = {} \<Longrightarrow> list_holds m' d ps xs"
proof -
  assume a: "list_holds m d ps xs" "agree_off S m m'" "set ps \<inter> S = {}"
  then have "\<And>p. p \<in> set ps \<Longrightarrow> nodes m' p = nodes m p"
    by (auto simp: agree_off_def)
  then have "seg (nodes m') 0 ps 0 = seg (nodes m) 0 ps 0" "map (cell (nodes m')) ps = map (cell (nodes m)) ps"
    by (auto intro!: seg_cong simp: cell_def)
  then show ?thesis
    using a(1) unfolding list_holds_def by argo
qed

lemmas list_ops_defs = q__List_new_def l_store_def l_load_def lfree_def fill_node_def push_first_def pop_only_def

section \<open>Insertion\<close>

lemma push_back_holds:
  assumes "list_holds m d ps xs" and "nodes m a = None" and "a \<noteq> 0"
  shows "\<exists>d' m'. q__List_push_back (Some a) True d x sz m = Done (0, d', m') \<and> list_holds m' d' (ps @ [a]) (xs @ [(x, sz)])
    \<and> agree_off (insert a (set ps)) m m' \<and> lerr m' = lerr m"
proof (cases ps rule: rev_cases)
  case Nil
  then show ?thesis
    using assms by (simp add: list_holds_def q__List_push_back_def list_ops_defs agree_off_def full_def)
next
  case (snoc qs t)
  then have 1: "seg (nodes m) 0 qs t" "t \<noteq> 0" "t \<notin> set qs" "distinct qs" "l_tail d = t" "l_head d = hd0 ps 0"
    "l_count d = of_nat (length ps)" "map (cell (nodes m)) (qs @ [t]) = map full xs"
    using assms(1) by (auto simp: list_holds_def)
  obtain n where n: "nodes m t = Some n" "l_prev n = last0 0 qs" "l_next n = 0"
    using assms(1) snoc by (auto simp: list_holds_def)
  have a: "a \<noteq> t" "a \<notin> set qs"
    using assms(2) n seg_live [OF 1(1), of a] by auto
  show ?thesis
    using 1 n a snoc assms(3)
    by (auto simp: list_holds_def q__List_push_back_def list_ops_defs agree_off_def full_def)
qed

lemma push_front_holds:
  assumes "list_holds m d ps xs" and "nodes m a = None" and "a \<noteq> 0"
  shows "\<exists>d' m'. q__List_push_front (Some a) True d x sz m = Done (0, d', m') \<and> list_holds m' d' (a # ps) ((x, sz) # xs)
    \<and> agree_off (insert a (set ps)) m m' \<and> lerr m' = lerr m"
proof (cases ps)
  case Nil
  then show ?thesis
    using assms by (simp add: list_holds_def q__List_push_front_def list_ops_defs agree_off_def full_def)
next
  case (Cons t qs)
  then have 1: "seg (nodes m) t qs 0" "t \<noteq> 0" "t \<notin> set qs" "distinct qs" "l_tail d = last0 t qs" "l_head d = t"
    "l_count d = of_nat (length ps)" "map (cell (nodes m)) (t # qs) = map full xs"
    using assms(1) by (auto simp: list_holds_def)
  obtain n where n: "nodes m t = Some n" "l_prev n = 0" "l_next n = hd0 qs 0"
    using assms(1) Cons by (auto simp: list_holds_def)
  have a: "a \<noteq> t" "a \<notin> set qs"
    using assms(2) n seg_live [OF 1(1), of a] by auto
  have "last0 t qs \<noteq> 0"
    using 1(2) seg_nonnull [OF 1(1)] by (metis last0_def last_in_set)
  then show ?thesis
    using 1 n a Cons assms(3)
    by (auto simp: list_holds_def q__List_push_front_def list_ops_defs agree_off_def full_def)
qed

section \<open>Removal\<close>

lemma pop_back_holds:
  assumes "list_holds m d (ps @ [t]) (xs @ [x])"
  shows "\<exists>d' m'. q__List_pop_back d m = Done (0, d', m') \<and> list_holds m' d' ps xs
    \<and> agree_off (insert t (set ps)) m m' \<and> nodes m' t = None \<and> lerr m' = lerr m"
proof (cases ps rule: rev_cases)
  case Nil
  then show ?thesis
    using assms by (auto simp: list_holds_def q__List_pop_back_def list_ops_defs agree_off_def)
next
  case (snoc qs s)
  then have 1: "seg (nodes m) 0 qs s" "t \<noteq> 0" "s \<noteq> 0" "s \<notin> set qs" "t \<notin> set qs" "t \<noteq> s" "distinct qs"
    "l_tail d = t" "l_head d = hd0 qs s" "l_count d = of_nat (length (ps @ [t]))"
    "map (cell (nodes m)) (qs @ [s]) = map full xs"
    using assms by (auto simp: list_holds_def)
  obtain n where n: "nodes m s = Some n" "l_prev n = last0 0 qs" "l_next n = t"
    using assms snoc by (auto simp: list_holds_def)
  obtain k where k: "nodes m t = Some k" "l_prev k = s"
    using assms snoc by (auto simp: list_holds_def)
  have "hd0 qs s \<noteq> t"
    using 1 by (cases qs) auto
  then show ?thesis
    using 1 n k snoc
    by (auto simp: list_holds_def q__List_pop_back_def list_ops_defs agree_off_def Let_def)
qed

lemma pop_front_holds:
  assumes "list_holds m d (t # ps) (x # xs)"
  shows "\<exists>d' m'. q__List_pop_front d m = Done (0, d', m') \<and> list_holds m' d' ps xs
    \<and> agree_off (insert t (set ps)) m m' \<and> nodes m' t = None \<and> lerr m' = lerr m"
proof (cases ps)
  case Nil
  then show ?thesis
    using assms by (auto simp: list_holds_def q__List_pop_front_def list_ops_defs agree_off_def)
next
  case (Cons s qs)
  then have 1: "seg (nodes m) s qs 0" "t \<noteq> 0" "s \<noteq> 0" "s \<notin> set qs" "t \<notin> set qs" "t \<noteq> s" "distinct qs"
    "l_tail d = last0 s qs" "l_head d = t" "l_count d = of_nat (length (t # ps))"
    "map (cell (nodes m)) (s # qs) = map full xs"
    using assms by (auto simp: list_holds_def)
  obtain n where n: "nodes m s = Some n" "l_prev n = t" "l_next n = hd0 qs 0"
    using assms Cons by (auto simp: list_holds_def)
  obtain k where k: "nodes m t = Some k" "l_next k = s"
    using assms Cons by (auto simp: list_holds_def)
  have "last0 s qs \<noteq> t"
    using 1(5,6) last_in_set [of qs] by (auto simp: last0_def)
  then show ?thesis
    using 1 n k Cons
    by (auto simp: list_holds_def q__List_pop_front_def list_ops_defs agree_off_def Let_def)
qed

lemma pop_empty:
  assumes "list_holds m d [] xs"
  shows "q__List_pop_back d m = Done (-1, d, m\<lparr>lerr := ZHWK_ERR_LIST_EMPTY\<rparr>)"
    "q__List_pop_front d m = Done (-1, d, m\<lparr>lerr := ZHWK_ERR_LIST_EMPTY\<rparr>)"
  using assms by (simp_all add: list_holds_def q__List_pop_back_def q__List_pop_front_def)

text \<open>
  The element in the middle: its node is unlinked but stays allocated.
\<close>

lemma erase_elem_holds:
  assumes "list_holds m d (qs @ a # rs) (us @ x # vs)" and "length qs = length us"
  shows "\<exists>d' m'. q__List_erase_elem d a m = Done (0, d', m') \<and> list_holds m' d' (qs @ rs) (us @ vs)
    \<and> agree_off (insert a (set qs \<union> set rs)) m m' \<and> nodes m' a \<noteq> None \<and> lerr m' = lerr m"
proof -
  have 1: "seg (nodes m) 0 qs a" "seg (nodes m) a rs 0" "a \<noteq> 0" "a \<notin> set qs" "a \<notin> set rs" "distinct qs" "distinct rs"
    "set qs \<inter> set rs = {}" "l_tail d = last0 a rs" "l_head d = hd0 qs a"
    "l_count d = of_nat (length (qs @ a # rs))"
    using assms by (auto simp: list_holds_def)
  have 2: "map (cell (nodes m)) qs = map full us" "map (cell (nodes m)) rs = map full vs"
    using assms by (auto simp: list_holds_def)
  obtain n where n: "nodes m a = Some n" "l_prev n = last0 0 qs" "l_next n = hd0 rs 0"
    using assms by (auto simp: list_holds_def)
  have h: "(if l_head d = a then hd0 rs 0 else l_head d) = hd0 (qs @ rs) 0"
    using 1(4,10) by (cases qs) auto
  have t: "(if l_tail d = a then last0 0 qs else l_tail d) = last0 0 (qs @ rs)"
    using 1(5,9) last_in_set [of rs] by (auto simp: last0_def)
  show ?thesis
  proof (cases qs rule: rev_cases)
    case Nil
    note q = this
    show ?thesis
    proof (cases rs)
      case Nil
      then show ?thesis
        using 1 2 n q
        by (auto simp: list_holds_def q__List_erase_elem_def list_ops_defs agree_off_def Let_def)
    next
      case (Cons r rs')
      then obtain k where k: "nodes m r = Some k" "l_next k = hd0 rs' 0" "r \<noteq> 0"
        using 1(2) by auto
      then show ?thesis
        using 1 2 n q Cons t
        by (auto simp: list_holds_def q__List_erase_elem_def list_ops_defs agree_off_def Let_def)
    qed
  next
    case (snoc qs' q)
    note q = this
    then obtain j where j: "nodes m q = Some j" "l_prev j = last0 0 qs'" "q \<noteq> 0"
      using 1(1) by auto
    show ?thesis
    proof (cases rs)
      case Nil
      then show ?thesis
        using 1 2 n q j h t
        by (auto simp: list_holds_def q__List_erase_elem_def list_ops_defs agree_off_def Let_def)
    next
      case (Cons r rs')
      then obtain k where k: "nodes m r = Some k" "l_next k = hd0 rs' 0" "r \<noteq> 0"
        using 1(2) by auto
      then show ?thesis
        using 1 2 n q j Cons h t
        by (auto simp: list_holds_def q__List_erase_elem_def list_ops_defs agree_off_def Let_def)
    qed
  qed
qed

lemma nonempty_split: "length ps = Suc k \<Longrightarrow> \<exists>qs q. ps = qs @ [q]"
  by (metis Zero_not_Suc list.size(3) rev_exhaust)

section \<open>Exchange\<close>

definition links :: "'d q__List \<Rightarrow> ptr \<times> ptr" where
  "links n = (l_prev n, l_next n)"

lemma seg_links:
  "(\<And>p. p \<in> set ps \<Longrightarrow> map_option links (h' p) = map_option links (h p)) \<Longrightarrow> seg h pr ps nx \<Longrightarrow> seg h' pr ps nx"
proof (induction ps arbitrary: pr)
  case (Cons p ps)
  from Cons.prems(2) obtain n where n: "h p = Some n" "l_prev n = pr" "l_next n = hd0 ps nx"
    by auto
  with Cons.prems(1) [of p] obtain k where "h' p = Some k" "links k = links n"
    by auto
  then show ?case
    using Cons n by (simp add: links_def)
qed simp

lemma swap_elem_holds:
  assumes "list_holds m d ps xs" and "i < length ps" and "j < length ps"
  shows "\<exists>m'. q__List_swap_elem (ps ! i) (ps ! j) m = Done (0, m') \<and> list_holds m' d ps (xs[i := xs ! j, j := xs ! i])
    \<and> agree_off (set ps) m m' \<and> lerr m' = lerr m"
proof -
  let ?a = "ps ! i" and ?b = "ps ! j"
  have H: "seg (nodes m) 0 ps 0" "distinct ps" "l_head d = hd0 ps 0" "l_tail d = last0 0 ps"
      "l_count d = of_nat (length ps)" "map (cell (nodes m)) ps = map full xs" "length xs = length ps"
    using assms(1) list_holds_length [OF assms(1)] by (auto simp: list_holds_def)
  have in_ps: "?a \<in> set ps" "?b \<in> set ps"
    using assms(2,3) by auto
  obtain na nb where n: "nodes m ?a = Some na" "nodes m ?b = Some nb"
    using seg_live [OF H(1)] in_ps by blast
  define a' where "a' = na\<lparr>l_data := l_data nb, l_size := l_size nb\<rparr>"
  define b' where "b' = (if ?a = ?b then a' else nb)\<lparr>l_data := l_data na, l_size := l_size na\<rparr>"
  define m' where "m' = m\<lparr>nodes := (nodes m)(?a \<mapsto> a', ?b \<mapsto> b')\<rparr>"
  have sw: "q__List_swap_elem ?a ?b m = Done (0, m')"
    using n by (auto simp: q__List_swap_elem_def l_load_def l_store_def m'_def a'_def b'_def)
  have sg: "seg (nodes m') 0 ps 0"
    by (rule seg_links [OF _ H(1)]) (use n in \<open>auto simp: m'_def a'_def b'_def links_def\<close>)
  have c: "cell (nodes m) ?a = full (xs ! i)" "cell (nodes m) ?b = full (xs ! j)"
    using list_holds_cell [OF assms(1)] H(7) assms(2,3) by auto
  have "cell (nodes m') (ps ! k) = full (xs[i := xs ! j, j := xs ! i] ! k)" if "k < length ps" for k
  proof -
    consider "k = j" | "k = i" "i \<noteq> j" | "k \<noteq> i" "k \<noteq> j" by blast
    then show ?thesis
    proof cases
      case 3
      then have "ps ! k \<noteq> ?a" "ps ! k \<noteq> ?b"
        using H(2) assms(2,3) that by (auto simp: nth_eq_iff_index_eq)
      then show ?thesis
        using 3 that H(7) list_holds_cell [OF assms(1), of k] by (simp add: m'_def cell_def)
    qed (use n c H(2,7) assms(2,3) in \<open>auto simp: m'_def a'_def b'_def nth_eq_iff_index_eq\<close>)
  qed
  then have "map (cell (nodes m')) ps = map full (xs[i := xs ! j, j := xs ! i])"
    using H(7) by (simp add: list_eq_iff_nth_eq)
  then show ?thesis
    using sw sg H in_ps by (auto simp: list_holds_def agree_off_def m'_def)
qed

section \<open>Walking\<close>

lemma seg_nth:
  "seg h pr ps nx \<Longrightarrow> i < length ps \<Longrightarrow>
   \<exists>n. h (ps ! i) = Some n \<and> l_prev n = (if i = 0 then pr else ps ! (i - 1)) \<and> l_next n = (if Suc i < length ps then ps ! Suc i else nx)"
proof (induction ps arbitrary: pr i)
  case (Cons p ps)
  show ?case
  proof (cases i)
    case 0
    then show ?thesis
      using Cons.prems by (cases ps) auto
  next
    case (Suc j)
    then show ?thesis
      using Cons.IH [of p j] Cons.prems by (auto simp: nth_Cons split: nat.split)
  qed
qed simp

lemma iterator_at:
  assumes "list_holds m d ps xs" and "i < length xs"
  shows "qListIterator_isvalid (ps ! i)" "qListIterator_deref m (ps ! i) = Done (Some (fst (xs ! i)))"
    "qListIterator_next m (ps ! i) = Done (if Suc i < length xs then ps ! Suc i else 0)"
    "qListIterator_prev m (ps ! i) = Done (if i = 0 then 0 else ps ! (i - 1))"
proof -
  have H: "seg (nodes m) 0 ps 0" "map (cell (nodes m)) ps = map full xs" "length ps = length xs"
    using assms(1) list_holds_length [OF assms(1)] by (auto simp: list_holds_def)
  obtain n where n: "nodes m (ps ! i) = Some n" "l_prev n = (if i = 0 then 0 else ps ! (i - 1))"
      "l_next n = (if Suc i < length ps then ps ! Suc i else 0)"
    using seg_nth [OF H(1)] assms(2) H(3) by auto
  have "cell (nodes m) (ps ! i) = full (xs ! i)"
    using list_holds_cell [OF assms] .
  then have "l_data n = Some (fst (xs ! i))"
    using n(1) by (simp add: full_def)
  moreover have "ps ! i \<noteq> 0"
    using seg_nonnull [OF H(1)] H(3) assms(2) by (metis nth_mem)
  ultimately show "qListIterator_isvalid (ps ! i)" "qListIterator_deref m (ps ! i) = Done (Some (fst (xs ! i)))"
    "qListIterator_next m (ps ! i) = Done (if Suc i < length xs then ps ! Suc i else 0)"
    "qListIterator_prev m (ps ! i) = Done (if i = 0 then 0 else ps ! (i - 1))"
    using n H(3)
    by (auto simp: qListIterator_isvalid_def qListIterator_deref_def qListIterator_next_def qListIterator_prev_def l_load_def)
qed

text \<open>Following \<^verbatim>\<open>next\<close> \<open>k\<close> times.\<close>

primrec walk :: "nat \<Rightarrow> 'd lmem \<Rightarrow> ptr \<Rightarrow> ptr exec" where
  "walk 0 m it = Done it"
| "walk (Suc k) m it = bind_exec (qListIterator_next m it) (walk k m)"

lemma walk_from:
  "list_holds m d ps xs \<Longrightarrow> i + k < length xs \<Longrightarrow> walk k m (ps ! i) = Done (ps ! (i + k))"
proof (induction k arbitrary: i)
  case (Suc k)
  then show ?case
    using Suc.IH [of "Suc i"] by (simp add: iterator_at(3))
qed simp

lemma walk_begin:
  assumes "list_holds m d ps xs" and "k < length xs"
  shows "walk k m (qList_begin d) = Done (ps ! k)"
proof -
  have "qList_begin d = ps ! 0"
    using assms list_holds_length [OF assms(1)] by (cases ps) (auto simp: list_holds_def qList_begin_def)
  then show ?thesis
    using walk_from [OF assms(1), of 0 k] assms(2) by simp
qed

section \<open>Destruction and copy\<close>

lemma destroy_loop_seg:
  "seg (nodes m) pr ps 0 \<Longrightarrow> distinct ps \<Longrightarrow>
   \<exists>m'. destroy_loop (hd0 ps 0) m = Some (Done m') \<and> (\<forall>p. nodes m' p = (if p \<in> set ps then None else nodes m p))
     \<and> lerr m' = lerr m"
proof (induction ps arbitrary: m pr)
  case Nil
  then show ?case
    by (simp add: destroy_loop.simps)
next
  case (Cons p ps)
  define m1 where "m1 = m\<lparr>nodes := (nodes m)(p := None)\<rparr>"
  from Cons.prems obtain n where n: "nodes m p = Some n" "l_next n = hd0 ps 0" "p \<noteq> 0" "p \<notin> set ps"
    by auto
  have "seg (nodes m1) p ps 0"
    using Cons.prems n by (simp add: m1_def)
  then obtain m' where m': "destroy_loop (hd0 ps 0) m1 = Some (Done m')"
      "\<forall>q. nodes m' q = (if q \<in> set ps then None else nodes m1 q)" "lerr m' = lerr m1"
    using Cons.IH Cons.prems(2) by (metis distinct.simps(2))
  have "destroy_loop p m = destroy_loop (hd0 ps 0) m1"
    using n by (subst destroy_loop.simps) (simp add: l_load_def lfree_def m1_def)
  then show ?case
    using m' n(4) by (auto simp: m1_def)
qed

lemma destructor_holds:
  assumes "list_holds m d ps xs"
  shows "\<exists>d' m'. q__List_destructor d m = Some (Done (0, d', m')) \<and> list_holds m' d' [] []
    \<and> (\<forall>p. nodes m' p = (if p \<in> set ps then None else nodes m p))"
  using destroy_loop_seg [of m 0 ps] assms
  by (auto simp: list_holds_def q__List_destructor_def)

lemma copy_loop_holds:
  "list_holds m d (qs @ ps) (us @ xs) \<Longrightarrow> length qs = length us \<Longrightarrow> list_holds m r rs ys \<Longrightarrow>
   set rs \<inter> set (qs @ ps) = {} \<Longrightarrow> distinct as \<Longrightarrow> \<forall>a \<in> set as. a \<noteq> 0 \<and> nodes m a = None \<Longrightarrow> length as = length xs \<Longrightarrow>
   \<exists>r' m'. copy_loop (map (\<lambda>a. (Some a, True)) as) (hd0 ps 0) r m = Some (Done (r', m'))
     \<and> list_holds m' r' (rs @ as) (ys @ xs) \<and> list_holds m' d (qs @ ps) (us @ xs)"
proof (induction as arbitrary: qs ps us xs r rs ys m)
  case Nil
  then have "ps = []"
    using list_holds_length [OF Nil.prems(1)] by auto
  then show ?case
    using Nil by (simp add: copy_loop.simps)
next
  case (Cons a as)
  then obtain x xs' where xs: "xs = x # xs'"
    by (cases xs) auto
  then obtain p ps' where ps: "ps = p # ps'"
    using list_holds_length [OF Cons.prems(1)] Cons.prems(2) by (cases ps) auto
  have a: "a \<noteq> 0" "nodes m a = None" "a \<notin> set as"
    using Cons.prems by auto
  obtain n where n: "nodes m p = Some n" "l_next n = hd0 ps' 0" "p \<noteq> 0" "l_data n = Some (fst x)" "l_size n = snd x"
    using Cons.prems(1,2) ps xs by (auto simp: list_holds_def full_def)
  obtain r1 m1 where p1: "q__List_push_back (Some a) True r (fst x) (snd x) m = Done (0, r1, m1)"
      "list_holds m1 r1 (rs @ [a]) (ys @ [x])" "agree_off (insert a (set rs)) m m1"
    using push_back_holds [OF Cons.prems(3) a(2,1)] by force
  have live: "\<forall>q \<in> set (qs @ ps). nodes m q \<noteq> None"
    using Cons.prems(1) seg_live by (metis list_holds_def)
  have off: "set (qs @ ps) \<inter> insert a (set rs) = {}"
    using Cons.prems(4) live a(2) by (metis Int_insert_right_if0 inf_commute)
  have d1: "list_holds m1 d ((qs @ [p]) @ ps') ((us @ [x]) @ xs')"
    using list_holds_frame [OF Cons.prems(1) p1(3) off] ps xs by simp
  have "nodes m1 p = Some n"
    using p1(3) off n(1) ps by (auto simp: agree_off_def)
  then have step: "copy_loop (map (\<lambda>a. (Some a, True)) (a # as)) (hd0 ps 0) r m
      = copy_loop (map (\<lambda>a. (Some a, True)) as) (hd0 ps' 0) r1 m1"
    using n p1(1) ps by (subst copy_loop.simps) (simp add: l_load_def next_alloc_def)
  have "\<forall>b \<in> set as. b \<noteq> 0 \<and> nodes m1 b = None"
  proof
    fix b assume b: "b \<in> set as"
    have "b \<notin> insert a (set rs)"
      using Cons.prems(3,6) b a(3) seg_live by (metis insert_iff list.set_intros(2) list_holds_def)
    then show "b \<noteq> 0 \<and> nodes m1 b = None"
      using p1(3) Cons.prems(6) b by (auto simp: agree_off_def)
  qed
  then show ?case
    using Cons.IH [OF d1 _ p1(2)] Cons.prems step off ps xs by auto
qed

lemma copy_holds:
  assumes "list_holds m d ps xs" and "distinct as" and "\<forall>a \<in> set as. a \<noteq> 0 \<and> nodes m a = None"
    and "length as = length xs"
  shows "\<exists>r m'. q__List_copy (map (\<lambda>a. (Some a, True)) as) d m = Some (Done (r, m'))
    \<and> list_holds m' r as xs \<and> list_holds m' d ps xs"
proof -
  have "l_head d = hd0 ps 0"
    using assms(1) by (simp add: list_holds_def)
  then show ?thesis
    using copy_loop_holds [of m d "[]" ps "[]" xs qList_constructor "[]" "[]" as] assms
    by (simp add: q__List_copy_def)
qed

end
