(* ===== verification/Refine.thy ===== *)
theory Refine
  imports Prelude
begin

text \<open>
  Data refinement, once for all containers: a step of the program either simulates the step of the
  abstract value or is outside the contract, and then whole histories agree.
\<close>

primrec run :: "('op \<Rightarrow> 's \<Rightarrow> ('r \<times> 's) exec) \<Rightarrow> 'op list \<Rightarrow> 's \<Rightarrow> ('r list \<times> 's) exec" where
  "run step [] s = Done ([], s)"
| "run step (op # ops) s =
     bind_exec (step op s) (\<lambda>(r, s). bind_exec (run step ops s) (\<lambda>(rs, s). Done (r # rs, s)))"

text \<open>The abstract history; \<open>None\<close> when an operation is called outside its contract.\<close>

primrec arun :: "('op \<Rightarrow> 'x \<Rightarrow> ('r \<times> 'x) option) \<Rightarrow> 'op list \<Rightarrow> 'x \<Rightarrow> ('r list \<times> 'x) option" where
  "arun astep [] x = Some ([], x)"
| "arun astep (op # ops) x =
     (case astep op x of
        None \<Rightarrow> None
      | Some (r, x) \<Rightarrow> map_option (\<lambda>(rs, x). (r # rs, x)) (arun astep ops x))"

locale refinement =
  fixes step :: "'op \<Rightarrow> 's \<Rightarrow> ('r \<times> 's) exec"
    and astep :: "'op \<Rightarrow> 'x \<Rightarrow> ('r \<times> 'x) option"
    and rel :: "'s \<Rightarrow> 'x \<Rightarrow> bool"
  assumes sim: "rel s x \<Longrightarrow> astep op x = Some (r, x') \<Longrightarrow> \<exists>s'. step op s = Done (r, s') \<and> rel s' x'"
begin

lemma run_sim:
  "rel s x \<Longrightarrow> arun astep ops x = Some (rs, x') \<Longrightarrow> \<exists>s'. run step ops s = Done (rs, s') \<and> rel s' x'"
proof (induction ops arbitrary: s x rs)
  case (Cons op ops)
  from Cons.prems(2) obtain r x1 rs1 where a: "astep op x = Some (r, x1)" "arun astep ops x1 = Some (rs1, x')" "rs = r # rs1"
    by (auto split: option.splits)
  obtain s1 where s1: "step op s = Done (r, s1)" "rel s1 x1"
    using sim [OF Cons.prems(1) a(1)] by blast
  obtain s2 where "run step ops s1 = Done (rs1, s2)" "rel s2 x'"
    using Cons.IH [OF s1(2) a(2)] by blast
  then show ?case
    using s1(1) a(3) by simp
qed simp

end

end
