(* ===== verification/QListProps.thy ===== *)
theory QListProps
  imports QListSpec Refine
begin

text \<open>
  The linked list as a sequence: histories of operations on a descriptor agree with the same
  operations on a list, for every allocator that returns unused addresses.
\<close>

section \<open>Histories\<close>

datatype 'd list_op =
    Push_back 'd u32
  | Push_front 'd u32
  | Pop_back
  | Pop_front
  | Erase nat
  | Swap nat nat

text \<open>
  One call on the descriptor; \<open>al\<close> is the allocator. The position in \<open>Erase\<close> and \<open>Swap\<close> is reached
  from \<^verbatim>\<open>qList_begin\<close> with \<^verbatim>\<open>qListIterator_next\<close>.
\<close>

fun list_step ::
  "('d lmem \<Rightarrow> ptr) \<Rightarrow> 'd list_op \<Rightarrow> qListDescriptor \<times> 'd lmem \<Rightarrow> (int \<times> qListDescriptor \<times> 'd lmem) exec" where
  "list_step al (Push_back x sz) (d, m) = q__List_push_back (Some (al m)) True d x sz m"
| "list_step al (Push_front x sz) (d, m) = q__List_push_front (Some (al m)) True d x sz m"
| "list_step al Pop_back (d, m) = q__List_pop_back d m"
| "list_step al Pop_front (d, m) = q__List_pop_front d m"
| "list_step al (Erase i) (d, m) =
     bind_exec (walk i m (qList_begin d)) (\<lambda>a. q__List_erase_elem d a m)"
| "list_step al (Swap i j) (d, m) =
     bind_exec (walk i m (qList_begin d)) (\<lambda>a.
     bind_exec (walk j m (qList_begin d)) (\<lambda>b.
     bind_exec (q__List_swap_elem a b m) (\<lambda>(r, m). Done (r, d, m))))"

fun seq_step :: "'d list_op \<Rightarrow> ('d \<times> u32) list \<Rightarrow> (int \<times> ('d \<times> u32) list) option" where
  "seq_step (Push_back x sz) xs = Some (0, xs @ [(x, sz)])"
| "seq_step (Push_front x sz) xs = Some (0, (x, sz) # xs)"
| "seq_step Pop_back xs = Some (if xs = [] then -1 else 0, butlast xs)"
| "seq_step Pop_front xs = Some (if xs = [] then -1 else 0, tl xs)"
| "seq_step (Erase i) xs = (if i < length xs then Some (0, take i xs @ drop (Suc i) xs) else None)"
| "seq_step (Swap i j) xs =
     (if i < length xs \<and> j < length xs then Some (0, xs[i := xs ! j, j := xs ! i]) else None)"

definition list_rel :: "qListDescriptor \<times> 'd lmem \<Rightarrow> ('d \<times> u32) list \<Rightarrow> bool" where
  "list_rel s xs \<longleftrightarrow> finite (dom (nodes (snd s))) \<and> (\<exists>ps. list_holds (snd s) (fst s) ps xs)"

lemma list_relI:
  "finite (dom (nodes m)) \<Longrightarrow> agree_off S m m' \<Longrightarrow> finite S \<Longrightarrow> list_holds m' d' ps xs \<Longrightarrow> list_rel (d', m') xs"
proof -
  assume a: "finite (dom (nodes m))" "agree_off S m m'" "finite S" "list_holds m' d' ps xs"
  have "dom (nodes m') \<subseteq> dom (nodes m) \<union> S"
    using a(2) by (auto simp: agree_off_def dom_def)
  then have "finite (dom (nodes m'))"
    using a(1,3) by (meson finite_UnI finite_subset)
  then show ?thesis
    using a(4) by (auto simp: list_rel_def)
qed

section \<open>The contract of the allocator\<close>

locale allocator =
  fixes al :: "'d lmem \<Rightarrow> ptr"
  assumes al_fresh: "finite (dom (nodes m)) \<Longrightarrow> al m \<noteq> 0 \<and> nodes m (al m) = None"
begin

lemma list_step_sim:
  assumes "list_rel s xs" and "seq_step op xs = Some (r, xs')"
  shows "\<exists>s'. list_step al op s = Done (r, s') \<and> list_rel s' xs'"
proof -
  obtain d m where s: "s = (d, m)"
    by (cases s)
  then obtain ps where fin: "finite (dom (nodes m))" and H: "list_holds m d ps xs"
    using assms(1) by (auto simp: list_rel_def)
  note len = list_holds_length [OF H]
  note fresh = al_fresh [OF fin]
  note rel = list_relI [OF fin]
  show ?thesis
  proof (cases op)
    case (Push_back x sz)
    then show ?thesis
      using push_back_holds [OF H, of "al m" x sz] fresh rel assms(2) s by fastforce
  next
    case (Push_front x sz)
    then show ?thesis
      using push_front_holds [OF H, of "al m" x sz] fresh rel assms(2) s by fastforce
  next
    case Pop_back
    show ?thesis
    proof (cases xs rule: rev_cases)
      case Nil
      then have "list_rel (d, m\<lparr>lerr := ZHWK_ERR_LIST_EMPTY\<rparr>) []"
        using H fin len by (auto simp: list_rel_def list_holds_def)
      then show ?thesis
        using Nil Pop_back assms(2) H len pop_empty(1) [of m d "[]"] s by simp
    next
      case (snoc ys y)
      then obtain qs q where "ps = qs @ [q]"
        using len nonempty_split by (metis length_append_singleton)
      then show ?thesis
        using snoc Pop_back assms(2) H pop_back_holds [of m d qs q ys y] rel s by fastforce
    qed
  next
    case Pop_front
    show ?thesis
    proof (cases xs)
      case Nil
      then have "list_rel (d, m\<lparr>lerr := ZHWK_ERR_LIST_EMPTY\<rparr>) []"
        using H fin len by (auto simp: list_rel_def list_holds_def)
      then show ?thesis
        using Nil Pop_front assms(2) H len pop_empty(2) [of m d "[]"] s by simp
    next
      case (Cons y ys)
      then obtain q qs where "ps = q # qs"
        using len by (cases ps) auto
      then show ?thesis
        using Cons Pop_front assms(2) H pop_front_holds [of m d q qs y ys] rel s by fastforce
    qed
  next
    case (Erase i)
    then have i: "i < length xs" "r = 0" "xs' = take i xs @ drop (Suc i) xs"
      using assms(2) by (auto split: if_splits)
    then have "list_holds m d (take i ps @ ps ! i # drop (Suc i) ps) (take i xs @ xs ! i # drop (Suc i) xs)"
      using H len by (simp add: id_take_nth_drop [symmetric])
    from erase_elem_holds [OF this] show ?thesis
      using i len walk_begin [OF H i(1)] Erase rel s by fastforce
  next
    case (Swap i j)
    then have ij: "i < length xs" "j < length xs" "r = 0" "xs' = xs[i := xs ! j, j := xs ! i]"
      using assms(2) by (auto split: if_splits)
    from swap_elem_holds [OF H, of i j] show ?thesis
      using ij len walk_begin [OF H ij(1)] walk_begin [OF H ij(2)] Swap rel s by fastforce
  qed
qed

end

sublocale allocator \<subseteq> lists: refinement "list_step al" seq_step list_rel
  by unfold_locales (rule list_step_sim)

context allocator
begin

lemma list_history:
  "finite (dom (nodes m0)) \<Longrightarrow> arun seq_step ops [] = Some (rs, xs) \<Longrightarrow>
   \<exists>d m ps. run (list_step al) ops (qList_constructor, m0) = Done (rs, d, m) \<and> list_holds m d ps xs"
proof -
  assume a: "finite (dom (nodes m0))" "arun seq_step ops [] = Some (rs, xs)"
  have "list_rel (qList_constructor, m0) []"
    using a(1) by (auto simp: list_rel_def intro: exI [of _ "[]"])
  from lists.run_sim [OF this a(2)] show ?thesis
    by (auto simp: list_rel_def)
qed

end

text \<open>An allocator that returns the first unused address meets the contract.\<close>

definition first_free :: "'d lmem \<Rightarrow> ptr" where
  "first_free m = (LEAST p. p \<noteq> 0 \<and> nodes m p = None)"

lemma first_free_fresh:
  assumes "finite (dom (nodes m))"
  shows "first_free m \<noteq> 0 \<and> nodes m (first_free m) = None"
proof -
  have "infinite (- insert 0 (dom (nodes m)))"
    using assms by (simp add: Compl_eq_Diff_UNIV)
  then obtain p where "p \<noteq> 0 \<and> nodes m p = None"
    by (metis (mono_tags, lifting) ComplD Compl_iff domIff ex_in_conv finite.emptyI insertCI)
  then show ?thesis
    unfolding first_free_def by (rule LeastI)
qed

interpretation first_free: allocator first_free
  by unfold_locales (rule first_free_fresh)

section \<open>Properties\<close>

text \<open>
  C23: with an allocator that returns unused addresses, any history of pushes, pops, removals and
  exchanges, starting with an empty list, gives the results and leaves the elements that the same
  history on a sequence gives, in a doubly linked list whose size is right.
\<close>

theorem list_refines_sequence:
  assumes "\<forall>m. finite (dom (nodes m)) \<longrightarrow> al m \<noteq> 0 \<and> nodes m (al m) = None"
    and "finite (dom (nodes m0))" and "arun seq_step ops [] = Some (rs, xs)"
  shows "\<exists>d m ps. run (list_step al) ops (qList_constructor, m0) = Done (rs, d, m) \<and> list_holds m d ps xs"
proof -
  have "allocator al"
    using assms(1) by unfold_locales auto
  then show ?thesis
    using assms(2,3) by (rule allocator.list_history)
qed

definition mem0 :: "'d lmem" where
  "mem0 = \<lparr>nodes = (\<lambda>p. None), lerr = 0\<rparr>"

theorem list_refines_sequence_witness:
  "\<exists>d m ps. run (list_step first_free)
       [Push_back 1 4, Push_back 2 4, Push_front (3 :: nat) 4, Swap 0 2, Erase 1, Pop_back, Pop_back, Pop_front]
       (qList_constructor, mem0) = Done ([0, 0, 0, 0, 0, 0, 0, -1], d, m) \<and> list_holds m d ps []"
proof -
  have "\<forall>m :: nat lmem. finite (dom (nodes m)) \<longrightarrow> first_free m \<noteq> 0 \<and> nodes m (first_free m) = None"
    using first_free_fresh by blast
  then show ?thesis
    by (rule list_refines_sequence) (simp_all add: mem0_def)
qed

text \<open>
  A copy holds the same elements in nodes of its own: after the original is destroyed, with all
  its nodes released, the copy is as it was.
\<close>

lemma list_copy_independent:
  assumes "list_holds m d ps xs" and "distinct as" and "\<forall>a \<in> set as. a \<noteq> 0 \<and> nodes m a = None"
    and "length as = length xs"
  shows "\<exists>r m1 d2 m2. q__List_copy (map (\<lambda>a. (Some a, True)) as) d m = Some (Done (r, m1))
    \<and> list_holds m1 r as xs \<and> list_holds m1 d ps xs
    \<and> q__List_destructor d m1 = Some (Done (0, d2, m2)) \<and> list_holds m2 d2 [] []
    \<and> (\<forall>p \<in> set ps. nodes m2 p = None) \<and> list_holds m2 r as xs"
proof -
  obtain r m1 where c: "q__List_copy (map (\<lambda>a. (Some a, True)) as) d m = Some (Done (r, m1))"
      "list_holds m1 r as xs" "list_holds m1 d ps xs"
    using copy_holds [OF assms] by blast
  obtain d2 m2 where e: "q__List_destructor d m1 = Some (Done (0, d2, m2))" "list_holds m2 d2 [] []"
      "\<forall>p. nodes m2 p = (if p \<in> set ps then None else nodes m1 p)"
    using destructor_holds [OF c(3)] by blast
  have "set as \<inter> set ps = {}"
    using assms(1,3) seg_live by (fastforce simp: list_holds_def)
  moreover have "agree_off (set ps) m1 m2"
    using e(3) by (simp add: agree_off_def)
  ultimately have "list_holds m2 r as xs"
    using list_holds_frame [OF c(2)] by blast
  then show ?thesis
    using c e by auto
qed

definition mem1 :: "nat lmem" where
  "mem1 = \<lparr>nodes = [8 \<mapsto> \<lparr>l_data = Some 1, l_size = 4, l_prev = 0, l_next = 16\<rparr>,
                    16 \<mapsto> \<lparr>l_data = Some 2, l_size = 4, l_prev = 8, l_next = 0\<rparr>], lerr = 0\<rparr>"

definition desc1 :: qListDescriptor where
  "desc1 = \<lparr>ldmagic = Q__LD_MAGIC, l_head = 8, l_tail = 16, l_count = 2\<rparr>"

lemma mem1_holds: "list_holds mem1 desc1 [8, 16] [(1, 4), (2, 4)]"
  by (simp add: list_holds_def mem1_def desc1_def full_def)

lemma list_copy_independent_witness:
  "\<exists>r m1 d2 m2. q__List_copy [(Some 24, True), (Some 32, True)] desc1 mem1 = Some (Done (r, m1))
    \<and> q__List_destructor desc1 m1 = Some (Done (0, d2, m2)) \<and> list_holds m2 r [24, 32] [(1, 4), (2, 4)]"
  using list_copy_independent [OF mem1_holds, of "[24, 32]"] by (auto simp: mem1_def)

end
