(* ===== verification/BubbleSort.thy ===== *)
theory BubbleSort
  imports QListProps "HOL-Library.Multiset"
begin

text \<open>
  \<^verbatim>\<open>zhwkre/alg.h\<close> and \<^verbatim>\<open>zhwkre/algorithm/bubble_sort.c\<close>: bubble sort on the linked list. The comparator
  is a parameter; it is given what it can see of the two nodes, their data and size. A loop that does
  not end is \<open>None\<close>.
\<close>

section \<open>Model\<close>

type_synonym 'd comparator_fn = "'d option \<times> u32 \<Rightarrow> 'd option \<times> u32 \<Rightarrow> int"

text \<open>The \<^verbatim>\<open>for\<close> loop from the node \<open>it\<close> on; the flag says whether it was left by \<^verbatim>\<open>break\<close>.\<close>

partial_function (option) bubble_scan ::
  "'d comparator_fn \<Rightarrow> ptr \<Rightarrow> 'd lmem \<Rightarrow> ((bool \<times> 'd lmem) exec) option" where
  "bubble_scan cmpr it m =
     (case l_load m it of
        Fault \<Rightarrow> Some Fault
      | Done n \<Rightarrow>
          (if l_next n = 0 then Some (Done (False, m))
           else
             (case l_load m (l_next n) of
                Fault \<Rightarrow> Some Fault
              | Done k \<Rightarrow>
                  (if cmpr (l_data n, l_size n) (l_data k, l_size k) \<noteq> 0 then
                     (case q__List_swap_elem it (l_next n) m of
                        Fault \<Rightarrow> Some Fault
                      | Done (r, m) \<Rightarrow> Some (Done (True, m)))
                   else bubble_scan cmpr (l_next n) m))))"

partial_function (option) bubble_sort ::
  "'d comparator_fn \<Rightarrow> qListDescriptor \<Rightarrow> 'd lmem \<Rightarrow> ('d lmem exec) option" where
  "bubble_sort cmpr desc m =
     (case bubble_scan cmpr (l_head desc) m of
        None \<Rightarrow> None
      | Some Fault \<Rightarrow> Some Fault
      | Some (Done (swapped, m)) \<Rightarrow> if swapped then bubble_sort cmpr desc m else Some (Done m))"

section \<open>Passes over a sequence\<close>

definition gt :: "'d comparator_fn \<Rightarrow> 'd \<times> u32 \<Rightarrow> 'd \<times> u32 \<Rightarrow> bool" where
  "gt cmpr x y \<longleftrightarrow> cmpr (Some (fst x), snd x) (Some (fst y), snd y) \<noteq> 0"

text \<open>The sequence after the first exchange, if there is one.\<close>

fun bpass :: "('x \<Rightarrow> 'x \<Rightarrow> bool) \<Rightarrow> 'x list \<Rightarrow> 'x list option" where
  "bpass g (x # y # zs) = (if g x y then Some (y # x # zs) else map_option (Cons x) (bpass g (y # zs)))"
| "bpass g xs = None"

fun inversions :: "('x \<Rightarrow> 'x \<Rightarrow> bool) \<Rightarrow> 'x list \<Rightarrow> nat" where
  "inversions g [] = 0"
| "inversions g (x # xs) = length (filter (g x) xs) + inversions g xs"

lemma bpass_mset: "bpass g xs = Some ys \<Longrightarrow> mset ys = mset xs"
  by (induction g xs arbitrary: ys rule: bpass.induct) (auto split: if_splits)

lemma filter_length_mset: "mset ys = mset xs \<Longrightarrow> length (filter P ys) = length (filter P xs)"
  by (metis mset_filter size_mset)

lemma bpass_inversions:
  "(\<And>x y. g x y \<Longrightarrow> \<not> g y x) \<Longrightarrow> bpass g xs = Some ys \<Longrightarrow> inversions g ys < inversions g xs"
proof (induction xs arbitrary: ys rule: induct_list012)
  case (3 x y zs)
  show ?case
  proof (cases "g x y")
    case True
    then show ?thesis
      using 3 by auto
  next
    case False
    then obtain us where us: "bpass g (y # zs) = Some us" "ys = x # us"
      using 3(4) by auto
    then show ?thesis
      using 3(2) [OF 3(3) us(1)] filter_length_mset [OF bpass_mset [OF us(1)], of "g x"] by simp
  qed
qed simp_all

lemma bpass_None_sorted:
  assumes "\<And>x y z. \<not> g x y \<Longrightarrow> \<not> g y z \<Longrightarrow> \<not> g x z"
  shows "bpass g xs = None \<Longrightarrow> sorted_wrt (\<lambda>x y. \<not> g x y) xs"
proof (induction xs rule: induct_list012)
  case (3 x y zs)
  then have "sorted_wrt (\<lambda>x y. \<not> g x y) (y # zs)" "\<not> g x y"
    by (auto split: if_splits)
  then show ?case
    using assms by auto
qed simp_all

text \<open>A pass that is to leave two different elements alone must find an order, not just a difference.\<close>

lemma sorted_wrt_symp:
  "sorted_wrt P xs \<Longrightarrow> (\<And>x y. P x y \<Longrightarrow> P y x) \<Longrightarrow> x \<in> set xs \<Longrightarrow> y \<in> set xs \<Longrightarrow> x \<noteq> y \<Longrightarrow> P x y"
  by (induction xs) auto

lemma bpass_three_way:
  assumes "\<And>x y. g x y \<Longrightarrow> g y x" and "\<And>x y z. \<not> g x y \<Longrightarrow> \<not> g y z \<Longrightarrow> \<not> g x z"
    and "x \<in> set xs" and "y \<in> set xs" and "x \<noteq> y" and "g x y"
  shows "bpass g xs \<noteq> None"
proof
  assume "bpass g xs = None"
  then have "sorted_wrt (\<lambda>x y. \<not> g x y) xs"
    using assms(2) by (intro bpass_None_sorted)
  from sorted_wrt_symp [OF this _ assms(3-5)] have "\<not> g x y"
    using assms(1) by blast
  then show False
    using assms(6) by simp
qed

section \<open>The loops on the store\<close>

lemma bubble_scan_holds:
  "list_holds m d (qs @ p # ps) (us @ x # xs) \<Longrightarrow> length qs = length us \<Longrightarrow>
   \<exists>m'. bubble_scan cmpr p m = Some (Done (bpass (gt cmpr) (x # xs) \<noteq> None, m'))
     \<and> list_holds m' d (qs @ p # ps) (us @ (case bpass (gt cmpr) (x # xs) of None \<Rightarrow> x # xs | Some ys \<Rightarrow> ys))"
proof (induction xs arbitrary: qs p ps us x)
  case Nil
  then have "ps = []"
    using list_holds_length [OF Nil(1)] by simp
  then show ?case
    using Nil by (subst bubble_scan.simps) (auto simp: list_holds_def l_load_def)
next
  case (Cons y zs)
  then obtain q rs where ps: "ps = q # rs"
    using list_holds_length [OF Cons.prems(1)] by (cases ps) auto
  obtain n k where n: "nodes m p = Some n" "l_next n = q" "q \<noteq> 0" "nodes m q = Some k"
      "l_data n = Some (fst x)" "l_size n = snd x" "l_data k = Some (fst y)" "l_size k = snd y"
    using Cons.prems ps by (auto simp: list_holds_def full_def)
  have g: "cmpr (l_data n, l_size n) (l_data k, l_size k) \<noteq> 0 \<longleftrightarrow> gt cmpr x y"
    using n by (simp add: gt_def)
  show ?case
  proof (cases "gt cmpr x y")
    case True
    let ?xs = "us @ x # y # zs"
    have len: "length qs < length (qs @ p # ps)" "Suc (length qs) < length (qs @ p # ps)"
      using ps by simp_all
    have pos: "(qs @ p # ps) ! length qs = p" "(qs @ p # ps) ! Suc (length qs) = q"
      using ps by (simp_all add: nth_append)
    have "?xs[length qs := ?xs ! Suc (length qs), Suc (length qs) := ?xs ! length qs] = us @ y # x # zs"
      using Cons.prems(2) by (simp add: list_update_append nth_append)
    then obtain m' where "q__List_swap_elem p q m = Done (0, m')" "list_holds m' d (qs @ p # ps) (us @ y # x # zs)"
      using swap_elem_holds [OF Cons.prems(1) len] pos by auto
    then show ?thesis
      using True g n by (subst bubble_scan.simps) (simp add: l_load_def)
  next
    case False
    have "list_holds m d ((qs @ [p]) @ q # rs) ((us @ [x]) @ y # zs)"
      using Cons.prems(1) ps by simp
    from Cons.IH [OF this] obtain m' where
      m': "bubble_scan cmpr q m = Some (Done (bpass (gt cmpr) (y # zs) \<noteq> None, m'))"
        "list_holds m' d (qs @ p # ps) (us @ x # (case bpass (gt cmpr) (y # zs) of None \<Rightarrow> y # zs | Some ys \<Rightarrow> ys))"
      using Cons.prems(2) ps by auto
    have "bubble_scan cmpr p m = bubble_scan cmpr q m"
      using False g n by (subst bubble_scan.simps) (simp add: l_load_def)
    then show ?thesis
      using m' False by (auto split: option.splits)
  qed
qed

lemma bubble_scan_head:
  assumes "list_holds m d ps xs" and "xs \<noteq> []"
  obtains m' where "bubble_scan cmpr (l_head d) m = Some (Done (bpass (gt cmpr) xs \<noteq> None, m'))"
    "list_holds m' d ps (case bpass (gt cmpr) xs of None \<Rightarrow> xs | Some ys \<Rightarrow> ys)"
proof -
  obtain x zs p qs where "xs = x # zs" "ps = p # qs"
    using assms list_holds_length [OF assms(1)] by (cases xs; cases ps) auto
  moreover have "l_head d = p" if "ps = p # qs"
    using assms(1) that by (simp add: list_holds_def)
  ultimately show ?thesis
    using bubble_scan_holds [of m d "[]" p qs "[]" x zs cmpr] assms that by auto
qed

section \<open>Properties\<close>

text \<open>
  C26: with a comparator that answers non-zero exactly on pairs in the wrong order of a strict weak
  order, bubble sort of a list that is not empty ends and leaves a sorted permutation in the same nodes.
  (The empty list is the subject of \<open>bubble_sort_empty\<close>.)
\<close>

theorem bubble_sort_sorts:
  assumes "list_holds m d ps xs" and "xs \<noteq> []"
    and "\<forall>x y. gt cmpr x y \<longrightarrow> \<not> gt cmpr y x"
    and "\<forall>x y z. \<not> gt cmpr x y \<longrightarrow> \<not> gt cmpr y z \<longrightarrow> \<not> gt cmpr x z"
  shows "\<exists>m' ys. bubble_sort cmpr d m = Some (Done m') \<and> list_holds m' d ps ys \<and> mset ys = mset xs
    \<and> sorted_wrt (\<lambda>x y. \<not> gt cmpr x y) ys"
  using assms(1,2)
proof (induction "inversions (gt cmpr) xs" arbitrary: m xs rule: less_induct)
  case less
  obtain m1 where m1: "bubble_scan cmpr (l_head d) m = Some (Done (bpass (gt cmpr) xs \<noteq> None, m1))"
      "list_holds m1 d ps (case bpass (gt cmpr) xs of None \<Rightarrow> xs | Some ys \<Rightarrow> ys)"
    using bubble_scan_head [OF less.prems] by blast
  show ?case
  proof (cases "bpass (gt cmpr) xs")
    case None
    then have "bubble_sort cmpr d m = Some (Done m1)"
      using m1(1) by (subst bubble_sort.simps) simp
    moreover have "sorted_wrt (\<lambda>x y. \<not> gt cmpr x y) xs"
      using None assms(4) by (intro bpass_None_sorted) auto
    ultimately show ?thesis
      using None m1(2) by auto
  next
    case (Some ys)
    have ms: "mset ys = mset xs"
      using bpass_mset [OF Some] .
    have "inversions (gt cmpr) ys < inversions (gt cmpr) xs"
      using Some assms(3) by (intro bpass_inversions) auto
    moreover have "list_holds m1 d ps ys" "ys \<noteq> []"
      using m1(2) Some ms less.prems(2) by auto
    ultimately obtain m' zs where "bubble_sort cmpr d m1 = Some (Done m')" "list_holds m' d ps zs"
        "mset zs = mset ys" "sorted_wrt (\<lambda>x y. \<not> gt cmpr x y) zs"
      using less.hyps by blast
    moreover have "bubble_sort cmpr d m = bubble_sort cmpr d m1"
      using m1(1) Some by (subst bubble_sort.simps) simp
    ultimately show ?thesis
      using ms by auto
  qed
qed

text \<open>The comparator the sort is meant for: 1 when the first number is larger.\<close>

definition larger :: "nat comparator_fn" where
  "larger x y = (case (fst x, fst y) of (Some a, Some b) \<Rightarrow> if a > b then 1 else 0 | _ \<Rightarrow> 0)"

lemma gt_larger: "gt larger x y \<longleftrightarrow> fst x > fst y"
  by (simp add: gt_def larger_def)

definition mem21 :: "nat lmem" where
  "mem21 = \<lparr>nodes = [8 \<mapsto> \<lparr>l_data = Some 2, l_size = 4, l_prev = 0, l_next = 16\<rparr>,
                     16 \<mapsto> \<lparr>l_data = Some 1, l_size = 4, l_prev = 8, l_next = 0\<rparr>], lerr = 0\<rparr>"

lemma mem21_holds: "list_holds mem21 desc1 [8, 16] [(2, 4), (1, 4)]"
  by (simp add: list_holds_def mem21_def desc1_def full_def)

theorem bubble_sort_sorts_witness:
  "\<exists>m' ys. bubble_sort larger desc1 mem21 = Some (Done m') \<and> list_holds m' desc1 [8, 16] ys
    \<and> mset ys = {#(2, 4), (1, 4)#} \<and> sorted_wrt (\<lambda>x y. fst x \<le> fst y) ys"
  using bubble_sort_sorts [OF mem21_holds, of larger] by (auto simp: gt_larger not_less)

text \<open>
  C27: the code tests the comparator for non-zero, not for positive. With a comparator that answers 0 exactly
  on equivalent elements and something else, positive or negative, on all others, as the interface allows, the
  sort of any list that holds two elements which are not equivalent never ends, however many equivalent ones
  there are beside them.
\<close>

theorem bubble_sort_three_way_diverges:
  assumes "list_holds m d ps xs"
    and "\<forall>x y. gt cmpr x y \<longrightarrow> gt cmpr y x"
    and "\<forall>x y z. \<not> gt cmpr x y \<longrightarrow> \<not> gt cmpr y z \<longrightarrow> \<not> gt cmpr x z"
    and "\<exists>x \<in> set xs. \<exists>y \<in> set xs. x \<noteq> y \<and> gt cmpr x y"
  shows "bubble_sort cmpr d m = None"
proof -
  let ?bad = "\<lambda>m. \<exists>ys. list_holds m d ps ys \<and> mset ys = mset xs"
  let ?P = "\<lambda>c d' m (r :: 'a lmem exec). c = cmpr \<longrightarrow> d' = d \<longrightarrow> \<not> ?bad m"
  have "?P cmpr d m r" if "bubble_sort cmpr d m = Some r" for r
  proof (rule bubble_sort.raw_induct [where P = ?P, OF _ that], intro impI notI, elim exE conjE)
    fix f c d' m ys and r :: "'a lmem exec"
    assume IH: "\<And>c d' m r. f c d' m = Some r \<Longrightarrow> ?P c d' m r"
      and eq: "(case bubble_scan c (l_head d') m of
          None \<Rightarrow> None
        | Some Fault \<Rightarrow> Some Fault
        | Some (Done (swapped, m)) \<Rightarrow> if swapped then f c d' m else Some (Done m)) = Some r"
      and c: "c = cmpr" "d' = d"
      and ys: "list_holds m d ps ys" "mset ys = mset xs"
    have "set ys = set xs"
      using ys(2) by (rule mset_eq_setD)
    then obtain x y where xy: "x \<in> set ys" "y \<in> set ys" "x \<noteq> y" "gt cmpr x y"
      using assms(4) by blast
    have "bpass (gt cmpr) ys \<noteq> None"
      using assms(2,3) by (intro bpass_three_way [of "gt cmpr", OF _ _ xy]) blast+
    then obtain zs where zs: "bpass (gt cmpr) ys = Some zs"
      by blast
    have "ys \<noteq> []"
      using xy by auto
    from bubble_scan_head [OF ys(1) this, of cmpr] zs obtain m1 where
      m1: "bubble_scan cmpr (l_head d) m = Some (Done (True, m1))" "list_holds m1 d ps zs"
      by auto
    then have "f cmpr d m1 = Some r"
      using eq c by simp
    moreover have "?bad m1"
      using m1(2) bpass_mset [OF zs] ys(2) by auto
    ultimately show False
      using IH by blast
  qed
  then show ?thesis
    using assms(1) by (metis not_None_eq)
qed

definition three_way :: "nat comparator_fn" where
  "three_way x y = (case (fst x, fst y) of (Some a, Some b) \<Rightarrow> int a - int b | _ \<Rightarrow> 0)"

lemma gt_three_way: "gt three_way x y \<longleftrightarrow> fst x \<noteq> fst y"
  by (simp add: gt_def three_way_def)

text \<open>The list 1, 1, 2.\<close>

definition mem112 :: "nat lmem" where
  "mem112 = \<lparr>nodes = [8 \<mapsto> \<lparr>l_data = Some 1, l_size = 4, l_prev = 0, l_next = 16\<rparr>,
                      16 \<mapsto> \<lparr>l_data = Some 1, l_size = 4, l_prev = 8, l_next = 24\<rparr>,
                      24 \<mapsto> \<lparr>l_data = Some 2, l_size = 4, l_prev = 16, l_next = 0\<rparr>], lerr = 0\<rparr>"

definition desc112 :: qListDescriptor where
  "desc112 = \<lparr>ldmagic = Q__LD_MAGIC, l_head = 8, l_tail = 24, l_count = 3\<rparr>"

lemma mem112_holds: "list_holds mem112 desc112 [8, 16, 24] [(1, 4), (1, 4), (2, 4)]"
  by (simp add: list_holds_def mem112_def desc112_def full_def)

theorem bubble_sort_three_way_diverges_witness: "bubble_sort three_way desc112 mem112 = None"
  using bubble_sort_three_way_diverges [OF mem112_holds, of three_way] by (auto simp: gt_three_way)

text \<open>The empty list is not sorted either: the code reads \<^verbatim>\<open>desc->head->next\<close>.\<close>

lemma bubble_sort_empty:
  assumes "list_holds m d [] xs" and "nodes m 0 = None"
  shows "bubble_sort cmpr d m = Some Fault"
proof -
  have "bubble_scan cmpr (l_head d) m = Some Fault"
    using assms by (subst bubble_scan.simps) (simp add: list_holds_def l_load_def)
  then show ?thesis
    by (subst bubble_sort.simps) simp
qed

end
