(* ===== verification/UMap.thy ===== *)
theory UMap
  imports QListProps
begin

text \<open>
  \<^verbatim>\<open>zhwkre/unordered_map.h\<close> and \<^verbatim>\<open>zhwkre/containers/unordered_map.c\<close>: the hash map, an array of linked
  lists of key and value blocks, with the hash function of \<^verbatim>\<open>zhwkre/serialization/serialization.c\<close>. The
  hash function is a parameter, as it is an argument in the code. An object passed with its size is a
  list of bytes of that length. Loops over a list are \<open>None\<close> when they do not end.
\<close>

section \<open>Model\<close>

record qMapData =
  md_key :: bytes
  md_value :: bytes
  md_keylen :: int
  md_valuelen :: int

record qMap =
  listArray :: "qListDescriptor list"
  maxlength :: u32
  counts :: u32

text \<open>A failed allocation leaves a null \<^verbatim>\<open>listArray\<close>, in which no index is valid.\<close>

definition qMap_constructor :: "bool \<Rightarrow> u32 \<Rightarrow> qMap" where
  "qMap_constructor mok maxhashv =
     \<lparr>listArray = (if mok then replicate (unat maxhashv) qList_constructor else []),
      maxlength = maxhashv, counts = 0\<rparr>"

text \<open>\<open>None\<close>: one of the two pointers is null.\<close>

definition q__MapData_constructor :: "bool \<Rightarrow> bool \<Rightarrow> bytes \<Rightarrow> bytes \<Rightarrow> qMapData option" where
  "q__MapData_constructor mok1 mok2 key value =
     (if \<not> mok1 \<or> \<not> mok2 then None
      else Some \<lparr>md_key = key, md_value = value, md_keylen = int (length key), md_valuelen = int (length value)\<rparr>)"

definition sizeof_qMapData :: u32 where
  "sizeof_qMapData = 24"

definition qMap_size :: "qMap \<Rightarrow> u32" where
  "qMap_size thas = counts thas"

definition list_at :: "qMap \<Rightarrow> nat \<Rightarrow> qListDescriptor exec" where
  "list_at thas h = (if h < length (listArray thas) then Done (listArray thas ! h) else Fault)"

text \<open>
  The loop all three operations start with: the first node whose key agrees with the given one on its
  \<^verbatim>\<open>keysize\<close> bytes, or the null pointer. A stored key with fewer bytes is read past its end.
\<close>

partial_function (option) find_key :: "bytes \<Rightarrow> ptr \<Rightarrow> qMapData lmem \<Rightarrow> (ptr exec) option" where
  "find_key key it m =
     (if it = 0 then Some (Done 0)
      else
        (case l_load m it of
           Fault \<Rightarrow> Some Fault
         | Done n \<Rightarrow>
             (case l_data n of
                None \<Rightarrow> Some Fault
              | Some md \<Rightarrow>
                  (if length (md_key md) < length key then Some Fault
                   else if take (length key) (md_key md) = key then Some (Done it)
                   else find_key key (l_next n) m))))"

definition bind_loop :: "('a exec) option \<Rightarrow> ('a \<Rightarrow> ('b exec) option) \<Rightarrow> ('b exec) option" where
  "bind_loop x f = (case x of None \<Rightarrow> None | Some Fault \<Rightarrow> Some Fault | Some (Done y) \<Rightarrow> f y)"

text \<open>
  The outcome of \<^verbatim>\<open>q__List_push_back\<close> is not looked at. \<open>a\<close> and \<open>mok\<close> are the outcomes of its
  allocations, \<open>mok1\<close> and \<open>mok2\<close> those for key and value.
\<close>

definition q__Map_insert ::
  "ptr option \<Rightarrow> bool \<Rightarrow> bool \<Rightarrow> bool \<Rightarrow> qMap \<Rightarrow> bytes \<Rightarrow> bytes \<Rightarrow> (bytes \<Rightarrow> nat) \<Rightarrow> qMapData lmem
     \<Rightarrow> ((int \<times> qMap \<times> qMapData lmem) exec) option" where
  "q__Map_insert a mok mok1 mok2 thas key value hashf m =
     bind_loop (Some (list_at thas (hashf key))) (\<lambda>referred_list.
     bind_loop (find_key key (l_head referred_list) m) (\<lambda>it.
     if it \<noteq> 0 then
       bind_loop (Some (l_load m it)) (\<lambda>n.
       case l_data n of
         None \<Rightarrow> Some Fault
       | Some md \<Rightarrow>
           (case memcpy (md_value md) 0 value (length value) of
              None \<Rightarrow> Some Fault
            | Some v \<Rightarrow>
                bind_loop (Some (l_store m it (\<lambda>n. n\<lparr>l_data := Some (md\<lparr>md_value := v\<rparr>)\<rparr>))) (\<lambda>m.
                Some (Done (0, thas, m)))))
     else
       (case q__MapData_constructor mok1 mok2 key value of
          None \<Rightarrow> Some (Done (-1, thas, m))
        | Some tmpmpd \<Rightarrow>
            bind_loop (Some (q__List_push_back a mok referred_list tmpmpd sizeof_qMapData m)) (\<lambda>(r, d, m).
            Some (Done (0, thas\<lparr>listArray := (listArray thas)[hashf key := d], counts := counts thas + 1\<rparr>, m))))))"

definition q__Map_erase ::
  "qMap \<Rightarrow> bytes \<Rightarrow> (bytes \<Rightarrow> nat) \<Rightarrow> qMapData lmem \<Rightarrow> ((int \<times> qMap \<times> qMapData lmem) exec) option" where
  "q__Map_erase thas key hashf m =
     bind_loop (Some (list_at thas (hashf key))) (\<lambda>referred_list.
     bind_loop (find_key key (l_head referred_list) m) (\<lambda>it.
     if it \<noteq> 0 then
       bind_loop (Some (q__List_erase_elem referred_list it m)) (\<lambda>(r, d, m).
       Some (Done (0, thas\<lparr>listArray := (listArray thas)[hashf key := d], counts := counts thas - 1\<rparr>, m)))
     else Some (Done (-1, thas, m))))"

text \<open>\<open>None\<close> is the null pointer.\<close>

definition q__Map_ptr_at ::
  "qMap \<Rightarrow> bytes \<Rightarrow> (bytes \<Rightarrow> nat) \<Rightarrow> qMapData lmem \<Rightarrow> (qMapData option exec) option" where
  "q__Map_ptr_at thas key hashf m =
     bind_loop (Some (list_at thas (hashf key))) (\<lambda>referred_list.
     bind_loop (find_key key (l_head referred_list) m) (\<lambda>it.
     if it \<noteq> 0 then bind_loop (Some (l_load m it)) (\<lambda>n. Some (Done (l_data n)))
     else Some (Done None)))"

text \<open>
  \<^verbatim>\<open>q__Map_clear\<close>; the blocks of keys and values are part of the nodes' data and go with them.
\<close>

primrec clear_lists :: "qListDescriptor list \<Rightarrow> qMapData lmem \<Rightarrow> ((qListDescriptor list \<times> qMapData lmem) exec) option" where
  "clear_lists [] m = Some (Done ([], m))"
| "clear_lists (d # ds) m =
     (if l_count d = 0 then bind_loop (clear_lists ds m) (\<lambda>(ds, m). Some (Done (d # ds, m)))
      else
        bind_loop (q__List_destructor d m) (\<lambda>(r, d, m).
        bind_loop (clear_lists ds m) (\<lambda>(ds, m). Some (Done (d # ds, m)))))"

definition q__Map_clear :: "qMap \<Rightarrow> qMapData lmem \<Rightarrow> ((int \<times> qMap \<times> qMapData lmem) exec) option" where
  "q__Map_clear thas m =
     bind_loop (clear_lists (listArray thas) m) (\<lambda>(ds, m).
     Some (Done (0, thas\<lparr>listArray := ds, counts := 0\<rparr>, m)))"

text \<open>\<^verbatim>\<open>q__uhashf\<close>, the hash function of the serialization.\<close>

primrec uhash_loop :: "bytes \<Rightarrow> u32 \<Rightarrow> u32" where
  "uhash_loop [] tmpr = tmpr"
| "uhash_loop (c # cs) tmpr = uhash_loop cs ((tmpr + ucast c) * 131)"

definition q__uhashf :: "bytes \<Rightarrow> nat" where
  "q__uhashf str = unat (uhash_loop str 0 mod 131)"

lemma bind_loop_simps [simp]:
  "bind_loop None f = None" "bind_loop (Some Fault) f = Some Fault" "bind_loop (Some (Done x)) f = f x"
  by (simp_all add: bind_loop_def)

section \<open>Buckets\<close>

definition keys_of :: "(qMapData \<times> u32) list \<Rightarrow> bytes list" where
  "keys_of xs = map (md_key \<circ> fst) xs"

definition kvs :: "(qMapData \<times> u32) list \<Rightarrow> (bytes \<times> bytes) list" where
  "kvs xs = map (\<lambda>x. (md_key (fst x), md_value (fst x))) xs"

lemma kvs_simps [simp]:
  "kvs [] = []" "kvs (x # xs) = (md_key (fst x), md_value (fst x)) # kvs xs" "kvs (xs @ ys) = kvs xs @ kvs ys"
  "keys_of [] = []" "keys_of (x # xs) = md_key (fst x) # keys_of xs" "keys_of (xs @ ys) = keys_of xs @ keys_of ys"
  "map fst (kvs xs) = keys_of xs"
  by (simp_all add: kvs_def keys_of_def comp_def)

lemma set_fst_kvs [simp]: "fst ` set (kvs xs) = set (keys_of xs)"
  by (metis kvs_simps(7) set_map)

lemma find_key_absent:
  "seg (nodes m) pr ps 0 \<Longrightarrow> map (cell (nodes m)) ps = map full xs \<Longrightarrow> \<forall>x \<in> set xs. length (md_key (fst x)) = length key \<Longrightarrow>
   key \<notin> set (keys_of xs) \<Longrightarrow> find_key key (hd0 ps 0) m = Some (Done 0)"
proof (induction ps arbitrary: pr xs)
  case (Cons p ps)
  then obtain x xs' where xs: "xs = x # xs'"
    by (cases xs) auto
  obtain n where n: "nodes m p = Some n" "l_next n = hd0 ps 0" "p \<noteq> 0"
    using Cons.prems by auto
  then have "l_data n = Some (fst x)"
    using Cons.prems(2) xs by (simp add: full_def)
  moreover have "length (md_key (fst x)) = length key" "md_key (fst x) \<noteq> key"
    using Cons.prems(3,4) xs by auto
  ultimately have "find_key key p m = find_key key (hd0 ps 0) m"
    using n by (subst find_key.simps) (simp add: l_load_def)
  then show ?case
    using Cons.IH [of p xs'] Cons.prems xs by simp
qed (simp add: find_key.simps)

lemma find_key_present:
  "seg (nodes m) pr (qs @ p # rs) 0 \<Longrightarrow> map (cell (nodes m)) (qs @ p # rs) = map full (us @ x # vs) \<Longrightarrow>
   length qs = length us \<Longrightarrow> \<forall>y \<in> set (us @ x # vs). length (md_key (fst y)) = length key \<Longrightarrow>
   key \<notin> set (keys_of us) \<Longrightarrow> md_key (fst x) = key \<Longrightarrow>
   find_key key (hd0 (qs @ p # rs) 0) m = Some (Done p)"
proof (induction qs arbitrary: pr us)
  case Nil
  then obtain n where "nodes m p = Some n" "l_data n = Some (fst x)" "p \<noteq> 0"
    by (auto simp: full_def)
  then show ?case
    using Nil.prems by (subst hd0_simps, simp, subst find_key.simps) (simp add: l_load_def)
next
  case (Cons q qs)
  then obtain u us' where us: "us = u # us'"
    by (cases us) auto
  obtain n where n: "nodes m q = Some n" "l_next n = hd0 (qs @ p # rs) 0" "q \<noteq> 0"
    using Cons.prems by auto
  then have "l_data n = Some (fst u)"
    using Cons.prems(2) us by (simp add: full_def)
  moreover have "length (md_key (fst u)) = length key" "md_key (fst u) \<noteq> key"
    using Cons.prems(4,5) us by auto
  ultimately have "find_key key q m = find_key key (hd0 (qs @ p # rs) 0) m"
    using n by (subst find_key.simps) (simp add: l_load_def)
  then show ?case
    using Cons.IH [of q us'] Cons.prems us by simp
qed

text \<open>Overwriting the data of one node.\<close>

lemma store_data_holds:
  assumes "list_holds m d (qs @ p # rs) (us @ x # vs)" and "length qs = length us"
  shows "\<exists>m'. l_store m p (\<lambda>n. n\<lparr>l_data := Some y\<rparr>) = Done m' \<and> list_holds m' d (qs @ p # rs) (us @ (y, snd x) # vs)
    \<and> agree_off {p} m m'"
proof -
  have H: "seg (nodes m) 0 qs p" "seg (nodes m) p rs 0" "p \<notin> set qs" "p \<notin> set rs" "p \<noteq> 0"
      "map (cell (nodes m)) qs = map full us" "map (cell (nodes m)) rs = map full vs"
    using assms by (auto simp: list_holds_def)
  obtain n where n: "nodes m p = Some n" "l_prev n = last0 0 qs" "l_next n = hd0 rs 0" "l_size n = snd x"
    using assms by (auto simp: list_holds_def full_def)
  show ?thesis
    using assms H n by (auto simp: l_store_def list_holds_def agree_off_def full_def)
qed

text \<open>An array of lists that share no node.\<close>

definition buckets :: "'d lmem \<Rightarrow> qListDescriptor list \<Rightarrow> ptr list list \<Rightarrow> ('d \<times> u32) list list \<Rightarrow> bool" where
  "buckets m ls pss bs \<longleftrightarrow> length pss = length ls \<and> length bs = length ls
     \<and> (\<forall>i < length ls. list_holds m (ls ! i) (pss ! i) (bs ! i))
     \<and> (\<forall>i < length ls. \<forall>j < length ls. i \<noteq> j \<longrightarrow> set (pss ! i) \<inter> set (pss ! j) = {})"

lemma buckets_update:
  assumes "buckets m ls pss bs" and "h < length ls" and "list_holds m' d' ps' ys" and "agree_off S m m'"
    and "\<And>j. j < length ls \<Longrightarrow> j \<noteq> h \<Longrightarrow> set (pss ! j) \<inter> S = {}" and "set ps' \<subseteq> S"
  shows "buckets m' (ls[h := d']) (pss[h := ps']) (bs[h := ys])"
proof -
  have "list_holds m' (ls ! i) (pss ! i) (bs ! i)" if "i < length ls" "i \<noteq> h" for i
    using assms(1) list_holds_frame [OF _ assms(4)] assms(5) that by (auto simp: buckets_def)
  moreover have "set (pss ! i) \<inter> set ps' = {}" if "i < length ls" "i \<noteq> h" for i
    using assms(5) [OF that] assms(6) by blast
  ultimately show ?thesis
    using assms(1-3) by (auto simp: buckets_def nth_list_update Int_commute)
qed

lemma buckets_disjoint:
  "buckets m ls pss bs \<Longrightarrow> i < length ls \<Longrightarrow> j < length ls \<Longrightarrow> i \<noteq> j \<Longrightarrow> set (pss ! i) \<inter> set (pss ! j) = {}"
  by (simp add: buckets_def)

lemma buckets_live: "buckets m ls pss bs \<Longrightarrow> i < length ls \<Longrightarrow> p \<in> set (pss ! i) \<Longrightarrow> nodes m p \<noteq> None"
  using seg_live by (metis buckets_def list_holds_def)

section \<open>The map\<close>

definition map_of_buckets :: "(bytes \<Rightarrow> nat) \<Rightarrow> (qMapData \<times> u32) list list \<Rightarrow> bytes \<Rightarrow> bytes option" where
  "map_of_buckets hf bs k = (if hf k < length bs then map_of (kvs (bs ! hf k)) k else None)"

definition bucket_ok :: "nat \<Rightarrow> nat \<Rightarrow> (bytes \<Rightarrow> nat) \<Rightarrow> nat \<Rightarrow> (qMapData \<times> u32) list \<Rightarrow> bool" where
  "bucket_ok ks vs hf i xs \<longleftrightarrow> distinct (keys_of xs)
     \<and> (\<forall>x \<in> set xs. length (md_key (fst x)) = ks \<and> length (md_value (fst x)) = vs \<and> hf (md_key (fst x)) = i)"

lemma bucket_ok_update:
  "\<forall>i < length bs. bucket_ok ks vs hf i (bs ! i) \<Longrightarrow> bucket_ok ks vs hf h ys \<Longrightarrow>
   \<forall>i < length (bs[h := ys]). bucket_ok ks vs hf i (bs[h := ys] ! i)"
  by (cases "h < length bs") (auto simp: nth_list_update list_update_beyond)

text \<open>
  The map \<open>M\<close>, with keys of \<open>ks\<close> and values of \<open>vs\<close> bytes, each pair in the list its hash value selects.
\<close>

definition map_holds ::
  "nat \<Rightarrow> nat \<Rightarrow> (bytes \<Rightarrow> nat) \<Rightarrow> qMapData lmem \<Rightarrow> qMap \<Rightarrow> ptr list list \<Rightarrow> (qMapData \<times> u32) list list
     \<Rightarrow> (bytes \<Rightarrow> bytes option) \<Rightarrow> bool" where
  "map_holds ks vs hf m mp pss bs M \<longleftrightarrow> buckets m (listArray mp) pss bs
     \<and> (\<forall>i < length bs. bucket_ok ks vs hf i (bs ! i))
     \<and> M = map_of_buckets hf bs \<and> finite (dom M) \<and> counts mp = of_nat (card (dom M))"

lemma map_holds_finite: "map_holds ks vs hf m mp pss bs M \<Longrightarrow> finite (dom M)"
  unfolding map_holds_def by blast

lemma map_of_buckets_update:
  assumes "h < length bs" and "\<And>k. hf k = h \<Longrightarrow> map_of (kvs ys) k = M' k"
    and "\<And>k. hf k \<noteq> h \<Longrightarrow> M' k = map_of_buckets hf bs k"
  shows "map_of_buckets hf (bs[h := ys]) = M'"
proof
  fix k
  show "map_of_buckets hf (bs[h := ys]) k = M' k"
    using assms by (cases "hf k = h") (auto simp: map_of_buckets_def)
qed

lemma map_of_mid:
  "key \<notin> set (keys_of us) \<Longrightarrow> map_of (kvs us @ (key, v) # kvs vs) k = (if k = key then Some v else map_of (kvs us @ kvs vs) k)"
  by (induction us) auto

lemma split_bucket:
  assumes "key \<in> set (keys_of xs)" and "distinct (keys_of xs)" and "length ps = length xs"
  obtains us x vs qs p rs where "xs = us @ x # vs" "md_key (fst x) = key" "key \<notin> set (keys_of us)"
    "key \<notin> set (keys_of vs)" "ps = qs @ p # rs" "length qs = length us"
proof -
  obtain x where "x \<in> set xs" "md_key (fst x) = key"
    using assms(1) by (auto simp: keys_of_def)
  then obtain us vs where xs: "xs = us @ x # vs" "md_key (fst x) = key"
    by (meson split_list)
  have "length us < length ps"
    using assms(3) xs(1) by simp
  then have "ps = take (length us) ps @ ps ! length us # drop (Suc (length us)) ps" "length (take (length us) ps) = length us"
    by (simp_all add: id_take_nth_drop)
  then show ?thesis
    using that xs assms(2) by auto
qed

text \<open>What the loop finds in the list of a key.\<close>

lemma map_holds_key:
  assumes "map_holds ks vs hf m mp pss bs M" and "length key = ks" and "hf key < length (listArray mp)"
  shows "key \<notin> dom M \<Longrightarrow> find_key key (l_head (listArray mp ! hf key)) m = Some (Done 0)"
    and "key \<in> dom M \<longleftrightarrow> key \<in> set (keys_of (bs ! hf key))"
proof -
  have H: "list_holds m (listArray mp ! hf key) (pss ! hf key) (bs ! hf key)" "length bs = length (listArray mp)"
    using assms(1,3) by (auto simp: map_holds_def buckets_def)
  show iff: "key \<in> dom M \<longleftrightarrow> key \<in> set (keys_of (bs ! hf key))"
    using assms(1,3) H(2) by (auto simp: map_holds_def map_of_buckets_def dom_def map_of_eq_None_iff simp flip: not_None_eq)
  assume "key \<notin> dom M"
  then show "find_key key (l_head (listArray mp ! hf key)) m = Some (Done 0)"
    using find_key_absent [of m 0 "pss ! hf key" "bs ! hf key" key] H iff assms
    by (simp add: list_holds_def map_holds_def bucket_ok_def)
qed

lemma map_holds_found:
  assumes "map_holds ks vs hf m mp pss bs M" and "length key = ks" and "hf key < length (listArray mp)" and "key \<in> dom M"
  obtains us x vs' qs p rs where "bs ! hf key = us @ x # vs'" "pss ! hf key = qs @ p # rs" "length qs = length us"
    "md_key (fst x) = key" "key \<notin> set (keys_of us)" "key \<notin> set (keys_of vs')" "M key = Some (md_value (fst x))"
    "find_key key (l_head (listArray mp ! hf key)) m = Some (Done p)" "p \<noteq> 0"
    "list_holds m (listArray mp ! hf key) (qs @ p # rs) (us @ x # vs')" "length (md_value (fst x)) = vs"
proof -
  have H: "list_holds m (listArray mp ! hf key) (pss ! hf key) (bs ! hf key)" "length bs = length (listArray mp)"
      "distinct (keys_of (bs ! hf key))"
      "\<forall>x \<in> set (bs ! hf key). length (md_key (fst x)) = ks \<and> length (md_value (fst x)) = vs"
    using assms(1,3) by (auto simp: map_holds_def buckets_def bucket_ok_def)
  have "key \<in> set (keys_of (bs ! hf key))"
    using map_holds_key(2) [OF assms(1-3)] assms(4) by simp
  then obtain us x vs' qs p rs where b: "bs ! hf key = us @ x # vs'" "md_key (fst x) = key" "key \<notin> set (keys_of us)"
      "key \<notin> set (keys_of vs')" "pss ! hf key = qs @ p # rs" "length qs = length us"
    using split_bucket [OF _ H(3) list_holds_length [OF H(1)]] by blast
  have "find_key key (l_head (listArray mp ! hf key)) m = Some (Done p)"
    using find_key_present [of m 0 qs p rs us x vs' key] H b assms(2) by (simp add: list_holds_def)
  moreover have "M key = Some (md_value (fst x))"
    using assms(1,3) H(2) b map_of_mid [of key us "md_value (fst x)" vs' key] by (simp add: map_holds_def map_of_buckets_def)
  moreover have "p \<noteq> 0"
    using H(1) b by (auto simp: list_holds_def)
  ultimately show ?thesis
    using that b H by auto
qed

lemma insert_present:
  assumes "map_holds ks vs hf m mp pss bs M" and "length key = ks" and "hf key < length (listArray mp)" and "key \<in> dom M"
    and "length value = vs"
  shows "\<exists>m' bs'. q__Map_insert a mok mok1 mok2 mp key value hf m = Some (Done (0, mp, m'))
    \<and> map_holds ks vs hf m' mp pss bs' (M(key \<mapsto> value)) \<and> agree_off (set (pss ! hf key)) m m'"
proof -
  obtain us x vs' qs p rs where f: "bs ! hf key = us @ x # vs'" "pss ! hf key = qs @ p # rs" "length qs = length us"
      "md_key (fst x) = key" "key \<notin> set (keys_of us)" "key \<notin> set (keys_of vs')" "M key = Some (md_value (fst x))"
      "find_key key (l_head (listArray mp ! hf key)) m = Some (Done p)" "p \<noteq> 0"
      "list_holds m (listArray mp ! hf key) (qs @ p # rs) (us @ x # vs')" "length (md_value (fst x)) = vs"
    using map_holds_found [OF assms(1-4)] by blast
  let ?y = "fst x\<lparr>md_value := value\<rparr>" and ?h = "hf key"
  let ?ys = "us @ (?y, snd x) # vs'"
  obtain n where n: "nodes m p = Some n" "l_data n = Some (fst x)"
    using f(3,10) by (auto simp: list_holds_def full_def)
  obtain m' where m': "l_store m p (\<lambda>n. n\<lparr>l_data := Some ?y\<rparr>) = Done m'"
      "list_holds m' (listArray mp ! ?h) (qs @ p # rs) ?ys" "agree_off {p} m m'"
    using store_data_holds [OF f(10,3)] by blast
  have "memcpy (md_value (fst x)) 0 value (length value) = Some value"
    using f(11) assms(5) by (simp add: memcpy_def)
  then have run: "q__Map_insert a mok mok1 mok2 mp key value hf m = Some (Done (0, mp, m'))"
    using assms(3) f(8,9) n m'(1) by (simp add: q__Map_insert_def list_at_def l_load_def)
  have M: "buckets m (listArray mp) pss bs" "length bs = length (listArray mp)" "M = map_of_buckets hf bs"
      "length pss = length (listArray mp)"
    using assms(1) by (auto simp: map_holds_def buckets_def)
  have off: "agree_off (set (pss ! ?h)) m m'"
    using m'(3) f(2) by (simp add: agree_off_def)
  have "buckets m' ((listArray mp)[?h := listArray mp ! ?h]) (pss[?h := qs @ p # rs]) (bs[?h := ?ys])"
    by (rule buckets_update [OF M(1) assms(3) m'(2) off]) (use buckets_disjoint [OF M(1) _ assms(3)] f(2) in auto)
  then have "buckets m' (listArray mp) pss (bs[?h := ?ys])"
    using f(2) by (metis list_update_id)
  moreover have "map_of_buckets hf (bs[?h := ?ys]) = M(key \<mapsto> value)"
  proof (rule map_of_buckets_update)
    fix k assume "hf k = ?h"
    then show "map_of (kvs ?ys) k = (M(key \<mapsto> value)) k"
      using f M(2,3) assms(3) map_of_mid [OF f(5)] by (simp add: map_of_buckets_def)
  qed (use assms(3) M in auto)
  moreover have "dom (M(key \<mapsto> value)) = dom M"
    using assms(4) by auto
  moreover have B: "\<forall>i < length bs. bucket_ok ks vs hf i (bs ! i)"
    using assms(1) by (simp add: map_holds_def)
  then have "bucket_ok ks vs hf ?h (us @ x # vs')"
    using assms(3) M(2) f(1) by metis
  then have "bucket_ok ks vs hf ?h ?ys"
    using assms(5) by (simp add: bucket_ok_def)
  note bucket_ok_update [OF B this]
  ultimately have "map_holds ks vs hf m' mp pss (bs[?h := ?ys]) (M(key \<mapsto> value))"
    using assms(1) unfolding map_holds_def by auto
  then show ?thesis
    using run off by blast
qed

lemma insert_absent:
  assumes "map_holds ks vs hf m mp pss bs M" and "length key = ks" and "hf key < length (listArray mp)" and "key \<notin> dom M"
    and "length value = vs" and "nodes m a = None" and "a \<noteq> 0"
  shows "\<exists>mp' m' bs'. q__Map_insert (Some a) True True True mp key value hf m = Some (Done (0, mp', m'))
    \<and> length (listArray mp') = length (listArray mp)
    \<and> map_holds ks vs hf m' mp' (pss[hf key := pss ! hf key @ [a]]) bs' (M(key \<mapsto> value))
    \<and> agree_off (insert a (set (pss ! hf key))) m m'"
proof -
  let ?h = "hf key" and ?md = "\<lparr>md_key = key, md_value = value, md_keylen = int (length key), md_valuelen = int (length value)\<rparr>"
  have M: "buckets m (listArray mp) pss bs" "length bs = length (listArray mp)" "M = map_of_buckets hf bs"
      "list_holds m (listArray mp ! ?h) (pss ! ?h) (bs ! ?h)"
    using assms(1,3) by (auto simp: map_holds_def buckets_def)
  obtain d' m' where p: "q__List_push_back (Some a) True (listArray mp ! ?h) ?md sizeof_qMapData m = Done (0, d', m')"
      "list_holds m' d' (pss ! ?h @ [a]) (bs ! ?h @ [(?md, sizeof_qMapData)])" "agree_off (insert a (set (pss ! ?h))) m m'"
    using push_back_holds [OF M(4) assms(6,7)] by blast
  let ?ys = "bs ! ?h @ [(?md, sizeof_qMapData)]"
  let ?mp = "mp\<lparr>listArray := (listArray mp)[?h := d'], counts := counts mp + 1\<rparr>"
  have run: "q__Map_insert (Some a) True True True mp key value hf m = Some (Done (0, ?mp, m'))"
    using assms(3) map_holds_key(1) [OF assms(1-4)] p(1)
    by (simp add: q__Map_insert_def list_at_def q__MapData_constructor_def)
  have "set (pss ! j) \<inter> insert a (set (pss ! ?h)) = {}" if "j < length (listArray mp)" "j \<noteq> ?h" for j
    using buckets_disjoint [OF M(1) that(1) assms(3) that(2)] assms(6) buckets_live [OF M(1) that(1), of a] by auto
  then have bk: "buckets m' (listArray ?mp) (pss[?h := pss ! ?h @ [a]]) (bs[?h := ?ys])"
    using buckets_update [OF M(1) assms(3) p(2,3)] by simp
  have nk: "key \<notin> set (keys_of (bs ! ?h))"
    using map_holds_key(2) [OF assms(1-3)] assms(4) by simp
  have "map_of_buckets hf (bs[?h := ?ys]) = M(key \<mapsto> value)"
  proof (rule map_of_buckets_update)
    fix k assume "hf k = ?h"
    then show "map_of (kvs ?ys) k = (M(key \<mapsto> value)) k"
      using nk M(2,3) assms(3) map_of_mid [OF nk, where v = "value" and vs = "[]"] by (simp add: map_of_buckets_def)
  qed (use assms(3) M in auto)
  moreover have "card (dom (M(key \<mapsto> value))) = Suc (card (dom M))"
    using card_insert_disjoint [OF map_holds_finite [OF assms(1)] assms(4)] by simp
  moreover have B: "\<forall>i < length bs. bucket_ok ks vs hf i (bs ! i)"
    using assms(1) by (simp add: map_holds_def)
  then have "bucket_ok ks vs hf ?h ?ys"
    using assms(2,3,5) M(2) nk by (auto simp: bucket_ok_def)
  note bucket_ok_update [OF B this]
  ultimately have "map_holds ks vs hf m' ?mp (pss[?h := pss ! ?h @ [a]]) (bs[?h := ?ys]) (M(key \<mapsto> value))"
    using assms(1) bk unfolding map_holds_def by auto
  then show ?thesis
    using run p(3) by (intro exI [of _ ?mp]) auto
qed

lemma map_lookup:
  assumes "map_holds ks vs hf m mp pss bs M" and "length key = ks" and "hf key < length (listArray mp)"
  shows "\<exists>r. q__Map_ptr_at mp key hf m = Some (Done r) \<and> map_option md_value r = M key"
proof (cases "key \<in> dom M")
  case False
  then show ?thesis
    using map_holds_key(1) [OF assms False] assms(3) by (simp add: q__Map_ptr_at_def list_at_def domIff)
next
  case True
  then obtain us x vs' qs p rs where f: "length qs = length us" "M key = Some (md_value (fst x))"
      "find_key key (l_head (listArray mp ! hf key)) m = Some (Done p)" "p \<noteq> 0"
      "list_holds m (listArray mp ! hf key) (qs @ p # rs) (us @ x # vs')"
    using map_holds_found [OF assms] by metis
  then obtain n where "nodes m p = Some n" "l_data n = Some (fst x)"
    by (auto simp: list_holds_def full_def)
  then show ?thesis
    using f assms(3) by (simp add: q__Map_ptr_at_def list_at_def l_load_def)
qed

lemma erase_absent:
  assumes "map_holds ks vs hf m mp pss bs M" and "length key = ks" and "hf key < length (listArray mp)" and "key \<notin> dom M"
  shows "q__Map_erase mp key hf m = Some (Done (-1, mp, m))"
  using map_holds_key(1) [OF assms] assms(3) by (simp add: q__Map_erase_def list_at_def)

lemma erase_present:
  assumes "map_holds ks vs hf m mp pss bs M" and "length key = ks" and "hf key < length (listArray mp)" and "key \<in> dom M"
  shows "\<exists>mp' m' pss' bs'. q__Map_erase mp key hf m = Some (Done (0, mp', m'))
    \<and> length (listArray mp') = length (listArray mp)
    \<and> map_holds ks vs hf m' mp' pss' bs' (M(key := None)) \<and> agree_off (set (pss ! hf key)) m m'"
proof -
  obtain us x vs' qs p rs where f: "bs ! hf key = us @ x # vs'" "pss ! hf key = qs @ p # rs" "length qs = length us"
      "md_key (fst x) = key" "key \<notin> set (keys_of us)" "key \<notin> set (keys_of vs')"
      "find_key key (l_head (listArray mp ! hf key)) m = Some (Done p)" "p \<noteq> 0"
      "list_holds m (listArray mp ! hf key) (qs @ p # rs) (us @ x # vs')"
    using map_holds_found [OF assms] by metis
  let ?h = "hf key" and ?ys = "us @ vs'"
  obtain d' m' where e: "q__List_erase_elem (listArray mp ! ?h) p m = Done (0, d', m')" "list_holds m' d' (qs @ rs) ?ys"
      "agree_off (insert p (set qs \<union> set rs)) m m'"
    using erase_elem_holds [OF f(9,3)] by blast
  let ?mp = "mp\<lparr>listArray := (listArray mp)[?h := d'], counts := counts mp - 1\<rparr>"
  have run: "q__Map_erase mp key hf m = Some (Done (0, ?mp, m'))"
    using assms(3) f(7,8) e(1) by (simp add: q__Map_erase_def list_at_def)
  have M: "buckets m (listArray mp) pss bs" "length bs = length (listArray mp)" "M = map_of_buckets hf bs"
    using assms(1) by (auto simp: map_holds_def buckets_def)
  have off: "agree_off (set (pss ! ?h)) m m'"
    using e(3) f(2) by (simp add: agree_off_def)
  have bk: "buckets m' (listArray ?mp) (pss[?h := qs @ rs]) (bs[?h := ?ys])"
    using buckets_update [OF M(1) assms(3) e(2) off] buckets_disjoint [OF M(1) _ assms(3)] f(2) by auto
  have "map_of_buckets hf (bs[?h := ?ys]) = M(key := None)"
  proof (rule map_of_buckets_update)
    fix k assume "hf k = ?h"
    then show "map_of (kvs ?ys) k = (M(key := None)) k"
      using f M(2,3) assms(3) map_of_mid [OF f(5)] by (auto simp: map_of_buckets_def map_of_eq_None_iff map_add_None)
  qed (use assms(3) M in auto)
  moreover have "card (dom M) = Suc (card (dom (M(key := None))))"
    using card_Suc_Diff1 [OF map_holds_finite [OF assms(1)] assms(4)] by simp
  then have "counts mp - 1 = of_nat (card (dom (M(key := None))))"
    using assms(1) by (simp add: map_holds_def)
  moreover have "finite (dom (M(key := None)))"
    using assms(1) by (auto simp: map_holds_def)
  moreover have B: "\<forall>i < length bs. bucket_ok ks vs hf i (bs ! i)"
    using assms(1) by (simp add: map_holds_def)
  then have "bucket_ok ks vs hf ?h (us @ x # vs')"
    using assms(3) M(2) f(1) by metis
  then have "bucket_ok ks vs hf ?h ?ys"
    by (auto simp: bucket_ok_def)
  note bucket_ok_update [OF B this]
  ultimately have "map_holds ks vs hf m' ?mp (pss[?h := qs @ rs]) (bs[?h := ?ys]) (M(key := None))"
    using bk by (simp add: map_holds_def)
  then show ?thesis
    using run off by (intro exI [of _ ?mp]) auto
qed

end
