(* ===== verification/UMapProps.thy ===== *)
theory UMapProps
  imports UMap
begin

text \<open>
  The hash map as a finite map: histories of operations agree with the same operations on a map, for
  every allocator that returns unused addresses and every hash function within the table.
\<close>

section \<open>Clearing\<close>

lemma buckets_Cons:
  "buckets m (d # ds) (ps # pss) (b # bs) \<Longrightarrow> list_holds m d ps b \<and> buckets m ds pss bs \<and> (\<forall>i < length ds. set (pss ! i) \<inter> set ps = {})"
proof -
  assume a: "buckets m (d # ds) (ps # pss) (b # bs)"
  then have H: "\<forall>i < Suc (length ds). list_holds m ((d # ds) ! i) ((ps # pss) ! i) ((b # bs) ! i)"
      "\<forall>i < Suc (length ds). \<forall>j < Suc (length ds). i \<noteq> j \<longrightarrow> set ((ps # pss) ! i) \<inter> set ((ps # pss) ! j) = {}"
    by (simp_all add: buckets_def)
  have "list_holds m d ps b"
    using H(1) by force
  moreover have "list_holds m (ds ! i) (pss ! i) (bs ! i)" if "i < length ds" for i
    using H(1) that by (metis Suc_mono nth_Cons_Suc)
  moreover have "set (pss ! i) \<inter> set (pss ! j) = {}" if "i < length ds" "j < length ds" "i \<noteq> j" for i j
    using H(2) that by (metis Suc_inject Suc_mono nth_Cons_Suc)
  moreover have "set (pss ! i) \<inter> set ps = {}" if "i < length ds" for i
    using H(2) that by (metis Suc_mono Zero_not_Suc nth_Cons_0 nth_Cons_Suc zero_less_Suc)
  ultimately show ?thesis
    using a by (simp add: buckets_def)
qed

lemma buckets_frame:
  "buckets m ls pss bs \<Longrightarrow> agree_off S m m' \<Longrightarrow> (\<forall>i < length ls. set (pss ! i) \<inter> S = {}) \<Longrightarrow> buckets m' ls pss bs"
  using list_holds_frame unfolding buckets_def by metis

lemma clear_lists_holds:
  "buckets m ls pss bs \<Longrightarrow> \<forall>i < length ls. length (bs ! i) < 2 ^ 32 \<Longrightarrow>
   \<exists>ls' m'. clear_lists ls m = Some (Done (ls', m')) \<and> length ls' = length ls \<and> (\<forall>d \<in> set ls'. \<forall>m :: qMapData lmem. list_holds m d [] [])
     \<and> (\<forall>p. nodes m' p \<noteq> None \<longrightarrow> nodes m p \<noteq> None)"
proof (induction ls arbitrary: m pss bs)
  case (Cons d ds)
  then obtain ps pss' b bs' where l: "pss = ps # pss'" "bs = b # bs'"
    by (cases pss; cases bs) (auto simp: buckets_def)
  have H: "list_holds m d ps b" "buckets m ds pss' bs'" "\<forall>i < length ds. set (pss' ! i) \<inter> set ps = {}"
    using buckets_Cons [of m d ds ps pss' b bs'] Cons.prems(1) l by auto
  have len: "\<forall>i < length ds. length (bs' ! i) < 2 ^ 32" "length b < 2 ^ 32"
    using Cons.prems(2) l by auto
  show ?case
  proof (cases "l_count d = 0")
    case True
    then have "length ps = 0"
      using H(1) len(2) list_holds_length [OF H(1)]
      by (auto simp: list_holds_def word_of_nat_eq_0_iff dvd_imp_le nat_dvd_not_less)
    then have "\<forall>m :: qMapData lmem. list_holds m d [] []"
      using H(1) by (auto simp: list_holds_def)
    then show ?thesis
      using Cons.IH [OF H(2) len(1)] True by auto
  next
    case False
    obtain d' m1 where e: "q__List_destructor d m = Some (Done (0, d', m1))" "list_holds m1 d' [] []"
        "\<forall>p. nodes m1 p = (if p \<in> set ps then None else nodes m p)"
      using destructor_holds [OF H(1)] by blast
    have "agree_off (set ps) m m1"
      using e(3) by (simp add: agree_off_def)
    then have "buckets m1 ds pss' bs'"
      using buckets_frame [OF H(2)] H(3) by blast
    then obtain ls' m' where c: "clear_lists ds m1 = Some (Done (ls', m'))" "length ls' = length ds"
        "\<forall>d \<in> set ls'. \<forall>m :: qMapData lmem. list_holds m d [] []" "\<forall>p. nodes m' p \<noteq> None \<longrightarrow> nodes m1 p \<noteq> None"
      using Cons.IH [OF _ len(1)] by blast
    have "\<forall>m :: qMapData lmem. list_holds m d' [] []"
      using e(2) by (auto simp: list_holds_def)
    moreover have "\<forall>p. nodes m' p \<noteq> None \<longrightarrow> nodes m p \<noteq> None"
      using c(4) e(3) by metis
    ultimately show ?thesis
      using False e(1) c by simp
  qed
qed simp

lemma clear_holds:
  assumes "map_holds ks vs hf m mp pss bs M" and "card (dom M) < 2 ^ 32"
  shows "\<exists>mp' m' pss' bs'. q__Map_clear mp m = Some (Done (0, mp', m')) \<and> length (listArray mp') = length (listArray mp)
    \<and> map_holds ks vs hf m' mp' pss' bs' Map.empty \<and> (\<forall>p. nodes m' p \<noteq> None \<longrightarrow> nodes m p \<noteq> None)"
proof -
  let ?N = "length (listArray mp)"
  have M: "buckets m (listArray mp) pss bs" "length bs = ?N" "M = map_of_buckets hf bs"
      "\<forall>i < length bs. bucket_ok ks vs hf i (bs ! i)"
    using assms(1) by (auto simp: map_holds_def buckets_def)
  have "length (bs ! i) < 2 ^ 32" if i: "i < ?N" for i
  proof -
    have b: "bucket_ok ks vs hf i (bs ! i)"
      using M(2,4) i by simp
    have "k \<in> dom M" if k: "k \<in> set (keys_of (bs ! i))" for k
    proof -
      have "hf k = i"
        using b k by (auto simp: bucket_ok_def keys_of_def)
      moreover have "map_of (kvs (bs ! i)) k \<noteq> None"
        using k by (simp add: map_of_eq_None_iff)
      ultimately show ?thesis
        using i M(2,3) by (simp add: map_of_buckets_def domIff)
    qed
    then have "set (keys_of (bs ! i)) \<subseteq> dom M"
      by blast
    then have "card (set (keys_of (bs ! i))) \<le> card (dom M)"
      using map_holds_finite [OF assms(1)] by (intro card_mono)
    moreover have "card (set (keys_of (bs ! i))) = length (bs ! i)"
      using b distinct_card [of "keys_of (bs ! i)"] by (simp add: bucket_ok_def) (simp add: keys_of_def)
    ultimately show ?thesis
      using assms(2) by simp
  qed
  then obtain ls' m' where c: "clear_lists (listArray mp) m = Some (Done (ls', m'))" "length ls' = ?N"
      "\<forall>d \<in> set ls'. \<forall>m :: qMapData lmem. list_holds m d [] []" "\<forall>p. nodes m' p \<noteq> None \<longrightarrow> nodes m p \<noteq> None"
    using clear_lists_holds [OF M(1)] by blast
  have "map_holds ks vs hf m' (mp\<lparr>listArray := ls', counts := 0\<rparr>) (replicate ?N []) (replicate ?N []) Map.empty"
    using c(2,3) by (auto simp: map_holds_def buckets_def bucket_ok_def map_of_buckets_def fun_eq_iff)
  then show ?thesis
    using c by (auto simp: q__Map_clear_def)
qed

section \<open>Histories\<close>

datatype map_op = MInsert bytes bytes | MErase bytes | MFind bytes | MSize | MClear

text \<open>A loop that does not end is as bad as a fault.\<close>

definition ended :: "('a exec) option \<Rightarrow> 'a exec" where
  "ended x = (case x of None \<Rightarrow> Fault | Some y \<Rightarrow> y)"

text \<open>One call, with the value returned and, for a lookup, the value found.\<close>

fun map_step ::
  "(qMapData lmem \<Rightarrow> ptr) \<Rightarrow> (bytes \<Rightarrow> nat) \<Rightarrow> map_op \<Rightarrow> qMap \<times> qMapData lmem
     \<Rightarrow> ((int \<times> bytes option) \<times> qMap \<times> qMapData lmem) exec" where
  "map_step al hf (MInsert k v) (mp, m) =
     bind_exec (ended (q__Map_insert (Some (al m)) True True True mp k v hf m)) (\<lambda>(r, s). Done ((r, None), s))"
| "map_step al hf (MErase k) (mp, m) =
     bind_exec (ended (q__Map_erase mp k hf m)) (\<lambda>(r, s). Done ((r, None), s))"
| "map_step al hf (MFind k) (mp, m) =
     bind_exec (ended (q__Map_ptr_at mp k hf m)) (\<lambda>r. Done ((0, map_option md_value r), mp, m))"
| "map_step al hf MSize (mp, m) = Done ((uint (qMap_size mp), None), mp, m)"
| "map_step al hf MClear (mp, m) =
     bind_exec (ended (q__Map_clear mp m)) (\<lambda>(r, s). Done ((r, None), s))"

fun fmap_step ::
  "nat \<Rightarrow> nat \<Rightarrow> map_op \<Rightarrow> (bytes \<Rightarrow> bytes option) \<Rightarrow> ((int \<times> bytes option) \<times> (bytes \<Rightarrow> bytes option)) option" where
  "fmap_step ks vs (MInsert k v) M =
     (if length k = ks \<and> length v = vs then Some ((0, None), M(k \<mapsto> v)) else None)"
| "fmap_step ks vs (MErase k) M =
     (if length k = ks then Some ((if M k = None then -1 else 0, None), M(k := None)) else None)"
| "fmap_step ks vs (MFind k) M = (if length k = ks then Some ((0, M k), M) else None)"
| "fmap_step ks vs MSize M = (if card (dom M) < 2 ^ 32 then Some ((int (card (dom M)), None), M) else None)"
| "fmap_step ks vs MClear M = (if card (dom M) < 2 ^ 32 then Some ((0, None), Map.empty) else None)"

definition map_rel ::
  "nat \<Rightarrow> nat \<Rightarrow> (bytes \<Rightarrow> nat) \<Rightarrow> nat \<Rightarrow> qMap \<times> qMapData lmem \<Rightarrow> (bytes \<Rightarrow> bytes option) \<Rightarrow> bool" where
  "map_rel ks vs hf N s M \<longleftrightarrow> finite (dom (nodes (snd s))) \<and> length (listArray (fst s)) = N
     \<and> (\<exists>pss bs. map_holds ks vs hf (snd s) (fst s) pss bs M)"

lemma map_relI:
  "finite (dom (nodes m)) \<Longrightarrow> agree_off S m m' \<Longrightarrow> finite S \<Longrightarrow> map_holds ks vs hf m' mp' pss bs M \<Longrightarrow>
   length (listArray mp') = N \<Longrightarrow> map_rel ks vs hf N (mp', m') M"
proof -
  assume a: "finite (dom (nodes m))" "agree_off S m m'" "finite S" "map_holds ks vs hf m' mp' pss bs M"
    "length (listArray mp') = N"
  have "dom (nodes m') \<subseteq> dom (nodes m) \<union> S"
    using a(2) by (auto simp: agree_off_def dom_def)
  then have "finite (dom (nodes m'))"
    using a(1,3) by (meson finite_UnI finite_subset)
  then show ?thesis
    using a(4,5) by (auto simp: map_rel_def)
qed

text \<open>The table: an allocator and a hash function with values below the table size.\<close>

locale hash_table = allocator al for al :: "qMapData lmem \<Rightarrow> ptr" +
  fixes hf :: "bytes \<Rightarrow> nat" and ks vs N :: nat
  assumes hash_range: "length k = ks \<Longrightarrow> hf k < N"
begin

lemma insert_sim:
  assumes "map_rel ks vs hf N (mp, m) M" and "length k = ks" and "length v = vs"
  shows "\<exists>s'. map_step al hf (MInsert k v) (mp, m) = Done ((0, None), s') \<and> map_rel ks vs hf N s' (M(k \<mapsto> v))"
proof -
  obtain pss bs where R: "finite (dom (nodes m))" "length (listArray mp) = N" "map_holds ks vs hf m mp pss bs M"
    using assms(1) by (auto simp: map_rel_def)
  have h: "hf k < length (listArray mp)"
    using hash_range [OF assms(2)] R(2) by simp
  show ?thesis
  proof (cases "k \<in> dom M")
    case True
    obtain m' bs' where "q__Map_insert (Some (al m)) True True True mp k v hf m = Some (Done (0, mp, m'))"
        "map_holds ks vs hf m' mp pss bs' (M(k \<mapsto> v))" "agree_off (set (pss ! hf k)) m m'"
      using insert_present [OF R(3) assms(2) h True assms(3)] by blast
    then show ?thesis
      using map_relI [OF R(1), of "set (pss ! hf k)" m'] R(2) by (auto simp: ended_def)
  next
    case False
    obtain mp' m' bs' where "q__Map_insert (Some (al m)) True True True mp k v hf m = Some (Done (0, mp', m'))"
        "length (listArray mp') = length (listArray mp)"
        "map_holds ks vs hf m' mp' (pss[hf k := pss ! hf k @ [al m]]) bs' (M(k \<mapsto> v))"
        "agree_off (insert (al m) (set (pss ! hf k))) m m'"
      using insert_absent [OF R(3) assms(2) h False assms(3)] al_fresh [OF R(1)] by blast
    then show ?thesis
      using map_relI [OF R(1), of "insert (al m) (set (pss ! hf k))" m'] R(2) by (auto simp: ended_def)
  qed
qed

lemma erase_sim:
  assumes "map_rel ks vs hf N (mp, m) M" and "length k = ks"
  shows "\<exists>s'. map_step al hf (MErase k) (mp, m) = Done ((if M k = None then -1 else 0, None), s')
    \<and> map_rel ks vs hf N s' (M(k := None))"
proof -
  obtain pss bs where R: "finite (dom (nodes m))" "length (listArray mp) = N" "map_holds ks vs hf m mp pss bs M"
    using assms(1) by (auto simp: map_rel_def)
  have h: "hf k < length (listArray mp)"
    using hash_range [OF assms(2)] R(2) by simp
  show ?thesis
  proof (cases "k \<in> dom M")
    case True
    obtain mp' m' pss' bs' where "q__Map_erase mp k hf m = Some (Done (0, mp', m'))"
        "length (listArray mp') = length (listArray mp)"
        "map_holds ks vs hf m' mp' pss' bs' (M(k := None))" "agree_off (set (pss ! hf k)) m m'"
      using erase_present [OF R(3) assms(2) h True] by blast
    then show ?thesis
      using map_relI [OF R(1), of "set (pss ! hf k)" m'] R(2) True by (auto simp: ended_def)
  next
    case False
    then have "M k = None"
      by (simp add: domIff)
    moreover from this have "M(k := None) = M"
      by auto
    ultimately show ?thesis
      using erase_absent [OF R(3) assms(2) h False] assms(1) by (simp add: ended_def)
  qed
qed

lemma map_step_sim:
  assumes "map_rel ks vs hf N s M" and "fmap_step ks vs op M = Some (r, M')"
  shows "\<exists>s'. map_step al hf op s = Done (r, s') \<and> map_rel ks vs hf N s' M'"
proof -
  obtain mp m where s: "s = (mp, m)"
    by (cases s)
  then obtain pss bs where R: "finite (dom (nodes m))" "length (listArray mp) = N" "map_holds ks vs hf m mp pss bs M"
    using assms(1) by (auto simp: map_rel_def)
  show ?thesis
  proof (cases op)
    case (MInsert k v)
    then show ?thesis
      using insert_sim [of mp m M k v] assms s by (auto split: if_splits)
  next
    case (MErase k)
    then have "length k = ks" "r = (if M k = None then -1 else 0, None)" "M' = M(k := None)"
      using assms(2) by (auto split: if_split_asm)
    then show ?thesis
      using erase_sim [of mp m M k] assms(1) s MErase by simp
  next
    case (MFind k)
    then have k: "length k = ks" "r = (0, M k)" "M' = M"
      using assms(2) by (auto split: if_splits)
    then obtain q where "q__Map_ptr_at mp k hf m = Some (Done q)" "map_option md_value q = M k"
      using map_lookup [OF R(3)] hash_range R(2) by blast
    then show ?thesis
      using MFind k assms(1) s by (simp add: ended_def)
  next
    case MSize
    then have "card (dom M) < 2 ^ 32" "r = (int (card (dom M)), None)" "M' = M"
      using assms(2) by (auto split: if_splits)
    moreover from this have "uint (counts mp) = int (card (dom M))"
      using R(3) by (auto simp: map_holds_def unsigned_of_nat take_bit_nat_eq_self_iff)
    ultimately show ?thesis
      using MSize assms(1) s by (simp add: qMap_size_def)
  next
    case MClear
    then have c: "card (dom M) < 2 ^ 32" "r = (0, None)" "M' = Map.empty"
      using assms(2) by (auto split: if_splits)
    then obtain mp' m' pss' bs' where z: "q__Map_clear mp m = Some (Done (0, mp', m'))"
        "length (listArray mp') = length (listArray mp)" "map_holds ks vs hf m' mp' pss' bs' Map.empty"
        "\<forall>p. nodes m' p \<noteq> None \<longrightarrow> nodes m p \<noteq> None"
      using clear_holds [OF R(3)] by blast
    have "finite (dom (nodes m'))"
      using z(4) R(1) by (meson domIff finite_subset subsetI)
    then show ?thesis
      using MClear c z R(2) s by (auto simp: map_rel_def ended_def)
  qed
qed

end

sublocale hash_table \<subseteq> maps: refinement "map_step al hf" "fmap_step ks vs" "map_rel ks vs hf N"
  by unfold_locales (rule map_step_sim)

context hash_table
begin

lemma map_history:
  assumes "finite (dom (nodes m0))" and "unat mx = N" and "arun (fmap_step ks vs) ops Map.empty = Some (rs, M)"
  shows "\<exists>s. run (map_step al hf) ops (qMap_constructor True mx, m0) = Done (rs, s) \<and> map_rel ks vs hf N s M"
proof -
  have "map_rel ks vs hf N (qMap_constructor True mx, m0) Map.empty"
    using assms(1,2)
    by (auto simp: map_rel_def map_holds_def buckets_def bucket_ok_def map_of_buckets_def qMap_constructor_def fun_eq_iff
        intro!: exI [of _ "replicate N []"])
  then show ?thesis
    using maps.run_sim assms(3) by blast
qed

end

text \<open>The hash function of the serialization, with its table of 131 lists.\<close>

definition Q_DEFAULT_MAXHASHV :: u32 where
  "Q_DEFAULT_MAXHASHV = 131"

lemma q__uhashf_range: "q__uhashf k < 131"
proof -
  have "unat (uhash_loop k 0 mod 131) = unat (uhash_loop k 0) mod 131"
    by (simp add: unat_mod)
  then show ?thesis
    by (simp add: q__uhashf_def)
qed

interpretation uhash: hash_table first_free q__uhashf ks vs 131 for ks vs
  by unfold_locales (rule q__uhashf_range)

text \<open>
  C24: on a new table, for every allocator that returns unused addresses and every hash function with
  values below the size of the table, any history of insertions, removals, lookups, size queries and
  clearings of keys and values of fixed sizes gives the results that the same history on a finite map
  gives.
\<close>

theorem map_refines_finite_map:
  assumes "\<forall>m. finite (dom (nodes m)) \<longrightarrow> al m \<noteq> 0 \<and> nodes m (al m) = None"
    and "\<forall>k. length k = ks \<longrightarrow> hf k < unat mx" and "finite (dom (nodes m0))"
    and "arun (fmap_step ks vs) ops Map.empty = Some (rs, M)"
  shows "\<exists>s. run (map_step al hf) ops (qMap_constructor True mx, m0) = Done (rs, s) \<and> map_rel ks vs hf (unat mx) s M"
proof -
  have "hash_table al hf ks (unat mx)"
    using assms(1,2) by unfold_locales auto
  from hash_table.map_history [OF this assms(3) refl assms(4)] show ?thesis .
qed

theorem map_refines_finite_map_witness:
  "\<exists>s. run (map_step first_free q__uhashf)
      [MInsert [1, 2] [5], MInsert [3, 4] [6], MInsert [1, 2] [7], MFind [1, 2], MErase [3, 4], MErase [3, 4], MFind [3, 4]]
      (qMap_constructor True 131, mem0)
    = Done ([(0, None), (0, None), (0, None), (0, Some [7]), (0, None), (-1, None), (0, None)], s)"
proof -
  have "\<forall>m :: qMapData lmem. finite (dom (nodes m)) \<longrightarrow> first_free m \<noteq> 0 \<and> nodes m (first_free m) = None"
    using first_free_fresh by blast
  moreover have "\<forall>k. length k = 2 \<longrightarrow> q__uhashf k < unat (131 :: u32)"
    using q__uhashf_range by simp
  moreover have "finite (dom (nodes (mem0 :: qMapData lmem)))"
    by (simp add: mem0_def)
  moreover have "arun (fmap_step 2 1)
      [MInsert [1, 2] [5], MInsert [3, 4] [6], MInsert [1, 2] [7], MFind [1, 2], MErase [3, 4], MErase [3, 4], MFind [3, 4]]
      Map.empty = Some ([(0, None), (0, None), (0, None), (0, Some [7]), (0, None), (-1, None), (0, None)],
        Map.empty([1, 2] \<mapsto> [7]))"
    by (simp add: fun_eq_iff)
  ultimately show ?thesis
    using map_refines_finite_map by blast
qed

end
