(* ===== verification/AVL.thy ===== *)
theory AVL
  imports QListSpec
begin

text \<open>
  \<^verbatim>\<open>zhwkre/AVLTree.h\<close> and \<^verbatim>\<open>zhwkre/containers/AVLTree.c\<close>: the search tree whose nodes are also threaded
  into a doubly linked list. A node has data, size, prev and next, like a node of the linked list, and
  these live in the same kind of store under the address of the node; the children and the height are
  owned by the tree and are modelled by a datatype that carries the addresses. The comparison function
  is a parameter, and so are the address of a new node and the outcome of the allocation of its data.
\<close>

section \<open>Data\<close>

definition ZHWK_ERR_TREE_INVALID_OPERATION :: int where "ZHWK_ERR_TREE_INVALID_OPERATION = 82"

datatype qAVLTreeNode =
    is_ANull: ANull
  | ANode (a_addr: ptr) (lchild: qAVLTreeNode) (rchild: qAVLTreeNode) (a_height: int)

record qAVLTreeDescriptor =
  av_size :: u32
  av_root :: qAVLTreeNode

type_synonym 'd elem = "'d \<times> u32"

type_synonym 'd elem_cmp = "'d elem \<Rightarrow> 'd elem \<Rightarrow> int"

definition qAVLTreeNode__getHeight :: "qAVLTreeNode \<Rightarrow> int" where
  "qAVLTreeNode__getHeight tn = (case tn of ANull \<Rightarrow> 0 | ANode p l r h \<Rightarrow> h)"

text \<open>The macros, given the children of the node.\<close>

definition qAVLTreeNode__updateHeight :: "qAVLTreeNode \<Rightarrow> qAVLTreeNode \<Rightarrow> int" where
  "qAVLTreeNode__updateHeight l r = max (qAVLTreeNode__getHeight l) (qAVLTreeNode__getHeight r) + 1"

definition qAVLTreeNode__get_blfactor :: "qAVLTreeNode \<Rightarrow> qAVLTreeNode \<Rightarrow> int" where
  "qAVLTreeNode__get_blfactor l r = qAVLTreeNode__getHeight r - qAVLTreeNode__getHeight l"

text \<open>A node after its children were set and its height updated.\<close>

definition mk :: "ptr \<Rightarrow> qAVLTreeNode \<Rightarrow> qAVLTreeNode \<Rightarrow> qAVLTreeNode" where
  "mk p l r = ANode p l r (qAVLTreeNode__updateHeight l r)"

definition qAVLTree_constructor :: qAVLTreeDescriptor where
  "qAVLTree_constructor = \<lparr>av_size = 0, av_root = ANull\<rparr>"

text \<open>\<^verbatim>\<open>desc.comp(elem, elemsize, node->data, node->size)\<close>\<close>

definition acmp :: "'d elem_cmp \<Rightarrow> 'd elem \<Rightarrow> 'd lmem \<Rightarrow> ptr \<Rightarrow> int exec" where
  "acmp cmp x m p =
     bind_exec (l_load m p) (\<lambda>n. case l_data n of None \<Rightarrow> Fault | Some d \<Rightarrow> Done (cmp x (d, l_size n)))"

section \<open>Search\<close>

text \<open>The node found; \<open>None\<close> is the result -1, with \<^verbatim>\<open>*iter\<close> as it was.\<close>

fun qAVLTree__ptr_at :: "'d elem_cmp \<Rightarrow> qAVLTreeNode \<Rightarrow> 'd elem \<Rightarrow> 'd lmem \<Rightarrow> (ptr option) exec" where
  "qAVLTree__ptr_at cmp ANull x m = Done None"
| "qAVLTree__ptr_at cmp (ANode p l r h) x m =
     bind_exec (acmp cmp x m p) (\<lambda>cmpresult.
     if cmpresult = 0 then Done (Some p)
     else if cmpresult < 0 then qAVLTree__ptr_at cmp l x m
     else qAVLTree__ptr_at cmp r x m)"

section \<open>Rotations\<close>

definition invalid_rotation :: "'d lmem \<Rightarrow> (qAVLTreeNode \<times> 'd lmem) exec" where
  "invalid_rotation m = Done (ANull, m\<lparr>lerr := ZHWK_ERR_TREE_INVALID_OPERATION\<rparr>)"

definition qAVLTree__SimpleLeftRotate :: "qAVLTreeNode \<Rightarrow> 'd lmem \<Rightarrow> (qAVLTreeNode \<times> 'd lmem) exec" where
  "qAVLTree__SimpleLeftRotate root m =
     (case root of
        ANull \<Rightarrow> Fault
      | ANode p l r h \<Rightarrow>
          (case r of
             ANull \<Rightarrow> invalid_rotation m
           | ANode rp rrlchild rrrchild rh \<Rightarrow>
               if is_ANull rrrchild then
                 (case rrlchild of
                    ANull \<Rightarrow> Fault
                  | ANode q rrllchild rrlrchild qh \<Rightarrow>
                      Done (mk q (mk p l rrllchild) (mk rp rrlrchild rrrchild), m))
               else Done (mk rp (mk p l rrlchild) rrrchild, m)))"

definition qAVLTree__SimpleRightRotate :: "qAVLTreeNode \<Rightarrow> 'd lmem \<Rightarrow> (qAVLTreeNode \<times> 'd lmem) exec" where
  "qAVLTree__SimpleRightRotate root m =
     (case root of
        ANull \<Rightarrow> Fault
      | ANode p l r h \<Rightarrow>
          (case l of
             ANull \<Rightarrow> invalid_rotation m
           | ANode lp rllchild rlrchild lh \<Rightarrow>
               if is_ANull rllchild then
                 (case rlrchild of
                    ANull \<Rightarrow> Fault
                  | ANode q rlrlchild rlrrchild qh \<Rightarrow>
                      Done (mk q (mk lp rllchild rlrlchild) (mk p rlrrchild r), m))
               else Done (mk lp rllchild (mk p rlrchild r), m)))"

definition qAVLTree__LeftRightRotate :: "qAVLTreeNode \<Rightarrow> 'd lmem \<Rightarrow> (qAVLTreeNode \<times> 'd lmem) exec" where
  "qAVLTree__LeftRightRotate root m =
     (case root of
        ANull \<Rightarrow> Fault
      | ANode p l r h \<Rightarrow>
          if is_ANull l then invalid_rotation m
          else
            bind_exec (qAVLTree__SimpleLeftRotate l m) (\<lambda>(tmpreroot, m).
            if is_ANull tmpreroot then Done (ANull, m)
            else qAVLTree__SimpleRightRotate (ANode p tmpreroot r h) m))"

definition qAVLTree__RightLeftRotate :: "qAVLTreeNode \<Rightarrow> 'd lmem \<Rightarrow> (qAVLTreeNode \<times> 'd lmem) exec" where
  "qAVLTree__RightLeftRotate root m =
     (case root of
        ANull \<Rightarrow> Fault
      | ANode p l r h \<Rightarrow>
          if is_ANull r then invalid_rotation m
          else
            bind_exec (qAVLTree__SimpleRightRotate r m) (\<lambda>(tmpreroot, m).
            if is_ANull tmpreroot then Done (ANull, m)
            else qAVLTree__SimpleLeftRotate (ANode p l tmpreroot h) m))"

text \<open>Which rotation is taken depends on the balance factor of the grandchild.\<close>

definition qAVLTree__left_balance :: "qAVLTreeNode \<Rightarrow> 'd lmem \<Rightarrow> (qAVLTreeNode \<times> 'd lmem) exec" where
  "qAVLTree__left_balance root m =
     (case root of
        ANull \<Rightarrow> Fault
      | ANode p l r h \<Rightarrow>
          if qAVLTreeNode__get_blfactor l r \<le> -2 then
            (case l of
               ANull \<Rightarrow> qAVLTree__SimpleRightRotate root m
             | ANode lp ll lr lh \<Rightarrow>
                 (case lr of
                    ANull \<Rightarrow> qAVLTree__SimpleRightRotate root m
                  | ANode q ql qr qh \<Rightarrow>
                      if qAVLTreeNode__get_blfactor ql qr > 0 then qAVLTree__LeftRightRotate root m
                      else qAVLTree__SimpleRightRotate root m))
          else Done (root, m))"

definition qAVLTree__right_balance :: "qAVLTreeNode \<Rightarrow> 'd lmem \<Rightarrow> (qAVLTreeNode \<times> 'd lmem) exec" where
  "qAVLTree__right_balance root m =
     (case root of
        ANull \<Rightarrow> Fault
      | ANode p l r h \<Rightarrow>
          if qAVLTreeNode__get_blfactor l r \<ge> 2 then
            (case r of
               ANull \<Rightarrow> qAVLTree__SimpleLeftRotate root m
             | ANode rp rl rr rh \<Rightarrow>
                 (case rl of
                    ANull \<Rightarrow> qAVLTree__SimpleLeftRotate root m
                  | ANode q ql qr qh \<Rightarrow>
                      if qAVLTreeNode__get_blfactor ql qr < 0 then qAVLTree__RightLeftRotate root m
                      else qAVLTree__SimpleLeftRotate root m))
          else Done (root, m))"

section \<open>The thread\<close>

definition qAVLTree__list_insert_left :: "ptr \<Rightarrow> ptr \<Rightarrow> 'd lmem \<Rightarrow> 'd lmem exec" where
  "qAVLTree__list_insert_left parent child m =
     bind_exec (l_load m parent) (\<lambda>n.
     bind_exec (if l_prev n \<noteq> 0 then l_store m (l_prev n) (\<lambda>q. q\<lparr>l_next := child\<rparr>) else Done m) (\<lambda>m.
     bind_exec (l_store m child (\<lambda>c. c\<lparr>l_prev := l_prev n, l_next := parent\<rparr>)) (\<lambda>m.
     l_store m parent (\<lambda>n. n\<lparr>l_prev := child\<rparr>))))"

definition qAVLTree__list_insert_right :: "ptr \<Rightarrow> ptr \<Rightarrow> 'd lmem \<Rightarrow> 'd lmem exec" where
  "qAVLTree__list_insert_right parent child m =
     bind_exec (l_load m parent) (\<lambda>n.
     bind_exec (if l_next n \<noteq> 0 then l_store m (l_next n) (\<lambda>q. q\<lparr>l_prev := child\<rparr>) else Done m) (\<lambda>m.
     bind_exec (l_store m child (\<lambda>c. c\<lparr>l_next := l_next n, l_prev := parent\<rparr>)) (\<lambda>m.
     l_store m parent (\<lambda>n. n\<lparr>l_next := child\<rparr>))))"

definition qAVLTree__list_remove :: "ptr \<Rightarrow> 'd lmem \<Rightarrow> 'd lmem exec" where
  "qAVLTree__list_remove elem m =
     bind_exec (l_load m elem) (\<lambda>n.
     bind_exec (if l_prev n \<noteq> 0 then l_store m (l_prev n) (\<lambda>q. q\<lparr>l_next := l_next n\<rparr>) else Done m) (\<lambda>m.
     if l_next n \<noteq> 0 then l_store m (l_next n) (\<lambda>q. q\<lparr>l_prev := l_prev n\<rparr>) else Done m))"

section \<open>Insertion\<close>

definition qAVLTreeNode__constructor :: "ptr option \<Rightarrow> 'd lmem \<Rightarrow> ptr \<times> 'd lmem" where
  "qAVLTreeNode__constructor a m =
     (case a of
        None \<Rightarrow> (0, m\<lparr>lerr := ZHWK_ERR_MM_ALLOC_FAIL\<rparr>)
      | Some it \<Rightarrow>
          (it, m\<lparr>nodes := (nodes m)(it \<mapsto> \<lparr>l_data = None, l_size = 0, l_prev = 0, l_next = 0\<rparr>)\<rparr>))"

text \<open>A new node with a copy of the element; 0 when one of the two allocations fails.\<close>

definition new_node :: "ptr option \<Rightarrow> bool \<Rightarrow> 'd elem \<Rightarrow> 'd lmem \<Rightarrow> ptr \<times> 'd lmem" where
  "new_node a mok x m =
     (case qAVLTreeNode__constructor a m of
        (tmpnd, m) \<Rightarrow>
          if tmpnd = 0 then (0, m)
          else if \<not> mok then (0, m\<lparr>nodes := (nodes m)(tmpnd := None), lerr := ZHWK_ERR_MM_ALLOC_FAIL\<rparr>)
          else (tmpnd, m\<lparr>nodes := (nodes m)(tmpnd \<mapsto> \<lparr>l_data = Some (fst x), l_size = snd x, l_prev = 0, l_next = 0\<rparr>)\<rparr>))"

text \<open>
  The result, what \<^verbatim>\<open>*newrootptr\<close> is afterwards (the null pointer, as the caller set it, when an
  allocation fails), the node \<^verbatim>\<open>root\<close> as it is left, and the store.
\<close>

fun qAVLTree__recursive_insert ::
  "'d elem_cmp \<Rightarrow> ptr option \<Rightarrow> bool \<Rightarrow> qAVLTreeNode \<Rightarrow> 'd elem \<Rightarrow> 'd lmem
     \<Rightarrow> (int \<times> qAVLTreeNode \<times> qAVLTreeNode \<times> 'd lmem) exec" where
  "qAVLTree__recursive_insert cmp a mok ANull x m = Fault"
| "qAVLTree__recursive_insert cmp a mok (ANode p l r h) x m =
     bind_exec (acmp cmp x m p) (\<lambda>cmpresult.
     if cmpresult = 0 then Done (-1, ANode p l r h, ANode p l r h, m)
     else if cmpresult < 0 then
       (if is_ANull l then
          (case new_node a mok x m of
             (tmpnd, m) \<Rightarrow>
               if tmpnd = 0 then Done (-1, ANull, ANode p l r h, m)
               else
                 bind_exec (qAVLTree__list_insert_left p tmpnd m) (\<lambda>m.
                 let t = mk p (ANode tmpnd ANull ANull 1) r in Done (0, t, t, m)))
        else
          bind_exec (qAVLTree__recursive_insert cmp a mok l x m) (\<lambda>(insresult, newroot, _, m).
          if insresult \<noteq> 0 then Done (insresult, ANode p newroot r h, ANode p newroot r h, m)
          else
            bind_exec (qAVLTree__left_balance (mk p newroot r) m) (\<lambda>(t, m). Done (0, t, t, m))))
     else
       (if is_ANull r then
          (case new_node a mok x m of
             (tmpnd, m) \<Rightarrow>
               if tmpnd = 0 then Done (-1, ANull, ANode p l r h, m)
               else
                 bind_exec (qAVLTree__list_insert_right p tmpnd m) (\<lambda>m.
                 let t = mk p l (ANode tmpnd ANull ANull 1) in Done (0, t, t, m)))
        else
          bind_exec (qAVLTree__recursive_insert cmp a mok r x m) (\<lambda>(insresult, newroot, _, m).
          if insresult \<noteq> 0 then Done (insresult, ANode p l newroot h, ANode p l newroot h, m)
          else
            bind_exec (qAVLTree__right_balance (mk p l newroot) m) (\<lambda>(t, m). Done (0, t, t, m)))))"

definition qAVLTree__insert ::
  "'d elem_cmp \<Rightarrow> ptr option \<Rightarrow> bool \<Rightarrow> qAVLTreeDescriptor \<Rightarrow> 'd elem \<Rightarrow> 'd lmem
     \<Rightarrow> (int \<times> qAVLTreeDescriptor \<times> 'd lmem) exec" where
  "qAVLTree__insert cmp a mok desc x m =
     (if is_ANull (av_root desc) then
        (case new_node a mok x m of
           (root, m) \<Rightarrow>
             if root = 0 then Done (-1, desc, m)
             else Done (0, desc\<lparr>av_root := ANode root ANull ANull 1, av_size := 1\<rparr>, m))
      else
        bind_exec (qAVLTree__recursive_insert cmp a mok (av_root desc) x m) (\<lambda>(retv, newroot, root, m).
        if retv \<noteq> 0 then Done (-1, desc\<lparr>av_root := root\<rparr>, m)
        else Done (0, desc\<lparr>av_size := av_size desc + 1, av_root := newroot\<rparr>, m)))"

section \<open>Removal\<close>

definition qAVLTreeNode__swap :: "ptr \<Rightarrow> ptr \<Rightarrow> 'd lmem \<Rightarrow> 'd lmem exec" where
  "qAVLTreeNode__swap a b m =
     bind_exec (l_load m a) (\<lambda>na.
     bind_exec (l_load m b) (\<lambda>nb.
     bind_exec (l_store m a (\<lambda>n. n\<lparr>l_data := l_data nb, l_size := l_size nb\<rparr>)) (\<lambda>m.
     l_store m b (\<lambda>n. n\<lparr>l_data := l_data na, l_size := l_size na\<rparr>))))"

text \<open>\<^verbatim>\<open>free(root->data); qAVLTree__list_remove(root); free(root);\<close>\<close>

definition drop_node :: "ptr \<Rightarrow> 'd lmem \<Rightarrow> 'd lmem exec" where
  "drop_node p m = bind_exec (qAVLTree__list_remove p m) (\<lambda>m. lfree m p)"

fun qAVLTree__delete_leftmax :: "qAVLTreeNode \<Rightarrow> ptr \<Rightarrow> 'd lmem \<Rightarrow> (qAVLTreeNode \<times> 'd lmem) exec" where
  "qAVLTree__delete_leftmax ANull elem m = Fault"
| "qAVLTree__delete_leftmax (ANode p l r h) elem m =
     (if \<not> is_ANull r then
        bind_exec (qAVLTree__delete_leftmax r elem m) (\<lambda>(newroot, m).
        qAVLTree__right_balance (mk p l newroot) m)
      else
        bind_exec (qAVLTreeNode__swap p elem m) (\<lambda>m.
        bind_exec (drop_node p m) (\<lambda>m. Done (l, m))))"

fun qAVLTree__delete_rightmin :: "qAVLTreeNode \<Rightarrow> ptr \<Rightarrow> 'd lmem \<Rightarrow> (qAVLTreeNode \<times> 'd lmem) exec" where
  "qAVLTree__delete_rightmin ANull elem m = Fault"
| "qAVLTree__delete_rightmin (ANode p l r h) elem m =
     (if \<not> is_ANull l then
        bind_exec (qAVLTree__delete_rightmin l elem m) (\<lambda>(newroot, m).
        qAVLTree__left_balance (mk p newroot r) m)
      else
        bind_exec (qAVLTreeNode__swap p elem m) (\<lambda>m.
        bind_exec (drop_node p m) (\<lambda>m. Done (r, m))))"

text \<open>
  The iterator is the address of its node. When the element is not found nothing has changed and
  \<^verbatim>\<open>*newrootptr\<close> is \<^verbatim>\<open>root\<close>.
\<close>

fun qAVLTree__recursive_delete ::
  "'d elem_cmp \<Rightarrow> qAVLTreeNode \<Rightarrow> ptr \<Rightarrow> 'd lmem \<Rightarrow> (int \<times> qAVLTreeNode \<times> 'd lmem) exec" where
  "qAVLTree__recursive_delete cmp ANull elem m = Fault"
| "qAVLTree__recursive_delete cmp (ANode p l r h) elem m =
     bind_exec (l_load m elem) (\<lambda>en.
     case l_data en of
       None \<Rightarrow> Fault
     | Some d \<Rightarrow>
         bind_exec (acmp cmp (d, l_size en) m p) (\<lambda>cmpresult.
         if cmpresult = 0 then
           (if h = 1 then bind_exec (drop_node p m) (\<lambda>m. Done (0, ANull, m))
            else if qAVLTreeNode__get_blfactor l r > 0 then
              bind_exec (qAVLTree__delete_rightmin r elem m) (\<lambda>(newroot, m).
              bind_exec (qAVLTree__right_balance (mk p l newroot) m) (\<lambda>(t, m). Done (0, t, m)))
            else
              bind_exec (qAVLTree__delete_leftmax l elem m) (\<lambda>(newroot, m).
              bind_exec (qAVLTree__left_balance (mk p newroot r) m) (\<lambda>(t, m). Done (0, t, m))))
         else if cmpresult < 0 then
           (if is_ANull l then Done (-1, ANode p l r h, m)
            else
              bind_exec (qAVLTree__recursive_delete cmp l elem m) (\<lambda>(status, newroot, m).
              if status \<noteq> 0 then Done (status, ANode p l r h, m)
              else bind_exec (qAVLTree__right_balance (mk p newroot r) m) (\<lambda>(t, m). Done (0, t, m))))
         else
           (if is_ANull r then Done (-1, ANode p l r h, m)
            else
              bind_exec (qAVLTree__recursive_delete cmp r elem m) (\<lambda>(status, newroot, m).
              if status \<noteq> 0 then Done (status, ANode p l r h, m)
              else bind_exec (qAVLTree__left_balance (mk p l newroot) m) (\<lambda>(t, m). Done (0, t, m))))))"

definition qAVLTree__erase ::
  "'d elem_cmp \<Rightarrow> qAVLTreeDescriptor \<Rightarrow> ptr \<Rightarrow> 'd lmem \<Rightarrow> (int \<times> qAVLTreeDescriptor \<times> 'd lmem) exec" where
  "qAVLTree__erase cmp desc elem m =
     (if av_size desc = 0 then Done (-1, desc, m)
      else
        bind_exec (qAVLTree__recursive_delete cmp (av_root desc) elem m) (\<lambda>(status, newroot, m).
        if status \<noteq> 0 then Done (status, desc, m)
        else Done (0, desc\<lparr>av_size := av_size desc - 1, av_root := newroot\<rparr>, m)))"

section \<open>Iteration and destruction\<close>

text \<open>The leftmost and the rightmost node; 0 for the empty tree.\<close>

fun min_node :: "qAVLTreeNode \<Rightarrow> ptr" where
  "min_node ANull = 0"
| "min_node (ANode p l r h) = (if is_ANull l then p else min_node l)"

fun max_node :: "qAVLTreeNode \<Rightarrow> ptr" where
  "max_node ANull = 0"
| "max_node (ANode p l r h) = (if is_ANull r then p else max_node r)"

definition qAVLTree__destructor ::
  "qAVLTreeDescriptor \<Rightarrow> 'd lmem \<Rightarrow> ((int \<times> qAVLTreeDescriptor \<times> 'd lmem) exec) option" where
  "qAVLTree__destructor desc m =
     (case destroy_loop (min_node (av_root desc)) m of
        None \<Rightarrow> None
      | Some Fault \<Rightarrow> Some Fault
      | Some (Done m) \<Rightarrow> Some (Done (0, \<lparr>av_size = 0, av_root = ANull\<rparr>, m)))"

definition qAVLTree_begin :: "qAVLTreeDescriptor \<Rightarrow> ptr" where
  "qAVLTree_begin desc = min_node (av_root desc)"

definition qAVLTree_end :: "qAVLTreeDescriptor \<Rightarrow> ptr" where
  "qAVLTree_end desc = max_node (av_root desc)"

definition qAVLTreeIterator_isvalid :: "ptr \<Rightarrow> bool" where
  "qAVLTreeIterator_isvalid iter \<longleftrightarrow> iter \<noteq> 0"

definition qAVLTreeIterator_deref :: "'d lmem \<Rightarrow> ptr \<Rightarrow> 'd option exec" where
  "qAVLTreeIterator_deref m iter =
     (if qAVLTreeIterator_isvalid iter then bind_exec (l_load m iter) (\<lambda>n. Done (l_data n)) else Done None)"

definition qAVLTreeIterator_prev :: "'d lmem \<Rightarrow> ptr \<Rightarrow> ptr exec" where
  "qAVLTreeIterator_prev m iter = bind_exec (l_load m iter) (\<lambda>n. Done (l_prev n))"

definition qAVLTreeIterator_next :: "'d lmem \<Rightarrow> ptr \<Rightarrow> ptr exec" where
  "qAVLTreeIterator_next m iter = bind_exec (l_load m iter) (\<lambda>n. Done (l_next n))"

end
