(* ===== verification/AVLSpec.thy ===== *)
theory AVLSpec
  imports AVL Utils
begin

text \<open>
  The tree and its thread: the addresses in order, the stored heights, and what rotations, insertion and
  removal do to them. No rotation ever meets a null pointer, although the code takes the wrong one at
  times, because the stored heights are right.
\<close>

section \<open>Shape\<close>

primrec addrs :: "qAVLTreeNode \<Rightarrow> ptr list" where
  "addrs ANull = []"
| "addrs (ANode p l r h) = addrs l @ p # addrs r"

primrec hok :: "qAVLTreeNode \<Rightarrow> bool" where
  "hok ANull \<longleftrightarrow> True"
| "hok (ANode p l r h) \<longleftrightarrow> h = qAVLTreeNode__updateHeight l r \<and> hok l \<and> hok r"

lemma gh_simps [simp]: "qAVLTreeNode__getHeight ANull = 0" "qAVLTreeNode__getHeight (ANode p l r h) = h"
  by (simp_all add: qAVLTreeNode__getHeight_def)

lemma mk_simps [simp]: "addrs (mk p l r) = addrs l @ p # addrs r" "hok (mk p l r) \<longleftrightarrow> hok l \<and> hok r"
  "\<not> is_ANull (mk p l r)" "mk p l r \<noteq> ANull"
  by (simp_all add: mk_def)

lemma hok_height: "hok t \<Longrightarrow> 0 \<le> qAVLTreeNode__getHeight t \<and> (qAVLTreeNode__getHeight t = 0 \<longleftrightarrow> t = ANull)"
  by (induction t) (auto simp: qAVLTreeNode__updateHeight_def)

lemma addrs_Nil [simp]: "addrs t = [] \<longleftrightarrow> t = ANull"
  by (cases t) auto

lemma is_ANull_iff [simp]: "is_ANull t \<longleftrightarrow> t = ANull"
  by (cases t) auto

lemmas avl_rot_defs = qAVLTree__SimpleLeftRotate_def qAVLTree__SimpleRightRotate_def
  qAVLTree__LeftRightRotate_def qAVLTree__RightLeftRotate_def

lemma left_balance_ok:
  assumes "hok l" and "hok r"
  shows "\<exists>t. qAVLTree__left_balance (mk p l r) m = Done (t, m) \<and> addrs t = addrs l @ p # addrs r \<and> hok t \<and> t \<noteq> ANull"
proof (cases "qAVLTreeNode__get_blfactor l r \<le> -2")
  case False
  then show ?thesis
    using assms by (auto simp: qAVLTree__left_balance_def mk_def)
next
  case True
  then have gl: "2 \<le> qAVLTreeNode__getHeight l"
    using hok_height [OF assms(2)] by (simp add: qAVLTreeNode__get_blfactor_def)
  then obtain lp ll lr lh where l: "l = ANode lp ll lr lh" "lh = qAVLTreeNode__updateHeight ll lr" "hok ll" "hok lr"
    using assms(1) by (cases l) auto
  have sub: "ll = ANull \<Longrightarrow> lr \<noteq> ANull"
    using gl l(1,2) by (auto simp: qAVLTreeNode__updateHeight_def)
  have simple: "\<exists>t. qAVLTree__SimpleRightRotate (mk p l r) m = Done (t, m) \<and> addrs t = addrs l @ p # addrs r \<and> hok t \<and> t \<noteq> ANull"
    using l sub assms(2) by (cases lr) (auto simp: avl_rot_defs mk_def)
  show ?thesis
  proof (cases lr)
    case ANull
    then show ?thesis
      using True l simple by (simp add: qAVLTree__left_balance_def mk_def)
  next
    case (ANode q ql qr qh)
    show ?thesis
    proof (cases "qAVLTreeNode__get_blfactor ql qr > 0")
      case False
      then show ?thesis
        using True l ANode simple by (simp add: qAVLTree__left_balance_def mk_def)
    next
      case t: True
      then have "qr \<noteq> ANull"
        using hok_height [of ql] l(4) ANode by (auto simp: qAVLTreeNode__get_blfactor_def)
      then show ?thesis
        using True t l ANode assms(2) by (auto simp: qAVLTree__left_balance_def avl_rot_defs mk_def)
    qed
  qed
qed

lemma right_balance_ok:
  assumes "hok l" and "hok r"
  shows "\<exists>t. qAVLTree__right_balance (mk p l r) m = Done (t, m) \<and> addrs t = addrs l @ p # addrs r \<and> hok t \<and> t \<noteq> ANull"
proof (cases "qAVLTreeNode__get_blfactor l r \<ge> 2")
  case False
  then show ?thesis
    using assms by (auto simp: qAVLTree__right_balance_def mk_def)
next
  case True
  then have gr: "2 \<le> qAVLTreeNode__getHeight r"
    using hok_height [OF assms(1)] by (simp add: qAVLTreeNode__get_blfactor_def)
  then obtain rp rl rr rh where r: "r = ANode rp rl rr rh" "rh = qAVLTreeNode__updateHeight rl rr" "hok rl" "hok rr"
    using assms(2) by (cases r) auto
  have sub: "rr = ANull \<Longrightarrow> rl \<noteq> ANull"
    using gr r(1,2) by (auto simp: qAVLTreeNode__updateHeight_def)
  have simple: "\<exists>t. qAVLTree__SimpleLeftRotate (mk p l r) m = Done (t, m) \<and> addrs t = addrs l @ p # addrs r \<and> hok t \<and> t \<noteq> ANull"
    using r sub assms(1) by (cases rl) (auto simp: avl_rot_defs mk_def)
  show ?thesis
  proof (cases rl)
    case ANull
    then show ?thesis
      using True r simple by (simp add: qAVLTree__right_balance_def mk_def)
  next
    case (ANode q ql qr qh)
    show ?thesis
    proof (cases "qAVLTreeNode__get_blfactor ql qr < 0")
      case False
      then show ?thesis
        using True r ANode simple by (simp add: qAVLTree__right_balance_def mk_def)
    next
      case t: True
      then have "ql \<noteq> ANull"
        using hok_height [of qr] r(3) ANode by (auto simp: qAVLTreeNode__get_blfactor_def)
      then show ?thesis
        using True t r ANode assms(1) by (auto simp: qAVLTree__right_balance_def avl_rot_defs mk_def)
    qed
  qed
qed

section \<open>The thread\<close>

lemma insert_left_seg:
  assumes "seg (nodes m) 0 (qs @ p # rs) 0" and "distinct (qs @ p # rs)" and "nodes m a = Some na"
    and "a \<notin> set (qs @ p # rs)" and "a \<noteq> 0"
  shows "\<exists>m'. qAVLTree__list_insert_left p a m = Done m' \<and> seg (nodes m') 0 (qs @ a # p # rs) 0
    \<and> cell (nodes m') = cell (nodes m) \<and> agree_off (insert a (set (qs @ p # rs))) m m' \<and> lerr m' = lerr m"
proof (cases qs rule: rev_cases)
  case Nil
  then show ?thesis
    using assms by (auto simp: qAVLTree__list_insert_left_def l_load_def l_store_def agree_off_def cell_def fun_eq_iff)
next
  case (snoc us u)
  then show ?thesis
    using assms by (auto simp: qAVLTree__list_insert_left_def l_load_def l_store_def agree_off_def cell_def fun_eq_iff)
qed

lemma insert_right_seg:
  assumes "seg (nodes m) 0 (qs @ p # rs) 0" and "distinct (qs @ p # rs)" and "nodes m a = Some na"
    and "a \<notin> set (qs @ p # rs)" and "a \<noteq> 0"
  shows "\<exists>m'. qAVLTree__list_insert_right p a m = Done m' \<and> seg (nodes m') 0 (qs @ p # a # rs) 0
    \<and> cell (nodes m') = cell (nodes m) \<and> agree_off (insert a (set (qs @ p # rs))) m m' \<and> lerr m' = lerr m"
proof (cases rs)
  case Nil
  then show ?thesis
    using assms by (auto simp: qAVLTree__list_insert_right_def l_load_def l_store_def agree_off_def cell_def fun_eq_iff)
next
  case (Cons u us)
  then show ?thesis
    using assms by (auto simp: qAVLTree__list_insert_right_def l_load_def l_store_def agree_off_def cell_def fun_eq_iff)
qed

lemma drop_node_seg:
  assumes "seg (nodes m) 0 (qs @ p # rs) 0" and "distinct (qs @ p # rs)"
  shows "\<exists>m'. drop_node p m = Done m' \<and> seg (nodes m') 0 (qs @ rs) 0 \<and> nodes m' p = None
    \<and> (\<forall>q. q \<noteq> p \<longrightarrow> cell (nodes m') q = cell (nodes m) q) \<and> agree_off (set (qs @ p # rs)) m m' \<and> lerr m' = lerr m"
proof (cases qs rule: rev_cases)
  case Nil
  then show ?thesis
    using assms by (cases rs) (auto simp: drop_node_def qAVLTree__list_remove_def l_load_def l_store_def lfree_def agree_off_def cell_def)
next
  case (snoc us u)
  then show ?thesis
    using assms by (cases rs) (auto simp: drop_node_def qAVLTree__list_remove_def l_load_def l_store_def lfree_def agree_off_def cell_def)
qed

end
