(* ===== verification/AVLOps.thy ===== *)
theory AVLOps
  imports AVLSpec
begin

text \<open>
  Search, insertion and removal in a tree whose nodes lie in a longer thread, between the nodes \<open>qs\<close>
  before and \<open>rs\<close> after it, by induction on the tree.
\<close>

section \<open>A tree in its thread\<close>

definition threaded :: "'d lmem \<Rightarrow> ptr list \<Rightarrow> qAVLTreeNode \<Rightarrow> ptr list \<Rightarrow> 'd elem list \<Rightarrow> bool" where
  "threaded m qs t rs xs \<longleftrightarrow> seg (nodes m) 0 (qs @ addrs t @ rs) 0 \<and> distinct (qs @ addrs t @ rs)
     \<and> map (cell (nodes m)) (addrs t) = map full xs \<and> hok t"

lemma threaded_length: "threaded m qs t rs xs \<Longrightarrow> length (addrs t) = length xs"
  by (metis length_map threaded_def)

lemma threaded_ANull [simp]: "threaded m qs ANull rs xs \<longleftrightarrow> xs = [] \<and> seg (nodes m) 0 (qs @ rs) 0 \<and> distinct (qs @ rs)"
  by (auto simp: threaded_def)

lemma threaded_ANode:
  "threaded m qs (ANode p l r h) rs xs \<longleftrightarrow> h = qAVLTreeNode__updateHeight l r \<and> (\<exists>xl y xr. xs = xl @ y # xr
     \<and> threaded m qs l (p # addrs r @ rs) xl \<and> threaded m (qs @ addrs l @ [p]) r rs xr \<and> cell (nodes m) p = full y)"
proof
  assume a: "threaded m qs (ANode p l r h) rs xs"
  then have "map full xs = map (cell (nodes m)) (addrs l) @ cell (nodes m) p # map (cell (nodes m)) (addrs r)"
    by (simp add: threaded_def)
  then obtain xl y xr where "xs = xl @ y # xr" "map full xl = map (cell (nodes m)) (addrs l)" "full y = cell (nodes m) p"
      "map full xr = map (cell (nodes m)) (addrs r)"
    by (auto simp: map_eq_append_conv map_eq_Cons_conv)
  then show "h = qAVLTreeNode__updateHeight l r \<and> (\<exists>xl y xr. xs = xl @ y # xr
     \<and> threaded m qs l (p # addrs r @ rs) xl \<and> threaded m (qs @ addrs l @ [p]) r rs xr \<and> cell (nodes m) p = full y)"
    using a by (intro conjI exI [of _ xl] exI [of _ y] exI [of _ xr]) (simp_all add: threaded_def)
next
  assume "h = qAVLTreeNode__updateHeight l r \<and> (\<exists>xl y xr. xs = xl @ y # xr
     \<and> threaded m qs l (p # addrs r @ rs) xl \<and> threaded m (qs @ addrs l @ [p]) r rs xr \<and> cell (nodes m) p = full y)"
  then show "threaded m qs (ANode p l r h) rs xs"
    by (auto simp: threaded_def)
qed

text \<open>Reassembling a tree after one of its parts has changed, and balancing it.\<close>

lemma threaded_left:
  assumes "threaded m' qs l' (p # addrs r @ rs) xl'" and "threaded m (qs @ addrs l @ [p]) r rs xr"
    and "cell (nodes m) p = full y" and "\<And>q. q \<in> insert p (set (addrs r)) \<Longrightarrow> cell (nodes m') q = cell (nodes m) q"
  shows "threaded m' qs (mk p l' r) rs (xl' @ y # xr)"
proof -
  have "map (cell (nodes m')) (addrs r) = map (cell (nodes m)) (addrs r)"
    using assms(4) by (intro map_cong) auto
  also have "\<dots> = map full xr"
    using assms(2) by (simp add: threaded_def)
  finally show ?thesis
    using assms(1-3) assms(4) [of p] by (simp add: threaded_def)
qed

lemma threaded_right:
  assumes "threaded m' (qs @ addrs l @ [p]) r' rs xr'" and "threaded m qs l (p # addrs r @ rs) xl"
    and "cell (nodes m) p = full y" and "\<And>q. q \<in> insert p (set (addrs l)) \<Longrightarrow> cell (nodes m') q = cell (nodes m) q"
  shows "threaded m' qs (mk p l r') rs (xl @ y # xr')"
proof -
  have "map (cell (nodes m')) (addrs l) = map (cell (nodes m)) (addrs l)"
    using assms(4) by (intro map_cong) auto
  also have "\<dots> = map full xl"
    using assms(2) by (simp add: threaded_def)
  finally show ?thesis
    using assms(1-3) assms(4) [of p] by (simp add: threaded_def)
qed

lemma threaded_left_balance:
  assumes "threaded m qs (mk p l r) rs xs"
  obtains t where "qAVLTree__left_balance (mk p l r) m = Done (t, m)" "threaded m qs t rs xs"
    "addrs t = addrs l @ p # addrs r" "t \<noteq> ANull"
proof -
  have "hok l" "hok r"
    using assms by (simp_all add: threaded_def)
  from left_balance_ok [OF this, of p m] show ?thesis
    using assms that by (auto simp: threaded_def)
qed

lemma threaded_right_balance:
  assumes "threaded m qs (mk p l r) rs xs"
  obtains t where "qAVLTree__right_balance (mk p l r) m = Done (t, m)" "threaded m qs t rs xs"
    "addrs t = addrs l @ p # addrs r" "t \<noteq> ANull"
proof -
  have "hok l" "hok r"
    using assms by (simp_all add: threaded_def)
  from right_balance_ok [OF this, of p m] show ?thesis
    using assms that by (auto simp: threaded_def)
qed

lemma threaded_distinct:
  "threaded m qs (ANode p l r h) rs xs \<Longrightarrow> p \<notin> set (addrs l) \<and> p \<notin> set (addrs r) \<and> set (addrs l) \<inter> set (addrs r) = {}"
  by (auto simp: threaded_def)

lemma acmp_cell: "cell (nodes m) p = full y \<Longrightarrow> acmp cmp x m p = Done (cmp x y)"
  by (auto simp: acmp_def l_load_def cell_def full_def)

section \<open>Order\<close>

definition csorted :: "('k \<Rightarrow> 'k \<Rightarrow> int) \<Rightarrow> 'k list \<Rightarrow> bool" where
  "csorted cmp xs \<longleftrightarrow> sorted_wrt (\<lambda>x y. cmp x y < 0) xs"

text \<open>\<open>ys\<close> is \<open>xs\<close> with \<open>x\<close> in its place.\<close>

definition placed :: "('k \<Rightarrow> 'k \<Rightarrow> int) \<Rightarrow> 'k \<Rightarrow> 'k list \<Rightarrow> 'k list \<Rightarrow> bool" where
  "placed cmp x xs ys \<longleftrightarrow> (\<exists>us vs. xs = us @ vs \<and> ys = us @ x # vs \<and> (\<forall>u \<in> set us. cmp u x < 0) \<and> (\<forall>v \<in> set vs. cmp x v < 0))"

lemma csorted_append: "csorted cmp (xs @ y # ys) \<longleftrightarrow> csorted cmp xs \<and> csorted cmp ys \<and> (\<forall>x \<in> set xs. cmp x y < 0)
    \<and> (\<forall>z \<in> set ys. cmp y z < 0) \<and> (\<forall>x \<in> set xs. \<forall>z \<in> set ys. cmp x z < 0)"
  by (auto simp: csorted_def sorted_wrt_append)

context comparator
begin

lemma placed_left:
  "placed comp x xl xl' \<Longrightarrow> comp x y < 0 \<Longrightarrow> \<forall>z \<in> set xr. comp y z < 0 \<Longrightarrow> placed comp x (xl @ y # xr) (xl' @ y # xr)"
  unfolding placed_def
proof clarsimp
  fix us vs
  assume "comp x y < 0" "\<forall>z \<in> set xr. comp y z < 0" "\<forall>u \<in> set us. comp u x < 0" "\<forall>v \<in> set vs. comp x v < 0"
  then show "\<exists>us' vs'. us @ vs @ y # xr = us' @ vs' \<and> us @ x # vs @ y # xr = us' @ x # vs'
      \<and> (\<forall>u \<in> set us'. comp u x < 0) \<and> (\<forall>v \<in> set vs'. comp x v < 0)"
    by (intro exI [of _ us] exI [of _ "vs @ y # xr"]) (auto intro: comp_less_trans)
qed

lemma placed_right:
  "placed comp x xr xr' \<Longrightarrow> comp y x < 0 \<Longrightarrow> \<forall>z \<in> set xl. comp z y < 0 \<Longrightarrow> placed comp x (xl @ y # xr) (xl @ y # xr')"
  unfolding placed_def
proof clarsimp
  fix us vs
  assume "comp y x < 0" "\<forall>z \<in> set xl. comp z y < 0" "\<forall>u \<in> set us. comp u x < 0" "\<forall>v \<in> set vs. comp x v < 0"
  then show "\<exists>us' vs'. xl @ y # us @ vs = us' @ vs' \<and> xl @ y # us @ x # vs = us' @ x # vs'
      \<and> (\<forall>u \<in> set us'. comp u x < 0) \<and> (\<forall>v \<in> set vs'. comp x v < 0)"
    by (intro exI [of _ "xl @ y # us"] exI [of _ vs]) (auto intro: comp_less_trans)
qed

lemma placed_sorted: "placed comp x xs ys \<Longrightarrow> csorted comp xs \<Longrightarrow> csorted comp ys"
  by (auto simp: placed_def csorted_def sorted_wrt_append intro: comp_less_trans)

end

text \<open>The order of elements, each with its size.\<close>

locale elem_order = comparator comp for comp :: "'d elem \<Rightarrow> 'd elem \<Rightarrow> int"
begin

subsection \<open>Search\<close>

lemma ptr_at_threaded:
  "threaded m qs t rs xs \<Longrightarrow> csorted comp xs \<Longrightarrow>
   (\<exists>p y. qAVLTree__ptr_at comp t x m = Done (Some p) \<and> (p, y) \<in> set (zip (addrs t) xs) \<and> comp x y = 0)
   \<or> (qAVLTree__ptr_at comp t x m = Done None \<and> (\<forall>y \<in> set xs. comp x y \<noteq> 0))"
proof (induction t arbitrary: qs rs xs)
  case (ANode p l r h)
  then obtain xl y xr where T: "xs = xl @ y # xr" "threaded m qs l (p # addrs r @ rs) xl"
      "threaded m (qs @ addrs l @ [p]) r rs xr" "cell (nodes m) p = full y"
    by (auto simp: threaded_ANode)
  have S: "csorted comp xl" "csorted comp xr" "\<forall>z \<in> set xl. comp z y < 0" "\<forall>z \<in> set xr. comp y z < 0"
    using ANode.prems(2) T(1) by (auto simp: csorted_append)
  note c = acmp_cell [OF T(4)]
  have z: "zip (addrs (ANode p l r h)) xs = zip (addrs l) xl @ (p, y) # zip (addrs r) xr"
    using T(1) threaded_length [OF T(2)] by simp
  consider "comp x y = 0" | "comp x y < 0" | "comp x y > 0" by linarith
  then show ?case
  proof cases
    case 1
    then show ?thesis
      unfolding z using c by (intro disjI1 exI [of _ p] exI [of _ y]) simp
  next
    case 2
    then have "\<forall>z \<in> set xr. comp x z \<noteq> 0"
      using S(4) comp_less_trans by fastforce
    then have none: "(\<forall>u \<in> set xl. comp x u \<noteq> 0) \<Longrightarrow> (\<forall>u \<in> set xs. comp x u \<noteq> 0)"
      using T(1) 2 by auto
    have eq: "qAVLTree__ptr_at comp (ANode p l r h) x m = qAVLTree__ptr_at comp l x m"
      using 2 c by simp
    have sub: "set (zip (addrs l) xl) \<subseteq> set (zip (addrs (ANode p l r h)) xs)"
      using z by auto
    show ?thesis
      unfolding eq using ANode.IH(1) [OF T(2) S(1)] none sub by blast
  next
    case 3
    then have "\<forall>z \<in> set xl. comp x z \<noteq> 0"
      using S(3) comp_less_trans [of _ y x] comp_swap [of y x] comp_zero_sym by fastforce
    then have none: "(\<forall>u \<in> set xr. comp x u \<noteq> 0) \<Longrightarrow> (\<forall>u \<in> set xs. comp x u \<noteq> 0)"
      using T(1) 3 by auto
    have eq: "qAVLTree__ptr_at comp (ANode p l r h) x m = qAVLTree__ptr_at comp r x m"
      using 3 c by simp
    have sub: "set (zip (addrs r) xr) \<subseteq> set (zip (addrs (ANode p l r h)) xs)"
      using z by auto
    show ?thesis
      unfolding eq using ANode.IH(2) [OF T(3) S(2)] none sub by blast
  qed
qed simp

subsection \<open>Insertion\<close>

lemma insert_exists:
  "threaded m qs t rs xs \<Longrightarrow> csorted comp xs \<Longrightarrow> y \<in> set xs \<Longrightarrow> comp x y = 0 \<Longrightarrow>
   qAVLTree__recursive_insert comp a mok t x m = Done (-1, t, t, m)"
proof (induction t arbitrary: qs rs xs)
  case (ANode p l r h)
  then obtain xl z xr where T: "xs = xl @ z # xr" "threaded m qs l (p # addrs r @ rs) xl"
      "threaded m (qs @ addrs l @ [p]) r rs xr" "cell (nodes m) p = full z"
    by (auto simp: threaded_ANode)
  have S: "csorted comp xl" "csorted comp xr" "\<forall>u \<in> set xl. comp u z < 0" "\<forall>u \<in> set xr. comp z u < 0"
    using ANode.prems(2) T(1) by (auto simp: csorted_append)
  note c = acmp_cell [OF T(4)]
  consider "y = z" | "y \<in> set xl" | "y \<in> set xr"
    using ANode.prems(3) T(1) by auto
  then show ?case
  proof cases
    case 2
    then have "comp x z < 0"
      using S(3) ANode.prems(4) comp_le_less_trans [of x y z] by auto
    moreover have "l \<noteq> ANull"
      using 2 T(2) by auto
    ultimately show ?thesis
      using ANode.IH(1) [OF T(2) S(1) 2 ANode.prems(4)] c by simp
  next
    case 3
    then have "comp z x < 0"
      using S(4) ANode.prems(4) comp_zero_sym [of x y] comp_less_le_trans [of z y x] by auto
    then have "comp x z > 0"
      using comp_swap by blast
    moreover have "r \<noteq> ANull"
      using 3 T(3) by auto
    ultimately show ?thesis
      using ANode.IH(2) [OF T(3) S(2) 3 ANode.prems(4)] c by simp
  qed (use c ANode.prems(4) in simp)
qed simp

text \<open>What an insertion at the address \<open>a\<close> leaves.\<close>

definition inserts :: "'d lmem \<Rightarrow> ptr list \<Rightarrow> qAVLTreeNode \<Rightarrow> ptr list \<Rightarrow> 'd elem list \<Rightarrow> ptr \<Rightarrow> 'd elem
    \<Rightarrow> qAVLTreeNode \<Rightarrow> 'd lmem \<Rightarrow> bool" where
  "inserts m qs t rs xs a x t' m' \<longleftrightarrow> (\<exists>ys. placed comp x xs ys \<and> threaded m' qs t' rs ys) \<and> t' \<noteq> ANull
     \<and> set (addrs t') = insert a (set (addrs t)) \<and> (\<forall>q. q \<noteq> a \<longrightarrow> cell (nodes m') q = cell (nodes m) q)
     \<and> agree_off (insert a (set (qs @ addrs t @ rs))) m m' \<and> lerr m' = lerr m"

lemma new_leaf:
  assumes "a \<noteq> 0"
  shows "\<exists>m1 na. new_node (Some a) True x m = (a, m1) \<and> nodes m1 = (nodes m)(a \<mapsto> na) \<and> cell (nodes m1) a = full x
    \<and> lerr m1 = lerr m"
  using assms by (auto simp: new_node_def qAVLTreeNode__constructor_def full_def)

lemma insert_leaf_left:
  assumes "threaded m qs (ANode p ANull r h) rs xs" and "csorted comp xs" and "acmp comp x m p = Done c" and "c < 0"
    and "nodes m a = None" and "a \<noteq> 0"
  shows "\<exists>t' m'. qAVLTree__recursive_insert comp (Some a) True (ANode p ANull r h) x m = Done (0, t', t', m')
    \<and> inserts m qs (ANode p ANull r h) rs xs a x t' m'"
proof -
  obtain y xr where T: "xs = y # xr" "threaded m (qs @ [p]) r rs xr" "cell (nodes m) p = full y"
    using assms(1) by (auto simp: threaded_ANode)
  obtain m1 na where m1: "new_node (Some a) True x m = (a, m1)" "nodes m1 = (nodes m)(a \<mapsto> na)" "cell (nodes m1) a = full x"
      "lerr m1 = lerr m"
    using new_leaf [OF assms(6)] by blast
  have sg: "seg (nodes m) 0 (qs @ p # addrs r @ rs) 0" "distinct (qs @ p # addrs r @ rs)"
    using assms(1) by (simp_all add: threaded_def)
  have a: "a \<notin> set (qs @ p # addrs r @ rs)"
    using seg_live [OF sg(1)] assms(5) by blast
  then have "seg (nodes m1) 0 (qs @ p # addrs r @ rs) 0"
    using sg(1) m1(2) seg_upd by metis
  from insert_left_seg [OF this sg(2) _ a assms(6), of na] obtain m' where
    m': "qAVLTree__list_insert_left p a m1 = Done m'" "seg (nodes m') 0 (qs @ a # p # addrs r @ rs) 0"
      "cell (nodes m') = cell (nodes m1)" "agree_off (insert a (set (qs @ p # addrs r @ rs))) m1 m'" "lerr m' = lerr m1"
    using m1(2) by auto
  have cm: "cell (nodes m') q = cell (nodes m) q" if "q \<noteq> a" for q
    using that m'(3) m1(2) by (simp add: cell_def)
  have less: "comp x y < 0"
    using assms(3,4) acmp_cell [OF T(3), of comp x] by simp
  have "placed comp x xs (x # xs)"
    unfolding placed_def using T(1) less assms(2)
    by (intro exI [of _ "[]"] exI [of _ xs]) (auto simp: csorted_def intro: comp_less_trans)
  moreover have "map (cell (nodes m')) (p # addrs r) = map full xs"
  proof -
    have "map (cell (nodes m')) (p # addrs r) = map (cell (nodes m)) (p # addrs r)"
      by (intro map_cong [OF refl] cm) (use a in auto)
    also have "\<dots> = map full xs"
      using assms(1) by (simp add: threaded_def)
    finally show ?thesis .
  qed
  then have "threaded m' qs (mk p (ANode a ANull ANull 1) r) rs (x # xs)"
    using m'(2,3) m1(3) sg(2) a T(2) by (simp add: threaded_def qAVLTreeNode__updateHeight_def)
  moreover have "agree_off (insert a (set (qs @ p # addrs r @ rs))) m m'"
    using m'(4) m1(2) by (simp add: agree_off_def)
  ultimately have "inserts m qs (ANode p ANull r h) rs xs a x (mk p (ANode a ANull ANull 1) r) m'"
    using cm m'(5) m1(4) by (auto simp: inserts_def)
  then show ?thesis
    using assms(3,4,6) m1(1) m'(1) by (simp add: Let_def)
qed

lemma insert_leaf_right:
  assumes "threaded m qs (ANode p l ANull h) rs xs" and "csorted comp xs" and "acmp comp x m p = Done c" and "c > 0"
    and "nodes m a = None" and "a \<noteq> 0"
  shows "\<exists>t' m'. qAVLTree__recursive_insert comp (Some a) True (ANode p l ANull h) x m = Done (0, t', t', m')
    \<and> inserts m qs (ANode p l ANull h) rs xs a x t' m'"
proof -
  obtain y xl where T: "xs = xl @ [y]" "threaded m qs l (p # rs) xl" "cell (nodes m) p = full y"
    using assms(1) by (auto simp: threaded_ANode)
  obtain m1 na where m1: "new_node (Some a) True x m = (a, m1)" "nodes m1 = (nodes m)(a \<mapsto> na)" "cell (nodes m1) a = full x"
      "lerr m1 = lerr m"
    using new_leaf [OF assms(6)] by blast
  have sg: "seg (nodes m) 0 ((qs @ addrs l) @ p # rs) 0" "distinct ((qs @ addrs l) @ p # rs)"
    using assms(1) by (simp_all add: threaded_def)
  have a: "a \<notin> set ((qs @ addrs l) @ p # rs)"
    using seg_live [OF sg(1)] assms(5) by blast
  then have "seg (nodes m1) 0 ((qs @ addrs l) @ p # rs) 0"
    using sg(1) m1(2) seg_upd by metis
  from insert_right_seg [OF this sg(2) _ a assms(6), of na] obtain m' where
    m': "qAVLTree__list_insert_right p a m1 = Done m'" "seg (nodes m') 0 ((qs @ addrs l) @ p # a # rs) 0"
      "cell (nodes m') = cell (nodes m1)" "agree_off (insert a (set ((qs @ addrs l) @ p # rs))) m1 m'" "lerr m' = lerr m1"
    using m1(2) by auto
  have cm: "cell (nodes m') q = cell (nodes m) q" if "q \<noteq> a" for q
    using that m'(3) m1(2) by (simp add: cell_def)
  have less: "comp y x < 0"
    using assms(3,4) acmp_cell [OF T(3), of comp x] comp_swap [of y x] by simp
  have "placed comp x xs (xs @ [x])"
    unfolding placed_def using T(1) less assms(2)
    by (intro exI [of _ xs] exI [of _ "[]"]) (auto simp: csorted_def sorted_wrt_append intro: comp_less_trans)
  moreover have "map (cell (nodes m')) (addrs l @ [p]) = map full xs"
  proof -
    have "map (cell (nodes m')) (addrs l @ [p]) = map (cell (nodes m)) (addrs l @ [p])"
      by (intro map_cong [OF refl] cm) (use a in auto)
    also have "\<dots> = map full xs"
      using assms(1) by (simp add: threaded_def)
    finally show ?thesis .
  qed
  then have "threaded m' qs (mk p l (ANode a ANull ANull 1)) rs (xs @ [x])"
    using m'(2,3) m1(3) sg(2) a T(2) by (simp add: threaded_def qAVLTreeNode__updateHeight_def)
  moreover have "agree_off (insert a (set ((qs @ addrs l) @ p # rs))) m m'"
    using m'(4) m1(2) by (simp add: agree_off_def)
  ultimately have "inserts m qs (ANode p l ANull h) rs xs a x (mk p l (ANode a ANull ANull 1)) m'"
    using cm m'(5) m1(4) by (auto simp: inserts_def)
  then show ?thesis
    using assms(3,4,6) m1(1) m'(1) by (simp add: Let_def)
qed

lemma insert_new:
  "threaded m qs t rs xs \<Longrightarrow> csorted comp xs \<Longrightarrow> t \<noteq> ANull \<Longrightarrow> \<forall>y \<in> set xs. comp x y \<noteq> 0 \<Longrightarrow> nodes m a = None \<Longrightarrow> a \<noteq> 0 \<Longrightarrow>
   \<exists>t' m'. qAVLTree__recursive_insert comp (Some a) True t x m = Done (0, t', t', m') \<and> inserts m qs t rs xs a x t' m'"
proof (induction t arbitrary: qs rs xs)
  case (ANode p l r h)
  then obtain xl y xr where T: "xs = xl @ y # xr" "threaded m qs l (p # addrs r @ rs) xl"
      "threaded m (qs @ addrs l @ [p]) r rs xr" "cell (nodes m) p = full y"
    by (auto simp: threaded_ANode)
  have S: "csorted comp xl" "csorted comp xr" "\<forall>z \<in> set xl. comp z y < 0" "\<forall>z \<in> set xr. comp y z < 0"
    using ANode.prems(2) T(1) by (auto simp: csorted_append)
  note c = acmp_cell [OF T(4), of comp x]
  have live: "a \<notin> set (addrs l) \<and> a \<noteq> p \<and> a \<notin> set (addrs r)"
    using seg_live [of "nodes m" 0 "qs @ addrs (ANode p l r h) @ rs" 0 a] ANode.prems(1,5) by (auto simp: threaded_def)
  consider "comp x y < 0" | "comp x y > 0"
    using ANode.prems(4) T(1) by fastforce
  then show ?case
  proof cases
    case 1
    show ?thesis
    proof (cases "l = ANull")
      case True
      then show ?thesis
        using insert_leaf_left [of m qs p r h rs xs x "comp x y" a] ANode.prems c 1 by simp
    next
      case False
      then obtain l' m' where l': "qAVLTree__recursive_insert comp (Some a) True l x m = Done (0, l', l', m')"
          "inserts m qs l (p # addrs r @ rs) xl a x l' m'"
        using ANode.IH(1) [OF T(2) S(1)] ANode.prems(4-6) T(1) by auto
      then obtain ys where ys: "placed comp x xl ys" "threaded m' qs l' (p # addrs r @ rs) ys"
        by (auto simp: inserts_def)
      have "threaded m' qs (mk p l' r) rs (ys @ y # xr)"
        by (rule threaded_left [OF ys(2) T(3,4)]) (use l'(2) live in \<open>auto simp: inserts_def\<close>)
      then obtain t where t: "qAVLTree__left_balance (mk p l' r) m' = Done (t, m')" "threaded m' qs t rs (ys @ y # xr)"
          "addrs t = addrs l' @ p # addrs r" "t \<noteq> ANull"
        by (rule threaded_left_balance)
      have "inserts m qs (ANode p l r h) rs xs a x t m'"
        using t l'(2) placed_left [OF ys(1) 1 S(4)] T(1) by (auto simp: inserts_def)
      then show ?thesis
        using False 1 c l'(1) t(1) by simp
    qed
  next
    case 2
    then have yx: "comp y x < 0"
      using comp_swap by blast
    show ?thesis
    proof (cases "r = ANull")
      case True
      then show ?thesis
        using insert_leaf_right [of m qs p l h rs xs x "comp x y" a] ANode.prems c 2 by simp
    next
      case False
      then obtain r' m' where r': "qAVLTree__recursive_insert comp (Some a) True r x m = Done (0, r', r', m')"
          "inserts m (qs @ addrs l @ [p]) r rs xr a x r' m'"
        using ANode.IH(2) [OF T(3) S(2)] ANode.prems(4-6) T(1) by auto
      then obtain ys where ys: "placed comp x xr ys" "threaded m' (qs @ addrs l @ [p]) r' rs ys"
        by (auto simp: inserts_def)
      have "threaded m' qs (mk p l r') rs (xl @ y # ys)"
        by (rule threaded_right [OF ys(2) T(2,4)]) (use r'(2) live in \<open>auto simp: inserts_def\<close>)
      then obtain t where t: "qAVLTree__right_balance (mk p l r') m' = Done (t, m')" "threaded m' qs t rs (xl @ y # ys)"
          "addrs t = addrs l @ p # addrs r'" "t \<noteq> ANull"
        by (rule threaded_right_balance)
      have "inserts m qs (ANode p l r h) rs xs a x t m'"
        using t r'(2) placed_right [OF ys(1) yx S(3)] T(1) by (auto simp: inserts_def)
      then show ?thesis
        using False 2 c r'(1) t(1) by simp
    qed
  qed
qed simp

end

end
