(* ===== verification/AVLErase.thy ===== *)
theory AVLErase
  imports AVLOps
begin

text \<open>
  Removal: the element of an inner node is exchanged with its neighbour in the order, whose node is then
  unlinked from the tree and from the thread and released.
\<close>

section \<open>Exchange and release\<close>

lemma swap_drop:
  assumes "seg (nodes m) 0 (qs @ p # rs) 0" and "distinct (qs @ p # rs)" and "e \<in> set (qs @ rs)"
  shows "\<exists>m1 m'. qAVLTreeNode__swap p e m = Done m1 \<and> drop_node p m1 = Done m' \<and> seg (nodes m') 0 (qs @ rs) 0
    \<and> nodes m' p = None \<and> cell (nodes m') e = cell (nodes m) p
    \<and> (\<forall>q. q \<noteq> p \<and> q \<noteq> e \<longrightarrow> cell (nodes m') q = cell (nodes m) q) \<and> agree_off (set (qs @ p # rs)) m m' \<and> lerr m' = lerr m"
proof -
  obtain np ne where n: "nodes m p = Some np" "nodes m e = Some ne"
    using seg_live [OF assms(1), of p] seg_live [OF assms(1), of e] assms(3) by auto
  have pe: "p \<noteq> e"
    using assms(2,3) by auto
  define m1 where "m1 = m\<lparr>nodes := (nodes m)(p \<mapsto> np\<lparr>l_data := l_data ne, l_size := l_size ne\<rparr>,
     e \<mapsto> ne\<lparr>l_data := l_data np, l_size := l_size np\<rparr>)\<rparr>"
  have sw: "qAVLTreeNode__swap p e m = Done m1"
    using n pe by (simp add: qAVLTreeNode__swap_def l_load_def l_store_def m1_def)
  have "seg (nodes m1) 0 (qs @ p # rs) 0"
    by (rule seg_links [OF _ assms(1)]) (use n in \<open>auto simp: m1_def links_def\<close>)
  from drop_node_seg [OF this assms(2)] obtain m' where
    d: "drop_node p m1 = Done m'" "seg (nodes m') 0 (qs @ rs) 0" "nodes m' p = None"
      "\<forall>q. q \<noteq> p \<longrightarrow> cell (nodes m') q = cell (nodes m1) q" "agree_off (set (qs @ p # rs)) m1 m'" "lerr m' = lerr m1"
    by blast
  have "cell (nodes m') e = cell (nodes m) p"
    using d(4) pe n by (simp add: m1_def)
  moreover have "cell (nodes m') q = cell (nodes m) q" if "q \<noteq> p" "q \<noteq> e" for q
    using d(4) that by (simp add: m1_def cell_def)
  moreover have "agree_off (set (qs @ p # rs)) m m'"
    using d(5) assms(3) by (auto simp: agree_off_def m1_def)
  ultimately show ?thesis
    using sw d m1_def by auto
qed

text \<open>The store after nodes of \<open>t\<close> were released: those that are no longer in \<open>t'\<close> are gone.\<close>

definition released :: "qAVLTreeNode \<Rightarrow> qAVLTreeNode \<Rightarrow> 'd lmem \<Rightarrow> bool" where
  "released t t' m' \<longleftrightarrow> set (addrs t') \<subseteq> set (addrs t) \<and> (\<forall>q \<in> set (addrs t) - set (addrs t'). nodes m' q = None)"

lemma released_left: "released l l' m' \<Longrightarrow> addrs t = addrs l' @ p # addrs r \<Longrightarrow> released (ANode p l r h) t m'"
  unfolding released_def by (simp add: subset_iff) blast

lemma released_right: "released r r' m' \<Longrightarrow> addrs t = addrs l @ p # addrs r' \<Longrightarrow> released (ANode p l r h) t m'"
  unfolding released_def by (simp add: subset_iff) blast

section \<open>The neighbours\<close>

lemma delete_leftmax_threaded:
  "threaded m qs t (e # rs) (xs @ [x]) \<Longrightarrow>
   \<exists>t' m'. qAVLTree__delete_leftmax t e m = Done (t', m') \<and> threaded m' qs t' (e # rs) xs \<and> cell (nodes m') e = full x
     \<and> (\<forall>q. q \<notin> set (addrs t) \<and> q \<noteq> e \<longrightarrow> cell (nodes m') q = cell (nodes m) q) \<and> released t t' m'
     \<and> agree_off (set (qs @ addrs t @ e # rs)) m m' \<and> lerr m' = lerr m"
proof (induction t arbitrary: qs xs)
  case (ANode p l r h)
  then obtain xl y xr where T: "xs @ [x] = xl @ y # xr" "threaded m qs l (p # addrs r @ e # rs) xl"
      "threaded m (qs @ addrs l @ [p]) r (e # rs) xr" "cell (nodes m) p = full y"
    by (auto simp: threaded_ANode)
  note D = threaded_distinct [OF ANode.prems]
  show ?case
  proof (cases "r = ANull")
    case True
    then have x: "xs = xl" "x = y"
      using T(1,3) by auto
    have "seg (nodes m) 0 ((qs @ addrs l) @ p # e # rs) 0" "distinct ((qs @ addrs l) @ p # e # rs)"
      using ANode.prems True by (simp_all add: threaded_def)
    from swap_drop [OF this, of e] obtain m1 m' where
      s: "qAVLTreeNode__swap p e m = Done m1" "drop_node p m1 = Done m'" "seg (nodes m') 0 ((qs @ addrs l) @ e # rs) 0"
        "nodes m' p = None" "cell (nodes m') e = cell (nodes m) p" "\<forall>q. q \<noteq> p \<and> q \<noteq> e \<longrightarrow> cell (nodes m') q = cell (nodes m) q"
        "agree_off (set ((qs @ addrs l) @ p # e # rs)) m m'" "lerr m' = lerr m"
      by auto
    have e: "e \<notin> set (addrs l)" "e \<noteq> p"
      using ANode.prems by (auto simp: threaded_def)
    have "map (cell (nodes m')) (addrs l) = map (cell (nodes m)) (addrs l)"
      using s(6) D e(1) by (intro map_cong) auto
    also have "\<dots> = map full xl"
      using T(2) by (simp add: threaded_def)
    finally have "threaded m' qs l (e # rs) xl"
      using s(3) T(2) True ANode.prems by (simp add: threaded_def)
    then show ?thesis
      using True x s T(4) by (auto simp: released_def)
  next
    case False
    then obtain zr where zr: "xr = zr @ [x]" "xs = xl @ y # zr"
      using T(1,3) threaded_length [OF T(3)] by (cases xr rule: rev_cases) auto
    from ANode.IH(2) [OF T(3) [unfolded zr(1)]] obtain r' m' where
      r': "qAVLTree__delete_leftmax r e m = Done (r', m')" "threaded m' (qs @ addrs l @ [p]) r' (e # rs) zr"
        "cell (nodes m') e = full x" "\<forall>q. q \<notin> set (addrs r) \<and> q \<noteq> e \<longrightarrow> cell (nodes m') q = cell (nodes m) q"
        "released r r' m'" "agree_off (set ((qs @ addrs l @ [p]) @ addrs r @ e # rs)) m m'" "lerr m' = lerr m"
      by blast
    have "e \<notin> set (addrs l)" "e \<noteq> p"
      using ANode.prems by (auto simp: threaded_def)
    then have "threaded m' qs (mk p l r') (e # rs) (xl @ y # zr)"
      by (intro threaded_right [OF r'(2) T(2,4)]) (use r'(4) D in auto)
    then obtain t where t: "qAVLTree__right_balance (mk p l r') m' = Done (t, m')" "threaded m' qs t (e # rs) (xl @ y # zr)"
        "addrs t = addrs l @ p # addrs r'" "t \<noteq> ANull"
      by (rule threaded_right_balance)
    have "released (ANode p l r h) t m'"
      by (rule released_right [OF r'(5) t(3)])
    then show ?thesis
      using False r' t zr(2) by (auto simp: Un_assoc)
  qed
qed simp

lemma delete_rightmin_threaded:
  "threaded m (qs @ [e]) t rs (x # xs) \<Longrightarrow>
   \<exists>t' m'. qAVLTree__delete_rightmin t e m = Done (t', m') \<and> threaded m' (qs @ [e]) t' rs xs \<and> cell (nodes m') e = full x
     \<and> (\<forall>q. q \<notin> set (addrs t) \<and> q \<noteq> e \<longrightarrow> cell (nodes m') q = cell (nodes m) q) \<and> released t t' m'
     \<and> agree_off (set (qs @ e # addrs t @ rs)) m m' \<and> lerr m' = lerr m"
proof (induction t arbitrary: rs xs)
  case (ANode p l r h)
  then obtain xl y xr where T: "x # xs = xl @ y # xr" "threaded m (qs @ [e]) l (p # addrs r @ rs) xl"
      "threaded m ((qs @ [e]) @ addrs l @ [p]) r rs xr" "cell (nodes m) p = full y"
    by (auto simp: threaded_ANode)
  note D = threaded_distinct [OF ANode.prems]
  show ?case
  proof (cases "l = ANull")
    case True
    then have x: "xs = xr" "x = y"
      using T(1,2) by auto
    have "seg (nodes m) 0 ((qs @ [e]) @ p # addrs r @ rs) 0" "distinct ((qs @ [e]) @ p # addrs r @ rs)"
      using ANode.prems True by (simp_all add: threaded_def)
    from swap_drop [OF this, of e] obtain m1 m' where
      s: "qAVLTreeNode__swap p e m = Done m1" "drop_node p m1 = Done m'" "seg (nodes m') 0 ((qs @ [e]) @ addrs r @ rs) 0"
        "nodes m' p = None" "cell (nodes m') e = cell (nodes m) p" "\<forall>q. q \<noteq> p \<and> q \<noteq> e \<longrightarrow> cell (nodes m') q = cell (nodes m) q"
        "agree_off (set ((qs @ [e]) @ p # addrs r @ rs)) m m'" "lerr m' = lerr m"
      by auto
    have e: "e \<notin> set (addrs r)" "e \<noteq> p"
      using ANode.prems by (auto simp: threaded_def)
    have "map (cell (nodes m')) (addrs r) = map (cell (nodes m)) (addrs r)"
      using s(6) D e(1) by (intro map_cong) auto
    also have "\<dots> = map full xr"
      using T(3) by (simp add: threaded_def)
    finally have "threaded m' (qs @ [e]) r rs xr"
      using s(3) T(3) True ANode.prems by (simp add: threaded_def)
    then show ?thesis
      using True x s T(4) by (auto simp: released_def)
  next
    case False
    then obtain zl where zl: "xl = x # zl" "xs = zl @ y # xr"
      using T(1,2) threaded_length [OF T(2)] by (cases xl) auto
    from ANode.IH(1) [OF T(2) [unfolded zl(1)]] obtain l' m' where
      l': "qAVLTree__delete_rightmin l e m = Done (l', m')" "threaded m' (qs @ [e]) l' (p # addrs r @ rs) zl"
        "cell (nodes m') e = full x" "\<forall>q. q \<notin> set (addrs l) \<and> q \<noteq> e \<longrightarrow> cell (nodes m') q = cell (nodes m) q"
        "released l l' m'" "agree_off (set (qs @ e # addrs l @ p # addrs r @ rs)) m m'" "lerr m' = lerr m"
      by blast
    have "e \<notin> set (addrs r)" "e \<noteq> p"
      using ANode.prems by (auto simp: threaded_def)
    then have "threaded m' (qs @ [e]) (mk p l' r) rs (zl @ y # xr)"
      by (intro threaded_left [OF l'(2) T(3,4)]) (use l'(4) D in auto)
    then obtain t where t: "qAVLTree__left_balance (mk p l' r) m' = Done (t, m')" "threaded m' (qs @ [e]) t rs (zl @ y # xr)"
        "addrs t = addrs l' @ p # addrs r" "t \<noteq> ANull"
      by (rule threaded_left_balance)
    have "released (ANode p l r h) t m'"
      by (rule released_left [OF l'(5) t(3)])
    then show ?thesis
      using False l' t zl(2) by auto
  qed
qed simp

section \<open>Removal of a node\<close>

lemma full_inject [simp]: "full x = full y \<longleftrightarrow> x = y"
  by (auto simp: full_def prod_eq_iff)

lemma map_cell_full: "map (cell h) ps = map full xs \<Longrightarrow> q \<in> set ps \<Longrightarrow> cell h q = full z \<Longrightarrow> z \<in> set xs"
  by (metis (no_types, lifting) full_inject image_iff image_set)

lemma threaded_member: "threaded m qs t rs xs \<Longrightarrow> q \<in> set (addrs t) \<Longrightarrow> cell (nodes m) q = full z \<Longrightarrow> z \<in> set xs"
  unfolding threaded_def by (elim conjE) (rule map_cell_full)

text \<open>What the removal of the element \<open>z\<close> leaves.\<close>

definition deletes :: "'d lmem \<Rightarrow> ptr list \<Rightarrow> qAVLTreeNode \<Rightarrow> ptr list \<Rightarrow> 'd elem list \<Rightarrow> 'd elem \<Rightarrow> qAVLTreeNode \<Rightarrow> 'd lmem \<Rightarrow> bool" where
  "deletes m qs t rs xs z t' m' \<longleftrightarrow> (\<exists>us vs. xs = us @ z # vs \<and> threaded m' qs t' rs (us @ vs))
     \<and> (\<forall>q. q \<notin> set (addrs t) \<longrightarrow> cell (nodes m') q = cell (nodes m) q) \<and> released t t' m'
     \<and> agree_off (set (qs @ addrs t @ rs)) m m' \<and> lerr m' = lerr m"

lemma deletesI:
  "xs = us @ z # vs \<Longrightarrow> threaded m' qs t' rs (us @ vs) \<Longrightarrow> (\<And>q. q \<notin> set (addrs t) \<Longrightarrow> cell (nodes m') q = cell (nodes m) q) \<Longrightarrow>
   released t t' m' \<Longrightarrow> agree_off (set (qs @ addrs t @ rs)) m m' \<Longrightarrow> lerr m' = lerr m \<Longrightarrow> deletes m qs t rs xs z t' m'"
  unfolding deletes_def by blast

lemma delete_leaf:
  assumes "threaded m qs (ANode p ANull ANull h) rs xs" and "cell (nodes m) p = full z"
  shows "\<exists>m'. drop_node p m = Done m' \<and> deletes m qs (ANode p ANull ANull h) rs xs z ANull m'"
proof -
  have x: "xs = [z]"
    using assms by (auto simp: threaded_def)
  have "seg (nodes m) 0 (qs @ p # rs) 0" "distinct (qs @ p # rs)"
    using assms(1) by (simp_all add: threaded_def)
  from drop_node_seg [OF this] this(2) x show ?thesis
    by (auto simp: deletes_def released_def)
qed

lemma delete_inner_right:
  assumes "threaded m qs (ANode p l r h) rs xs" and "cell (nodes m) p = full z" and "r \<noteq> ANull"
  shows "\<exists>r' t m'. qAVLTree__delete_rightmin r p m = Done (r', m') \<and> qAVLTree__right_balance (mk p l r') m' = Done (t, m')
    \<and> deletes m qs (ANode p l r h) rs xs z t m'"
proof -
  obtain xl xr where T: "xs = xl @ z # xr" "threaded m qs l (p # addrs r @ rs) xl" "threaded m (qs @ addrs l @ [p]) r rs xr"
    using assms(1,2) by (auto simp: threaded_ANode)
  note D = threaded_distinct [OF assms(1)]
  obtain x xr' where x: "xr = x # xr'"
    using threaded_length [OF T(3)] assms(3) by (cases xr) auto
  from delete_rightmin_threaded [of m "qs @ addrs l" p r rs x xr'] T(3) x obtain r' m' where
    r': "qAVLTree__delete_rightmin r p m = Done (r', m')" "threaded m' ((qs @ addrs l) @ [p]) r' rs xr'" "cell (nodes m') p = full x"
      "\<forall>q. q \<notin> set (addrs r) \<and> q \<noteq> p \<longrightarrow> cell (nodes m') q = cell (nodes m) q" "released r r' m'"
      "agree_off (set ((qs @ addrs l) @ p # addrs r @ rs)) m m'" "lerr m' = lerr m"
    by auto
  have "map (cell (nodes m')) (addrs l) = map (cell (nodes m)) (addrs l)"
    using r'(4) D by (intro map_cong) auto
  also have "\<dots> = map full xl"
    using T(2) by (simp add: threaded_def)
  finally have "threaded m' qs (mk p l r') rs (xl @ x # xr')"
    using r'(2,3) T(2) by (simp add: threaded_def)
  then obtain t where t: "qAVLTree__right_balance (mk p l r') m' = Done (t, m')" "threaded m' qs t rs (xl @ x # xr')"
      "addrs t = addrs l @ p # addrs r'" "t \<noteq> ANull"
    by (rule threaded_right_balance)
  have "deletes m qs (ANode p l r h) rs xs z t m'"
    unfolding deletes_def using T(1) x t(2) r'(4,6,7) released_right [OF r'(5) t(3)] by auto
  with r'(1) t(1) show ?thesis
    by blast
qed

lemma delete_inner_left:
  assumes "threaded m qs (ANode p l r h) rs xs" and "cell (nodes m) p = full z" and "l \<noteq> ANull"
  shows "\<exists>l' t m'. qAVLTree__delete_leftmax l p m = Done (l', m') \<and> qAVLTree__left_balance (mk p l' r) m' = Done (t, m')
    \<and> deletes m qs (ANode p l r h) rs xs z t m'"
proof -
  obtain xl xr where T: "xs = xl @ z # xr" "threaded m qs l (p # addrs r @ rs) xl" "threaded m (qs @ addrs l @ [p]) r rs xr"
    using assms(1,2) by (auto simp: threaded_ANode)
  note D = threaded_distinct [OF assms(1)]
  obtain x xl' where x: "xl = xl' @ [x]"
    using threaded_length [OF T(2)] assms(3) by (cases xl rule: rev_cases) auto
  from delete_leftmax_threaded [of m qs l p "addrs r @ rs" xl' x] T(2) x obtain l' m' where
    l': "qAVLTree__delete_leftmax l p m = Done (l', m')" "threaded m' qs l' (p # addrs r @ rs) xl'" "cell (nodes m') p = full x"
      "\<forall>q. q \<notin> set (addrs l) \<and> q \<noteq> p \<longrightarrow> cell (nodes m') q = cell (nodes m) q" "released l l' m'"
      "agree_off (set (qs @ addrs l @ p # addrs r @ rs)) m m'" "lerr m' = lerr m"
    by auto
  have "map (cell (nodes m')) (addrs r) = map (cell (nodes m)) (addrs r)"
    using l'(4) D by (intro map_cong) auto
  also have "\<dots> = map full xr"
    using T(3) by (simp add: threaded_def)
  finally have "threaded m' qs (mk p l' r) rs (xl' @ x # xr)"
    using l'(2,3) T(3) by (simp add: threaded_def)
  then obtain t where t: "qAVLTree__left_balance (mk p l' r) m' = Done (t, m')" "threaded m' qs t rs (xl' @ x # xr)"
      "addrs t = addrs l' @ p # addrs r" "t \<noteq> ANull"
    by (rule threaded_left_balance)
  have "xs = (xl' @ [x]) @ z # xr" "threaded m' qs t rs ((xl' @ [x]) @ xr)"
    using T(1) x t(2) by simp_all
  then have "deletes m qs (ANode p l r h) rs xs z t m'"
    by (rule deletesI) (use l'(4,6,7) released_left [OF l'(5) t(3)] in auto)
  with l'(1) t(1) show ?thesis
    by blast
qed

lemma acmp_self: "cell (nodes m) e = full z \<Longrightarrow> \<exists>en. l_load m e = Done en \<and> l_data en = Some (fst z) \<and> l_size en = snd z"
  by (auto simp: l_load_def cell_def full_def)

context elem_order
begin

lemma delete_threaded:
  "threaded m qs t rs xs \<Longrightarrow> csorted comp xs \<Longrightarrow> e \<in> set (addrs t) \<Longrightarrow> cell (nodes m) e = full z \<Longrightarrow>
   \<exists>t' m'. qAVLTree__recursive_delete comp t e m = Done (0, t', m') \<and> deletes m qs t rs xs z t' m'"
proof (induction t arbitrary: qs rs xs)
  case (ANode p l r h)
  then obtain xl y xr where T: "xs = xl @ y # xr" "threaded m qs l (p # addrs r @ rs) xl"
      "threaded m (qs @ addrs l @ [p]) r rs xr" "cell (nodes m) p = full y"
    by (auto simp: threaded_ANode)
  have S: "csorted comp xl" "csorted comp xr" "\<forall>u \<in> set xl. comp u y < 0" "\<forall>u \<in> set xr. comp y u < 0"
    using ANode.prems(2) T(1) by (auto simp: csorted_append)
  have h: "hok l" "hok r" "h = qAVLTreeNode__updateHeight l r"
    using ANode.prems(1) by (auto simp: threaded_def)
  note D = threaded_distinct [OF ANode.prems(1)]
  obtain en where en: "l_load m e = Done en" "l_data en = Some (fst z)" "l_size en = snd z"
    using acmp_self [OF ANode.prems(4)] by blast
  note c = acmp_cell [OF T(4), of comp z]
  consider "e = p" | "e \<in> set (addrs l)" "l \<noteq> ANull" | "e \<in> set (addrs r)" "r \<noteq> ANull"
    using ANode.prems(3) by (cases "l = ANull"; cases "r = ANull") auto
  then show ?case
  proof cases
    case 1
    then have z: "comp z y = 0"
      using T(4) ANode.prems(4) comp_refl by simp
    consider "h = 1" | "h \<noteq> 1" "qAVLTreeNode__get_blfactor l r > 0" | "h \<noteq> 1" "\<not> qAVLTreeNode__get_blfactor l r > 0"
      by blast
    then show ?thesis
    proof cases
      case leaf: 1
      then have "l = ANull" "r = ANull"
        using h hok_height [OF h(1)] hok_height [OF h(2)] by (auto simp: qAVLTreeNode__updateHeight_def)
      then show ?thesis
        using delete_leaf [of m qs p h rs xs z] ANode.prems(1,4) 1 leaf en c z by auto
    next
      case 2
      then have "r \<noteq> ANull"
        using hok_height [OF h(1)] by (auto simp: qAVLTreeNode__get_blfactor_def)
      from delete_inner_right [OF ANode.prems(1) _ this, of z] show ?thesis
        using ANode.prems(4) 1 2 en c z by auto
    next
      case 3
      then have "l \<noteq> ANull"
        using h hok_height [OF h(1)] hok_height [OF h(2)] by (auto simp: qAVLTreeNode__updateHeight_def qAVLTreeNode__get_blfactor_def)
      from delete_inner_left [OF ANode.prems(1) _ this, of z] show ?thesis
        using ANode.prems(4) 1 3 en c z by auto
    qed
  next
    case 2
    then obtain l' m' where l': "qAVLTree__recursive_delete comp l e m = Done (0, l', m')" "deletes m qs l (p # addrs r @ rs) xl z l' m'"
      using ANode.IH(1) [OF T(2) S(1) _ ANode.prems(4)] by blast
    have less: "comp z y < 0"
      using S(3) threaded_member [OF T(2) 2(1) ANode.prems(4)] by blast
    obtain us vs where us: "xl = us @ z # vs" "threaded m' qs l' (p # addrs r @ rs) (us @ vs)"
      using l'(2) by (auto simp: deletes_def)
    have "threaded m' qs (mk p l' r) rs ((us @ vs) @ y # xr)"
      by (rule threaded_left [OF us(2) T(3,4)]) (use l'(2) D in \<open>auto simp: deletes_def\<close>)
    then obtain t where t: "qAVLTree__right_balance (mk p l' r) m' = Done (t, m')" "threaded m' qs t rs ((us @ vs) @ y # xr)"
        "addrs t = addrs l' @ p # addrs r" "t \<noteq> ANull"
      by (rule threaded_right_balance)
    have "released (ANode p l r h) t m'"
      using l'(2) by (intro released_left [OF _ t(3)]) (simp add: deletes_def)
    then have "deletes m qs (ANode p l r h) rs xs z t m'"
      unfolding deletes_def using l'(2) T(1) us(1) t(2) by (auto simp: deletes_def)
    then show ?thesis
      using en c less 2(2) l'(1) t(1) by simp
  next
    case 3
    then obtain r' m' where r': "qAVLTree__recursive_delete comp r e m = Done (0, r', m')" "deletes m (qs @ addrs l @ [p]) r rs xr z r' m'"
      using ANode.IH(2) [OF T(3) S(2) _ ANode.prems(4)] by blast
    have more: "comp z y > 0"
      using S(4) threaded_member [OF T(3) 3(1) ANode.prems(4)] comp_swap by blast
    obtain us vs where us: "xr = us @ z # vs" "threaded m' (qs @ addrs l @ [p]) r' rs (us @ vs)"
      using r'(2) by (auto simp: deletes_def)
    have "threaded m' qs (mk p l r') rs (xl @ y # us @ vs)"
      by (rule threaded_right [OF us(2) T(2,4)]) (use r'(2) D in \<open>auto simp: deletes_def\<close>)
    then obtain t where t: "qAVLTree__left_balance (mk p l r') m' = Done (t, m')" "threaded m' qs t rs (xl @ y # us @ vs)"
        "addrs t = addrs l @ p # addrs r'" "t \<noteq> ANull"
      by (rule threaded_left_balance)
    have rel: "released (ANode p l r h) t m'"
      using r'(2) by (intro released_right [OF _ t(3)]) (simp add: deletes_def)
    have "xs = (xl @ y # us) @ z # vs" "threaded m' qs t rs ((xl @ y # us) @ vs)"
      using T(1) us(1) t(2) by simp_all
    then have "deletes m qs (ANode p l r h) rs xs z t m'"
      by (rule deletesI) (use r'(2) rel in \<open>auto simp: deletes_def\<close>)
    then show ?thesis
      using en c more 3(2) r'(1) t(1) by simp
  qed
qed simp

end

end
