(* ===== verification/AVLProps.thy ===== *)
theory AVLProps
  imports AVLErase QListProps
begin

text \<open>
  The tree as an ordered set: search, insertion, removal, iteration and destruction of a whole tree,
  and histories of calls, for every comparison function that is an order and every allocator that
  returns unused addresses.
\<close>

section \<open>Whole trees\<close>

definition avl_holds :: "'d elem_cmp \<Rightarrow> 'd lmem \<Rightarrow> qAVLTreeDescriptor \<Rightarrow> 'd elem list \<Rightarrow> bool" where
  "avl_holds cmp m d xs \<longleftrightarrow> threaded m [] (av_root d) [] xs \<and> csorted cmp xs
     \<and> av_size d = of_nat (length xs) \<and> length xs < 2 ^ 32"

lemma avl_empty [simp]: "avl_holds cmp m qAVLTree_constructor []"
  by (simp add: avl_holds_def qAVLTree_constructor_def csorted_def)

lemma avl_holds_frame:
  assumes "avl_holds cmp m d xs" and "agree_off S m m'" and "set (addrs (av_root d)) \<inter> S = {}"
  shows "avl_holds cmp m' d xs"
proof -
  have eq: "nodes m' p = nodes m p" if "p \<in> set (addrs (av_root d))" for p
    using assms(2,3) that by (auto simp: agree_off_def)
  have "map (cell (nodes m')) (addrs (av_root d)) = map (cell (nodes m)) (addrs (av_root d))"
    using eq by (intro map_cong) (auto simp: cell_def)
  also have "\<dots> = map full xs"
    using assms(1) by (simp add: avl_holds_def threaded_def)
  finally show ?thesis
    using assms(1) seg_cong [OF eq] by (simp add: avl_holds_def threaded_def)
qed

lemma min_node_addrs: "min_node t = hd0 (addrs t) 0"
proof (induction t)
  case (ANode p l r h)
  then show ?case
    by (cases "addrs l") auto
qed simp

lemma max_node_addrs: "max_node t = last0 0 (addrs t)"
proof (induction t)
  case (ANode p l r h)
  then show ?case
    by (cases "addrs r" rule: rev_cases) auto
qed simp

lemma destructor_releases:
  assumes "avl_holds cmp m d xs"
  shows "\<exists>d' m'. qAVLTree__destructor d m = Some (Done (0, d', m')) \<and> avl_holds cmp m' d' []
    \<and> (\<forall>p. nodes m' p = (if p \<in> set (addrs (av_root d)) then None else nodes m p))"
proof -
  have "seg (nodes m) 0 (addrs (av_root d)) 0" "distinct (addrs (av_root d))"
    using assms by (simp_all add: avl_holds_def threaded_def)
  from destroy_loop_seg [OF this] show ?thesis
    by (auto simp: qAVLTree__destructor_def min_node_addrs avl_holds_def csorted_def)
qed

section \<open>The operations\<close>

context elem_order
begin

lemma csorted_unique: "csorted comp xs \<Longrightarrow> y \<in> set xs \<Longrightarrow> z \<in> set xs \<Longrightarrow> comp y z = 0 \<Longrightarrow> y = z"
proof (induction xs)
  case (Cons x xs)
  then show ?case
    using comp_zero_sym by (fastforce simp: csorted_def)
qed simp

lemma find_holds:
  assumes "avl_holds comp m d xs"
  shows "(\<exists>p y. qAVLTree__ptr_at comp (av_root d) x m = Done (Some p) \<and> p \<in> set (addrs (av_root d))
      \<and> cell (nodes m) p = full y \<and> y \<in> set xs \<and> comp x y = 0)
    \<or> (qAVLTree__ptr_at comp (av_root d) x m = Done None \<and> (\<forall>y \<in> set xs. comp x y \<noteq> 0))"
proof -
  have T: "threaded m [] (av_root d) [] xs" "csorted comp xs"
    using assms by (simp_all add: avl_holds_def)
  have "cell (nodes m) p = full y" if py: "(p, y) \<in> set (zip (addrs (av_root d)) xs)" for p y
  proof -
    obtain i where "i < length xs" "p = addrs (av_root d) ! i" "y = xs ! i"
      using py by (auto simp: in_set_zip)
    moreover have "map (cell (nodes m)) (addrs (av_root d)) ! i = map full xs ! i"
      using T(1) by (simp add: threaded_def)
    ultimately show ?thesis
      using threaded_length [OF T(1)] by simp
  qed
  with ptr_at_threaded [OF T, of x] show ?thesis
    by (blast dest: set_zip_leftD set_zip_rightD)
qed

lemma insert_first:
  assumes "avl_holds comp m d []" and "nodes m a = None" and "a \<noteq> 0"
  shows "\<exists>d' m'. qAVLTree__insert comp (Some a) True d x m = Done (0, d', m') \<and> avl_holds comp m' d' [x]
    \<and> set (addrs (av_root d')) = {a} \<and> agree_off {a} m m' \<and> lerr m' = lerr m"
proof -
  have r: "av_root d = ANull"
    using assms(1) threaded_length [of m "[]" "av_root d" "[]" "[]"] by (simp add: avl_holds_def)
  show ?thesis
    using assms(2,3) r by (simp add: qAVLTree__insert_def new_node_def qAVLTreeNode__constructor_def avl_holds_def threaded_def csorted_def full_def
        cell_def qAVLTreeNode__updateHeight_def agree_off_def)
qed

lemma insert_holds:
  assumes "avl_holds comp m d xs" and "\<forall>y \<in> set xs. comp x y \<noteq> 0" and "nodes m a = None" and "a \<noteq> 0"
    and "length xs < 2 ^ 32 - 1"
  shows "\<exists>d' m' ys. qAVLTree__insert comp (Some a) True d x m = Done (0, d', m') \<and> avl_holds comp m' d' ys
    \<and> placed comp x xs ys \<and> set (addrs (av_root d')) = insert a (set (addrs (av_root d)))
    \<and> agree_off (insert a (set (addrs (av_root d)))) m m' \<and> lerr m' = lerr m"
proof (cases "av_root d = ANull")
  case True
  then have "xs = []"
    using assms(1) by (simp add: avl_holds_def)
  moreover have "placed comp x [] [x]"
    by (simp add: placed_def)
  ultimately show ?thesis
    using insert_first [of m d a x] assms True by auto
next
  case False
  have T: "threaded m [] (av_root d) [] xs" "csorted comp xs"
    using assms(1) by (simp_all add: avl_holds_def)
  from insert_new [OF T False assms(2-4)] obtain t m' where
    t: "qAVLTree__recursive_insert comp (Some a) True (av_root d) x m = Done (0, t, t, m')" "inserts m [] (av_root d) [] xs a x t m'"
    by blast
  then obtain ys where ys: "placed comp x xs ys" "threaded m' [] t [] ys"
    by (auto simp: inserts_def)
  then have "length ys = Suc (length xs)"
    by (auto simp: placed_def)
  then have "avl_holds comp m' (d\<lparr>av_size := av_size d + 1, av_root := t\<rparr>) ys"
    using assms(1,5) ys(2) placed_sorted [OF ys(1) T(2)] by (simp add: avl_holds_def)
  then show ?thesis
    using t ys(1) False by (auto simp: qAVLTree__insert_def inserts_def)
qed

lemma insert_again:
  assumes "avl_holds comp m d xs" and "y \<in> set xs" and "comp x y = 0"
  shows "qAVLTree__insert comp a mok d x m = Done (-1, d, m)"
proof -
  have T: "threaded m [] (av_root d) [] xs" "csorted comp xs"
    using assms(1) by (simp_all add: avl_holds_def)
  have "av_root d \<noteq> ANull"
    using T(1) assms(2) by auto
  then show ?thesis
    using insert_exists [OF T assms(2,3)] by (simp add: qAVLTree__insert_def)
qed

lemma erase_holds:
  assumes "avl_holds comp m d xs" and "p \<in> set (addrs (av_root d))" and "cell (nodes m) p = full z"
  shows "\<exists>d' m' us vs. qAVLTree__erase comp d p m = Done (0, d', m') \<and> xs = us @ z # vs \<and> avl_holds comp m' d' (us @ vs)
    \<and> released (av_root d) (av_root d') m' \<and> agree_off (set (addrs (av_root d))) m m'"
proof -
  have T: "threaded m [] (av_root d) [] xs" "csorted comp xs"
    using assms(1) by (simp_all add: avl_holds_def)
  from delete_threaded [OF T assms(2,3)] obtain t m' where
    t: "qAVLTree__recursive_delete comp (av_root d) p m = Done (0, t, m')" "deletes m [] (av_root d) [] xs z t m'"
    by blast
  then obtain us vs where us: "xs = us @ z # vs" "threaded m' [] t [] (us @ vs)"
    by (auto simp: deletes_def)
  have len: "av_size d = of_nat (length xs)" "length xs < 2 ^ 32"
    using assms(1) by (simp_all add: avl_holds_def)
  then have "av_size d \<noteq> 0"
    using us(1) unat_of_nat [of "length xs", where 'a = 32] by fastforce
  moreover have "csorted comp (us @ vs)"
    using T(2) us(1) by (auto simp: csorted_def sorted_wrt_append)
  then have "avl_holds comp m' (d\<lparr>av_size := av_size d - 1, av_root := t\<rparr>) (us @ vs)"
    using len us by (simp add: avl_holds_def)
  ultimately show ?thesis
    using t us(1) by (auto simp: qAVLTree__erase_def deletes_def)
qed

end

section \<open>Histories\<close>

datatype 'd tree_op = Insert "'d elem" | Erase_elem "'d elem" | Find "'d elem"

text \<open>One call; an element is removed through the iterator that the search gives.\<close>

fun tree_step ::
  "('d lmem \<Rightarrow> ptr) \<Rightarrow> 'd elem_cmp \<Rightarrow> 'd tree_op \<Rightarrow> qAVLTreeDescriptor \<times> 'd lmem \<Rightarrow> (int \<times> qAVLTreeDescriptor \<times> 'd lmem) exec" where
  "tree_step al cmp (Insert x) (d, m) = qAVLTree__insert cmp (Some (al m)) True d x m"
| "tree_step al cmp (Erase_elem x) (d, m) =
     bind_exec (qAVLTree__ptr_at cmp (av_root d) x m) (\<lambda>p.
     case p of None \<Rightarrow> Done (-1, d, m) | Some e \<Rightarrow> qAVLTree__erase cmp d e m)"
| "tree_step al cmp (Find x) (d, m) =
     bind_exec (qAVLTree__ptr_at cmp (av_root d) x m) (\<lambda>p. Done (if p = None then -1 else 0, d, m))"

text \<open>The same on a finite set, up to elements that compare as equal.\<close>

definition has :: "('k \<Rightarrow> 'k \<Rightarrow> int) \<Rightarrow> 'k \<Rightarrow> 'k set \<Rightarrow> bool" where
  "has cmp x X \<longleftrightarrow> (\<exists>y \<in> X. cmp x y = 0)"

fun set_step :: "'d elem_cmp \<Rightarrow> 'd tree_op \<Rightarrow> 'd elem set \<Rightarrow> (int \<times> 'd elem set) option" where
  "set_step cmp (Insert x) X =
     (if has cmp x X then Some (-1, X) else if card X < 2 ^ 32 - 1 then Some (0, insert x X) else None)"
| "set_step cmp (Erase_elem x) X = Some (if has cmp x X then 0 else -1, {y \<in> X. cmp x y \<noteq> 0})"
| "set_step cmp (Find x) X = Some (if has cmp x X then 0 else -1, X)"

definition tree_rel :: "'d elem_cmp \<Rightarrow> qAVLTreeDescriptor \<times> 'd lmem \<Rightarrow> 'd elem set \<Rightarrow> bool" where
  "tree_rel cmp s X \<longleftrightarrow> finite (dom (nodes (snd s))) \<and> (\<exists>xs. avl_holds cmp (snd s) (fst s) xs \<and> set xs = X)"

lemma finite_dom_agree: "finite (dom (nodes m)) \<Longrightarrow> finite S \<Longrightarrow> agree_off S m m' \<Longrightarrow> finite (dom (nodes m'))"
  by (rule finite_subset [of _ "dom (nodes m) \<union> S"]) (auto simp: agree_off_def dom_def)

context elem_order
begin

lemma csorted_distinct: "csorted comp xs \<Longrightarrow> distinct xs"
  by (induction xs) (auto simp: csorted_def comp_refl)

lemma erase_step:
  assumes "tree_rel comp (d, m) X"
  shows "\<exists>d' m'. tree_step al comp (Erase_elem x) (d, m) = Done (if has comp x X then 0 else -1, d', m')
    \<and> tree_rel comp (d', m') {y \<in> X. comp x y \<noteq> 0}"
proof -
  obtain xs where fin: "finite (dom (nodes m))" and H: "avl_holds comp m d xs" and X: "set xs = X"
    using assms by (auto simp: tree_rel_def)
  have srt: "csorted comp xs"
    using H by (simp add: avl_holds_def)
  from find_holds [OF H, of x] show ?thesis
  proof (elim disjE exE conjE)
    fix p y
    assume p: "qAVLTree__ptr_at comp (av_root d) x m = Done (Some p)" "p \<in> set (addrs (av_root d))" "cell (nodes m) p = full y"
      "y \<in> set xs" "comp x y = 0"
    obtain d' m' us vs where e: "qAVLTree__erase comp d p m = Done (0, d', m')" "xs = us @ y # vs"
        "avl_holds comp m' d' (us @ vs)" "agree_off (set (addrs (av_root d))) m m'"
      using erase_holds [OF H p(2,3)] by blast
    have "comp x z \<noteq> 0" if "z \<in> set (us @ vs)" for z
    proof
      assume z: "comp x z = 0"
      then have "comp y z \<le> 0" "comp z y \<le> 0"
        using comp_trans [of y x z] comp_trans [of z x y] comp_zero_sym [of x y] comp_zero_sym [of x z] p(5) by auto
      then have "y = z"
        using csorted_unique [OF srt p(4), of z] that e(2) comp_le_swap [of z y] by auto
      then show False
        using csorted_distinct [OF srt] e(2) that by auto
    qed
    then have "set (us @ vs) = {y \<in> X. comp x y \<noteq> 0}"
      using X e(2) p(5) by auto
    then have "tree_rel comp (d', m') {y \<in> X. comp x y \<noteq> 0}"
      using e(3) finite_dom_agree [OF fin _ e(4)] by (auto simp: tree_rel_def)
    moreover have "has comp x X"
      using p(4,5) X by (auto simp: has_def)
    ultimately show ?thesis
      using p(1) e(1) by simp
  next
    assume n: "qAVLTree__ptr_at comp (av_root d) x m = Done None" "\<forall>y \<in> set xs. comp x y \<noteq> 0"
    then have "{y \<in> X. comp x y \<noteq> 0} = X" "\<not> has comp x X"
      using X by (auto simp: has_def)
    then show ?thesis
      using n(1) assms by simp
  qed
qed

lemma find_step:
  assumes "tree_rel comp (d, m) X"
  shows "tree_step al comp (Find x) (d, m) = Done (if has comp x X then 0 else -1, d, m)"
proof -
  obtain xs where H: "avl_holds comp m d xs" "set xs = X"
    using assms by (auto simp: tree_rel_def)
  from find_holds [OF H(1), of x] H(2) show ?thesis
    by (auto simp: has_def)
qed

lemma insert_step:
  assumes "tree_rel comp (d, m) X" and "set_step comp (Insert x) X = Some (r, X')" and "al m \<noteq> 0" and "nodes m (al m) = None"
  shows "\<exists>d' m'. tree_step al comp (Insert x) (d, m) = Done (r, d', m') \<and> tree_rel comp (d', m') X'"
proof -
  obtain xs where fin: "finite (dom (nodes m))" and H: "avl_holds comp m d xs" and X: "set xs = X"
    using assms(1) by (auto simp: tree_rel_def)
  show ?thesis
  proof (cases "has comp x X")
    case True
    then obtain y where "y \<in> set xs" "comp x y = 0"
      using X by (auto simp: has_def)
    then show ?thesis
      using insert_again [OF H] True assms(1,2) by auto
  next
    case False
    then have r: "r = 0" "X' = insert x X" "card X < 2 ^ 32 - 1"
      using assms(2) by (auto split: if_splits)
    have "csorted comp xs"
      using H by (simp add: avl_holds_def)
    then have "length xs < 2 ^ 32 - 1"
      using r(3) X distinct_card [OF csorted_distinct] by metis
    moreover have "\<forall>y \<in> set xs. comp x y \<noteq> 0"
      using False X by (auto simp: has_def)
    ultimately obtain d' m' ys where i: "qAVLTree__insert comp (Some (al m)) True d x m = Done (0, d', m')"
        "avl_holds comp m' d' ys" "placed comp x xs ys" "agree_off (insert (al m) (set (addrs (av_root d)))) m m'"
      using insert_holds [OF H _ assms(4,3)] by blast
    have "set ys = X'"
      using i(3) X r(2) by (auto simp: placed_def)
    then have "tree_rel comp (d', m') X'"
      using i(2) finite_dom_agree [OF fin _ i(4)] by (auto simp: tree_rel_def)
    then show ?thesis
      using i(1) r(1) by auto
  qed
qed

end

text \<open>The interface of the tree: an order and an allocator.\<close>

locale ordered_tree = elem_order cmp + allocator al for cmp :: "'d elem \<Rightarrow> 'd elem \<Rightarrow> int" and al :: "'d lmem \<Rightarrow> ptr"
begin

lemma tree_step_sim:
  assumes "tree_rel cmp s X" and "set_step cmp op X = Some (r, X')"
  shows "\<exists>s'. tree_step al cmp op s = Done (r, s') \<and> tree_rel cmp s' X'"
proof -
  obtain d m where s: "s = (d, m)"
    by (cases s)
  then have "al m \<noteq> 0" "nodes m (al m) = None"
    using assms(1) al_fresh by (auto simp: tree_rel_def)
  then show ?thesis
    using assms insert_step [of d m X _ r X' al] erase_step [of d m X al] find_step [of d m X al] s
    by (cases op) auto
qed

end

sublocale ordered_tree \<subseteq> trees: refinement "tree_step al cmp" "set_step cmp" "tree_rel cmp"
  by unfold_locales (rule tree_step_sim)

context ordered_tree
begin

lemma tree_history:
  "finite (dom (nodes m0)) \<Longrightarrow> arun (set_step cmp) ops {} = Some (rs, X) \<Longrightarrow>
   \<exists>d m xs. run (tree_step al cmp) ops (qAVLTree_constructor, m0) = Done (rs, d, m) \<and> avl_holds cmp m d xs \<and> set xs = X"
proof -
  assume a: "finite (dom (nodes m0))" "arun (set_step cmp) ops {} = Some (rs, X)"
  have "tree_rel cmp (qAVLTree_constructor, m0) {}"
    using a(1) by (auto simp: tree_rel_def intro: exI [of _ "[]"])
  from trees.run_sim [OF this a(2)] show ?thesis
    by (auto simp: tree_rel_def)
qed

end

text \<open>Byte strings in the order of \<^verbatim>\<open>string_comparator\<close>, with the first unused address.\<close>

definition string_elem_cmp :: "bytes elem_cmp" where
  "string_elem_cmp x y = string_comparator (fst x) (fst y)"

interpretation string_tree: ordered_tree string_elem_cmp first_free
  by unfold_locales
    (auto simp: string_elem_cmp_def string_order.comp_refl string_order.comp_swap dest: string_order.comp_trans first_free_fresh)

end
