(* ===== verification/QSet.thy ===== *)
theory QSet
  imports AVLProps
begin

text \<open>
  \<^verbatim>\<open>zhwkre/set.h\<close> and \<^verbatim>\<open>zhwkre/containers/set.c\<close>: the set is the tree under other names, with union,
  intersection, difference and comparisons computed by walking along the thread of one tree and
  searching the other. The loops are written with an option: a thread that runs in a circle would
  never end. The address of a new node and the outcome of the allocation of its data are functions of
  the store.
\<close>

section \<open>Operations\<close>

definition qSet_constructor :: qAVLTreeDescriptor where
  "qSet_constructor = qAVLTree_constructor"

definition qSet__ptr_at :: "'d elem_cmp \<Rightarrow> qAVLTreeDescriptor \<Rightarrow> 'd elem \<Rightarrow> 'd lmem \<Rightarrow> (ptr option) exec" where
  "qSet__ptr_at cmp desc x m = qAVLTree__ptr_at cmp (av_root desc) x m"

definition qSet__insert ::
  "'d elem_cmp \<Rightarrow> ptr option \<Rightarrow> bool \<Rightarrow> qAVLTreeDescriptor \<Rightarrow> 'd elem \<Rightarrow> 'd lmem \<Rightarrow> (int \<times> qAVLTreeDescriptor \<times> 'd lmem) exec" where
  "qSet__insert cmp a mok desc x m = qAVLTree__insert cmp a mok desc x m"

definition qSet__erase :: "'d elem_cmp \<Rightarrow> qAVLTreeDescriptor \<Rightarrow> ptr \<Rightarrow> 'd lmem \<Rightarrow> (int \<times> qAVLTreeDescriptor \<times> 'd lmem) exec" where
  "qSet__erase cmp desc elem m = qAVLTree__erase cmp desc elem m"

definition qSet__destructor :: "qAVLTreeDescriptor \<Rightarrow> 'd lmem \<Rightarrow> ((int \<times> qAVLTreeDescriptor \<times> 'd lmem) exec) option" where
  "qSet__destructor desc m = qAVLTree__destructor desc m"

definition qSet_begin :: "qAVLTreeDescriptor \<Rightarrow> ptr" where
  "qSet_begin desc = qAVLTree_begin desc"

definition qSet_end :: "qAVLTreeDescriptor \<Rightarrow> ptr" where
  "qSet_end desc = qAVLTree_end desc"

definition qSetIterator_isvalid :: "ptr \<Rightarrow> bool" where
  "qSetIterator_isvalid iter = qAVLTreeIterator_isvalid iter"

definition qSetIterator_deref :: "'d lmem \<Rightarrow> ptr \<Rightarrow> 'd option exec" where
  "qSetIterator_deref m iter = qAVLTreeIterator_deref m iter"

definition qSetIterator_prev :: "'d lmem \<Rightarrow> ptr \<Rightarrow> ptr exec" where
  "qSetIterator_prev m iter = qAVLTreeIterator_prev m iter"

definition qSetIterator_next :: "'d lmem \<Rightarrow> ptr \<Rightarrow> ptr exec" where
  "qSetIterator_next m iter = qAVLTreeIterator_next m iter"

text \<open>\<^verbatim>\<open>qSetIterator_deref(iter), iter.node->size\<close>\<close>

definition set_elem :: "'d lmem \<Rightarrow> ptr \<Rightarrow> 'd elem exec" where
  "set_elem m iter =
     bind_exec (qSetIterator_deref m iter) (\<lambda>d.
     bind_exec (l_load m iter) (\<lambda>n. case d of None \<Rightarrow> Fault | Some x \<Rightarrow> Done (x, l_size n)))"

text \<open>
  The body of the loops of union, intersection and difference: the element is inserted when \<open>sel\<close>
  says so, and the result of the insertion is not looked at.
\<close>

definition copy_elem ::
  "('d lmem \<Rightarrow> ptr option) \<Rightarrow> ('d lmem \<Rightarrow> bool) \<Rightarrow> 'd elem_cmp \<Rightarrow> ('d elem \<Rightarrow> 'd lmem \<Rightarrow> bool exec) \<Rightarrow> ptr
     \<Rightarrow> qAVLTreeDescriptor \<Rightarrow> 'd lmem \<Rightarrow> (qAVLTreeDescriptor \<times> 'd lmem) exec" where
  "copy_elem al mok cmp sel iter desc m =
     bind_exec (set_elem m iter) (\<lambda>x.
     bind_exec (sel x m) (\<lambda>b.
     if b then bind_exec (qSet__insert cmp (al m) (mok m) desc x m) (\<lambda>(r, desc, m). Done (desc, m))
     else Done (desc, m)))"

partial_function (option) set_loop ::
  "('d lmem \<Rightarrow> ptr option) \<Rightarrow> ('d lmem \<Rightarrow> bool) \<Rightarrow> 'd elem_cmp \<Rightarrow> ('d elem \<Rightarrow> 'd lmem \<Rightarrow> bool exec) \<Rightarrow> ptr
     \<Rightarrow> qAVLTreeDescriptor \<Rightarrow> 'd lmem \<Rightarrow> ((qAVLTreeDescriptor \<times> 'd lmem) exec) option" where
  "set_loop al mok cmp sel iter desc m =
     (if \<not> qSetIterator_isvalid iter then Some (Done (desc, m))
      else
        (case copy_elem al mok cmp sel iter desc m of
           Fault \<Rightarrow> Some Fault
         | Done (desc, m) \<Rightarrow>
             (case qSetIterator_next m iter of
                Fault \<Rightarrow> Some Fault
              | Done iter \<Rightarrow> set_loop al mok cmp sel iter desc m)))"

definition qSet_union ::
  "('d lmem \<Rightarrow> ptr option) \<Rightarrow> ('d lmem \<Rightarrow> bool) \<Rightarrow> 'd elem_cmp \<Rightarrow> qAVLTreeDescriptor \<Rightarrow> qAVLTreeDescriptor
     \<Rightarrow> 'd lmem \<Rightarrow> ((qAVLTreeDescriptor \<times> 'd lmem) exec) option" where
  "qSet_union al mok cmp seta setb m =
     (case set_loop al mok cmp (\<lambda>x m. Done True) (qSet_begin seta) qSet_constructor m of
        None \<Rightarrow> None
      | Some Fault \<Rightarrow> Some Fault
      | Some (Done (desc, m)) \<Rightarrow> set_loop al mok cmp (\<lambda>x m. Done True) (qSet_begin setb) desc m)"

definition qSet_intersect ::
  "('d lmem \<Rightarrow> ptr option) \<Rightarrow> ('d lmem \<Rightarrow> bool) \<Rightarrow> 'd elem_cmp \<Rightarrow> 'd elem_cmp \<Rightarrow> qAVLTreeDescriptor \<Rightarrow> qAVLTreeDescriptor
     \<Rightarrow> 'd lmem \<Rightarrow> ((qAVLTreeDescriptor \<times> 'd lmem) exec) option" where
  "qSet_intersect al mok cmpa cmpb seta setb m =
     set_loop al mok cmpa (\<lambda>x m. bind_exec (qSet__ptr_at cmpb setb x m) (\<lambda>p. Done (p \<noteq> None)))
       (qSet_begin seta) qSet_constructor m"

definition qSet_difference ::
  "('d lmem \<Rightarrow> ptr option) \<Rightarrow> ('d lmem \<Rightarrow> bool) \<Rightarrow> 'd elem_cmp \<Rightarrow> 'd elem_cmp \<Rightarrow> qAVLTreeDescriptor \<Rightarrow> qAVLTreeDescriptor
     \<Rightarrow> 'd lmem \<Rightarrow> ((qAVLTreeDescriptor \<times> 'd lmem) exec) option" where
  "qSet_difference al mok cmpa cmpb seta setb m =
     set_loop al mok cmpa (\<lambda>x m. bind_exec (qSet__ptr_at cmpb setb x m) (\<lambda>p. Done (p = None)))
       (qSet_begin seta) qSet_constructor m"

partial_function (option) subset_loop ::
  "'d elem_cmp \<Rightarrow> qAVLTreeDescriptor \<Rightarrow> ptr \<Rightarrow> 'd lmem \<Rightarrow> (int exec) option" where
  "subset_loop cmp setb iter m =
     (if \<not> qSetIterator_isvalid iter then Some (Done 1)
      else
        (case bind_exec (set_elem m iter) (\<lambda>x. qSet__ptr_at cmp setb x m) of
           Fault \<Rightarrow> Some Fault
         | Done None \<Rightarrow> Some (Done 0)
         | Done (Some p) \<Rightarrow>
             (case qSetIterator_next m iter of
                Fault \<Rightarrow> Some Fault
              | Done iter \<Rightarrow> subset_loop cmp setb iter m)))"

definition qSet_issubset :: "'d elem_cmp \<Rightarrow> qAVLTreeDescriptor \<Rightarrow> qAVLTreeDescriptor \<Rightarrow> 'd lmem \<Rightarrow> (int exec) option" where
  "qSet_issubset cmp seta setb m = subset_loop cmp setb (qSet_begin seta) m"

definition qSet_isequal :: "'d elem_cmp \<Rightarrow> qAVLTreeDescriptor \<Rightarrow> qAVLTreeDescriptor \<Rightarrow> 'd lmem \<Rightarrow> (int exec) option" where
  "qSet_isequal cmp seta setb m =
     (if av_size seta \<noteq> av_size setb then Some (Done 0) else subset_loop cmp setb (qSet_begin seta) m)"

lemmas qset_defs = qSet_constructor_def qSet__ptr_at_def qSet__insert_def qSet_begin_def qAVLTree_begin_def
  qSetIterator_isvalid_def qAVLTreeIterator_isvalid_def qSetIterator_deref_def qAVLTreeIterator_deref_def
  qSetIterator_next_def qAVLTreeIterator_next_def

section \<open>Walking along the thread\<close>

lemma set_elem_cell: "cell (nodes m) p = full x \<Longrightarrow> p \<noteq> 0 \<Longrightarrow> set_elem m p = Done x"
  by (auto simp: set_elem_def qset_defs l_load_def cell_def full_def)

lemma next_seg: "seg (nodes m) pr (p # ps) 0 \<Longrightarrow> qSetIterator_next m p = Done (hd0 ps 0) \<and> p \<noteq> 0"
  by (auto simp: qset_defs l_load_def)

context elem_order
begin

lemma subset_loop_holds:
  "avl_holds comp m db ys \<Longrightarrow> seg (nodes m) pr ps 0 \<Longrightarrow> map (cell (nodes m)) ps = map full xs \<Longrightarrow>
   subset_loop comp db (hd0 ps 0) m = Some (Done (if \<forall>x \<in> set xs. has comp x (set ys) then 1 else 0))"
proof (induction ps arbitrary: pr xs)
  case Nil
  then show ?case
    by (subst subset_loop.simps) (simp add: qset_defs)
next
  case (Cons p ps)
  then obtain x zs where x: "xs = x # zs" "cell (nodes m) p = full x" "map (cell (nodes m)) ps = map full zs"
    by (cases xs) auto
  have IH: "subset_loop comp db (hd0 ps 0) m = Some (Done (if \<forall>x \<in> set zs. has comp x (set ys) then 1 else 0))"
    using Cons.IH [OF Cons.prems(1) _ x(3), of p] Cons.prems(2) by simp
  note n = next_seg [OF Cons.prems(2)]
  note e = set_elem_cell [OF x(2) conjunct2 [OF n]]
  have v: "qSetIterator_isvalid (hd0 (p # ps) 0)"
    using n by (simp add: qset_defs)
  from find_holds [OF Cons.prems(1), of x] show ?case
  proof (elim disjE exE conjE)
    fix q y
    assume f: "qAVLTree__ptr_at comp (av_root db) x m = Done (Some q)" "y \<in> set ys" "comp x y = 0"
    then have "has comp x (set ys)"
      by (auto simp: has_def)
    then show ?thesis
      using v e n f(1) IH x(1) by (subst subset_loop.simps) (simp add: qSet__ptr_at_def)
  next
    assume f: "qAVLTree__ptr_at comp (av_root db) x m = Done None" "\<forall>y \<in> set ys. comp x y \<noteq> 0"
    then have "\<not> has comp x (set ys)"
      by (auto simp: has_def)
    then show ?thesis
      using v e f(1) x(1) by (subst subset_loop.simps) (simp add: qSet__ptr_at_def)
  qed
qed

end

text \<open>A region that the loops only read.\<close>

definition keeps :: "ptr set \<Rightarrow> 'd lmem \<Rightarrow> 'd lmem \<Rightarrow> bool" where
  "keeps K m m' \<longleftrightarrow> (\<forall>p \<in> K. nodes m' p = nodes m p)"

definition apart :: "ptr set \<Rightarrow> qAVLTreeDescriptor \<Rightarrow> 'd lmem \<Rightarrow> bool" where
  "apart K d m \<longleftrightarrow> set (addrs (av_root d)) \<inter> K = {} \<and> K \<subseteq> dom (nodes m) \<and> finite (dom (nodes m))"

lemma keeps_refl [simp]: "keeps K m m"
  by (simp add: keeps_def)

lemma keeps_trans: "keeps K m m1 \<Longrightarrow> keeps K m1 m' \<Longrightarrow> keeps K m m'"
  by (simp add: keeps_def)

lemma keeps_seg: "keeps K m m' \<Longrightarrow> set ps \<subseteq> K \<Longrightarrow> seg (nodes m') pr ps nx = seg (nodes m) pr ps nx"
  by (rule seg_cong) (auto simp: keeps_def)

lemma keeps_cells: "keeps K m m' \<Longrightarrow> set ps \<subseteq> K \<Longrightarrow> map (cell (nodes m')) ps = map (cell (nodes m)) ps"
  by (rule map_cong) (auto simp: keeps_def cell_def)

lemma keeps_avl: "keeps K m m' \<Longrightarrow> set (addrs (av_root d)) \<subseteq> K \<Longrightarrow> avl_holds cmp m d xs \<Longrightarrow> avl_holds cmp m' d xs"
  by (erule avl_holds_frame [where S = "- K"]) (auto simp: keeps_def agree_off_def)

context ordered_tree
begin

lemma insert_apart:
  assumes "avl_holds cmp m d zs" and "apart K d m" and "length zs < 2 ^ 32 - 1"
  shows "\<exists>r d' m' zs'. qSet__insert cmp (Some (al m)) True d x m = Done (r, d', m') \<and> avl_holds cmp m' d' zs' \<and> apart K d' m'
    \<and> keeps K m m' \<and> length zs' \<le> Suc (length zs) \<and> set zs' = (if has cmp x (set zs) then set zs else insert x (set zs))"
proof (cases "has cmp x (set zs)")
  case True
  then obtain y where "y \<in> set zs" "cmp x y = 0"
    by (auto simp: has_def)
  then have "qSet__insert cmp (Some (al m)) True d x m = Done (-1, d, m)"
    using insert_again [OF assms(1)] by (simp add: qSet__insert_def)
  then show ?thesis
    using True assms(1,2) by (intro exI conjI) (assumption | simp)+
next
  case False
  have fresh: "nodes m (al m) = None" "al m \<noteq> 0"
    using al_fresh assms(2) by (auto simp: apart_def)
  have "\<forall>y \<in> set zs. cmp x y \<noteq> 0"
    using False by (auto simp: has_def)
  from insert_holds [OF assms(1) this fresh assms(3)] obtain d' m' ys where
    i: "qAVLTree__insert cmp (Some (al m)) True d x m = Done (0, d', m')" "avl_holds cmp m' d' ys" "placed cmp x zs ys"
      "set (addrs (av_root d')) = insert (al m) (set (addrs (av_root d)))"
      "agree_off (insert (al m) (set (addrs (av_root d)))) m m'"
    by blast
  have K: "al m \<notin> K" "set (addrs (av_root d)) \<inter> K = {}"
    using fresh(1) assms(2) by (auto simp: apart_def)
  then have "p \<notin> insert (al m) (set (addrs (av_root d)))" if "p \<in> K" for p
    using that by auto
  then have kp: "keeps K m m'"
    using i(5) by (simp add: keeps_def agree_off_def)
  moreover have "apart K d' m'"
    using K kp i(4) assms(2) finite_dom_agree [OF _ _ i(5)] by (auto simp: apart_def keeps_def dom_def)
  moreover have "length ys \<le> Suc (length zs)" "set ys = insert x (set zs)"
    using i(3) by (auto simp: placed_def)
  ultimately show ?thesis
    using i(1,2) False by (auto simp: qSet__insert_def)
qed

lemma set_loop_holds:
  "avl_holds cmp m d zs \<Longrightarrow> apart K d m \<Longrightarrow> set ps \<subseteq> K \<Longrightarrow> seg (nodes m) pr ps 0 \<Longrightarrow> map (cell (nodes m)) ps = map full xs \<Longrightarrow>
   csorted cmp xs \<Longrightarrow> length zs + length xs < 2 ^ 32 \<Longrightarrow>
   (\<And>m' x. keeps K m m' \<Longrightarrow> x \<in> set xs \<Longrightarrow> sel x m' = Done (Q x)) \<Longrightarrow>
   \<exists>d' m' zs'. set_loop (\<lambda>m. Some (al m)) (\<lambda>m. True) cmp sel (hd0 ps 0) d m = Some (Done (d', m')) \<and> avl_holds cmp m' d' zs'
     \<and> apart K d' m' \<and> keeps K m m' \<and> length zs' \<le> length zs + length xs
     \<and> set zs' = set zs \<union> {x \<in> set xs. Q x \<and> \<not> has cmp x (set zs)}"
proof (induction ps arbitrary: m d zs xs pr)
  case Nil
  then show ?case
    by (subst set_loop.simps) (auto simp: qset_defs)
next
  case (Cons p ps)
  then obtain x ys where x: "xs = x # ys" "cell (nodes m) p = full x" "map (cell (nodes m)) ps = map full ys"
    by (cases xs) auto
  have srt: "csorted cmp ys" "\<forall>y \<in> set ys. cmp y x \<noteq> 0"
    using Cons.prems(6) x(1) comp_swap [of x] by (simp_all add: csorted_def order_less_imp_not_eq2)
  note n = next_seg [OF Cons.prems(4)]
  note e = set_elem_cell [OF x(2) conjunct2 [OF n]]
  have Qx: "sel x m = Done (Q x)"
    using Cons.prems(8) x(1) by simp
  obtain d1 m1 zs1 where c: "copy_elem (\<lambda>m. Some (al m)) (\<lambda>m. True) cmp sel p d m = Done (d1, m1)" "avl_holds cmp m1 d1 zs1"
      "apart K d1 m1" "keeps K m m1" "length zs1 \<le> Suc (length zs)"
      "set zs1 = set zs \<union> (if Q x \<and> \<not> has cmp x (set zs) then {x} else {})"
  proof (cases "Q x")
    case True
    from insert_apart [OF Cons.prems(1,2), of x] Cons.prems(7) x(1) obtain r d' m' zs' where
      i: "qSet__insert cmp (Some (al m)) True d x m = Done (r, d', m')" "avl_holds cmp m' d' zs'" "apart K d' m'" "keeps K m m'"
        "length zs' \<le> Suc (length zs)" "set zs' = (if has cmp x (set zs) then set zs else insert x (set zs))"
      by auto
    show ?thesis
      using i True Qx e by (intro that [of d' m' zs']) (auto simp: copy_elem_def)
  next
    case False
    show ?thesis
      using False Qx e Cons.prems(1,2) by (intro that [of d m zs]) (auto simp: copy_elem_def)
  qed
  have sub: "set ps \<subseteq> K" "set (p # ps) \<subseteq> K"
    using Cons.prems(3) by auto
  have "seg (nodes m1) p ps 0"
    using Cons.prems(4) keeps_seg [OF c(4) sub(1)] by simp
  moreover have "map (cell (nodes m1)) ps = map full ys"
    using keeps_cells [OF c(4) sub(1)] x(3) by (rule trans)
  moreover have "length zs1 + length ys < 2 ^ 32"
    using c(5) Cons.prems(7) x(1) by simp
  moreover have "sel y m' = Done (Q y)" if "keeps K m1 m'" "y \<in> set ys" for y m'
    using Cons.prems(8) [OF keeps_trans [OF c(4) that(1)]] that(2) x(1) by simp
  ultimately obtain d' m' zs' where r: "set_loop (\<lambda>m. Some (al m)) (\<lambda>m. True) cmp sel (hd0 ps 0) d1 m1 = Some (Done (d', m'))"
      "avl_holds cmp m' d' zs'" "apart K d' m'" "keeps K m1 m'" "length zs' \<le> length zs1 + length ys"
      "set zs' = set zs1 \<union> {x \<in> set ys. Q x \<and> \<not> has cmp x (set zs1)}"
    using Cons.IH [OF c(2,3) sub(1) _ _ srt(1)] by blast
  have nx: "qSetIterator_next m1 p = Done (hd0 ps 0)"
    using next_seg [of m1 pr p ps] Cons.prems(4) keeps_seg [OF c(4) sub(2)] by simp
  have "has cmp y (set zs1) \<longleftrightarrow> has cmp y (set zs)" if "y \<in> set ys" for y
    using that srt(2) c(6) by (auto simp: has_def)
  then have "set zs' = set zs \<union> {x \<in> set xs. Q x \<and> \<not> has cmp x (set zs)}"
    using r(6) c(6) x(1) by auto
  moreover have "set_loop (\<lambda>m. Some (al m)) (\<lambda>m. True) cmp sel (hd0 (p # ps) 0) d m = Some (Done (d', m'))"
    using n c(1) nx r(1) by (subst set_loop.simps) (simp add: qSetIterator_isvalid_def qAVLTreeIterator_isvalid_def)
  ultimately show ?case
    using r(2-5) keeps_trans [OF c(4) r(4)] c(5) x(1) by (intro exI conjI) (assumption | simp)+
qed

end

end
