(* ===== verification/QSetProps.thy ===== *)
theory QSetProps
  imports QSet
begin

text \<open>
  The algebra of sets on trees, the histories of calls on a tree, and what the rotations do not keep.
\<close>

section \<open>Sets of elements up to the comparison function\<close>

context elem_order
begin

lemma comp_zero_trans: "comp a b = 0 \<Longrightarrow> comp b c = 0 \<Longrightarrow> comp a c = 0"
  using comp_trans [of a b c] comp_trans [of c b a] comp_zero_sym [of a b] comp_zero_sym [of b c] comp_le_swap [of c a]
  by simp

text \<open>A set that is contained in another of the same number of elements contains the other.\<close>

lemma has_counting:
  assumes "csorted comp xs" and "csorted comp ys" and "\<forall>x \<in> set xs. has comp x (set ys)"
  shows "length xs \<le> length ys \<and> (length xs = length ys \<longrightarrow> (\<forall>y \<in> set ys. has comp y (set xs)))"
proof -
  have "\<forall>x \<in> set xs. \<exists>y \<in> set ys. comp x y = 0"
    using assms(3) by (simp add: has_def)
  then obtain f where f: "\<forall>x \<in> set xs. f x \<in> set ys \<and> comp x (f x) = 0"
    by metis
  have inj: "inj_on f (set xs)"
  proof (rule inj_onI)
    fix a b
    assume ab: "a \<in> set xs" "b \<in> set xs" "f a = f b"
    then have "comp a b = 0"
      using f comp_zero_trans [of a "f a" b] comp_zero_sym [of b "f b"] by auto
    then show "a = b"
      using csorted_unique [OF assms(1) ab(1,2)] by blast
  qed
  have sub: "f ` set xs \<subseteq> set ys"
    using f by auto
  have card: "card (set xs) = length xs" "card (set ys) = length ys"
    using csorted_distinct [OF assms(1)] csorted_distinct [OF assms(2)] by (simp_all add: distinct_card)
  have img: "f ` set xs = set ys" if "length xs = length ys"
    using sub card that inj by (intro card_subset_eq) (simp_all add: card_image)
  have "\<forall>y \<in> set ys. has comp y (set xs)" if len: "length xs = length ys"
  proof
    fix y
    assume "y \<in> set ys"
    then obtain x where "x \<in> set xs" "y = f x"
      using img [OF len] by blast
    then show "has comp y (set xs)"
      using f comp_zero_sym [of x "f x"] by (auto simp: has_def)
  qed
  then show ?thesis
    using card card_inj_on_le [OF inj sub] by auto
qed

lemma avl_thread:
  assumes "avl_holds comp m d xs"
  shows "qSet_begin d = hd0 (addrs (av_root d)) 0" "seg (nodes m) 0 (addrs (av_root d)) 0"
    "map (cell (nodes m)) (addrs (av_root d)) = map full xs" "csorted comp xs" "length xs < 2 ^ 32"
  using assms by (simp_all add: avl_holds_def threaded_def qset_defs min_node_addrs)

lemma issubset_holds:
  assumes "avl_holds comp m da xs" and "avl_holds comp m db ys"
  shows "qSet_issubset comp da db m = Some (Done (if \<forall>x \<in> set xs. has comp x (set ys) then 1 else 0))"
  using subset_loop_holds [OF assms(2) avl_thread(2,3) [OF assms(1)]] avl_thread(1) [OF assms(1)]
  by (simp add: qSet_issubset_def)

lemma isequal_holds:
  assumes "avl_holds comp m da xs" and "avl_holds comp m db ys"
  shows "qSet_isequal comp da db m
    = Some (Done (if (\<forall>x \<in> set xs. has comp x (set ys)) \<and> (\<forall>y \<in> set ys. has comp y (set xs)) then 1 else 0))"
proof -
  note A = avl_thread [OF assms(1)] and B = avl_thread [OF assms(2)]
  have sz: "av_size da = av_size db \<longleftrightarrow> length xs = length ys"
    using assms A(5) B(5) unat_of_nat [of "length xs", where 'a = 32] unat_of_nat [of "length ys", where 'a = 32]
    by (simp add: avl_holds_def) (metis)
  show ?thesis
  proof (cases "length xs = length ys")
    case True
    then show ?thesis
      using has_counting [OF A(4) B(4)] subset_loop_holds [OF assms(2) A(2,3)] A(1) sz
      by (auto simp: qSet_isequal_def)
  next
    case False
    then have "\<not> ((\<forall>x \<in> set xs. has comp x (set ys)) \<and> (\<forall>y \<in> set ys. has comp y (set xs)))"
      using has_counting [OF A(4) B(4)] has_counting [OF B(4) A(4)] by linarith
    then show ?thesis
      using False sz by (simp add: qSet_isequal_def)
  qed
qed

end

context ordered_tree
begin

text \<open>The tree that a loop builds from one tree beside another.\<close>

lemma loop_pair:
  assumes "avl_holds cmp m da xs" and "avl_holds cmp m db ys" and "finite (dom (nodes m))"
    and "\<And>m' x. avl_holds cmp m' da xs \<Longrightarrow> avl_holds cmp m' db ys \<Longrightarrow> x \<in> set xs \<Longrightarrow> sel x m' = Done (Q x)"
  shows "\<exists>d' m' zs. set_loop (\<lambda>m. Some (al m)) (\<lambda>m. True) cmp sel (qSet_begin da) qSet_constructor m = Some (Done (d', m'))
    \<and> avl_holds cmp m' d' zs \<and> set zs = {x \<in> set xs. Q x} \<and> length zs \<le> length xs
    \<and> apart (set (addrs (av_root da)) \<union> set (addrs (av_root db))) d' m' \<and> avl_holds cmp m' da xs \<and> avl_holds cmp m' db ys"
proof -
  let ?K = "set (addrs (av_root da)) \<union> set (addrs (av_root db))"
  note A = avl_thread [OF assms(1)] and B = avl_thread [OF assms(2)]
  have ap: "apart ?K qSet_constructor m"
    using seg_live [OF A(2)] seg_live [OF B(2)] assms(3) by (auto simp: apart_def qset_defs qAVLTree_constructor_def)
  have hold: "avl_holds cmp m' da xs" "avl_holds cmp m' db ys" if "keeps ?K m m'" for m'
    using keeps_avl [OF that] assms(1,2) by auto
  have "avl_holds cmp m qSet_constructor []"
    by (simp add: qSet_constructor_def)
  from set_loop_holds [OF this ap _ A(2,3,4), of sel Q] obtain d' m' zs where
    r: "set_loop (\<lambda>m. Some (al m)) (\<lambda>m. True) cmp sel (hd0 (addrs (av_root da)) 0) qSet_constructor m = Some (Done (d', m'))"
      "avl_holds cmp m' d' zs" "apart ?K d' m'" "keeps ?K m m'" "length zs \<le> length xs" "set zs = {x \<in> set xs. Q x}"
    using A(5) assms(4) hold by (auto simp: has_def)
  then show ?thesis
    using A(1) hold [OF r(4)] by auto
qed

lemma ptr_at_has:
  "avl_holds cmp m d ys \<Longrightarrow> \<exists>p. qSet__ptr_at cmp d x m = Done p \<and> (p \<noteq> None \<longleftrightarrow> has cmp x (set ys))"
  using find_holds [of m d ys x] by (auto simp: qSet__ptr_at_def has_def)

lemma intersect_holds:
  assumes "avl_holds cmp m da xs" and "avl_holds cmp m db ys" and "finite (dom (nodes m))"
  shows "\<exists>d' m' zs. qSet_intersect (\<lambda>m. Some (al m)) (\<lambda>m. True) cmp cmp da db m = Some (Done (d', m'))
    \<and> avl_holds cmp m' d' zs \<and> set zs = {x \<in> set xs. has cmp x (set ys)} \<and> avl_holds cmp m' da xs \<and> avl_holds cmp m' db ys"
proof -
  have "bind_exec (qSet__ptr_at cmp db x m') (\<lambda>p. Done (p \<noteq> None)) = Done (has cmp x (set ys))"
    if "avl_holds cmp m' db ys" for m' x
    using ptr_at_has [OF that, of x] by auto
  from loop_pair [OF assms, of "\<lambda>x m. bind_exec (qSet__ptr_at cmp db x m) (\<lambda>p. Done (p \<noteq> None))", OF this]
  show ?thesis
    unfolding qSet_intersect_def by blast
qed

lemma difference_holds:
  assumes "avl_holds cmp m da xs" and "avl_holds cmp m db ys" and "finite (dom (nodes m))"
  shows "\<exists>d' m' zs. qSet_difference (\<lambda>m. Some (al m)) (\<lambda>m. True) cmp cmp da db m = Some (Done (d', m'))
    \<and> avl_holds cmp m' d' zs \<and> set zs = {x \<in> set xs. \<not> has cmp x (set ys)} \<and> avl_holds cmp m' da xs \<and> avl_holds cmp m' db ys"
proof -
  have "bind_exec (qSet__ptr_at cmp db x m') (\<lambda>p. Done (p = None)) = Done (\<not> has cmp x (set ys))"
    if "avl_holds cmp m' db ys" for m' x
    using ptr_at_has [OF that, of x] by auto
  from loop_pair [OF assms, of "\<lambda>x m. bind_exec (qSet__ptr_at cmp db x m) (\<lambda>p. Done (p = None))", OF this]
  show ?thesis
    unfolding qSet_difference_def by blast
qed

lemma union_holds:
  assumes "avl_holds cmp m da xs" and "avl_holds cmp m db ys" and "finite (dom (nodes m))" and "length xs + length ys < 2 ^ 32"
  shows "\<exists>d' m' zs. qSet_union (\<lambda>m. Some (al m)) (\<lambda>m. True) cmp da db m = Some (Done (d', m'))
    \<and> avl_holds cmp m' d' zs \<and> set zs = set xs \<union> {y \<in> set ys. \<not> has cmp y (set xs)}
    \<and> avl_holds cmp m' da xs \<and> avl_holds cmp m' db ys"
proof -
  let ?K = "set (addrs (av_root da)) \<union> set (addrs (av_root db))"
  from loop_pair [OF assms(1-3), of "\<lambda>x m. Done True" "\<lambda>x. True"] obtain d1 m1 zs where
    r: "set_loop (\<lambda>m. Some (al m)) (\<lambda>m. True) cmp (\<lambda>x m. Done True) (qSet_begin da) qSet_constructor m = Some (Done (d1, m1))"
      "avl_holds cmp m1 d1 zs" "set zs = set xs" "length zs \<le> length xs" "apart ?K d1 m1"
      "avl_holds cmp m1 da xs" "avl_holds cmp m1 db ys"
    by auto
  note B = avl_thread [OF r(7)]
  from set_loop_holds [OF r(2,5) _ B(2,3,4), of "\<lambda>x m. Done True" "\<lambda>x. True"] obtain d' m' zs' where
    u: "set_loop (\<lambda>m. Some (al m)) (\<lambda>m. True) cmp (\<lambda>x m. Done True) (qSet_begin db) d1 m1 = Some (Done (d', m'))"
      "avl_holds cmp m' d' zs'" "keeps ?K m1 m'" "set zs' = set zs \<union> {x \<in> set ys. \<not> has cmp x (set zs)}"
    using r(4) assms(4) B(1) by auto
  have "avl_holds cmp m' da xs" "avl_holds cmp m' db ys"
    using keeps_avl [OF u(3)] r(6,7) by auto
  then show ?thesis
    using r(1,3) u by (auto simp: qSet_union_def)
qed

end

section \<open>Properties\<close>

lemma ordered_treeI: "comparator cmp \<Longrightarrow> allocator al \<Longrightarrow> ordered_tree cmp al"
  by (simp add: ordered_tree_def elem_order_def)

text \<open>
  C28: for a comparison function that is an order and an allocator that returns unused addresses, any
  history of insertions, removals and searches on an empty tree gives the results of the same history
  on a finite set, and leaves a tree whose thread holds the elements of that set in ascending order,
  with the right heights and the right size.
\<close>

theorem tree_refines_set:
  assumes "comparator cmp" and "allocator al" and "finite (dom (nodes m0))" and "arun (set_step cmp) ops {} = Some (rs, X)"
  shows "\<exists>d m xs. run (tree_step al cmp) ops (qAVLTree_constructor, m0) = Done (rs, d, m) \<and> avl_holds cmp m d xs \<and> set xs = X"
  by (rule ordered_tree.tree_history [OF ordered_treeI [OF assms(1,2)] assms(3,4)])

text \<open>Numbers, for concrete runs.\<close>

definition int_elem_cmp :: "int elem_cmp" where
  "int_elem_cmp x y = fst x - fst y"

lemma int_elem_order: "comparator int_elem_cmp"
  by unfold_locales (auto simp: int_elem_cmp_def)

theorem tree_refines_set_witness:
  "\<exists>d m xs. run (tree_step first_free int_elem_cmp)
       [Insert (2, 4), Insert (1, 4), Insert (3, 4), Insert (1, 4), Erase_elem (2, 4), Find (2, 4), Find (3, 4)]
       (qAVLTree_constructor, mem0) = Done ([0, 0, 0, -1, 0, -1, 0], d, m)
     \<and> avl_holds int_elem_cmp m d xs \<and> set xs = {(1, 4), (3, 4)}"
proof -
  have "{y. (y = (3, 4) \<or> y = (1, 4) \<or> y = (2, 4)) \<and> int_elem_cmp (2, 4) y \<noteq> 0} = {(1, 4), (3, 4)}"
    by (auto simp: int_elem_cmp_def)
  then have "arun (set_step int_elem_cmp)
      [Insert (2, 4), Insert (1, 4), Insert (3, 4), Insert (1, 4), Erase_elem (2, 4), Find (2, 4), Find (3, 4)] {}
    = Some ([0, 0, 0, -1, 0, -1, 0], {(1, 4), (3, 4)})"
    by (simp add: has_def int_elem_cmp_def)
  then show ?thesis
    by (intro tree_refines_set int_elem_order first_free.allocator_axioms) (simp_all add: mem0_def)
qed

text \<open>
  C31: union, intersection and difference of two sets end, leave both arguments as they were, and
  return a set with exactly the elements of the operation, up to elements that compare as equal.
\<close>

theorem set_algebra:
  assumes "comparator cmp" and "allocator al" and "finite (dom (nodes m))"
    and "avl_holds cmp m da xs" and "avl_holds cmp m db ys" and "length xs + length ys < 2 ^ 32"
  shows "(\<exists>d' m' zs. qSet_union (\<lambda>m. Some (al m)) (\<lambda>m. True) cmp da db m = Some (Done (d', m')) \<and> avl_holds cmp m' d' zs
      \<and> set zs = set xs \<union> {y \<in> set ys. \<not> has cmp y (set xs)} \<and> avl_holds cmp m' da xs \<and> avl_holds cmp m' db ys)
    \<and> (\<exists>d' m' zs. qSet_intersect (\<lambda>m. Some (al m)) (\<lambda>m. True) cmp cmp da db m = Some (Done (d', m')) \<and> avl_holds cmp m' d' zs
      \<and> set zs = {x \<in> set xs. has cmp x (set ys)} \<and> avl_holds cmp m' da xs \<and> avl_holds cmp m' db ys)
    \<and> (\<exists>d' m' zs. qSet_difference (\<lambda>m. Some (al m)) (\<lambda>m. True) cmp cmp da db m = Some (Done (d', m')) \<and> avl_holds cmp m' d' zs
      \<and> set zs = {x \<in> set xs. \<not> has cmp x (set ys)} \<and> avl_holds cmp m' da xs \<and> avl_holds cmp m' db ys)"
  using ordered_treeI [OF assms(1,2)] assms(3-6)
  by (intro conjI ordered_tree.union_holds ordered_tree.intersect_holds ordered_tree.difference_holds)

definition mem2 :: "int lmem" where
  "mem2 = \<lparr>nodes = [8 \<mapsto> \<lparr>l_data = Some 1, l_size = 4, l_prev = 0, l_next = 16\<rparr>,
                    16 \<mapsto> \<lparr>l_data = Some 2, l_size = 4, l_prev = 8, l_next = 0\<rparr>,
                    24 \<mapsto> \<lparr>l_data = Some 2, l_size = 4, l_prev = 0, l_next = 0\<rparr>], lerr = 0\<rparr>"

definition set_a :: qAVLTreeDescriptor where
  "set_a = \<lparr>av_size = 2, av_root = ANode 8 ANull (ANode 16 ANull ANull 1) 2\<rparr>"

definition set_b :: qAVLTreeDescriptor where
  "set_b = \<lparr>av_size = 1, av_root = ANode 24 ANull ANull 1\<rparr>"

lemma mem2_holds: "avl_holds int_elem_cmp mem2 set_a [(1, 4), (2, 4)]" "avl_holds int_elem_cmp mem2 set_b [(2, 4)]"
  by (simp_all add: avl_holds_def threaded_def mem2_def set_a_def set_b_def cell_def full_def csorted_def int_elem_cmp_def
      qAVLTreeNode__updateHeight_def)

theorem set_algebra_witness:
  "\<exists>d' m' zs. qSet_difference (\<lambda>m. Some (first_free m)) (\<lambda>m. True) int_elem_cmp int_elem_cmp set_a set_b mem2
       = Some (Done (d', m')) \<and> avl_holds int_elem_cmp m' d' zs \<and> set zs = {(1, 4)}"
proof -
  have "finite (dom (nodes mem2))"
    by (simp add: mem2_def)
  moreover have "{x \<in> set [(1, 4), (2, 4)]. \<not> has int_elem_cmp x (set [(2, 4)])} = {(1, 4)}"
    by (auto simp: has_def int_elem_cmp_def)
  ultimately show ?thesis
    using set_algebra [OF int_elem_order first_free.allocator_axioms _ mem2_holds] by auto
qed

text \<open>
  C32: the comparisons of two sets end; one is reported as a subset of the other exactly when each of
  its elements occurs there, and two are reported as equal exactly when each is a subset of the other,
  although only one direction is searched.
\<close>

theorem set_comparison:
  assumes "comparator cmp" and "avl_holds cmp m da xs" and "avl_holds cmp m db ys"
  shows "qSet_issubset cmp da db m = Some (Done (if \<forall>x \<in> set xs. has cmp x (set ys) then 1 else 0))
    \<and> qSet_isequal cmp da db m
      = Some (Done (if (\<forall>x \<in> set xs. has cmp x (set ys)) \<and> (\<forall>y \<in> set ys. has cmp y (set xs)) then 1 else 0))"
proof -
  have "elem_order cmp"
    using assms(1) by (simp add: elem_order_def)
  then show ?thesis
    using assms(2,3) by (intro conjI elem_order.issubset_holds elem_order.isequal_holds)
qed

theorem set_comparison_witness:
  "qSet_issubset int_elem_cmp set_b set_a mem2 = Some (Done 1) \<and> qSet_isequal int_elem_cmp set_b set_a mem2 = Some (Done 0)"
  using set_comparison [OF int_elem_order mem2_holds(2,1)] by (simp add: has_def int_elem_cmp_def)

section \<open>Balance\<close>

primrec balanced :: "qAVLTreeNode \<Rightarrow> bool" where
  "balanced ANull \<longleftrightarrow> True"
| "balanced (ANode p l r h) \<longleftrightarrow> \<bar>qAVLTreeNode__get_blfactor l r\<bar> \<le> 1 \<and> balanced l \<and> balanced r"

fun insert_all :: "'d elem_cmp \<Rightarrow> (ptr \<times> 'd elem) list \<Rightarrow> qAVLTreeDescriptor \<Rightarrow> 'd lmem \<Rightarrow> (qAVLTreeDescriptor \<times> 'd lmem) exec" where
  "insert_all cmp [] d m = Done (d, m)"
| "insert_all cmp ((a, x) # axs) d m =
     bind_exec (qAVLTree__insert cmp (Some a) True d x m) (\<lambda>(r, d, m). insert_all cmp axs d m)"

text \<open>
  The tree is not height-balanced: the balance factor that chooses the rotation is that of the
  grandchild, and after the insertion of 1, 2, 3, 5, 6, which keeps the balance, the insertion of 4
  leaves a root with subtrees of heights 3 and 1.
\<close>

lemma avl_insert_loses_balance:
  "\<exists>d m d' m'. insert_all int_elem_cmp [(8, 1, 4), (16, 2, 4), (24, 3, 4), (32, 5, 4), (40, 6, 4)] qAVLTree_constructor mem0 = Done (d, m)
    \<and> balanced (av_root d)
    \<and> qAVLTree__insert int_elem_cmp (Some 48) True d (4, 4) m = Done (0, d', m')
    \<and> \<not> balanced (av_root d') \<and> qAVLTreeNode__getHeight (lchild (av_root d')) = 3
    \<and> qAVLTreeNode__getHeight (rchild (av_root d')) = 1"
  by (simp add: qAVLTree__insert_def qAVLTree_constructor_def mem0_def new_node_def qAVLTreeNode__constructor_def acmp_def l_load_def l_store_def
      int_elem_cmp_def qAVLTree__list_insert_left_def qAVLTree__list_insert_right_def qAVLTree__left_balance_def
      qAVLTree__right_balance_def avl_rot_defs mk_def qAVLTreeNode__updateHeight_def qAVLTreeNode__get_blfactor_def Let_def)

text \<open>
  An insertion whose allocation fails below the root leaves a null pointer where the subtree was: the
  nodes of the subtree are no longer reached, and the size still counts them.
\<close>

lemma avl_failed_insert_loses_subtree:
  assumes "acmp cmp x m p = Done c" and "c < 0" and "acmp cmp x m q = Done e" and "e < 0"
  shows "\<exists>d' m'. qAVLTree__insert cmp None mok \<lparr>av_size = n, av_root = ANode p (ANode q ANull r k) s h\<rparr> x m = Done (-1, d', m')
    \<and> av_root d' = ANode p ANull s h \<and> av_size d' = n \<and> nodes m' = nodes m \<and> lerr m' = ZHWK_ERR_MM_ALLOC_FAIL"
  using assms by (simp add: qAVLTree__insert_def new_node_def qAVLTreeNode__constructor_def)

end
