(* ===== verification/QTrie.thy ===== *)
theory QTrie
  imports Bss "HOL-Library.Sublist"
begin

text \<open>
  \<^verbatim>\<open>zhwkre/trie.h\<close> and \<^verbatim>\<open>zhwkre/containers/trie.c\<close>: a tree with one child per byte of the key. The children
  are owned by their parent (the member \<^verbatim>\<open>parent\<close> is never set), so a node is a datatype value; an
  iterator is the node it points to. The index of a child is a \<^verbatim>\<open>char\<close>, which is signed here: a byte
  of 128 or more is a negative index, outside the array. The \<open>k\<close>-th value of \<open>al\<close> is the outcome of
  the \<open>k\<close>-th call that may allocate, and \<open>g\<close> is what an uninitialised string holds as its sizes.
\<close>

section \<open>Model\<close>

definition ZHWK_ERR_TREE_ELEM_NOTEXIST :: int where "ZHWK_ERR_TREE_ELEM_NOTEXIST = 81"

datatype qTrieNode =
  TNode (t_value: qBinarySafeString) (t_payload: qBinarySafeString) (t_children: "nat \<Rightarrow> qTrieNode option")

record qTrieDescriptor =
  t_size :: int
  t_root :: "qTrieNode option"

record qTrieIterator =
  realiter :: qTrieNode
  limit :: qTrieNode

definition skip :: "nat \<Rightarrow> (nat \<Rightarrow> bool) \<Rightarrow> (nat \<Rightarrow> bool)" where
  "skip n al = (\<lambda>k. al (k + n))"

text \<open>The allocation of the node is not checked: writing to the null pointer is a fault.\<close>

definition qTrieNode__constructor :: "(nat \<Rightarrow> bool) \<Rightarrow> u32 \<times> u32 \<Rightarrow> int \<Rightarrow> (qTrieNode \<times> int) exec" where
  "qTrieNode__constructor al g err =
     (if \<not> al 0 then Fault
      else
        (let (v, err) = qbss_constructor (al 1) (fst g) (snd g) err;
             (p, err) = qbss_constructor (al 2) (fst g) (snd g) err
         in Done (TNode v p (\<lambda>_. None), err)))"

text \<open>The blocks that are released, in order; the last child is not visited.\<close>

primrec qTrieNode__destructor :: "qTrieNode \<Rightarrow> bytes option list" where
  "qTrieNode__destructor (TNode v p ch) =
     bss_str v # bss_str p # concat (map (\<lambda>i. case (map_option qTrieNode__destructor \<circ> ch) i of None \<Rightarrow> [] | Some bs \<Rightarrow> bs) [0..<255])"

definition qTrie_constructor :: qTrieDescriptor where
  "qTrie_constructor = \<lparr>t_size = 0, t_root = None\<rparr>"

text \<open>\<^verbatim>\<open>it->children[str[i]]\<close>, an access outside the string or the array being a fault.\<close>

definition child_index :: "bytes \<Rightarrow> nat \<Rightarrow> nat exec" where
  "child_index s i = (if i < length s \<and> 0 \<le> sint (s ! i) then Done (nat (sint (s ! i))) else Fault)"

fun ptr_at_loop :: "bytes \<Rightarrow> nat \<Rightarrow> nat \<Rightarrow> qTrieNode \<Rightarrow> (qTrieNode option) exec" where
  "ptr_at_loop s i 0 it = Done (Some it)"
| "ptr_at_loop s i (Suc n) it =
     bind_exec (child_index s i) (\<lambda>c.
     case t_children it c of None \<Rightarrow> Done None | Some ch \<Rightarrow> ptr_at_loop s (Suc i) n ch)"

definition str_block :: "qBinarySafeString \<Rightarrow> bytes" where
  "str_block b = (case bss_str b of None \<Rightarrow> [] | Some blk \<Rightarrow> blk)"

definition qTrie__ptr_at :: "qTrieDescriptor \<Rightarrow> qBinarySafeString \<Rightarrow> int \<Rightarrow> (int \<times> qTrieIterator option \<times> int) exec" where
  "qTrie__ptr_at desc pfx err =
     (case t_root desc of
        None \<Rightarrow> Done (-1, None, ZHWK_ERR_TREE_ELEM_NOTEXIST)
      | Some root \<Rightarrow>
          bind_exec (ptr_at_loop (str_block pfx) 0 (unat (bss_size pfx)) root) (\<lambda>it.
          case it of
            None \<Rightarrow> Done (-1, None, ZHWK_ERR_TREE_ELEM_NOTEXIST)
          | Some nd \<Rightarrow> Done (0, Some \<lparr>realiter = nd, limit = root\<rparr>, err)))"

text \<open>A new child; its value gets the first \<open>i\<close> bytes of the key.\<close>

definition new_child :: "(nat \<Rightarrow> bool) \<Rightarrow> u32 \<times> u32 \<Rightarrow> bytes \<Rightarrow> nat \<Rightarrow> int \<Rightarrow> (qTrieNode \<times> int) exec" where
  "new_child al g s i err =
     bind_exec (qTrieNode__constructor al g err) (\<lambda>(nd, err).
     case q__bss_append (al 3) (t_value nd) s (of_nat i) err of
       (v, err) \<Rightarrow> bind_exec v (\<lambda>v. Done (TNode v (t_payload nd) (t_children nd), err)))"

definition set_payload :: "(nat \<Rightarrow> bool) \<Rightarrow> u32 \<times> u32 \<Rightarrow> qTrieNode \<Rightarrow> bytes \<Rightarrow> u32 \<Rightarrow> int \<Rightarrow> (qTrieNode \<times> int) exec" where
  "set_payload al g it payload sz err =
     (case qbss_constructor (al 0) (fst g) (snd g) err of
        (p, err) \<Rightarrow>
          (case q__bss_append (al 1) p payload sz err of
             (p, err) \<Rightarrow> bind_exec p (\<lambda>p. Done (TNode (t_value it) p (t_children it), err))))"

fun insert_loop ::
  "(nat \<Rightarrow> bool) \<Rightarrow> u32 \<times> u32 \<Rightarrow> bytes \<Rightarrow> nat \<Rightarrow> nat \<Rightarrow> bytes \<Rightarrow> u32 \<Rightarrow> qTrieNode \<Rightarrow> int \<Rightarrow> (qTrieNode \<times> int) exec" where
  "insert_loop al g s i 0 payload sz it err = set_payload al g it payload sz err"
| "insert_loop al g s i (Suc n) payload sz it err =
     bind_exec (child_index s i) (\<lambda>c.
     bind_exec (case t_children it c of None \<Rightarrow> new_child al g s i err | Some ch \<Rightarrow> Done (ch, err)) (\<lambda>(ch, err).
     bind_exec (insert_loop (if t_children it c = None then skip 4 al else al) g s (Suc i) n payload sz ch err) (\<lambda>(ch, err).
     Done (TNode (t_value it) (t_payload it) ((t_children it)(c \<mapsto> ch)), err))))"

definition qTrie__insert ::
  "(nat \<Rightarrow> bool) \<Rightarrow> u32 \<times> u32 \<Rightarrow> qTrieDescriptor \<Rightarrow> qBinarySafeString \<Rightarrow> bytes \<Rightarrow> u32 \<Rightarrow> int \<Rightarrow> (int \<times> qTrieDescriptor \<times> int) exec" where
  "qTrie__insert al g desc key payload sz err =
     bind_exec (case t_root desc of None \<Rightarrow> qTrieNode__constructor al g err | Some it \<Rightarrow> Done (it, err)) (\<lambda>(it, err).
     bind_exec (insert_loop (if t_root desc = None then skip 3 al else al) g (str_block key) 0 (unat (bss_size key)) payload sz it err)
       (\<lambda>(it, err). Done (0, desc\<lparr>t_root := Some it\<rparr>, err)))"

section \<open>Paths\<close>

primrec get :: "bytes \<Rightarrow> qTrieNode \<Rightarrow> qTrieNode option" where
  "get [] t = Some t"
| "get (c # k) t = (case t_children t (unat c) of None \<Rightarrow> None | Some ch \<Rightarrow> get k ch)"

definition ascii :: "bytes \<Rightarrow> bool" where
  "ascii s \<longleftrightarrow> (\<forall>c \<in> set s. unat c < 128)"

text \<open>Each node has two proper strings, and its value is the path to it without the last byte.\<close>

definition trie_ok :: "bytes \<Rightarrow> qTrieNode \<Rightarrow> bool" where
  "trie_ok pre t \<longleftrightarrow> (\<forall>k n. get k t = Some n \<longrightarrow> bss_ok (t_value n) \<and> bss_ok (t_payload n)
     \<and> bss_content (t_value n) = butlast (pre @ k))"

definition payload_at :: "qTrieNode \<Rightarrow> bytes \<Rightarrow> bytes option" where
  "payload_at t k = map_option (\<lambda>n. bss_content (t_payload n)) (get k t)"

text \<open>A finite map from keys to payloads that is closed under prefixes.\<close>

definition put :: "bytes \<Rightarrow> bytes \<Rightarrow> (bytes \<Rightarrow> bytes option) \<Rightarrow> bytes \<Rightarrow> bytes option" where
  "put k x A k' = (if k' = k then Some x else if prefix k' k \<and> A k' = None then Some [] else A k')"

lemma unat_byte_eq [simp]: "unat (a :: byte) = unat b \<longleftrightarrow> a = b"
  by (simp add: word_unat_eq_iff)

lemma sint_ascii:
  assumes "unat (c :: byte) < 128"
  shows "sint c = int (unat c)"
proof -
  have "int (unat c) < 128"
    using assms by linarith
  then have "uint c < 2 ^ 7"
    by simp
  moreover have "- (2 ^ 7) \<le> uint c"
    by (rule order.trans [of _ 0]) simp_all
  ultimately have "signed_take_bit 7 (uint c) = uint c"
    by (intro signed_take_bit_int_eq_self) auto
  then show ?thesis
    by (simp add: sint_uint)
qed

lemma child_index_ascii:
  assumes "ascii (take N s)" and "i < N" and "N \<le> length s"
  shows "child_index s i = Done (unat (s ! i))"
proof -
  have "s ! i \<in> set (take N s)"
    using assms(2,3) by (auto simp: in_set_conv_nth intro!: exI [of _ i])
  then show ?thesis
    using assms by (simp add: child_index_def ascii_def sint_ascii)
qed

lemma ptr_at_loop_get:
  "ascii (take N s) \<Longrightarrow> i + n = N \<Longrightarrow> N \<le> length s \<Longrightarrow> ptr_at_loop s i n t = Done (get (drop i (take N s)) t)"
proof (induction n arbitrary: i t)
  case (Suc n)
  have d: "drop i (take N s) = s ! i # drop (Suc i) (take N s)"
    using Suc.prems by (simp add: Cons_nth_drop_Suc [symmetric])
  have "ptr_at_loop s (Suc i) n ch = Done (get (drop (Suc i) (take N s)) ch)" for ch
    using Suc by simp
  then show ?case
    using Suc.prems unfolding d by (simp add: child_index_ascii [of N] split: option.split)
qed simp

section \<open>Insertion\<close>

lemma skip_True [simp]: "skip n (\<lambda>_. True) = (\<lambda>_. True)"
  by (simp add: skip_def)

lemma constructor_True: "qTrieNode__constructor (\<lambda>_. True) g err = Done (TNode bss_empty bss_empty (\<lambda>_. None), err)"
  by (simp add: qTrieNode__constructor_def)

lemma append_empty:
  "unat len < 2 ^ 31 \<Longrightarrow> unat len \<le> length s \<Longrightarrow>
   \<exists>b. q__bss_append True bss_empty s len err = (Done b, err) \<and> bss_ok b \<and> bss_content b = take (unat len) s"
  using q__bss_append_content [of bss_empty len s err] by auto

lemma new_child_ok:
  assumes "i \<le> length s" and "i < 2 ^ 31"
  shows "\<exists>v. new_child (\<lambda>_. True) g s i err = Done (TNode v bss_empty (\<lambda>_. None), err) \<and> bss_ok v \<and> bss_content v = take i s"
proof -
  have "unat (of_nat i :: u32) = i"
    using assms by (simp add: unat_of_nat)
  then show ?thesis
    using append_empty [of "of_nat i" s err] assms by (auto simp: new_child_def constructor_True)
qed

lemma trie_ok_leaf: "bss_ok v \<Longrightarrow> bss_ok p \<Longrightarrow> bss_content v = butlast pre \<Longrightarrow> trie_ok pre (TNode v p (\<lambda>_. None))"
  unfolding trie_ok_def
proof (intro allI impI)
  fix k n
  assume "bss_ok v" "bss_ok p" "bss_content v = butlast pre" "get k (TNode v p (\<lambda>_. None)) = Some n"
  then show "bss_ok (t_value n) \<and> bss_ok (t_payload n) \<and> bss_content (t_value n) = butlast (pre @ k)"
    by (cases k) auto
qed

lemma trie_ok_child: "trie_ok pre t \<Longrightarrow> t_children t (unat c) = Some ch \<Longrightarrow> trie_ok (pre @ [c]) ch"
  unfolding trie_ok_def by (metis append.assoc append_Cons append_Nil get.simps(2) option.simps(5))

lemma trie_ok_upd:
  assumes "trie_ok pre t" and "trie_ok (pre @ [c]) ch"
  shows "trie_ok pre (TNode (t_value t) (t_payload t) ((t_children t)(unat c \<mapsto> ch)))"
  unfolding trie_ok_def
proof (intro allI impI)
  fix k n
  assume g: "get k (TNode (t_value t) (t_payload t) ((t_children t)(unat c \<mapsto> ch))) = Some n"
  show "bss_ok (t_value n) \<and> bss_ok (t_payload n) \<and> bss_content (t_value n) = butlast (pre @ k)"
  proof (cases k)
    case Nil
    then show ?thesis
      using g assms(1) by (auto simp: trie_ok_def dest: spec [of _ "[]"])
  next
    case (Cons d k')
    show ?thesis
    proof (cases "d = c")
      case True
      then show ?thesis
        using g Cons assms(2) by (auto simp: trie_ok_def)
    next
      case False
      then have "get k t = Some n"
        using g Cons by simp
      then show ?thesis
        using assms(1) by (simp add: trie_ok_def)
    qed
  qed
qed

lemma payload_at_Nil [simp]: "payload_at t [] = Some (bss_content (t_payload t))"
  by (simp add: payload_at_def)

lemma payload_at_Cons: "payload_at t (c # k) = (case t_children t (unat c) of None \<Rightarrow> None | Some ch \<Rightarrow> payload_at ch k)"
  by (simp add: payload_at_def split: option.split)

lemma payload_at_leaf: "payload_at (TNode v p (\<lambda>_. None)) k = (if k = [] then Some (bss_content p) else None)"
  by (cases k) (simp_all add: payload_at_Cons)

lemma insert_loop_ok:
  "trie_ok (take i s) t \<Longrightarrow> i + n = N \<Longrightarrow> ascii (take N s) \<Longrightarrow> N \<le> length s \<and> N < 2 ^ 31 \<Longrightarrow> unat sz < 2 ^ 31 \<Longrightarrow> unat sz \<le> length x \<Longrightarrow>
   \<exists>t'. insert_loop (\<lambda>_. True) g s i n x sz t err = Done (t', err) \<and> trie_ok (take i s) t'
     \<and> payload_at t' = put (drop i (take N s)) (take (unat sz) x) (payload_at t)"
proof (induction n arbitrary: i t)
  case 0
  obtain p where p: "q__bss_append True bss_empty x sz err = (Done p, err)" "bss_ok p" "bss_content p = take (unat sz) x"
    using append_empty [OF 0(5,6)] by blast
  let ?t = "TNode (t_value t) p (t_children t)"
  have get: "get k ?t = (if k = [] then Some ?t else get k t)" for k
    by (cases k) simp_all
  have "trie_ok (take i s) ?t"
    using 0(1) p(2) by (auto simp: trie_ok_def get dest: spec [of _ "[]"])
  moreover have "payload_at ?t = put (drop i (take N s)) (take (unat sz) x) (payload_at t)"
    using 0(2) p(3) by (auto simp: fun_eq_iff payload_at_def get put_def)
  ultimately show ?case
    using p(1) by (simp add: set_payload_def)
next
  case (Suc n)
  then have i: "i < N" "take (Suc i) s = take i s @ [s ! i]" "drop i (take N s) = s ! i # drop (Suc i) (take N s)"
    by (simp_all add: take_Suc_conv_app_nth Cons_nth_drop_Suc [symmetric])
  let ?c = "s ! i"
  obtain ch where ch: "(case t_children t (unat ?c) of None \<Rightarrow> new_child (\<lambda>_. True) g s i err | Some ch \<Rightarrow> Done (ch, err)) = Done (ch, err)"
      "trie_ok (take (Suc i) s) ch"
      "\<forall>k. payload_at ch k = (case t_children t (unat ?c) of None \<Rightarrow> if k = [] then Some [] else None | Some ch \<Rightarrow> payload_at ch k)"
  proof (cases "t_children t (unat ?c)")
    case None
    obtain v where v: "new_child (\<lambda>_. True) g s i err = Done (TNode v bss_empty (\<lambda>_. None), err)" "bss_ok v" "bss_content v = take i s"
      using new_child_ok [of i s g err] i(1) Suc.prems(4) by auto
    have "trie_ok (take (Suc i) s) (TNode v bss_empty (\<lambda>_. None))"
      using v(2,3) i(2) by (intro trie_ok_leaf) simp_all
    then show ?thesis
      using that None v(1) by (simp add: payload_at_leaf)
  next
    case (Some c)
    then show ?thesis
      using that trie_ok_child [OF Suc.prems(1) Some] i(2) by simp
  qed
  from Suc.IH [OF ch(2) _ Suc.prems(3-6)] Suc.prems(2) obtain ch' where
    c': "insert_loop (\<lambda>_. True) g s (Suc i) n x sz ch err = Done (ch', err)" "trie_ok (take (Suc i) s) ch'"
      "payload_at ch' = put (drop (Suc i) (take N s)) (take (unat sz) x) (payload_at ch)"
    by auto
  let ?t = "TNode (t_value t) (t_payload t) ((t_children t)(unat ?c \<mapsto> ch'))"
  have "payload_at ?t k = put (drop i (take N s)) (take (unat sz) x) (payload_at t) k" for k
  proof (cases k)
    case Nil
    then show ?thesis
      using i(3) by (simp add: put_def)
  next
    case (Cons d k')
    show ?thesis
    proof (cases "d = ?c")
      case True
      then have "payload_at ?t k = put (drop (Suc i) (take N s)) (take (unat sz) x) (payload_at ch) k'"
        using Cons c'(3) by (simp add: payload_at_Cons)
      also have "\<dots> = put (drop i (take N s)) (take (unat sz) x) (payload_at t) k"
        using Cons True i(3) ch(3) [rule_format, of k'] by (cases "t_children t (unat ?c)") (auto simp: put_def payload_at_Cons)
      finally show ?thesis .
    qed (use Cons i(3) in \<open>simp add: put_def payload_at_Cons\<close>)
  qed
  then have "payload_at ?t = put (drop i (take N s)) (take (unat sz) x) (payload_at t)"
    by (rule ext)
  moreover have "trie_ok (take i s) ?t"
    using trie_ok_upd [OF Suc.prems(1)] c'(2) i(2) by simp
  ultimately show ?case
    using child_index_ascii [OF Suc.prems(3) i(1)] Suc.prems(4) ch(1) c'(1) by (auto simp: if_distrib [of "\<lambda>a. insert_loop a g s (Suc i) n x sz ch err"])
qed

section \<open>Properties\<close>

definition trie_desc_ok :: "qTrieDescriptor \<Rightarrow> bool" where
  "trie_desc_ok d \<longleftrightarrow> (\<forall>t. t_root d = Some t \<longrightarrow> trie_ok [] t)"

definition trie_map :: "qTrieDescriptor \<Rightarrow> bytes \<Rightarrow> bytes option" where
  "trie_map d = (case t_root d of None \<Rightarrow> (\<lambda>_. None) | Some t \<Rightarrow> payload_at t)"

text \<open>A string that is a key: proper, short and of bytes below 128.\<close>

definition key_ok :: "qBinarySafeString \<Rightarrow> bool" where
  "key_ok b \<longleftrightarrow> bss_ok b \<and> ascii (bss_content b) \<and> unat (bss_size b) < 2 ^ 31"

lemma key_ok_block: "key_ok b \<Longrightarrow> bss_content b = take (unat (bss_size b)) (str_block b) \<and> unat (bss_size b) \<le> length (str_block b)"
  by (auto simp: key_ok_def bss_ok_def bss_content_def str_block_def word_le_nat_alt split: option.splits)

lemma qTrie__ptr_at_ok:
  assumes "key_ok k"
  shows "case trie_map d (bss_content k) of
      None \<Rightarrow> qTrie__ptr_at d k err = Done (-1, None, ZHWK_ERR_TREE_ELEM_NOTEXIST)
    | Some x \<Rightarrow> \<exists>it. qTrie__ptr_at d k err = Done (0, Some it, err) \<and> bss_content (t_payload (realiter it)) = x"
proof (cases "t_root d")
  case (Some t)
  have "ptr_at_loop (str_block k) 0 (unat (bss_size k)) t = Done (get (bss_content k) t)"
    using ptr_at_loop_get [of "unat (bss_size k)" "str_block k" 0] key_ok_block [OF assms] assms by (simp add: key_ok_def)
  then show ?thesis
    using Some by (cases "get (bss_content k) t") (auto simp: qTrie__ptr_at_def trie_map_def payload_at_def)
qed (simp add: qTrie__ptr_at_def trie_map_def)

lemma qTrie__insert_ok:
  assumes "trie_desc_ok d" and "key_ok k" and "unat sz < 2 ^ 31" and "unat sz \<le> length x"
  shows "\<exists>d'. qTrie__insert (\<lambda>_. True) g d k x sz err = Done (0, d', err) \<and> trie_desc_ok d'
    \<and> trie_map d' = put (bss_content k) (take (unat sz) x) (trie_map d)"
proof -
  let ?N = "unat (bss_size k)" and ?s = "str_block k"
  obtain t where t: "(case t_root d of None \<Rightarrow> qTrieNode__constructor (\<lambda>_. True) g err | Some it \<Rightarrow> Done (it, err)) = Done (t, err)"
      "trie_ok [] t" "put (bss_content k) (take (unat sz) x) (payload_at t) = put (bss_content k) (take (unat sz) x) (trie_map d)"
  proof (cases "t_root d")
    case None
    let ?t = "TNode bss_empty bss_empty (\<lambda>_. None)"
    have "put (bss_content k) (take (unat sz) x) (payload_at ?t) = put (bss_content k) (take (unat sz) x) (trie_map d)"
      using None by (auto simp: fun_eq_iff put_def payload_at_leaf trie_map_def)
    then show ?thesis
      using that None trie_ok_leaf [of bss_empty bss_empty "[]"] by (simp add: constructor_True)
  next
    case (Some t)
    then show ?thesis
      using that assms(1) by (simp add: trie_desc_ok_def trie_map_def)
  qed
  have k: "ascii (take ?N ?s)" "?N \<le> length ?s \<and> ?N < 2 ^ 31" "take ?N ?s = bss_content k"
    using key_ok_block [OF assms(2)] assms(2) by (auto simp: key_ok_def)
  from insert_loop_ok [of 0 ?s t ?N ?N sz x g err] t(2) k assms(3,4) obtain t' where
    "insert_loop (\<lambda>_. True) g ?s 0 ?N x sz t err = Done (t', err)" "trie_ok [] t'"
      "payload_at t' = put (bss_content k) (take (unat sz) x) (payload_at t)"
    by auto
  then show ?thesis
    using t(1,3) by (auto simp: qTrie__insert_def trie_desc_ok_def trie_map_def)
qed

text \<open>
  C33: keys are strings of bytes below 128 (\<open>trie_high_byte_faults\<close> is about the others), and the allocations
  succeed. After an insertion a search for such a key finds the new payload under the inserted key, what it found
  before, a payload or nothing (-1), under every other key, and an empty payload under the prefixes of the
  inserted key that were not there; the invariant is kept.
\<close>

theorem trie_insert_lookup:
  assumes "trie_desc_ok d" and "key_ok k" and "unat sz < 2 ^ 31" and "unat sz \<le> length x" and "key_ok k'"
  shows "\<exists>d'. qTrie__insert (\<lambda>_. True) g d k x sz err = Done (0, d', err) \<and> trie_desc_ok d'
    \<and> (case put (bss_content k) (take (unat sz) x) (trie_map d) (bss_content k') of
         None \<Rightarrow> qTrie__ptr_at d' k' err' = Done (-1, None, ZHWK_ERR_TREE_ELEM_NOTEXIST)
       | Some y \<Rightarrow> \<exists>it. qTrie__ptr_at d' k' err' = Done (0, Some it, err') \<and> bss_content (t_payload (realiter it)) = y)"
proof -
  obtain d' where d': "qTrie__insert (\<lambda>_. True) g d k x sz err = Done (0, d', err)" "trie_desc_ok d'"
      "trie_map d' = put (bss_content k) (take (unat sz) x) (trie_map d)"
    using qTrie__insert_ok [OF assms(1-4)] by blast
  show ?thesis
    using d'(1,2) qTrie__ptr_at_ok [OF assms(5), of d' err'] unfolding d'(3) by blast
qed

definition key_ab :: qBinarySafeString where
  "key_ab = \<lparr>bss_str = Some [97, 98], bss_size = 2, bss_capacity = 2\<rparr>"

definition key_a :: qBinarySafeString where
  "key_a = \<lparr>bss_str = Some [97], bss_size = 1, bss_capacity = 1\<rparr>"

lemma keys_ok: "key_ok key_ab" "key_ok key_a"
  by (simp_all add: key_ok_def key_ab_def key_a_def bss_ok_def bss_content_def ascii_def)

theorem trie_insert_lookup_witness:
  "\<exists>d' it. qTrie__insert (\<lambda>_. True) (0, 0) qTrie_constructor key_ab [7, 8] 2 0 = Done (0, d', 0)
    \<and> qTrie__ptr_at d' key_a 0 = Done (0, Some it, 0) \<and> bss_content (t_payload (realiter it)) = []"
proof -
  have "trie_desc_ok qTrie_constructor"
    by (simp add: trie_desc_ok_def qTrie_constructor_def)
  moreover have "put (bss_content key_ab) (take (unat (2 :: u32)) [7, 8]) (trie_map qTrie_constructor) (bss_content key_a) = Some []"
    by (simp add: put_def key_ab_def key_a_def bss_content_def trie_map_def qTrie_constructor_def)
  ultimately show ?thesis
    using trie_insert_lookup [of qTrie_constructor key_ab 2 "[7, 8]" key_a "(0, 0)" 0 0] keys_ok by auto
qed

text \<open>
  The first byte of a key decides: with a byte of 128 or more, insertion and search index the array of
  children with a negative number.
\<close>

lemma trie_high_byte_faults:
  assumes "bss_str k = Some (c # s)" and "bss_size k = n" and "0 < n" and "128 \<le> unat c" and "t_root d = Some t"
  shows "qTrie__ptr_at d k err = Fault" "qTrie__insert al g d k x sz err = Fault"
proof -
  have "128 \<le> int (unat c)"
    using assms(4) by linarith
  then have "uint c div 2 ^ 7 = 1"
    using uint_bounded [of c] by (simp add: div_pos_geq div_pos_pos_trivial)
  then have "bit (uint c) 7"
    by (simp add: bit_iff_odd)
  then have "sint c < 0"
    by (simp add: sint_uint)
  moreover obtain j where "unat n = Suc j"
    using assms(3) by (metis gr0_conv_Suc unat_gt_0 word_gt_0)
  ultimately show "qTrie__ptr_at d k err = Fault" "qTrie__insert al g d k x sz err = Fault"
    using assms by (simp_all add: qTrie__ptr_at_def qTrie__insert_def str_block_def child_index_def)
qed

end
