(* ===== verification/Serialization.thy ===== *)
theory Serialization
  imports QList
begin

text \<open>
  \<^verbatim>\<open>zhwkre/serialization.h\<close> and \<^verbatim>\<open>zhwkre/serialization/serialization.c\<close>: a list whose elements may be
  descriptors of lists is written as one byte string per level of nesting, and read back from the
  innermost level outwards. The model works on the values that the containers hold: a linked list is
  the sequence of its elements, a string its content, and the map from prefixes to lists a finite
  map (its keys all have the same length). An element is a block of bytes; when the block is the
  descriptor of a list, the elements that its head leads to are part of the value. The allocations,
  which the code does not check, succeed. Reading past the content of a string is \<^const>\<open>Fault\<close>,
  and so is a string of \<open>2\<^sup>3\<^sup>1\<close> bytes or more, where the sizes of the buffer would wrap.
\<close>

section \<open>Values\<close>

datatype item = Raw bytes | Nest bytes "item list"

primrec item_data :: "item \<Rightarrow> bytes" where
  "item_data (Raw d) = d"
| "item_data (Nest d xs) = d"

definition item_size :: "item \<Rightarrow> u32" where
  "item_size x = of_nat (length (item_data x))"

text \<open>\<^verbatim>\<open>q__bss_append\<close>\<close>

definition app :: "bytes \<Rightarrow> bytes \<Rightarrow> bytes exec" where
  "app s t = (if length s + length t < 2 ^ 31 then Done (s @ t) else Fault)"

section \<open>Writing\<close>

text \<open>The result of the inner list goes to the levels from \<open>retcnt\<close> on.\<close>

fun merge_levels :: "bytes list \<Rightarrow> nat \<Rightarrow> bytes list \<Rightarrow> (bytes list) exec" where
  "merge_levels rdesc retcnt [] = Done rdesc"
| "merge_levels rdesc retcnt (s # irdesc) =
     (if length rdesc < retcnt then Fault
      else if length rdesc = retcnt then merge_levels (rdesc @ [s]) (Suc retcnt) irdesc
      else bind_exec (app (rdesc ! retcnt) s) (\<lambda>t. merge_levels (rdesc[retcnt := t]) (Suc retcnt) irdesc))"

text \<open>Prefix, counter, size and data are appended to the first level.\<close>

definition write_entry :: "bytes \<Rightarrow> bytes \<Rightarrow> u32 \<Rightarrow> item \<Rightarrow> bytes exec" where
  "write_entry s prfx counter x =
     bind_exec (app s prfx) (\<lambda>s.
     bind_exec (app s (le_bytes 4 counter)) (\<lambda>s.
     bind_exec (app s (le_bytes 4 (item_size x))) (\<lambda>s.
     app s (item_data x))))"

text \<open>A block that only looks like a descriptor has no list behind it.\<close>

fun serialize_loop :: "item list \<Rightarrow> u32 \<Rightarrow> bytes \<Rightarrow> bytes list \<Rightarrow> (bytes list) exec" where
  "serialize_loop [] counter prfx rdesc = Done rdesc"
| "serialize_loop (x # xs) counter prfx rdesc =
     bind_exec (write_entry (rdesc ! 0) prfx counter x) (\<lambda>s.
     let rdesc = rdesc[0 := s] in
     if q__List_islist (item_data x) (item_size x) = 0 then serialize_loop xs (counter + 1) prfx rdesc
     else
       (case x of
          Raw d \<Rightarrow> Fault
        | Nest d ys \<Rightarrow>
            bind_exec (app prfx (le_bytes 4 counter)) (\<lambda>tmpiprefix.
            bind_exec (serialize_loop ys 0 tmpiprefix [[]]) (\<lambda>irdesc.
            bind_exec (merge_levels rdesc 1 irdesc) (\<lambda>rdesc.
            serialize_loop xs (counter + 1) prfx rdesc)))))"

definition q__list_serialize :: "item list \<Rightarrow> bytes \<Rightarrow> (bytes list) exec" where
  "q__list_serialize xs prfx = serialize_loop xs 0 prfx [[]]"

definition qSerialize :: "item \<Rightarrow> (bytes list) exec" where
  "qSerialize x =
     (if q__List_islist (item_data x) (item_size x) \<noteq> 0 then
        (case x of Raw d \<Rightarrow> Fault | Nest d xs \<Rightarrow> q__list_serialize xs [])
      else bind_exec (app [] (item_data x)) (\<lambda>tmpbss. Done [tmpbss]))"

section \<open>Reading\<close>

text \<open>
  One entry at the read position: the prefix of \<open>prefix_num\<close> numbers, the counter, the data, and what
  follows.
\<close>

definition read_entry :: "nat \<Rightarrow> bytes \<Rightarrow> (bytes \<times> u32 \<times> bytes \<times> bytes) exec" where
  "read_entry prefix_num s =
     (let n = 4 * prefix_num in
      if length s < n + 8 then Fault
      else
        (let tmprefix = take n s;
             tmpcnt = of_le (take 4 (drop n s));
             tmpsize = of_le (take 4 (drop (n + 4) s)) :: u32;
             s = drop (n + 8) s
         in if length s < unat tmpsize then Fault
            else Done (tmprefix, tmpcnt, take (unat tmpsize) s, drop (unat tmpsize) s)))"

text \<open>
  The descriptor gets the head, the tail and the size of the list that was read for it. Every list of the
  data set has a path, the prefix and the counter of its descriptor; \<open>place\<close> gives the addresses of the
  first and the last of the nodes that are allocated for the list with a path.
\<close>

definition patch :: "u64 \<times> u64 \<Rightarrow> item list \<Rightarrow> bytes \<Rightarrow> bytes" where
  "patch hdtl ys d =
     take 16 d @ le_bytes 8 (fst hdtl) @ le_bytes 8 (snd hdtl) @ le_bytes 4 (of_nat (length ys) :: u32) @ drop 36 d"

definition attach :: "(bytes \<Rightarrow> u64 \<times> u64) \<Rightarrow> (bytes \<rightharpoonup> item list) option \<Rightarrow> bytes \<Rightarrow> u32 \<Rightarrow> bytes \<Rightarrow> item exec" where
  "attach place previous_data tmprefix tmpcnt tmpdata =
     (case previous_data of
        None \<Rightarrow> Done (Raw tmpdata)
      | Some prev \<Rightarrow>
          (let tmpsearcher = tmprefix @ le_bytes 4 tmpcnt
           in case prev tmpsearcher of
             None \<Rightarrow> Done (Raw tmpdata)
           | Some ys \<Rightarrow> if length tmpdata < 36 then Fault
               else Done (Nest (patch (place tmpsearcher) ys tmpdata) ys)))"

definition join :: "(bytes \<rightharpoonup> item list) \<Rightarrow> bytes \<Rightarrow> item \<Rightarrow> (bytes \<rightharpoonup> item list)" where
  "join lsts tmprefix x =
     (case lsts tmprefix of None \<Rightarrow> lsts(tmprefix \<mapsto> [x]) | Some siblings \<Rightarrow> lsts(tmprefix \<mapsto> siblings @ [x]))"

lemma read_entry_shorter: "read_entry n s = Done (p, c, d, r) \<Longrightarrow> length r < length s"
  by (auto simp: read_entry_def Let_def split: if_splits)

function unserialize_loop ::
  "(bytes \<Rightarrow> u64 \<times> u64) \<Rightarrow> nat \<Rightarrow> (bytes \<rightharpoonup> item list) option \<Rightarrow> bytes \<Rightarrow> (bytes \<rightharpoonup> item list) \<Rightarrow> item list
     \<Rightarrow> ((bytes \<rightharpoonup> item list) \<times> item list) exec" where
  "unserialize_loop place prefix_num previous_data s lsts itemslist =
     (if s = [] then Done (lsts, itemslist)
      else
        (case read_entry prefix_num s of
           Fault \<Rightarrow> Fault
         | Done (tmprefix, tmpcnt, tmpdata, s') \<Rightarrow>
             bind_exec (attach place previous_data tmprefix tmpcnt tmpdata) (\<lambda>x.
             if prefix_num \<noteq> 0 then unserialize_loop place prefix_num previous_data s' (join lsts tmprefix x) itemslist
             else unserialize_loop place prefix_num previous_data s' lsts (itemslist @ [x]))))"
  by pat_completeness auto
termination
  by (relation "measure (\<lambda>(_, _, _, s, _, _). length s)") (auto dest: read_entry_shorter)

declare unserialize_loop.simps [simp del]

function q__list_unserialize ::
  "(bytes \<Rightarrow> u64 \<times> u64) \<Rightarrow> bytes list \<Rightarrow> (bytes \<rightharpoonup> item list) option \<Rightarrow> (item list) exec" where
  "q__list_unserialize place dataset previous_data =
     (if dataset = [] then Fault
      else
        (case unserialize_loop place (length dataset - 1) previous_data (last dataset) Map.empty [] of
           Fault \<Rightarrow> Fault
         | Done (lsts, itemslist) \<Rightarrow>
             if length dataset - 1 = 0 then Done itemslist
             else q__list_unserialize place (butlast dataset) (Some lsts)))"
  by pat_completeness auto
termination
  by (relation "measure (\<lambda>(_, ds, _). length ds)") auto

declare q__list_unserialize.simps [simp del]

definition qUnserialize :: "(bytes \<Rightarrow> u64 \<times> u64) \<Rightarrow> bytes list \<Rightarrow> bool \<Rightarrow> (bytes + item list) exec" where
  "qUnserialize place dataset isList =
     (if isList then bind_exec (q__list_unserialize place dataset None) (\<lambda>buffer. Done (Inr buffer))
      else if dataset = [] then Fault
      else bind_exec (app [] (dataset ! 0)) (\<lambda>bss. Done (Inl bss)))"

section \<open>Values that can be written\<close>

fun item_ok :: "item \<Rightarrow> bool" where
  "item_ok (Raw d) \<longleftrightarrow> length d < 2 ^ 32 \<and> q__List_islist d (of_nat (length d)) = 0"
| "item_ok (Nest d xs) \<longleftrightarrow> length d < 2 ^ 32 \<and> q__List_islist d (of_nat (length d)) \<noteq> 0 \<and> length xs < 2 ^ 32 \<and> (\<forall>x \<in> set xs. item_ok x)"

text \<open>What a value with the path \<open>k\<close> comes back as, and the elements of the list with the path \<open>p\<close>.\<close>

fun rebuild :: "(bytes \<Rightarrow> u64 \<times> u64) \<Rightarrow> bytes \<Rightarrow> item \<Rightarrow> item"
and rebuilds :: "(bytes \<Rightarrow> u64 \<times> u64) \<Rightarrow> bytes \<Rightarrow> u32 \<Rightarrow> item list \<Rightarrow> item list" where
  "rebuild place k (Raw d) = Raw d"
| "rebuild place k (Nest d xs) =
     (if xs = [] then Raw d else (let ys = rebuilds place k 0 xs in Nest (patch (place k) ys d) ys))"
| "rebuilds place p c [] = []"
| "rebuilds place p c (x # xs) = rebuild place (p @ le_bytes 4 c) x # rebuilds place p (c + 1) xs"

section \<open>The levels\<close>

definition entry :: "bytes \<Rightarrow> u32 \<Rightarrow> item \<Rightarrow> bytes" where
  "entry prfx counter x = prfx @ le_bytes 4 counter @ le_bytes 4 (item_size x) @ item_data x"

fun level :: "nat \<Rightarrow> bytes \<Rightarrow> u32 \<Rightarrow> item list \<Rightarrow> bytes" where
  "level j prfx c [] = []"
| "level 0 prfx c (x # xs) = entry prfx c x @ level 0 prfx (c + 1) xs"
| "level (Suc j) prfx c (x # xs) =
     (case x of Raw d \<Rightarrow> [] | Nest d ys \<Rightarrow> level j (prfx @ le_bytes 4 c) 0 ys) @ level (Suc j) prfx (c + 1) xs"

fun depth :: "item list \<Rightarrow> nat" where
  "depth [] = 1"
| "depth (Raw d # xs) = depth xs"
| "depth (Nest d ys # xs) = max (Suc (depth ys)) (depth xs)"

definition at :: "bytes list \<Rightarrow> nat \<Rightarrow> bytes" where
  "at lv j = (if j < length lv then lv ! j else [])"

lemma at_Nil [simp]: "at [] j = []"
  by (simp add: at_def)

end
