(* ===== verification/SerialProps.thy ===== *)
theory SerialProps
  imports Serialization
begin

text \<open>
  The round trip of nested lists: what is written are the levels of the value, and reading the levels
  from the innermost one rebuilds every list.
\<close>

section \<open>What is written\<close>

lemma app_ok: "length s + length t < 2 ^ 31 \<Longrightarrow> app s t = Done (s @ t)"
  by (simp add: app_def)

lemma at_update: "k < length lv \<Longrightarrow> at (lv[k := t]) j = (if j = k then t else at lv j)"
  by (auto simp: at_def)

lemma at_snoc: "at (lv @ [s]) j = (if j = length lv then s else at lv j)"
  by (auto simp: at_def nth_append)

lemma at_Cons: "at (s # ss) j = (case j of 0 \<Rightarrow> s | Suc i \<Rightarrow> at ss i)"
  by (auto simp: at_def split: nat.split)

lemma at_blank [simp]: "at [[]] j = []"
  by (simp add: at_def)

lemma at_Cons_diff: "Suc k \<le> j \<Longrightarrow> at (s # ss) (j - k) = at ss (j - Suc k)"
  by (simp add: at_Cons split: nat.split) (metis Suc_diff_Suc Suc_le_lessD Zero_not_Suc nat.inject)

lemma merge_levels_ok:
  "k \<le> length lv \<Longrightarrow> \<forall>j \<ge> k. length (at lv j) + length (at ss (j - k)) < 2 ^ 31 \<Longrightarrow>
   \<exists>lv'. merge_levels lv k ss = Done lv' \<and> length lv' = max (length lv) (k + length ss)
     \<and> (\<forall>j. at lv' j = at lv j @ (if k \<le> j then at ss (j - k) else []))"
proof (induction ss arbitrary: lv k)
  case (Cons s ss)
  have b: "length (at lv k) + length s < 2 ^ 31"
    using Cons.prems(2) by (auto simp: at_Cons dest: spec [of _ k])
  define lv1 where "lv1 = (if length lv = k then lv @ [s] else lv[k := lv ! k @ s])"
  have lv1: "length lv1 = max (length lv) (Suc k)" "at lv1 j = at lv j @ (if j = k then s else [])" for j
    using Cons.prems(1) by (auto simp: lv1_def at_snoc at_update) (auto simp: at_def)
  have "merge_levels lv k (s # ss) = merge_levels lv1 (Suc k) ss"
    using Cons.prems(1) b by (auto simp: lv1_def app_def at_def)
  moreover have "\<forall>j \<ge> Suc k. length (at lv1 j) + length (at ss (j - Suc k)) < 2 ^ 31"
  proof (intro allI impI)
    fix j
    assume j: "Suc k \<le> j"
    then show "length (at lv1 j) + length (at ss (j - Suc k)) < 2 ^ 31"
      using Cons.prems(2) [rule_format, of j] j lv1(2) at_Cons_diff [OF j] by simp
  qed
  ultimately obtain lv' where lv': "merge_levels lv k (s # ss) = Done lv'" "length lv' = max (length lv1) (Suc k + length ss)"
      "\<forall>j. at lv' j = at lv1 j @ (if Suc k \<le> j then at ss (j - Suc k) else [])"
    using Cons.IH [of "Suc k" lv1] lv1(1) by auto
  have "at lv' j = at lv j @ (if k \<le> j then at (s # ss) (j - k) else [])" for j
    using lv'(3) lv1(2) at_Cons_diff [of k j s ss] by (cases "j = k") (auto simp: at_Cons)
  then show ?case
    using lv'(1,2) lv1(1) by auto
qed simp

lemma write_entry_ok:
  "length s + length (entry p c x) < 2 ^ 31 \<Longrightarrow> write_entry s p c x = Done (s @ entry p c x)"
  by (simp add: write_entry_def entry_def app_def)

lemma depth_pos: "1 \<le> depth xs"
  by (induction xs rule: depth.induct) auto

lemma serialize_loop_ok:
  "\<forall>x \<in> set xs. item_ok x \<Longrightarrow> lv \<noteq> [] \<Longrightarrow> \<forall>j. length (at lv j) + length (level j p c xs) < 2 ^ 31 \<Longrightarrow>
   \<exists>lv'. serialize_loop xs c p lv = Done lv' \<and> length lv' = max (length lv) (depth xs)
     \<and> (\<forall>j. at lv' j = at lv j @ level j p c xs)"
proof (induction xs arbitrary: p c lv rule: depth.induct)
  case 1
  then show ?case
    by (cases lv) auto
next
  case (2 d xs)
  have b: "length (lv ! 0) + length (entry p c (Raw d)) < 2 ^ 31"
    using 2(3) 2(4) [rule_format, of 0] by (simp add: at_def)
  let ?lv = "lv[0 := lv ! 0 @ entry p c (Raw d)]"
  have at1: "at ?lv j @ level j p (c + 1) xs = at lv j @ level j p c (Raw d # xs)" for j
    using 2(3) by (cases j) (auto simp: at_update at_def)
  have "length (at ?lv j) + length (level j p (c + 1) xs) < 2 ^ 31" for j
    using 2(4) [rule_format, of j] at1 [of j] by (metis length_append)
  with "2.IH" [of ?lv p "c + 1"] 2(2,3) obtain lv' where
    "serialize_loop xs (c + 1) p ?lv = Done lv'" "length lv' = max (length lv) (depth xs)" "\<forall>j. at lv' j = at ?lv j @ level j p (c + 1) xs"
    by auto
  then show ?case
    using 2(2) b at1 by (simp add: write_entry_ok item_size_def)
next
  case (3 d ys xs)
  let ?x = "Nest d ys" and ?q = "p @ le_bytes 4 c"
  have b: "length (lv ! 0) + length (entry p c ?x) < 2 ^ 31"
    using 3(4) 3(5) [rule_format, of 0] by (simp add: at_def)
  let ?lv = "lv[0 := lv ! 0 @ entry p c ?x]"
  have nl: "q__List_islist (item_data ?x) (item_size ?x) \<noteq> 0"
    using 3(3) by (simp add: item_size_def)
  have pre: "app p (le_bytes 4 c) = Done ?q"
    using b by (simp add: app_def entry_def)
  have "length (level j ?q 0 ys) < 2 ^ 31" for j
    using 3(5) [rule_format, of "Suc j"] by simp
  with "3.IH"(1) [of "[[]]" ?q 0] 3(3) obtain ir where ir: "serialize_loop ys 0 ?q [[]] = Done ir" "length ir = max 1 (depth ys)"
      "\<forall>j. at ir j = level j ?q 0 ys"
    by auto
  have at1: "at ?lv j @ (if 1 \<le> j then at ir (j - 1) else []) @ level j p (c + 1) xs = at lv j @ level j p c (?x # xs)" for j
    using 3(4) ir(3) by (cases j) (auto simp: at_update at_def)
  have len: "length (at ?lv j) + length (if 1 \<le> j then at ir (j - 1) else []) + length (level j p (c + 1) xs) < 2 ^ 31" for j
    using 3(5) [rule_format, of j] at1 [of j] by (metis length_append add.assoc)
  have "\<forall>j \<ge> 1. length (at ?lv j) + length (at ir (j - 1)) < 2 ^ 31"
  proof (intro allI impI)
    fix j :: nat
    assume "1 \<le> j"
    then show "length (at ?lv j) + length (at ir (j - 1)) < 2 ^ 31"
      using len [of j] by simp
  qed
  from merge_levels_ok [of 1 ?lv ir, OF _ this] 3(4) obtain mv where
    mv: "merge_levels ?lv 1 ir = Done mv" "length mv = max (length lv) (1 + length ir)"
      "\<forall>j. at mv j = at ?lv j @ (if 1 \<le> j then at ir (j - 1) else [])"
    by (auto simp: Suc_le_eq)
  have "length (at mv j) + length (level j p (c + 1) xs) < 2 ^ 31" for j
    using len [of j] mv(3) by simp
  moreover have "mv \<noteq> []"
    using mv(2) 3(4) by auto
  ultimately obtain lv' where
    l: "serialize_loop xs (c + 1) p mv = Done lv'" "length lv' = max (length mv) (depth xs)" "\<forall>j. at lv' j = at mv j @ level j p (c + 1) xs"
    using "3.IH"(2) [of mv p "c + 1"] 3(3) by auto
  have "serialize_loop (?x # xs) c p lv = Done lv'"
    using b nl pre ir(1) mv(1) l(1) by (simp add: write_entry_ok Let_def del: item_data.simps)
  moreover have "length lv' = max (length lv) (depth (?x # xs))"
    using l(2) mv(2) ir(2) depth_pos [of ys] by (simp add: max.assoc max_absorb2)
  moreover have "at lv' j = at lv j @ level j p c (?x # xs)" for j
    using l(3) mv(3) at1 [of j] by simp
  ultimately show ?case
    by blast
qed

section \<open>The lists of a level\<close>

fun children :: "bytes \<Rightarrow> u32 \<Rightarrow> item list \<Rightarrow> (bytes \<times> item list) list" where
  "children q c [] = []"
| "children q c (Raw d # xs) = children q (c + 1) xs"
| "children q c (Nest d ys # xs) = (q @ le_bytes 4 c, ys) # children q (c + 1) xs"

primrec subs :: "nat \<Rightarrow> bytes \<Rightarrow> item list \<Rightarrow> (bytes \<times> item list) list" where
  "subs 0 q xs = [(q, xs)]"
| "subs (Suc j) q xs = concat (map (\<lambda>(p, ys). children p 0 ys) (subs j q xs))"

lemma concat_map_concat: "concat (map f (concat (map g xs))) = concat (map (\<lambda>x. concat (map f (g x))) xs)"
  by (induction xs) auto

lemma subs_children: "subs (Suc j) q xs = concat (map (\<lambda>(p, ys). subs j p ys) (children q 0 xs))"
proof (induction j)
  case (Suc j)
  have "subs (Suc (Suc j)) q xs = concat (map (\<lambda>(p, ys). children p 0 ys) (subs (Suc j) q xs))"
    by simp
  also have "\<dots> = concat (map (\<lambda>(p, ys). subs (Suc j) p ys) (children q 0 xs))"
    unfolding Suc concat_map_concat by (simp only: subs.simps case_prod_unfold)
  finally show ?case .
qed (simp add: case_prod_beta)

lemma level_Suc: "level (Suc j) q c xs = concat (map (\<lambda>(p, ys). level j p 0 ys) (children q c xs))"
  by (induction xs arbitrary: c rule: depth.induct) auto

lemma level_subs: "level j q 0 xs = concat (map (\<lambda>(p, ys). level 0 p 0 ys) (subs j q xs))"
proof (induction j arbitrary: q xs)
  case (Suc j)
  have "level (Suc j) q 0 xs = concat (map (\<lambda>x. concat (map (\<lambda>(p, ys). level 0 p 0 ys) (subs j (fst x) (snd x)))) (children q 0 xs))"
    unfolding level_Suc case_prod_beta Suc ..
  also have "\<dots> = concat (map (\<lambda>(p, ys). level 0 p 0 ys) (subs (Suc j) q xs))"
    unfolding subs_children concat_map_concat case_prod_beta ..
  finally show ?case .
qed simp

lemma children_iff:
  "(k, zs) \<in> set (children q c ys) \<longleftrightarrow> (\<exists>i d. i < length ys \<and> ys ! i = Nest d zs \<and> k = q @ le_bytes 4 (c + of_nat i))"
proof (induction q c ys rule: children.induct)
  case (2 q c d xs)
  then show ?case
    by (auto simp: less_Suc_eq_0_disj algebra_simps)
next
  case (3 q c d ys xs)
  then show ?case
    by (auto simp: less_Suc_eq_0_disj algebra_simps)
qed simp

lemma le_bytes_inj: "le_bytes 4 (c :: u32) = le_bytes 4 c' \<longleftrightarrow> c = c'"
proof
  assume "le_bytes 4 c = le_bytes 4 c'"
  then have "of_le (le_bytes 4 c) = (of_le (le_bytes 4 c') :: u32)"
    by simp
  then show "c = c'"
    by (simp add: of_le_le_bytes)
qed simp

lemma subs_length: "(p, ys) \<in> set (subs j q xs) \<Longrightarrow> length p = length q + 4 * j"
  by (induction j arbitrary: p ys) (fastforce simp: children_iff)+

lemma subs_ok:
  "\<forall>x \<in> set xs. item_ok x \<Longrightarrow> length xs < 2 ^ 32 \<Longrightarrow> (p, ys) \<in> set (subs j q xs) \<Longrightarrow> length ys < 2 ^ 32 \<and> (\<forall>y \<in> set ys. item_ok y)"
proof (induction j arbitrary: p ys)
  case (Suc j)
  then obtain r zs i d where r: "(r, zs) \<in> set (subs j q xs)" "i < length zs" "zs ! i = Nest d ys"
    by (auto simp: children_iff)
  then have "item_ok (zs ! i)"
    using Suc.IH [OF Suc.prems(1,2)] by (meson nth_mem)
  then show ?case
    using r(3) by simp
qed simp

text \<open>The paths are unique.\<close>

lemma of_nat_Suc_u32:
  assumes "Suc i < 2 ^ 32"
  shows "1 + of_nat i \<noteq> (0 :: u32)"
proof
  assume "1 + of_nat i = (0 :: u32)"
  then have "unat (of_nat (Suc i) :: u32) = 0"
    by simp
  then show False
    using assms unfolding unat_of_nat by (simp del: of_nat_Suc)
qed

lemma of_nat_u32_inj: "(of_nat i :: u32) = of_nat j \<Longrightarrow> i < 2 ^ 32 \<Longrightarrow> j < 2 ^ 32 \<Longrightarrow> i = j"
proof -
  assume a: "(of_nat i :: u32) = of_nat j" "i < 2 ^ 32" "j < 2 ^ 32"
  then have "unat (of_nat i :: u32) = unat (of_nat j :: u32)"
    by simp
  then show ?thesis
    using a(2,3) unfolding unat_of_nat by simp
qed

lemma distinct_children: "length ys < 2 ^ 32 \<Longrightarrow> distinct (map fst (children q c ys))"
proof (induction q c ys rule: children.induct)
  case (3 q c d ys xs)
  have "q @ le_bytes 4 c \<notin> fst ` set (children q (c + 1) xs)"
  proof
    assume "q @ le_bytes 4 c \<in> fst ` set (children q (c + 1) xs)"
    then obtain i where "i < length xs" "c = c + 1 + of_nat i"
      by (auto simp: children_iff le_bytes_inj)
    then show False
      using of_nat_Suc_u32 [of i] 3(2) by (simp add: add.assoc)
  qed
  then show ?case
    using 3 by simp
qed simp_all

lemma distinct_blocks:
  "distinct (map fst S) \<Longrightarrow> \<forall>(p, ys) \<in> set S. length p = n \<and> length ys < 2 ^ 32 \<Longrightarrow>
   distinct (map fst (concat (map (\<lambda>(p, ys). children p 0 ys) S)))"
proof (induction S)
  case (Cons a S)
  obtain p ys where a: "a = (p, ys)"
    by (cases a)
  have "k \<notin> fst ` set (concat (map (\<lambda>(p, ys). children p 0 ys) S))" if "k \<in> fst ` set (children p 0 ys)" for k
  proof
    assume "k \<in> fst ` set (concat (map (\<lambda>(p, ys). children p 0 ys) S))"
    then obtain p' ys' where p': "(p', ys') \<in> set S" "k \<in> fst ` set (children p' 0 ys')"
      by auto
    then have "take n k = p'" "take n k = p"
      using that Cons.prems(2) a by (auto simp: children_iff)
    then show False
      using p'(1) Cons.prems(1) a by force
  qed
  then have "fst ` set (children p 0 ys) \<inter> fst ` set (concat (map (\<lambda>(p, ys). children p 0 ys) S)) = {}"
    by blast
  moreover have "distinct (map fst (children p 0 ys))" "distinct (map fst (concat (map (\<lambda>(p, ys). children p 0 ys) S)))"
    using Cons a distinct_children [of ys p 0] by auto
  ultimately show ?case
    by (simp only: a list.map prod.case concat.simps map_append distinct_append set_map)
qed simp

lemma subs_distinct: "\<forall>x \<in> set xs. item_ok x \<Longrightarrow> length xs < 2 ^ 32 \<Longrightarrow> distinct (map fst (subs j q xs))"
proof (induction j)
  case (Suc j)
  have "\<forall>(p, ys) \<in> set (subs j q xs). length p = length q + 4 * j \<and> length ys < 2 ^ 32"
    using subs_length subs_ok [OF Suc.prems] by fastforce
  then show ?case
    using distinct_blocks [OF Suc.IH [OF Suc.prems]] by simp
qed simp

section \<open>What is read\<close>

lemma read_entry_ok:
  assumes "length p = 4 * n" and "length (item_data x) < 2 ^ 32"
  shows "read_entry n (entry p c x @ s) = Done (p, c, item_data x, s)"
proof -
  have "unat (item_size x) = length (item_data x)"
    using assms(2) by (simp add: item_size_def unat_of_nat)
  moreover have "of_le (le_bytes 4 c) = c" "of_le (le_bytes 4 (item_size x)) = item_size x"
    by (simp_all add: of_le_le_bytes)
  ultimately show ?thesis
    using assms(1) by (simp add: read_entry_def entry_def Let_def)
qed

text \<open>The elements of one list, and the lists of one level.\<close>

definition attaches :: "(bytes \<Rightarrow> u64 \<times> u64) \<Rightarrow> (bytes \<rightharpoonup> item list) option \<Rightarrow> bytes \<Rightarrow> u32 \<Rightarrow> item list \<Rightarrow> bool" where
  "attaches place prev p c ys \<longleftrightarrow> (\<forall>i < length ys. attach place prev p (c + of_nat i) (item_data (ys ! i))
     = Done (rebuild place (p @ le_bytes 4 (c + of_nat i)) (ys ! i)))"

lemma attaches_Cons:
  assumes "attaches place prev p c (x # xs)"
  shows "attach place prev p c (item_data x) = Done (rebuild place (p @ le_bytes 4 c) x)" "attaches place prev p (c + 1) xs"
proof -
  have a: "attach place prev p (c + of_nat i) (item_data ((x # xs) ! i))
      = Done (rebuild place (p @ le_bytes 4 (c + of_nat i)) ((x # xs) ! i))" if "i < Suc (length xs)" for i
    using assms that by (simp add: attaches_def)
  show "attach place prev p c (item_data x) = Done (rebuild place (p @ le_bytes 4 c) x)"
    using a [of 0] by simp
  show "attaches place prev p (c + 1) xs"
    unfolding attaches_def using a [of "Suc _"] by (simp add: add.assoc)
qed

lemma entry_nonempty [simp]: "entry p c x \<noteq> []"
  by (simp add: entry_def numeral_eq_Suc)

lemma item_ok_length: "item_ok x \<Longrightarrow> length (item_data x) < 2 ^ 32"
  by (cases x) auto

lemma read_top:
  "\<forall>x \<in> set xs. item_ok x \<Longrightarrow> attaches place prev [] c xs \<Longrightarrow>
   unserialize_loop place 0 prev (level 0 [] c xs) L its = Done (L, its @ rebuilds place [] c xs)"
proof (induction xs arbitrary: c its)
  case Nil
  then show ?case
    by (subst unserialize_loop.simps) simp
next
  case (Cons x xs)
  have "unserialize_loop place 0 prev (level 0 [] (c + 1) xs) L (its @ [rebuild place (le_bytes 4 c) x])
      = Done (L, (its @ [rebuild place (le_bytes 4 c) x]) @ rebuilds place [] (c + 1) xs)"
    by (rule Cons.IH) (use Cons.prems attaches_Cons(2) in auto)
  then show ?case
    using attaches_Cons(1) [OF Cons.prems(2)] read_entry_ok [of "[]" 0 x c] item_ok_length [of x] Cons.prems(1)
    by (subst unserialize_loop.simps) simp
qed

lemma read_block:
  "\<forall>x \<in> set ys. item_ok x \<Longrightarrow> attaches place prev p c ys \<Longrightarrow> length p = 4 * n \<Longrightarrow> n \<noteq> 0 \<Longrightarrow>
   unserialize_loop place n prev (level 0 p c ys @ s) L its = unserialize_loop place n prev s
     (if ys = [] then L else L(p \<mapsto> (case L p of None \<Rightarrow> [] | Some zs \<Rightarrow> zs) @ rebuilds place p c ys)) its"
proof (induction ys arbitrary: c L)
  case (Cons y ys)
  let ?L = "join L p (rebuild place (p @ le_bytes 4 c) y)"
  have "unserialize_loop place n prev (level 0 p c (y # ys) @ s) L its = unserialize_loop place n prev (level 0 p (c + 1) ys @ s) ?L its"
    using attaches_Cons(1) [OF Cons.prems(2)] read_entry_ok [of p n y c "level 0 p (c + 1) ys @ s"] item_ok_length [of y] Cons.prems(1,3,4)
    by (subst unserialize_loop.simps) simp
  also have "\<dots> = unserialize_loop place n prev s
      (if ys = [] then ?L else ?L(p \<mapsto> (case ?L p of None \<Rightarrow> [] | Some zs \<Rightarrow> zs) @ rebuilds place p (c + 1) ys)) its"
    by (rule Cons.IH) (use Cons.prems attaches_Cons(2) in auto)
  also have "(if ys = [] then ?L else ?L(p \<mapsto> (case ?L p of None \<Rightarrow> [] | Some zs \<Rightarrow> zs) @ rebuilds place p (c + 1) ys))
      = (if y # ys = [] then L else L(p \<mapsto> (case L p of None \<Rightarrow> [] | Some zs \<Rightarrow> zs) @ rebuilds place p c (y # ys)))"
    by (auto simp: join_def split: option.split)
  finally show ?case .
qed simp

text \<open>The map from the paths of the lists of a level to the rebuilt lists.\<close>

definition table :: "(bytes \<Rightarrow> u64 \<times> u64) \<Rightarrow> (bytes \<times> item list) list \<Rightarrow> (bytes \<rightharpoonup> item list)" where
  "table place S p = (case map_of S p of None \<Rightarrow> None | Some ys \<Rightarrow> if ys = [] then None else Some (rebuilds place p 0 ys))"

lemma read_level:
  "\<forall>(p, ys) \<in> set S. (\<forall>x \<in> set ys. item_ok x) \<and> attaches place prev p 0 ys \<and> length p = 4 * n \<Longrightarrow> n \<noteq> 0 \<Longrightarrow>
   distinct (map fst S) \<Longrightarrow> \<forall>p \<in> fst ` set S. L p = None \<Longrightarrow>
   unserialize_loop place n prev (concat (map (\<lambda>(p, ys). level 0 p 0 ys) S)) L its = Done (L ++ table place S, its)"
proof (induction S arbitrary: L)
  case Nil
  have "table place [] = Map.empty"
    by (simp add: table_def fun_eq_iff)
  then show ?case
    by (subst unserialize_loop.simps) simp
next
  case (Cons a S)
  obtain p ys where a: "a = (p, ys)"
    by (cases a)
  let ?L = "if ys = [] then L else L(p \<mapsto> rebuilds place p 0 ys)"
  have Lp: "L p = None"
    using Cons.prems(4) a by simp
  then have "unserialize_loop place n prev (concat (map (\<lambda>(p, ys). level 0 p 0 ys) (a # S))) L its
      = unserialize_loop place n prev (concat (map (\<lambda>(p, ys). level 0 p 0 ys) S)) ?L its"
    using read_block [of ys place prev p 0 n "concat (map (\<lambda>(p, ys). level 0 p 0 ys) S)" L its] Cons.prems(1,2) a by simp
  also have "\<dots> = Done (?L ++ table place S, its)"
    by (rule Cons.IH) (use Cons.prems a in \<open>auto split: if_splits\<close>)
  also have "?L ++ table place S = L ++ table place (a # S)"
  proof
    fix q
    have "map_of S p = None"
      using Cons.prems(3) a by (simp add: map_of_eq_None_iff)
    then show "(?L ++ table place S) q = (L ++ table place (a # S)) q"
      using a Lp by (auto simp: map_add_def table_def split: option.split)
  qed
  finally show ?case .
qed

section \<open>Round trip\<close>

lemma attaches_inner:
  assumes "\<forall>x \<in> set xs. item_ok x" and "length xs < 2 ^ 32" and "(p, ys) \<in> set (subs j [] xs)"
  shows "attaches place (Some (table place (subs (Suc j) [] xs))) p 0 ys"
  unfolding attaches_def
proof (intro allI impI)
  fix i
  assume i: "i < length ys"
  let ?S = "subs (Suc j) [] xs" and ?k = "p @ le_bytes 4 (of_nat i :: u32)"
  note D = subs_distinct [OF assms(1,2)]
  have ok: "item_ok (ys ! i)" "length ys < 2 ^ 32"
    using subs_ok [OF assms] i by auto
  have key: "(?k, zs) \<in> set ?S \<longleftrightarrow> (\<exists>d. ys ! i = Nest d zs)" for zs
  proof
    assume "(?k, zs) \<in> set ?S"
    then obtain p' ys' i' d where k: "(p', ys') \<in> set (subs j [] xs)" "i' < length ys'" "ys' ! i' = Nest d zs"
        "?k = p' @ le_bytes 4 (of_nat i' :: u32)"
      by (auto simp: children_iff)
    then have p: "p = p'" "(of_nat i :: u32) = of_nat i'"
      by (auto simp: le_bytes_inj)
    then have y: "ys = ys'"
      using eq_key_imp_eq_value [OF D assms(3), of ys'] k(1) by simp
    then have "i = i'"
      using of_nat_u32_inj [OF p(2)] i k(2) ok(2) by auto
    then show "\<exists>d. ys ! i = Nest d zs"
      using k(3) y by blast
  next
    assume "\<exists>d. ys ! i = Nest d zs"
    then have "(?k, zs) \<in> set (children p 0 ys)"
      using i by (auto simp: children_iff)
    then show "(?k, zs) \<in> set ?S"
      using assms(3) by force
  qed
  show "attach place (Some (table place ?S)) p (0 + of_nat i) (item_data (ys ! i)) = Done (rebuild place (p @ le_bytes 4 (0 + of_nat i :: u32)) (ys ! i))"
  proof (cases "ys ! i")
    case (Raw d)
    then have "map_of ?S ?k = None"
      using key by (auto simp: map_of_eq_None_iff)
    then show ?thesis
      using Raw by (simp add: attach_def table_def)
  next
    case (Nest d zs)
    then have "map_of ?S ?k = Some zs"
      using key by (intro map_of_is_SomeI [OF D]) simp
    moreover have "36 \<le> length d"
      using ok(1) Nest unat_of_nat [of "length d", where 'a = 32]
      by (auto simp: q__List_islist_def sizeof_qListDescriptor_def word_less_nat_alt split: if_splits)
    ultimately show ?thesis
      using Nest by (simp add: attach_def table_def Let_def)
  qed
qed

lemma attaches_leaves:
  assumes "children p c ys = []"
  shows "attaches place None p 0 ys"
proof -
  have raw: "\<exists>d. y = Raw d" if "y \<in> set ys" for y
    using that assms by (induction p c ys rule: children.induct) auto
  have "attach place None p (0 + of_nat i) (item_data (ys ! i)) = Done (rebuild place (p @ le_bytes 4 (0 + of_nat i :: u32)) (ys ! i))" if i: "i < length ys" for i
  proof -
    obtain d where "ys ! i = Raw d"
      using raw [OF nth_mem [OF i]] by blast
    then show ?thesis
      by (simp add: attach_def)
  qed
  then show ?thesis
    by (simp add: attaches_def)
qed

lemma depth_subs: "depth xs \<le> Suc j \<Longrightarrow> (p, ys) \<in> set (subs j q xs) \<Longrightarrow> children p 0 ys = []"
proof (induction j arbitrary: q xs p ys)
  case 0
  then have "p = q" "ys = xs" "depth xs \<le> 1"
    by auto
  moreover have "depth xs \<le> 1 \<Longrightarrow> children q c xs = []" for c
  proof (induction q c xs rule: children.induct)
    case (3 q c d ys xs)
    then show ?case
      using depth_pos [of ys] by simp
  qed simp_all
  ultimately show ?case
    by simp
next
  case (Suc j)
  then obtain r zs where r: "(r, zs) \<in> set (children q 0 xs)" "(p, ys) \<in> set (subs j r zs)"
    by (auto simp: subs_children simp del: subs.simps)
  have "depth zs < depth xs" if "(r, zs) \<in> set (children q c xs)" for c
    using that by (induction q c xs rule: children.induct) auto
  then show ?case
    using Suc.IH [OF _ r(2)] r(1) Suc.prems(1) by fastforce
qed

lemma unserialize_levels:
  assumes "\<forall>x \<in> set xs. item_ok x" and "length xs < 2 ^ 32"
  shows "\<forall>(p, ys) \<in> set (subs j [] xs). attaches place prev p 0 ys \<Longrightarrow>
   q__list_unserialize place (map (\<lambda>j. level j [] 0 xs) [0..<Suc j]) prev = Done (rebuilds place [] 0 xs)"
proof (induction j arbitrary: prev)
  case 0
  then have "attaches place prev [] 0 xs"
    by simp
  from read_top [OF assms(1) this, of Map.empty "[]"] show ?case
    by (subst q__list_unserialize.simps) simp
next
  case (Suc j)
  let ?S = "subs (Suc j) [] xs"
  have "\<forall>(p, ys) \<in> set ?S. (\<forall>x \<in> set ys. item_ok x) \<and> attaches place prev p 0 ys \<and> length p = 4 * Suc j"
    using Suc.prems subs_ok [OF assms, of _ _ "Suc j" "[]"] subs_length [of _ _ "Suc j" "[]" xs] by fastforce
  from read_level [OF this _ subs_distinct [OF assms], of Map.empty "[]"]
  have "unserialize_loop place (Suc j) prev (level (Suc j) [] 0 xs) Map.empty [] = Done (table place ?S, [])"
    unfolding level_subs [of "Suc j"] by simp
  moreover have "\<forall>(p, ys) \<in> set (subs j [] xs). attaches place (Some (table place ?S)) p 0 ys"
    using attaches_inner [OF assms] by blast
  from Suc.IH [OF this] have "q__list_unserialize place (map (\<lambda>j. level j [] 0 xs) [0..<Suc j]) (Some (table place ?S)) = Done (rebuilds place [] 0 xs)" .
  moreover have "map (\<lambda>j. level j [] 0 xs) [0..<Suc (Suc j)] = map (\<lambda>j. level j [] 0 xs) [0..<Suc j] @ [level (Suc j) [] 0 xs]"
    by simp
  ultimately show ?case
    by (subst q__list_unserialize.simps) (simp del: upt_Suc subs.simps)
qed

lemma serialize_levels:
  assumes "\<forall>x \<in> set xs. item_ok x" and "\<forall>j. length (level j [] 0 xs) < 2 ^ 31"
  shows "q__list_serialize xs [] = Done (map (\<lambda>j. level j [] 0 xs) [0..<depth xs])"
proof -
  from serialize_loop_ok [OF assms(1), of "[[]]" "[]" 0] assms(2) obtain lv where
    lv: "serialize_loop xs 0 [] [[]] = Done lv" "length lv = max 1 (depth xs)" "\<forall>j. at lv j = level j [] 0 xs"
    by auto
  have "lv = map (\<lambda>j. level j [] 0 xs) [0..<depth xs]"
  proof (rule nth_equalityI)
    show "length lv = length (map (\<lambda>j. level j [] 0 xs) [0..<depth xs])"
      using lv(2) depth_pos [of xs] by simp
    show "lv ! i = map (\<lambda>j. level j [] 0 xs) [0..<depth xs] ! i" if "i < length lv" for i
      using that lv(3) lv(2) depth_pos [of xs] by (metis at_def diff_zero length_upt max_absorb2 nth_map_upt add_0)
  qed
  then show ?thesis
    using lv(1) by (simp add: q__list_serialize_def)
qed

lemma levels_round_trip:
  assumes "\<forall>x \<in> set xs. item_ok x" and "length xs < 2 ^ 32" and "\<forall>j. length (level j [] 0 xs) < 2 ^ 31"
  shows "q__list_serialize xs [] = Done (map (\<lambda>j. level j [] 0 xs) [0..<depth xs])"
    and "q__list_unserialize place (map (\<lambda>j. level j [] 0 xs) [0..<depth xs]) None = Done (rebuilds place [] 0 xs)"
proof -
  show "q__list_serialize xs [] = Done (map (\<lambda>j. level j [] 0 xs) [0..<depth xs])"
    by (rule serialize_levels [OF assms(1,3)])
  obtain j where j: "depth xs = Suc j"
    using depth_pos [of xs] by (cases "depth xs") auto
  have "\<forall>(p, ys) \<in> set (subs j [] xs). attaches place None p 0 ys"
    using depth_subs [of xs j] j attaches_leaves by fastforce
  from unserialize_levels [OF assms(1,2) this]
  show "q__list_unserialize place (map (\<lambda>j. level j [] 0 xs) [0..<depth xs]) None = Done (rebuilds place [] 0 xs)"
    by (simp only: j)
qed

text \<open>
  C29: a list of byte blocks and nested lists that is written and read back has the same structure and
  the same data: each block comes back as it was, and each descriptor of a list that is not empty comes
  back with the addresses and the size of the list that was rebuilt for it.
\<close>

theorem serialize_round_trip:
  assumes "item_ok (Nest d xs)" and "\<forall>j. length (level j [] 0 xs) < 2 ^ 31"
  shows "\<exists>dataset. qSerialize (Nest d xs) = Done dataset \<and> length dataset = depth xs
    \<and> qUnserialize place dataset True = Done (Inr (rebuilds place [] 0 xs))"
  using levels_round_trip [of xs] assms by (auto simp: qSerialize_def qUnserialize_def item_size_def)

text \<open>A descriptor of an empty list, and a list that holds a block, a list of one block, and an empty list.\<close>

definition desc_bytes :: bytes where
  "desc_bytes = Q__LD_MAGIC @ replicate 30 0"

definition nested :: "item list" where
  "nested = [Raw [1], Nest desc_bytes [Raw [2, 3]], Nest desc_bytes []]"

lemma desc_islist: "q__List_islist desc_bytes 40 = 1" "length desc_bytes = 40"
  by (simp_all add: desc_bytes_def q__List_islist_def sizeof_qListDescriptor_def Q__LD_MAGIC_def)

theorem serialize_round_trip_witness:
  "\<exists>dataset. qSerialize (Nest desc_bytes nested) = Done dataset \<and> length dataset = 2
    \<and> qUnserialize (\<lambda>p. (8, 16)) dataset True
      = Done (Inr [Raw [1], Nest (patch (8, 16) [Raw [2, 3]] desc_bytes) [Raw [2, 3]], Raw desc_bytes])"
proof -
  have ok: "item_ok (Nest desc_bytes nested)"
    using desc_islist by (simp add: nested_def q__List_islist_def sizeof_qListDescriptor_def)
  have "length (level j [] 0 nested) < 2 ^ 31" for j
  proof (cases j)
    case 0
    then show ?thesis
      using desc_islist(2) by (simp add: nested_def entry_def item_size_def)
  next
    case (Suc i)
    then show ?thesis
      by (cases i) (simp_all add: nested_def entry_def)
  qed
  with ok have "\<exists>dataset. qSerialize (Nest desc_bytes nested) = Done dataset \<and> length dataset = depth nested
      \<and> qUnserialize (\<lambda>p. (8, 16)) dataset True = Done (Inr (rebuilds (\<lambda>p. (8, 16)) [] 0 nested))"
    by (intro serialize_round_trip) simp_all
  then show ?thesis
    by (simp add: nested_def Let_def numeral_2_eq_2)
qed

text \<open>A block that is not a list comes back as it was.\<close>

lemma serialize_block_round_trip:
  assumes "item_ok (Raw d)" and "length d < 2 ^ 31"
  shows "\<exists>dataset. qSerialize (Raw d) = Done dataset \<and> qUnserialize place dataset False = Done (Inl d)"
  using assms by (simp add: qSerialize_def qUnserialize_def item_size_def app_def)

end
