(* ===== verification/SerialMem.thy ===== *)
theory SerialMem
  imports SerialProps QListSpec
begin

text \<open>
  The two traversals of \<^verbatim>\<open>serialization.c\<close> on the store of the linked list: the writer follows the nodes,
  and where an element is a descriptor the pointers in its bytes; the reader allocates the nodes of the
  lists it reads and writes their addresses into the bytes of their descriptors. Both are shown to
  implement the traversals of values of \<^verbatim>\<open>Serialization\<close>, which gives the round trip of the store.
\<close>

section \<open>Descriptors as bytes\<close>

text \<open>\<^verbatim>\<open>struct q__ListDescriptor\<close>: ten bytes of magic, six of padding, two pointers, the size and padding.\<close>

definition desc_of :: "bytes \<Rightarrow> qListDescriptor" where
  "desc_of d = \<lparr>ldmagic = take 10 d, l_head = unat (of_le (take 8 (drop 16 d)) :: u64),
     l_tail = unat (of_le (take 8 (drop 24 d)) :: u64), l_count = of_le (take 4 (drop 32 d))\<rparr>"

text \<open>\<^verbatim>\<open>tmpldrefr->head = ..; tmpldrefr->tail = ..; tmpldrefr->size = ..\<close>\<close>

definition adopt :: "qListDescriptor \<Rightarrow> bytes \<Rightarrow> bytes" where
  "adopt sister d = take 16 d @ le_bytes 8 (of_nat (l_head sister) :: u64)
     @ le_bytes 8 (of_nat (l_tail sister) :: u64) @ le_bytes 4 (l_count sister) @ drop 36 d"

section \<open>Writing\<close>

definition write_node :: "bytes \<Rightarrow> bytes \<Rightarrow> u32 \<Rightarrow> u32 \<Rightarrow> bytes \<Rightarrow> bytes exec" where
  "write_node s prfx counter sz d =
     bind_exec (app s prfx) (\<lambda>s.
     bind_exec (app s (le_bytes 4 counter)) (\<lambda>s.
     bind_exec (app s (le_bytes 4 sz)) (\<lambda>s.
     if length d < unat sz then Fault else app s (take (unat sz) d))))"

text \<open>\<open>None\<close>: the traversal of a cyclic list never ends.\<close>

partial_function (option) mem_serialize_loop ::
  "bytes lmem \<Rightarrow> ptr \<Rightarrow> u32 \<Rightarrow> bytes \<Rightarrow> bytes list \<Rightarrow> ((bytes list) exec) option" where
  "mem_serialize_loop m iter counter prfx rdesc =
     (if iter = 0 then Some (Done rdesc)
      else (case l_load m iter of
        Fault \<Rightarrow> Some Fault
      | Done n \<Rightarrow> (case l_data n of
          None \<Rightarrow> Some Fault
        | Some d \<Rightarrow> (case write_node (rdesc ! 0) prfx counter (l_size n) d of
            Fault \<Rightarrow> Some Fault
          | Done s \<Rightarrow>
              (if q__List_islist d (l_size n) = 0
               then mem_serialize_loop m (l_next n) (counter + 1) prfx (rdesc[0 := s])
               else (case app prfx (le_bytes 4 counter) of
                   Fault \<Rightarrow> Some Fault
                 | Done tmpiprefix \<Rightarrow>
                     Option.bind (mem_serialize_loop m (l_head (desc_of d)) 0 tmpiprefix [[]]) (\<lambda>r.
                       case r of
                         Fault \<Rightarrow> Some Fault
                       | Done irdesc \<Rightarrow> (case merge_levels (rdesc[0 := s]) 1 irdesc of
                           Fault \<Rightarrow> Some Fault
                         | Done rdesc \<Rightarrow>
                             mem_serialize_loop m (l_next n) (counter + 1) prfx rdesc))))))))"

definition mem_serialize :: "bytes lmem \<Rightarrow> qListDescriptor \<Rightarrow> bytes \<Rightarrow> ((bytes list) exec) option" where
  "mem_serialize m desc prfx = mem_serialize_loop m (l_head desc) 0 prfx [[]]"

section \<open>Reading\<close>

text \<open>\<open>as\<close> are the outcomes of the allocations of list nodes, in order.\<close>

definition mem_push :: "(ptr option \<times> bool) list \<Rightarrow> qListDescriptor \<Rightarrow> bytes \<Rightarrow> u32 \<Rightarrow> bytes lmem
    \<Rightarrow> (qListDescriptor \<times> (ptr option \<times> bool) list \<times> bytes lmem) exec" where
  "mem_push as desc d sz m =
     bind_exec (q__List_push_back (fst (next_alloc as)) (snd (next_alloc as)) desc d sz m)
       (\<lambda>(r, desc, m). Done (desc, tl as, m))"

definition mem_attach :: "(bytes \<rightharpoonup> qListDescriptor) option \<Rightarrow> bytes \<Rightarrow> u32 \<Rightarrow> bytes \<Rightarrow> bytes exec" where
  "mem_attach previous_data tmprefix tmpcnt tmpdata =
     (case previous_data of
        None \<Rightarrow> Done tmpdata
      | Some prev \<Rightarrow>
          (case prev (tmprefix @ le_bytes 4 tmpcnt) of
             None \<Rightarrow> Done tmpdata
           | Some tmpsister \<Rightarrow> if length tmpdata < 36 then Fault else Done (adopt tmpsister tmpdata)))"

definition mem_join :: "(ptr option \<times> bool) list \<Rightarrow> (bytes \<rightharpoonup> qListDescriptor) \<Rightarrow> bytes \<Rightarrow> bytes \<Rightarrow> u32 \<Rightarrow> bytes lmem
    \<Rightarrow> ((bytes \<rightharpoonup> qListDescriptor) \<times> (ptr option \<times> bool) list \<times> bytes lmem) exec" where
  "mem_join as lsts tmprefix d sz m =
     (let house = (case lsts tmprefix of None \<Rightarrow> qList_constructor | Some siblings \<Rightarrow> siblings)
      in bind_exec (mem_push as house d sz m) (\<lambda>(house, as, m). Done (lsts(tmprefix \<mapsto> house), as, m)))"

type_synonym read_state = "(bytes \<rightharpoonup> qListDescriptor) \<times> qListDescriptor \<times> (ptr option \<times> bool) list \<times> bytes lmem"

function mem_unserialize_loop ::
  "nat \<Rightarrow> (bytes \<rightharpoonup> qListDescriptor) option \<Rightarrow> bytes \<Rightarrow> read_state \<Rightarrow> read_state exec" where
  "mem_unserialize_loop prefix_num previous_data s (lsts, itemslist, as, m) =
     (if s = [] then Done (lsts, itemslist, as, m)
      else
        (case read_entry prefix_num s of
           Fault \<Rightarrow> Fault
         | Done (tmprefix, tmpcnt, tmpdata, s') \<Rightarrow>
             bind_exec (mem_attach previous_data tmprefix tmpcnt tmpdata) (\<lambda>d.
             if prefix_num \<noteq> 0 then
               bind_exec (mem_join as lsts tmprefix d (of_nat (length tmpdata)) m) (\<lambda>(lsts, as, m).
               mem_unserialize_loop prefix_num previous_data s' (lsts, itemslist, as, m))
             else
               bind_exec (mem_push as itemslist d (of_nat (length tmpdata)) m) (\<lambda>(itemslist, as, m).
               mem_unserialize_loop prefix_num previous_data s' (lsts, itemslist, as, m)))))"
  by pat_completeness auto
termination
  by (relation "measure (\<lambda>(_, _, s, _). length s)") (auto dest: read_entry_shorter)

declare mem_unserialize_loop.simps [simp del]

text \<open>The descriptors of the lists of one level are what the next level out finds for its descriptors.\<close>

function mem_unserialize :: "bytes list \<Rightarrow> (bytes \<rightharpoonup> qListDescriptor) option \<Rightarrow> (ptr option \<times> bool) list \<Rightarrow> bytes lmem
    \<Rightarrow> (qListDescriptor \<times> bytes lmem) exec" where
  "mem_unserialize dataset previous_data as m =
     (if dataset = [] then Fault
      else
        (case mem_unserialize_loop (length dataset - 1) previous_data (last dataset)
            (Map.empty, qList_constructor, as, m) of
           Fault \<Rightarrow> Fault
         | Done (lsts, itemslist, as, m) \<Rightarrow>
             if length dataset - 1 = 0 then Done (itemslist, m)
             else mem_unserialize (butlast dataset) (Some lsts) as m))"
  by pat_completeness auto
termination
  by (relation "measure (\<lambda>(ds, _, _, _). length ds)") auto

declare mem_unserialize.simps [simp del]

section \<open>What a block stands for\<close>

text \<open>
  The block \<open>c\<close>, with its size, stands for an item: a raw block for its bytes; a descriptor for the list
  that its pointers lead to, whose nodes all lie in \<open>F\<close>. \<open>R\<close> relates the bytes of the descriptor with the
  bytes in the item.
\<close>

lemmas [fundef_cong] = list.rel_cong

fun reps :: "(bytes \<Rightarrow> bytes \<Rightarrow> bool) \<Rightarrow> bytes lmem \<Rightarrow> ptr set \<Rightarrow> bytes \<times> u32 \<Rightarrow> item \<Rightarrow> bool" where
  "reps R m F c (Raw e) \<longleftrightarrow> c = (e, of_nat (length e))"
| "reps R m F c (Nest e ys) \<longleftrightarrow> snd c = of_nat (length e) \<and> R (fst c) e
     \<and> (\<exists>ps ds. list_holds m (desc_of (fst c)) ps ds \<and> set ps \<subseteq> F \<and> list_all2 (reps R m F) ds ys)"

text \<open>A descriptor in the store stands for a list of items.\<close>

definition stands :: "(bytes \<Rightarrow> bytes \<Rightarrow> bool) \<Rightarrow> bytes lmem \<Rightarrow> ptr set \<Rightarrow> qListDescriptor \<Rightarrow> ptr list \<Rightarrow> item list \<Rightarrow> bool" where
  "stands R m F desc ps xs \<longleftrightarrow> (\<exists>ds. list_holds m desc ps ds \<and> list_all2 (reps R m F) ds xs)"

text \<open>The bytes of a descriptor but for its pointers and its size.\<close>

definition same_but_links :: "bytes \<Rightarrow> bytes \<Rightarrow> bool" where
  "same_but_links d e \<longleftrightarrow> length d = length e \<and> take 16 d = take 16 e \<and> drop 36 d = drop 36 e"

section \<open>The writer\<close>

lemma write_node_item:
  assumes "item_ok x"
  shows "write_node s p c (item_size x) (item_data x) = write_entry s p c x"
proof -
  have "unat (item_size x) = length (item_data x)"
    using item_ok_length [OF assms] by (simp add: item_size_def unat_of_nat)
  then show ?thesis
    by (simp add: write_node_def write_entry_def)
qed

lemma reps_exact:
  "reps (=) m F c x \<Longrightarrow> c = (item_data x, item_size x)"
  by (cases x) (auto simp: item_size_def prod_eq_iff)

text \<open>The traversal started anywhere in a list.\<close>

lemma list_holds_seg:
  assumes "list_holds m desc ps ds"
  shows "seg (nodes m) 0 ps 0" "l_head desc = hd0 ps 0" "map (cell (nodes m)) ps = map full ds"
  using assms by (simp_all add: list_holds_def)

lemma mem_serialize_loop_ok:
  "seg (nodes m) pr ps 0 \<Longrightarrow> map (cell (nodes m)) ps = map full ds \<Longrightarrow> list_all2 (reps (=) m F) ds xs \<Longrightarrow>
   \<forall>x \<in> set xs. item_ok x \<Longrightarrow> mem_serialize_loop m (hd0 ps 0) c p lv = Some (serialize_loop xs c p lv)"
proof (induction xs arbitrary: pr ps ds c p lv rule: depth.induct)
  case 1
  then show ?case
    by (subst mem_serialize_loop.simps) simp
next
  case (2 e xs)
  from 2(4) obtain d ds' where ds: "ds = d # ds'" "reps (=) m F d (Raw e)" "list_all2 (reps (=) m F) ds' xs"
    by (auto simp: list_all2_Cons2 simp del: reps.simps)
  with 2(3) obtain a ps' where ps: "ps = a # ps'" "cell (nodes m) a = full d" "map (cell (nodes m)) ps' = map full ds'"
    by (cases ps) auto
  with 2(2) obtain n where n: "nodes m a = Some n" "a \<noteq> 0" "l_next n = hd0 ps' 0" "seg (nodes m) a ps' 0"
    by auto
  have node: "l_data n = Some e" "l_size n = item_size (Raw e)"
    using ps(2) ds(2) n(1) by (simp_all add: full_def item_size_def)
  have ok: "item_ok (Raw e)" "q__List_islist e (item_size (Raw e)) = 0"
    using 2(5) by (simp_all add: item_size_def)
  have "mem_serialize_loop m (hd0 ps' 0) (c + 1) p lv' = Some (serialize_loop xs (c + 1) p lv')" for lv'
    using 2(1) [OF n(4) ps(3) ds(3)] 2(5) by simp
  then show ?case
    using n node ok write_node_item [OF ok(1), of "lv ! 0" p c]
    by (subst mem_serialize_loop.simps) (simp add: ps(1) l_load_def Let_def split: exec.split)
next
  case (3 e ys xs)
  let ?x = "Nest e ys"
  from 3(5) obtain d ds' where ds: "ds = d # ds'" "reps (=) m F d ?x" "list_all2 (reps (=) m F) ds' xs"
    by (auto simp: list_all2_Cons2 simp del: reps.simps)
  with 3(4) obtain a ps' where ps: "ps = a # ps'" "cell (nodes m) a = full d" "map (cell (nodes m)) ps' = map full ds'"
    by (cases ps) auto
  with 3(3) obtain n where n: "nodes m a = Some n" "a \<noteq> 0" "l_next n = hd0 ps' 0" "seg (nodes m) a ps' 0"
    by auto
  have node: "l_data n = Some e" "l_size n = item_size ?x"
    using ps(2) reps_exact [OF ds(2)] n(1) by (simp_all add: full_def)
  have ok: "item_ok ?x" "q__List_islist e (item_size ?x) \<noteq> 0"
    using 3(6) by (simp_all add: item_size_def)
  have "\<exists>qs es. list_holds m (desc_of e) qs es \<and> list_all2 (reps (=) m F) es ys"
    using ds(2) by auto
  then obtain qs es where qs: "list_holds m (desc_of e) qs es" "list_all2 (reps (=) m F) es ys"
    by blast
  have inner: "mem_serialize_loop m (l_head (desc_of e)) 0 q [[]] = Some (serialize_loop ys 0 q [[]])" for q
    using 3(1) [OF list_holds_seg(1,3) [OF qs(1)] qs(2)] ok(1) list_holds_seg(2) [OF qs(1)] by simp
  have "mem_serialize_loop m (hd0 ps' 0) (c + 1) p lv' = Some (serialize_loop xs (c + 1) p lv')" for lv'
    using 3(2) [OF n(4) ps(3) ds(3)] 3(6) by simp
  then show ?case
    using n node ok(2) inner write_node_item [OF ok(1), of "lv ! 0" p c]
    by (subst mem_serialize_loop.simps) (simp add: ps(1) l_load_def Let_def split: exec.split)
qed

text \<open>The writer on the store writes what the writer of values writes.\<close>

lemma mem_serialize_ok:
  assumes "stands (=) m F desc ps xs" and "\<forall>x \<in> set xs. item_ok x"
  shows "mem_serialize m desc p = Some (q__list_serialize xs p)"
proof -
  from assms(1) obtain ds where ds: "list_holds m desc ps ds" "list_all2 (reps (=) m F) ds xs"
    by (auto simp: stands_def)
  show ?thesis
    using mem_serialize_loop_ok [OF list_holds_seg(1,3) [OF ds(1)] ds(2) assms(2)] list_holds_seg(2) [OF ds(1)]
    by (simp add: mem_serialize_def q__list_serialize_def)
qed

section \<open>The reader: one entry\<close>

lemma list_holds_same:
  "list_holds m d ps ds \<Longrightarrow> \<forall>q \<in> set ps. nodes m' q = nodes m q \<Longrightarrow> list_holds m' d ps ds"
  by (rule list_holds_frame [where S = "- set ps"]) (auto simp: agree_off_def)

lemma reps_frame:
  "reps R m F c x \<Longrightarrow> F \<subseteq> F' \<Longrightarrow> \<forall>q \<in> F. nodes m' q = nodes m q \<Longrightarrow> reps R m' F' c x"
proof (induction x arbitrary: c)
  case (Nest e ys)
  from Nest.prems(1) obtain ps ds where h: "list_holds m (desc_of (fst c)) ps ds" "set ps \<subseteq> F"
      "list_all2 (reps R m F) ds ys" and r: "snd c = of_nat (length e)" "R (fst c) e"
    unfolding reps.simps by blast
  have "list_holds m' (desc_of (fst c)) ps ds"
    using list_holds_same [OF h(1)] h(2) Nest.prems(3) by blast
  moreover have "list_all2 (reps R m' F') ds ys"
    using h(3) Nest.IH Nest.prems(2,3) by (auto intro: list.rel_mono_strong)
  ultimately show ?case
    using h(2) r Nest.prems(2) by auto
qed simp

lemma stands_frame:
  assumes "stands R m F d ps xs" and "F \<subseteq> F'" and "\<forall>q \<in> F \<union> set ps. nodes m' q = nodes m q"
  shows "stands R m' F' d ps xs"
proof -
  from assms(1) obtain ds where ds: "list_holds m d ps ds" "list_all2 (reps R m F) ds xs"
    by (auto simp: stands_def)
  have "list_holds m' d ps ds"
    using list_holds_same [OF ds(1)] assms(3) by blast
  moreover have "list_all2 (reps R m' F') ds xs"
    using ds(2) assms(2,3) by (auto intro: list.rel_mono_strong reps_frame)
  ultimately show ?thesis
    by (auto simp: stands_def)
qed

lemma stands_live: "stands R m F d ps xs \<Longrightarrow> q \<in> set ps \<Longrightarrow> nodes m q \<noteq> None"
  by (auto simp: stands_def list_holds_def dest: seg_live)

lemma stands_ptrs: "stands R m F d ps xs \<Longrightarrow> l_head d \<in> insert 0 (set ps) \<and> l_tail d \<in> insert 0 (set ps)"
  by (auto simp: stands_def list_holds_def hd0_def last0_def split: list.splits)

lemma stands_Nil [simp]: "stands R m F qList_constructor [] []"
  by (simp add: stands_def)

text \<open>Pushing an element allocates one node and changes the last one.\<close>

lemma push_stands:
  assumes "stands R m F desc ps xs" and "set ps \<inter> F = {}" and "reps R m F (d, sz) x"
    and "nodes m a = None" and "a \<noteq> 0" and "\<forall>q \<in> F. nodes m q \<noteq> None"
  shows "\<exists>desc' m'. mem_push ((Some a, True) # as) desc d sz m = Done (desc', as, m')
    \<and> stands R m' F desc' (ps @ [a]) (xs @ [x]) \<and> agree_off (insert a (set ps)) m m'"
proof -
  from assms(1) obtain ds where ds: "list_holds m desc ps ds" "list_all2 (reps R m F) ds xs"
    by (auto simp: stands_def)
  from push_back_holds [OF ds(1) assms(4,5), of d sz] obtain desc' m' where
    m': "q__List_push_back (Some a) True desc d sz m = Done (0, desc', m')"
      "list_holds m' desc' (ps @ [a]) (ds @ [(d, sz)])" "agree_off (insert a (set ps)) m m'" by blast
  have "a \<notin> F"
    using assms(4,6) by auto
  then have same: "\<forall>q \<in> F. nodes m' q = nodes m q"
    using m'(3) assms(2) unfolding agree_off_def by fastforce
  have "list_all2 (reps R m' F) ds xs"
  proof (rule list.rel_mono_strong [OF ds(2)])
    show "reps R m' F c y" if "reps R m F c y" for c y
      using that by (rule reps_frame [OF _ subset_refl same])
  qed
  moreover have "reps R m' F (d, sz) x"
    by (rule reps_frame [OF assms(3) subset_refl same])
  ultimately have "list_all2 (reps R m' F) (ds @ [(d, sz)]) (xs @ [x])"
    by (intro list_all2_appendI) simp_all
  then show ?thesis
    using m' by (auto simp: mem_push_def next_alloc_def stands_def)
qed

text \<open>The pointers in the bytes of a descriptor are those of the list it adopts.\<close>

lemma desc_of_adopt:
  assumes "36 \<le> length d" and "l_head sister < 2 ^ 64" and "l_tail sister < 2 ^ 64"
  shows "l_head (desc_of (adopt sister d)) = l_head sister" "l_tail (desc_of (adopt sister d)) = l_tail sister"
    "l_count (desc_of (adopt sister d)) = l_count sister" "length (adopt sister d) = length d"
  using assms
  by (simp_all add: desc_of_def adopt_def of_le_le_bytes unat_of_nat take_bit_nat_eq_self)

lemma list_holds_fields:
  "l_head d = l_head d' \<Longrightarrow> l_tail d = l_tail d' \<Longrightarrow> l_count d = l_count d' \<Longrightarrow>
   list_holds m d ps ds = list_holds m d' ps ds"
  by (simp add: list_holds_def)

lemma adopt_links: "36 \<le> length d \<Longrightarrow> same_but_links (adopt sister d) (patch hdtl ys d)"
  by (simp add: same_but_links_def adopt_def patch_def)

text \<open>The lists of the level further in, all of their nodes in \<open>F\<close>.\<close>

definition level_at :: "ptr set \<Rightarrow> bytes lmem \<Rightarrow> (bytes \<rightharpoonup> qListDescriptor) \<Rightarrow> (bytes \<rightharpoonup> item list) \<Rightarrow> bool" where
  "level_at F m D L \<longleftrightarrow> dom D = dom L \<and>
     (\<forall>p d ys. D p = Some d \<longrightarrow> L p = Some ys \<longrightarrow> (\<exists>ps. stands same_but_links m F d ps ys \<and> set ps \<subseteq> F))"

definition level_of :: "ptr set \<Rightarrow> bytes lmem \<Rightarrow> (bytes \<rightharpoonup> qListDescriptor) option \<Rightarrow> (bytes \<rightharpoonup> item list) option \<Rightarrow> bool" where
  "level_of F m D L \<longleftrightarrow> rel_option (level_at F m) D L"

lemma level_of_frame:
  assumes "level_of F m D L" and "\<forall>q \<in> F. nodes m' q = nodes m q"
  shows "level_of F m' D L"
proof -
  have s: "\<exists>ps. stands same_but_links m' F d ps ys \<and> set ps \<subseteq> F"
    if "stands same_but_links m F d ps ys" "set ps \<subseteq> F" for d ps ys
    using stands_frame [OF that(1), of F m'] that(2) assms(2) by blast
  have "level_at F m' D' L'" if l: "level_at F m D' L'" for D' L'
    unfolding level_at_def
  proof (intro conjI allI impI)
    show "dom D' = dom L'"
      using l by (simp add: level_at_def)
    fix p d ys
    assume "D' p = Some d" "L' p = Some ys"
    then obtain ps where "stands same_but_links m F d ps ys" "set ps \<subseteq> F"
      using l unfolding level_at_def by blast
    then show "\<exists>ps. stands same_but_links m' F d ps ys \<and> set ps \<subseteq> F"
      by (rule s)
  qed
  then show ?thesis
    using assms(1) by (cases D; cases L) (auto simp: level_of_def)
qed

lemma attach_sim:
  assumes "level_of F m D L" and "F \<subseteq> {..<2 ^ 64}" and "attach place L p c e = Done x"
  shows "\<exists>d. mem_attach D p c e = Done d \<and> reps same_but_links m F (d, of_nat (length e)) x"
proof (cases L)
  case None
  then show ?thesis
    using assms(1,3) by (auto simp: level_of_def attach_def mem_attach_def)
next
  case (Some L')
  then obtain D' where D: "D = Some D'" "dom D' = dom L'" and at: "level_at F m D' L'"
    using assms(1) by (auto simp: level_of_def level_at_def option_rel_Some2)
  let ?k = "p @ le_bytes 4 c"
  show ?thesis
  proof (cases "L' ?k")
    case None
    then have "D' ?k = None"
      using D(2) by (auto simp: domIff)
    then show ?thesis
      using None Some D(1) assms(3) by (auto simp: attach_def mem_attach_def)
  next
    case (Some ys)
    then obtain d where d: "D' ?k = Some d"
      using D(2) by (metis domD domI)
    from at obtain ps where ps: "stands same_but_links m F d ps ys" "set ps \<subseteq> F"
      using d Some unfolding level_at_def by blast
    have len: "36 \<le> length e" and x: "x = Nest (patch (place ?k) ys e) ys"
      using assms(3) \<open>L = Some L'\<close> Some by (auto simp: attach_def Let_def split: if_splits)
    have "l_head d < 2 ^ 64" "l_tail d < 2 ^ 64"
      using stands_ptrs [OF ps(1)] ps(2) assms(2) by auto
    note desc = desc_of_adopt [OF len this]
    from ps(1) obtain ds where "list_holds m d ps ds" "list_all2 (reps same_but_links m F) ds ys"
      by (auto simp: stands_def)
    then have "\<exists>ps ds. list_holds m (desc_of (adopt d e)) ps ds \<and> set ps \<subseteq> F
        \<and> list_all2 (reps same_but_links m F) ds ys"
      using ps(2) list_holds_fields [OF desc(1-3)] by blast
    moreover have "length (patch (place ?k) ys e) = length e"
      using len by (simp add: patch_def)
    ultimately show ?thesis
      using D(1) d len adopt_links [OF len] by (simp add: mem_attach_def x)
  qed
qed

section \<open>The reader: one level\<close>

text \<open>The allocations that are left: different addresses of nodes that are not live.\<close>

definition fresh_in :: "bytes lmem \<Rightarrow> ptr list \<Rightarrow> bool" where
  "fresh_in m as \<longleftrightarrow> distinct as \<and> (\<forall>a \<in> set as. a \<noteq> 0 \<and> nodes m a = None)"

definition allocs :: "ptr list \<Rightarrow> (ptr option \<times> bool) list" where
  "allocs as = map (\<lambda>a. (Some a, True)) as"

lemma allocs_Cons [simp]: "allocs (a # as) = (Some a, True) # allocs as"
  by (simp add: allocs_def)

text \<open>
  The lists of the level that is being read: different lists have different nodes, none of them in \<open>F\<close>,
  where the lists further in are.
\<close>

definition open_lists :: "ptr set \<Rightarrow> bytes lmem \<Rightarrow> (bytes \<rightharpoonup> qListDescriptor) \<Rightarrow> (bytes \<rightharpoonup> item list)
    \<Rightarrow> (bytes \<Rightarrow> ptr list) \<Rightarrow> bool" where
  "open_lists F m D L P \<longleftrightarrow> dom D = dom L \<and> (\<forall>q \<in> F. nodes m q \<noteq> None)
     \<and> (\<forall>p. set (P p) \<inter> F = {}) \<and> (\<forall>p q. p \<noteq> q \<longrightarrow> set (P p) \<inter> set (P q) = {})
     \<and> (\<forall>p. stands same_but_links m F (case D p of None \<Rightarrow> qList_constructor | Some d \<Rightarrow> d) (P p)
          (case L p of None \<Rightarrow> [] | Some xs \<Rightarrow> xs))"

definition all_nodes :: "(bytes \<Rightarrow> ptr list) \<Rightarrow> ptr set" where
  "all_nodes P = (\<Union>p. set (P p))"

lemma all_nodes_upd: "all_nodes (P(p := P p @ [a])) = insert a (all_nodes P)"
  by (auto simp: all_nodes_def split: if_splits)

lemma open_lists_live: "open_lists F m D L P \<Longrightarrow> q \<in> F \<union> all_nodes P \<Longrightarrow> nodes m q \<noteq> None"
  by (auto simp: open_lists_def all_nodes_def dest: stands_live)

lemma join_sim:
  assumes "open_lists F m D L P" and "reps same_but_links m F (d, sz) x"
    and "nodes m a = None" and "a \<noteq> 0"
  shows "\<exists>D' m'. mem_join ((Some a, True) # as) D p d sz m = Done (D', as, m')
    \<and> open_lists F m' D' (join L p x) (P(p := P p @ [a])) \<and> agree_off (insert a (set (P p))) m m'"
proof -
  let ?d = "case D p of None \<Rightarrow> qList_constructor | Some d \<Rightarrow> d"
    and ?xs = "case L p of None \<Rightarrow> [] | Some xs \<Rightarrow> xs"
  note inv = assms(1) [unfolded open_lists_def]
  have a: "a \<notin> F \<union> all_nodes P"
    using open_lists_live [OF assms(1)] assms(3) by blast
  from inv have "stands same_but_links m F ?d (P p) ?xs" "set (P p) \<inter> F = {}" "\<forall>q \<in> F. nodes m q \<noteq> None"
    by blast+
  from push_stands [OF this(1,2) assms(2,3,4) this(3), of as] obtain d' m' where
    m': "mem_push ((Some a, True) # as) ?d d sz m = Done (d', as, m')"
      "stands same_but_links m' F d' (P p @ [a]) (?xs @ [x])" "agree_off (insert a (set (P p))) m m'"
    by blast
  have same: "nodes m' q = nodes m q" if "q \<noteq> a" "q \<notin> set (P p)" for q
    using m'(3) that by (simp add: agree_off_def)
  let ?D = "D(p \<mapsto> d')" and ?P = "P(p := P p @ [a])"
  have L: "join L p x = L(p \<mapsto> ?xs @ [x])"
    by (simp add: join_def split: option.split)
  have "stands same_but_links m' F (case ?D r of None \<Rightarrow> qList_constructor | Some d \<Rightarrow> d) (?P r)
      (case (L(p \<mapsto> ?xs @ [x])) r of None \<Rightarrow> [] | Some xs \<Rightarrow> xs)" for r
  proof (cases "r = p")
    case True
    then show ?thesis
      using m'(2) by simp
  next
    case False
    then have "set (P r) \<inter> set (P p) = {}" "a \<notin> set (P r)" "a \<notin> F" "set (P p) \<inter> F = {}"
      using inv a by (auto simp: all_nodes_def)
    then have "\<forall>q \<in> F \<union> set (P r). q \<noteq> a \<and> q \<notin> set (P p)"
      by blast
    then have "\<forall>q \<in> F \<union> set (P r). nodes m' q = nodes m q"
      using same by simp
    moreover have "stands same_but_links m F (case D r of None \<Rightarrow> qList_constructor | Some d \<Rightarrow> d) (P r)
        (case L r of None \<Rightarrow> [] | Some xs \<Rightarrow> xs)"
      using inv by blast
    ultimately show ?thesis
      using stands_frame [OF _ subset_refl] False by simp
  qed
  moreover have "\<forall>q \<in> F. nodes m' q \<noteq> None"
  proof
    fix q
    assume "q \<in> F"
    then have "q \<noteq> a" "q \<notin> set (P p)"
      using a inv by blast+
    then show "nodes m' q \<noteq> None"
      using same inv \<open>q \<in> F\<close> by simp
  qed
  moreover have "set (?P r) \<inter> F = {}" "r \<noteq> q \<Longrightarrow> set (?P r) \<inter> set (?P q) = {}" for r q
    using inv a by (auto simp: all_nodes_def)
  moreover have "dom ?D = dom (L(p \<mapsto> ?xs @ [x]))"
    using inv by simp
  ultimately have "open_lists F m' ?D (join L p x) ?P"
    unfolding open_lists_def L by blast
  then show ?thesis
    using m'(1,3) by (simp add: mem_join_def)
qed

lemma fresh_step:
  assumes "fresh_in m (a # as)" and "agree_off (insert a S) m m'" and "\<And>q. q \<in> S \<Longrightarrow> nodes m q \<noteq> None"
  shows "fresh_in m' as"
proof -
  have "b \<noteq> a" "b \<notin> S" if "b \<in> set as" for b
    using that assms(1) assms(3) [of b] by (auto simp: fresh_in_def)
  then show ?thesis
    using assms(1,2) by (auto simp: fresh_in_def agree_off_def)
qed

lemma agree_off_trans: "agree_off S m m' \<Longrightarrow> agree_off T m' m'' \<Longrightarrow> S \<subseteq> U \<Longrightarrow> T \<subseteq> U \<Longrightarrow> agree_off U m m''"
  unfolding agree_off_def by (metis subset_eq)

lemma agree_off_disjoint: "agree_off S m m' \<Longrightarrow> F \<inter> S = {} \<Longrightarrow> \<forall>q \<in> F. nodes m' q = nodes m q"
  unfolding agree_off_def by fastforce

lemma level_sim:
  assumes "n \<noteq> 0" and "F \<subseteq> {..<2 ^ 64}"
  shows "unserialize_loop place n prev s L its = Done (L', its') \<Longrightarrow> level_of F m Dp prev \<Longrightarrow>
    open_lists F m D L P \<Longrightarrow> fresh_in m as \<Longrightarrow> length s \<le> length as \<Longrightarrow>
    \<exists>D' m' P' k. mem_unserialize_loop n Dp s (D, items, allocs as, m) = Done (D', items, allocs (drop k as), m')
      \<and> k \<le> length s \<and> open_lists F m' D' L' P' \<and> all_nodes P' = all_nodes P \<union> set (take k as)
      \<and> agree_off (all_nodes P \<union> set (take k as)) m m' \<and> fresh_in m' (drop k as)"
proof (induction "length s" arbitrary: s L m D P as rule: less_induct)
  case less
  show ?case
  proof (cases "s = []")
    case True
    then have "L' = L"
      using less.prems(1) by (subst (asm) unserialize_loop.simps) simp
    then show ?thesis
      using True less.prems
      by (intro exI [of _ D] exI [of _ m] exI [of _ P] exI [of _ 0])
        (simp add: mem_unserialize_loop.simps agree_off_def)
  next
    case False
    obtain tp c e s' where rd: "read_entry n s = Done (tp, c, e, s')"
      using less.prems(1) False by (subst (asm) unserialize_loop.simps) (auto split: exec.splits)
    obtain x where x: "attach place prev tp c e = Done x"
        "unserialize_loop place n prev s' (join L tp x) its = Done (L', its')"
      using less.prems(1) False rd assms(1)
      by (subst (asm) unserialize_loop.simps) (auto simp: bind_exec_def split: exec.splits)
    obtain a bs where as: "as = a # bs"
      using less.prems(5) False by (cases as) auto
    from attach_sim [OF less.prems(2) assms(2) x(1)] obtain d where
      d: "mem_attach Dp tp c e = Done d" "reps same_but_links m F (d, of_nat (length e)) x" by blast
    have fa: "nodes m a = None" "a \<noteq> 0"
      using less.prems(4) as by (simp_all add: fresh_in_def)
    from join_sim [OF less.prems(3) d(2) fa, of "allocs bs" tp] obtain D1 m1 where
      j: "mem_join ((Some a, True) # allocs bs) D tp d (of_nat (length e)) m = Done (D1, allocs bs, m1)"
        "open_lists F m1 D1 (join L tp x) (P(tp := P tp @ [a]))" "agree_off (insert a (set (P tp))) m m1" by blast
    have live: "\<And>q. q \<in> F \<union> all_nodes P \<Longrightarrow> nodes m q \<noteq> None"
      by (rule open_lists_live [OF less.prems(3)])
    have agree: "agree_off (insert a (all_nodes P)) m m1"
      using j(3) by (auto simp: agree_off_def all_nodes_def)
    have "fresh_in m1 bs"
      using fresh_step [OF less.prems(4) [unfolded as] agree] live by blast
    moreover have "F \<inter> insert a (set (P tp)) = {}"
      using live [of a] fa(1) less.prems(3) by (auto simp: open_lists_def)
    then have "level_of F m1 Dp prev"
      by (intro level_of_frame [OF less.prems(2)] agree_off_disjoint [OF j(3)])
    moreover have len: "length s' < length s" "length s' \<le> length bs"
      using read_entry_shorter [OF rd] less.prems(5) as by auto
    ultimately obtain D' m' P' k where r:
      "mem_unserialize_loop n Dp s' (D1, items, allocs bs, m1) = Done (D', items, allocs (drop k bs), m')"
      "k \<le> length s'" "open_lists F m' D' L' P'"
      "all_nodes P' = all_nodes (P(tp := P tp @ [a])) \<union> set (take k bs)"
      "agree_off (all_nodes (P(tp := P tp @ [a])) \<union> set (take k bs)) m1 m'" "fresh_in m' (drop k bs)"
      using less.hyps [OF len(1) x(2) _ j(2)] by blast
    have "mem_unserialize_loop n Dp s (D, items, allocs as, m) = Done (D', items, allocs (drop (Suc k) as), m')"
      using False rd d(1) j(1) r(1) assms(1) by (subst mem_unserialize_loop.simps) (simp add: as)
    moreover have "agree_off (all_nodes P \<union> set (take (Suc k) as)) m m'"
      using agree r(5) by (rule agree_off_trans) (auto simp: all_nodes_upd as)
    ultimately show ?thesis
      using r(2-4,6) len(1)
      by (intro exI [of _ D'] exI [of _ m'] exI [of _ P'] exI [of _ "Suc k"]) (simp add: as all_nodes_upd)
  qed
qed

text \<open>The outermost level goes to one list.\<close>

lemma top_sim:
  assumes "F \<subseteq> {..<2 ^ 64}"
  shows "unserialize_loop place 0 prev s L its = Done (L', its') \<Longrightarrow> level_of F m Dp prev \<Longrightarrow>
    stands same_but_links m F items ps its \<Longrightarrow> set ps \<inter> F = {} \<Longrightarrow> \<forall>q \<in> F. nodes m q \<noteq> None \<Longrightarrow>
    fresh_in m as \<Longrightarrow> length s \<le> length as \<Longrightarrow>
    \<exists>items' m' ps' k. mem_unserialize_loop 0 Dp s (D, items, allocs as, m) = Done (D, items', allocs (drop k as), m')
      \<and> stands same_but_links m' F items' ps' its' \<and> set ps' = set ps \<union> set (take k as)
      \<and> agree_off (set ps \<union> set (take k as)) m m'"
proof (induction "length s" arbitrary: s its m items ps as rule: less_induct)
  case less
  show ?case
  proof (cases "s = []")
    case True
    then have "its' = its"
      using less.prems(1) by (subst (asm) unserialize_loop.simps) simp
    then show ?thesis
      using True less.prems
      by (intro exI [of _ items] exI [of _ m] exI [of _ ps] exI [of _ 0])
        (simp add: mem_unserialize_loop.simps agree_off_def)
  next
    case False
    obtain tp c e s' where rd: "read_entry 0 s = Done (tp, c, e, s')"
      using less.prems(1) False by (subst (asm) unserialize_loop.simps) (auto split: exec.splits)
    obtain x where x: "attach place prev tp c e = Done x"
        "unserialize_loop place 0 prev s' L (its @ [x]) = Done (L', its')"
      using less.prems(1) False rd
      by (subst (asm) unserialize_loop.simps) (auto simp: bind_exec_def split: exec.splits)
    obtain a bs where as: "as = a # bs"
      using less.prems(7) False by (cases as) auto
    from attach_sim [OF less.prems(2) assms x(1)] obtain d where
      d: "mem_attach Dp tp c e = Done d" "reps same_but_links m F (d, of_nat (length e)) x" by blast
    have fa: "nodes m a = None" "a \<noteq> 0"
      using less.prems(6) as by (simp_all add: fresh_in_def)
    from push_stands [OF less.prems(3,4) d(2) fa less.prems(5), of "allocs bs"] obtain i1 m1 where
      j: "mem_push ((Some a, True) # allocs bs) items d (of_nat (length e)) m = Done (i1, allocs bs, m1)"
        "stands same_but_links m1 F i1 (ps @ [a]) (its @ [x])" "agree_off (insert a (set ps)) m m1" by blast
    have af: "F \<inter> insert a (set ps) = {}"
      using fa(1) less.prems(4,5) by auto
    then have same: "\<forall>q \<in> F. nodes m1 q = nodes m q"
      by (rule agree_off_disjoint [OF j(3)])
    have "fresh_in m1 bs"
      using fresh_step [OF less.prems(6) [unfolded as] j(3)] stands_live [OF less.prems(3)] by blast
    moreover have "level_of F m1 Dp prev"
      by (rule level_of_frame [OF less.prems(2) same])
    moreover have len: "length s' < length s" "length s' \<le> length bs"
      using read_entry_shorter [OF rd] less.prems(7) as by auto
    moreover have "set (ps @ [a]) \<inter> F = {}" "\<forall>q \<in> F. nodes m1 q \<noteq> None"
      using af same less.prems(5) by auto
    ultimately obtain i' m' ps' k where r:
      "mem_unserialize_loop 0 Dp s' (D, i1, allocs bs, m1) = Done (D, i', allocs (drop k bs), m')"
      "stands same_but_links m' F i' ps' its'" "set ps' = set (ps @ [a]) \<union> set (take k bs)"
      "agree_off (set (ps @ [a]) \<union> set (take k bs)) m1 m'"
      using less.hyps [OF len(1) x(2) _ j(2)] by blast
    have "mem_unserialize_loop 0 Dp s (D, items, allocs as, m) = Done (D, i', allocs (drop (Suc k) as), m')"
      using False rd d(1) j(1) r(1) by (subst mem_unserialize_loop.simps) (simp add: as)
    moreover have "agree_off (set ps \<union> set (take (Suc k) as)) m m'"
      using j(3) r(4) by (rule agree_off_trans) (auto simp: as)
    ultimately show ?thesis
      using r(2,3)
      by (intro exI [of _ i'] exI [of _ m'] exI [of _ ps'] exI [of _ "Suc k"]) (simp add: as)
  qed
qed

section \<open>The reader: all levels\<close>

lemma next_level:
  assumes "open_lists F m D L P"
  shows "level_of (F \<union> all_nodes P) m (Some D) (Some L)"
    and "open_lists (F \<union> all_nodes P) m Map.empty Map.empty (\<lambda>_. [])"
proof -
  note inv = assms [unfolded open_lists_def]
  have "\<exists>ps. stands same_but_links m (F \<union> all_nodes P) d ps ys \<and> set ps \<subseteq> F \<union> all_nodes P"
    if "D p = Some d" "L p = Some ys" for p d ys
  proof (intro exI conjI)
    have "stands same_but_links m F (case D p of None \<Rightarrow> qList_constructor | Some d \<Rightarrow> d) (P p)
        (case L p of None \<Rightarrow> [] | Some xs \<Rightarrow> xs)"
      using inv by blast
    then show "stands same_but_links m (F \<union> all_nodes P) d (P p) ys"
      using stands_frame [of same_but_links m F d "P p" ys "F \<union> all_nodes P" m] that by simp
    show "set (P p) \<subseteq> F \<union> all_nodes P"
      by (auto simp: all_nodes_def)
  qed
  then show "level_of (F \<union> all_nodes P) m (Some D) (Some L)"
    using inv by (simp add: level_of_def level_at_def)
  have "\<forall>q \<in> F \<union> all_nodes P. nodes m q \<noteq> None"
    using open_lists_live [OF assms] by blast
  then show "open_lists (F \<union> all_nodes P) m Map.empty Map.empty (\<lambda>_. [])"
    by (simp add: open_lists_def)
qed

lemma unserialize_sim:
  assumes "A \<subseteq> {..<2 ^ 64}"
  shows "q__list_unserialize place ds prev = Done its \<Longrightarrow> level_of F m Dp prev \<Longrightarrow> \<forall>q \<in> F. nodes m q \<noteq> None \<Longrightarrow>
    F \<subseteq> A \<Longrightarrow> fresh_in m as \<Longrightarrow> set as \<subseteq> A \<Longrightarrow> sum_list (map length ds) \<le> length as \<Longrightarrow>
    \<exists>items m' ps F'. mem_unserialize ds Dp (allocs as) m = Done (items, m')
      \<and> stands same_but_links m' F' items ps its \<and> F' \<subseteq> F \<union> set as \<and> set ps \<subseteq> set as \<and> agree_off (set as) m m'"
proof (induction ds arbitrary: prev Dp F m as rule: rev_induct)
  case Nil
  then show ?case
    by (subst (asm) q__list_unserialize.simps) simp
next
  case (snoc s ds)
  have len: "length s \<le> length as" "sum_list (map length ds) \<le> length as - length s"
    using snoc.prems(7) by simp_all
  have F: "F \<subseteq> {..<2 ^ 64}"
    using snoc.prems(4) assms by blast
  show ?case
  proof (cases "ds = []")
    case True
    obtain L' where v: "unserialize_loop place 0 prev s Map.empty [] = Done (L', its)"
      using snoc.prems(1) True by (subst (asm) q__list_unserialize.simps) (auto split: exec.splits)
    from top_sim [OF F v snoc.prems(2) stands_Nil _ snoc.prems(3,5) len(1), of Map.empty]
    obtain items m' ps k where
      r: "mem_unserialize_loop 0 Dp s (Map.empty, qList_constructor, allocs as, m)
          = Done (Map.empty, items, allocs (drop k as), m')"
        "stands same_but_links m' F items ps its" "set ps = set (take k as)" "agree_off (set (take k as)) m m'"
      by auto
    have sub: "set (take k as) \<subseteq> set as"
      by (rule set_take_subset)
    have "mem_unserialize (ds @ [s]) Dp (allocs as) m = Done (items, m')"
      using r(1) True by (subst mem_unserialize.simps) simp
    moreover have "agree_off (set as) m m'"
      using r(4) sub by (auto simp: agree_off_def)
    ultimately show ?thesis
      using r(2,3) sub by blast
  next
    case False
    obtain L' its' where v: "unserialize_loop place (length ds) prev s Map.empty [] = Done (L', its')"
        "q__list_unserialize place ds (Some L') = Done its"
      using snoc.prems(1) False by (subst (asm) q__list_unserialize.simps) (auto split: exec.splits)
    have "open_lists F m Map.empty Map.empty (\<lambda>_. [])"
      using snoc.prems(3) by (simp add: open_lists_def)
    from level_sim [OF _ F v(1) snoc.prems(2) this snoc.prems(5) len(1), of qList_constructor] False
    obtain D' m' P' k where
      r: "mem_unserialize_loop (length ds) Dp s (Map.empty, qList_constructor, allocs as, m)
          = Done (D', qList_constructor, allocs (drop k as), m')"
        "k \<le> length s" "open_lists F m' D' L' P'" "all_nodes P' = set (take k as)"
        "agree_off (set (take k as)) m m'" "fresh_in m' (drop k as)"
      by (auto simp: all_nodes_def)
    let ?F = "F \<union> set (take k as)"
    have sub: "set (take k as) \<subseteq> set as" "set (drop k as) \<subseteq> set as"
      by (rule set_take_subset set_drop_subset)+
    have "level_of ?F m' (Some D') (Some L')" "\<forall>q \<in> ?F. nodes m' q \<noteq> None"
      using next_level(1) [OF r(3)] open_lists_live [OF r(3)] r(4) by auto
    then obtain items m'' ps F' where q: "mem_unserialize ds (Some D') (allocs (drop k as)) m' = Done (items, m'')"
        "stands same_but_links m'' F' items ps its" "F' \<subseteq> ?F \<union> set (drop k as)" "set ps \<subseteq> set (drop k as)"
        "agree_off (set (drop k as)) m' m''"
      using snoc.IH [OF v(2) _ _ _ r(6), of ?F "Some D'"] snoc.prems(4,6) sub len(2) r(2) by force
    have "mem_unserialize (ds @ [s]) Dp (allocs as) m = Done (items, m'')"
      using r(1) q(1) False by (subst mem_unserialize.simps) simp
    moreover have "agree_off (set as) m m''"
      using r(5) q(5) sub by (rule agree_off_trans)
    ultimately show ?thesis
      using q(2-4) sub by blast
  qed
qed

section \<open>The round trip of the store\<close>

text \<open>The descriptors of empty lists hold null pointers.\<close>

fun nulls :: "item \<Rightarrow> bool" where
  "nulls (Raw d) = True"
| "nulls (Nest d ys) = ((ys = [] \<longrightarrow> l_head (desc_of d) = 0 \<and> l_tail (desc_of d) = 0 \<and> l_count (desc_of d) = 0) \<and> (\<forall>y \<in> set ys. nulls y))"

lemma list_holds_null:
  "list_holds m d [] [] \<longleftrightarrow> l_head d = 0 \<and> l_tail d = 0 \<and> l_count d = 0"
  by (simp add: list_holds_def)

lemma reps_nulls: "reps (=) m F c x \<Longrightarrow> nulls x"
proof (induction x arbitrary: c)
  case (Nest e ys)
  from Nest.prems obtain ps ds where h: "list_holds m (desc_of e) ps ds" "list_all2 (reps (=) m F) ds ys"
    unfolding reps.simps by blast
  have "nulls y" if y: "y \<in> set ys" for y
  proof -
    obtain i where "i < length ys" "y = ys ! i"
      using y by (auto simp: in_set_conv_nth)
    then have "reps (=) m F (ds ! i) y"
      using list_all2_nthD2 [OF h(2)] by simp
    then show ?thesis
      by (rule Nest.IH [OF y])
  qed
  moreover have "ys = [] \<Longrightarrow> list_holds m (desc_of e) [] []"
    using h list_holds_length [OF h(1)] by auto
  ultimately show ?case
    by (simp add: list_holds_null)
qed simp

lemma stands_nulls:
  assumes "stands (=) m F d ps xs" and "x \<in> set xs"
  shows "nulls x"
proof -
  from assms(1) obtain ds where ds: "list_all2 (reps (=) m F) ds xs"
    by (auto simp: stands_def)
  obtain i where "i < length xs" "x = xs ! i"
    using assms(2) by (auto simp: in_set_conv_nth)
  then have "reps (=) m F (ds ! i) x"
    using list_all2_nthD2 [OF ds] by simp
  then show ?thesis
    by (rule reps_nulls)
qed

lemma length_rebuilds [simp]: "length (rebuilds place p c xs) = length xs"
  by (induction xs arbitrary: c) simp_all

text \<open>A block that stands for a rebuilt item stands for the item: only links were changed.\<close>

lemma same_but_links_patch:
  "36 \<le> length e \<Longrightarrow> same_but_links d (patch hdtl ys e) \<Longrightarrow> same_but_links d e \<and> length (patch hdtl ys e) = length e"
  by (simp add: same_but_links_def patch_def)

lemma item_ok_desc: "item_ok (Nest e ys) \<Longrightarrow> 36 \<le> length e"
  using unat_of_nat [of "length e", where 'a = 32]
  by (auto simp: q__List_islist_def sizeof_qListDescriptor_def word_less_nat_alt split: if_splits)

lemma reps_rebuild:
  "reps same_but_links m F c (rebuild place k x) \<Longrightarrow> item_ok x \<Longrightarrow> nulls x \<Longrightarrow> reps same_but_links m F c x"
proof (induction x arbitrary: c k)
  case (Nest e ys)
  have e: "36 \<le> length e"
    by (rule item_ok_desc [OF Nest.prems(2)])
  show ?case
  proof (cases "ys = []")
    case True
    then have "c = (e, of_nat (length e))" "list_holds m (desc_of e) [] []"
      using Nest.prems(1,3) by (simp_all add: list_holds_null)
    then show ?thesis
      using True by (fastforce simp: same_but_links_def)
  next
    case False
    let ?zs = "rebuilds place k 0 ys"
    have "reps same_but_links m F c (Nest (patch (place k) ?zs e) ?zs)"
      using Nest.prems(1) False by (simp add: Let_def del: reps.simps)
    then obtain ps ds where h: "snd c = of_nat (length (patch (place k) ?zs e))"
        "same_but_links (fst c) (patch (place k) ?zs e)"
        "list_holds m (desc_of (fst c)) ps ds" "set ps \<subseteq> F" "list_all2 (reps same_but_links m F) ds ?zs"
      unfolding reps.simps by blast
    have "list_all2 (reps same_but_links m F) ds' ys'"
      if "list_all2 (reps same_but_links m F) ds' (rebuilds place k cn ys')" "set ys' \<subseteq> set ys" for ds' ys' cn
      using that
    proof (induction ys' arbitrary: ds' cn)
      case (Cons y ys')
      then have "item_ok y" "nulls y" "y \<in> set ys"
        using Nest.prems(2,3) by auto
      then show ?case
        using Cons Nest.IH by (auto simp: list_all2_Cons2 simp del: reps.simps)
    qed simp
    then have "list_all2 (reps same_but_links m F) ds ys"
      using h(5) by blast
    then show ?thesis
      using h(1-4) same_but_links_patch [OF e h(2)] by auto
  qed
qed simp

lemma stands_rebuilds:
  assumes "stands same_but_links m F d ps (rebuilds place p c xs)" and "\<forall>x \<in> set xs. item_ok x \<and> nulls x"
  shows "stands same_but_links m F d ps xs"
proof -
  have "list_all2 (reps same_but_links m F) ds xs"
    if "list_all2 (reps same_but_links m F) ds (rebuilds place p c xs)" for ds
    using that assms(2)
  proof (induction xs arbitrary: ds c)
    case (Cons x xs)
    then show ?case
      by (auto simp: list_all2_Cons2 intro: reps_rebuild simp del: reps.simps)
  qed simp
  then show ?thesis
    using assms(1) by (auto simp: stands_def)
qed

text \<open>The dataset that the writer gives, and what the reader builds from it.\<close>

lemma store_levels:
  assumes "stands (=) m F desc ps xs" and "\<forall>x \<in> set xs. item_ok x" and "length xs < 2 ^ 32"
    and "\<forall>j. length (level j [] 0 xs) < 2 ^ 31" and "fresh_in m2 as" and "set as \<subseteq> {..<2 ^ 64}"
    and "(\<Sum>j \<leftarrow> [0..<depth xs]. length (level j [] 0 xs)) \<le> length as"
  shows "\<exists>dataset desc' m' F' ps'. mem_serialize m desc [] = Some (Done dataset)
    \<and> mem_unserialize dataset None (allocs as) m2 = Done (desc', m')
    \<and> stands same_but_links m' F' desc' ps' xs \<and> F' \<union> set ps' \<subseteq> set as \<and> agree_off (set as) m2 m'"
proof -
  let ?ds = "map (\<lambda>j. level j [] 0 xs) [0..<depth xs]"
  note vals = levels_round_trip [OF assms(2-4)]
  have "sum_list (map length ?ds) \<le> length as"
    using assms(7) by (simp add: comp_def)
  then have "\<exists>desc' m' ps' F'. mem_unserialize ?ds None (allocs as) m2 = Done (desc', m')
      \<and> stands same_but_links m' F' desc' ps' (rebuilds (\<lambda>_. (0, 0)) [] 0 xs) \<and> F' \<subseteq> {} \<union> set as
      \<and> set ps' \<subseteq> set as \<and> agree_off (set as) m2 m'"
    by (intro unserialize_sim [OF assms(6) vals(2) _ _ _ assms(5) subset_refl]) (simp_all add: level_of_def)
  then obtain desc' m' ps' F' where r: "mem_unserialize ?ds None (allocs as) m2 = Done (desc', m')"
      "stands same_but_links m' F' desc' ps' (rebuilds (\<lambda>_. (0, 0)) [] 0 xs)" "F' \<subseteq> set as" "set ps' \<subseteq> set as"
      "agree_off (set as) m2 m'"
    by auto
  have "\<forall>x \<in> set xs. nulls x"
    using stands_nulls [OF assms(1)] by blast
  then have "stands same_but_links m' F' desc' ps' xs"
    using stands_rebuilds [OF r(2)] assms(2) by blast
  moreover have "mem_serialize m desc [] = Some (Done ?ds)"
    using mem_serialize_ok [OF assms(1,2)] vals(1) by simp
  ultimately show ?thesis
    using r by blast
qed

text \<open>
  C30: the round trip on the store. Whatever nested list the nodes behind a descriptor stand for, the
  writer ends and gives its levels; and the reader, on any store with enough unused addresses, builds
  from them a list that stands for the same value, with the pointers of every descriptor in it leading
  to the nodes that were built for it, all of them new; no node that was there before is touched.
\<close>

theorem store_round_trip:
  assumes "stands (=) m F desc ps xs" and "\<forall>x \<in> set xs. item_ok x" and "length xs < 2 ^ 32"
    and "\<forall>j. length (level j [] 0 xs) < 2 ^ 31" and "fresh_in m2 as" and "set as \<subseteq> {..<2 ^ 64}"
    and "(\<Sum>j \<leftarrow> [0..<depth xs]. length (level j [] 0 xs)) \<le> length as"
  shows "\<exists>dataset desc' m' F' ps'. mem_serialize m desc [] = Some (Done dataset)
    \<and> mem_unserialize dataset None (allocs as) m2 = Done (desc', m')
    \<and> stands same_but_links m' F' desc' ps' xs \<and> F' \<union> set ps' \<subseteq> set as \<and> agree_off (set as) m2 m'"
  by (rule store_levels [OF assms])

text \<open>A list of a block and a list of one block, in a store of three nodes.\<close>

definition link_bytes :: bytes where
  "link_bytes = adopt \<lparr>ldmagic = Q__LD_MAGIC, l_head = 24, l_tail = 24, l_count = 1\<rparr> (Q__LD_MAGIC @ replicate 30 0)"

definition items0 :: "item list" where
  "items0 = [Raw [1], Nest link_bytes [Raw [2, 3]]]"

definition store0 :: "bytes lmem" where
  "store0 = \<lparr>nodes = [8 \<mapsto> \<lparr>l_data = Some [1], l_size = 1, l_prev = 0, l_next = 16\<rparr>,
     16 \<mapsto> \<lparr>l_data = Some link_bytes, l_size = 40, l_prev = 8, l_next = 0\<rparr>,
     24 \<mapsto> \<lparr>l_data = Some [2, 3], l_size = 2, l_prev = 0, l_next = 0\<rparr>], lerr = 0\<rparr>"

definition list0 :: qListDescriptor where
  "list0 = \<lparr>ldmagic = Q__LD_MAGIC, l_head = 8, l_tail = 16, l_count = 2\<rparr>"

lemma link_bytes_facts:
  "length link_bytes = 40" "q__List_islist link_bytes 40 = 1"
  "l_head (desc_of link_bytes) = 24" "l_tail (desc_of link_bytes) = 24" "l_count (desc_of link_bytes) = 1"
  using desc_of_adopt [of "Q__LD_MAGIC @ replicate 30 0" "\<lparr>ldmagic = Q__LD_MAGIC, l_head = 24, l_tail = 24, l_count = 1\<rparr>"]
  by (simp_all add: link_bytes_def adopt_def q__List_islist_def sizeof_qListDescriptor_def Q__LD_MAGIC_def take_Cons')

lemma store0_stands: "stands (=) store0 {24} list0 [8, 16] items0"
proof -
  have "list_holds store0 (desc_of link_bytes) [24] [([2, 3], 2)]"
    by (simp add: list_holds_def store0_def link_bytes_facts cell_def full_def)
  then have "reps (=) store0 {24} (link_bytes, 40) (Nest link_bytes [Raw [2, 3]])"
    by (auto simp: link_bytes_facts(1) intro!: exI [of _ "[24]"] exI [of _ "[([2, 3], 2)]"])
  moreover have "list_holds store0 list0 [8, 16] [([1], 1), (link_bytes, 40)]"
    by (simp add: list_holds_def store0_def list0_def cell_def full_def)
  ultimately show ?thesis
    unfolding stands_def items0_def by (intro exI [of _ "[([1], 1), (link_bytes, 40)]"]) (simp del: reps.simps(2))
qed

lemma items0_levels: "length (level 0 [] 0 items0) = 57" "length (level (Suc 0) [] 0 items0) = 14"
  "level (Suc (Suc j)) [] 0 items0 = []" "depth items0 = 2"
  by (simp_all add: items0_def entry_def link_bytes_facts(1))

theorem store_round_trip_witness:
  "\<exists>dataset desc' m' F' ps'. mem_serialize store0 list0 [] = Some (Done dataset)
    \<and> mem_unserialize dataset None (allocs [100..<300]) store0 = Done (desc', m')
    \<and> stands same_but_links m' F' desc' ps' [Raw [1], Nest link_bytes [Raw [2, 3]]]
    \<and> nodes m' 24 = nodes store0 24"
proof -
  have "\<forall>x \<in> set items0. item_ok x"
    using link_bytes_facts(1,2) by (simp add: items0_def q__List_islist_def sizeof_qListDescriptor_def)
  moreover have "length (level j [] 0 items0) < 2 ^ 31" for j
    using items0_levels(3) by (cases j rule: nat.exhaust; cases "j - 1") (auto simp: items0_levels(1,2))
  moreover have "fresh_in store0 [100..<300]"
    by (simp add: fresh_in_def store0_def)
  moreover have "(\<Sum>j \<leftarrow> [0..<depth items0]. length (level j [] 0 items0)) \<le> length [100..<300]"
    by (simp add: items0_levels(4) numeral_2_eq_2 items0_levels(1,2))
  moreover have "length items0 < 2 ^ 32"
    by (simp add: items0_def)
  ultimately obtain dataset desc' m' F' ps' where
    "mem_serialize store0 list0 [] = Some (Done dataset)"
    "mem_unserialize dataset None (allocs [100..<300]) store0 = Done (desc', m')"
    "stands same_but_links m' F' desc' ps' items0" "agree_off (set [100..<300]) store0 m'"
    using store_round_trip [OF store0_stands, of store0 "[100..<300]"] by auto
  moreover from this(4) have "nodes m' 24 = nodes store0 24"
    by (simp add: agree_off_def)
  ultimately show ?thesis
    unfolding items0_def by blast
qed

end
