(* ===== verification/Socket.thy ===== *)
theory Socket
  imports Utils Net
begin

text \<open>
  \<^verbatim>\<open>zhwkre/network/socket.c\<close>, \<^verbatim>\<open>zhwkre/network/udp.c\<close>, the connection set-up of
  \<^verbatim>\<open>zhwkre/network/tcp.c\<close> and \<^verbatim>\<open>listenat\<close> and \<^verbatim>\<open>serveat\<close> of \<^verbatim>\<open>netwrap.c\<close>. The system calls
  and \<^verbatim>\<open>inet_pton\<close> are parameters: a function from the arguments that matter to the result. A local
  array that is not initialised is an argument too. Addresses are C strings, read up to the
  terminator. The log lines are not modelled.
\<close>

section \<open>Data\<close>

definition ZHWK_ERR_SOCK_DOMAIN_INVAL :: int where "ZHWK_ERR_SOCK_DOMAIN_INVAL = 30"
definition ZHWK_ERR_SOCK_ADDR_INVAL :: int where "ZHWK_ERR_SOCK_ADDR_INVAL = 31"
definition ZHWK_ERR_SOCK_FD_OPEN_FAIL :: int where "ZHWK_ERR_SOCK_FD_OPEN_FAIL = 32"
definition ZHWK_ERR_SOCK_BIND_FAIL :: int where "ZHWK_ERR_SOCK_BIND_FAIL = 33"
definition ZHWK_ERR_SOCK_CLOSE_FAIL :: int where "ZHWK_ERR_SOCK_CLOSE_FAIL = 34"
definition ZHWK_ERR_SOCK_SETOPT_FAIL :: int where "ZHWK_ERR_SOCK_SETOPT_FAIL = 35"
definition ZHWK_ERR_TCP_CONNECT_FAIL :: int where "ZHWK_ERR_TCP_CONNECT_FAIL = 40"
definition ZHWK_ERR_TCP_LISTEN_FAIL :: int where "ZHWK_ERR_TCP_LISTEN_FAIL = 41"
definition ZHWK_ERR_TCP_ACCEPT_FAIL :: int where "ZHWK_ERR_TCP_ACCEPT_FAIL = 42"
definition ZHWK_ERR_TCP_RECV_FAIL :: int where "ZHWK_ERR_TCP_RECV_FAIL = 44"
definition ZHWK_ERR_UDP_RECV_FAIL :: int where "ZHWK_ERR_UDP_RECV_FAIL = 50"
definition ZHWK_ERR_UDP_SEND_FAIL :: int where "ZHWK_ERR_UDP_SEND_FAIL = 51"

definition qIPv4 :: int where "qIPv4 = 2"
definition qStreamSocket :: int where "qStreamSocket = 1"
definition qDefaultProto :: int where "qDefaultProto = 0"

record qSocket =
  desc :: int
  domain :: int
  sotype :: int
  protocol :: int
  quickack :: int

text \<open>\<^verbatim>\<open>struct sockaddr_in\<close>; port and address in network order.\<close>

record sockaddr_in =
  sin_family :: int
  sin_port :: bytes
  sin_addr :: bytes

text \<open>\<^verbatim>\<open>htons\<close>, as the two bytes it stores.\<close>

definition htons :: "u16 \<Rightarrow> bytes" where
  "htons p = rev (le_bytes 2 p)"

section \<open>Addresses\<close>

definition colon :: byte where "colon = 58"

text \<open>
  The address is copied to \<open>tmpv\<close> without a terminator, and the converted address is stored at the
  beginning of the structure, 16 bytes long, whose address is in its bytes 4 to 7.
\<close>

definition str_to_ipv4addr :: "(bytes \<Rightarrow> bytes option) \<Rightarrow> bytes \<Rightarrow> bytes \<Rightarrow> bytes exec" where
  "str_to_ipv4addr inet_pton tmpv addrxport =
     (let divid = find_byte addrxport colon (strlen addrxport) in
      case (if divid \<noteq> -1 then memcpy tmpv 0 addrxport (nat divid) else strcpy tmpv addrxport) of
        None \<Rightarrow> Fault
      | Some tmpv \<Rightarrow>
          if 0 \<notin> set tmpv then Fault
          else
            (let tmpsck = replicate 16 0 in
             case inet_pton (cstr tmpv) of
               None \<Rightarrow> Done (take 4 (drop 4 tmpsck))
             | Some a \<Rightarrow>
                 (case memcpy tmpsck 0 a 4 of
                    None \<Rightarrow> Fault
                  | Some tmpsck \<Rightarrow> Done (take 4 (drop 4 tmpsck)))))"

text \<open>\<^verbatim>\<open>sscanf(s, "%d", ...)\<close>: blanks, a sign and digits; \<open>None\<close> when there is nothing to convert.\<close>

definition is_blank :: "byte \<Rightarrow> bool" where
  "is_blank b \<longleftrightarrow> b = 32 \<or> (9 \<le> b \<and> b \<le> 13)"

definition is_digit :: "byte \<Rightarrow> bool" where
  "is_digit b \<longleftrightarrow> 48 \<le> b \<and> b \<le> 57"

primrec digits_value :: "bytes \<Rightarrow> int \<Rightarrow> int" where
  "digits_value [] acc = acc"
| "digits_value (b # bs) acc = digits_value bs (10 * acc + (uint b - 48))"

definition scan_digits :: "bytes \<Rightarrow> int option" where
  "scan_digits s = (case takeWhile is_digit s of [] \<Rightarrow> None | ds \<Rightarrow> Some (digits_value ds 0))"

definition scan_int :: "bytes \<Rightarrow> int option" where
  "scan_int s =
     (case dropWhile is_blank (cstr s) of
        [] \<Rightarrow> None
      | b # bs \<Rightarrow>
          if b = 45 then map_option uminus (scan_digits bs)
          else if b = 43 then scan_digits bs
          else scan_digits (b # bs))"

text \<open>
  The port after the separator: at most ten bytes are copied to \<^verbatim>\<open>portstr\<close>, ten of them without a
  terminator. What is not a number leaves the port 0; a number is kept modulo \<open>2\<^sup>1\<^sup>6\<close>.
\<close>

definition parse_port :: "bytes \<Rightarrow> nat \<Rightarrow> u16 exec" where
  "parse_port addrxport separator_pos =
     (case memcpy (replicate 10 0) 0 (drop (separator_pos + 1) addrxport) (strlen addrxport - separator_pos - 1) of
        None \<Rightarrow> Fault
      | Some portstr \<Rightarrow>
          if 0 \<notin> set portstr then Fault
          else Done (case scan_int portstr of None \<Rightarrow> 0 | Some v \<Rightarrow> of_int v))"

text \<open>The address that \<^verbatim>\<open>qSocket_bind\<close> and \<^verbatim>\<open>qStreamSocket_connect\<close> build; \<open>None\<close> without a separator.\<close>

definition parse_addr :: "(bytes \<Rightarrow> bytes option) \<Rightarrow> bytes \<Rightarrow> bytes \<Rightarrow> (sockaddr_in option) exec" where
  "parse_addr inet_pton tmpv addrxport =
     (let separator_pos = find_byte addrxport colon (strlen addrxport) in
      if separator_pos = -1 then Done None
      else
        bind_exec (parse_port addrxport (nat separator_pos)) (\<lambda>hostport.
        bind_exec (if separator_pos \<noteq> 0 then str_to_ipv4addr inet_pton tmpv addrxport else Done (replicate 4 0)) (\<lambda>a.
        Done (Some \<lparr>sin_family = qIPv4, sin_port = htons hostport, sin_addr = a\<rparr>))))"

section \<open>Sockets\<close>

definition qSocket_constructor :: "int \<Rightarrow> int \<Rightarrow> int \<Rightarrow> qSocket" where
  "qSocket_constructor dmn ty proto = \<lparr>desc = -1, domain = dmn, sotype = ty, protocol = proto, quickack = 0\<rparr>"

text \<open>\<open>sys\<close> is the system call.\<close>

definition qSocket__open :: "(int \<Rightarrow> int \<Rightarrow> int \<Rightarrow> int) \<Rightarrow> qSocket \<Rightarrow> int \<Rightarrow> int \<times> qSocket \<times> int" where
  "qSocket__open sys sock err =
     (let d = sys (domain sock) (sotype sock) (protocol sock); sock = sock\<lparr>desc := d\<rparr> in
      if d = -1 then (-1, sock, ZHWK_ERR_SOCK_FD_OPEN_FAIL) else (0, sock, err))"

definition qSocket_bind ::
  "(bytes \<Rightarrow> bytes option) \<Rightarrow> bytes \<Rightarrow> (int \<Rightarrow> sockaddr_in \<Rightarrow> int) \<Rightarrow> qSocket \<Rightarrow> bytes \<Rightarrow> int \<Rightarrow> (int \<times> int) exec" where
  "qSocket_bind inet_pton tmpv sys sock addrxport err =
     (if domain sock \<noteq> qIPv4 then Done (-1, ZHWK_ERR_SOCK_DOMAIN_INVAL)
      else
        bind_exec (parse_addr inet_pton tmpv addrxport) (\<lambda>addr.
        case addr of
          None \<Rightarrow> Done (-1, ZHWK_ERR_SOCK_ADDR_INVAL)
        | Some addr \<Rightarrow>
            if sys (desc sock) addr = -1 then Done (-1, ZHWK_ERR_SOCK_BIND_FAIL) else Done (0, err)))"

text \<open>\<^verbatim>\<open>retv\<close> is the truth value of a comparison.\<close>

definition qSocket__close :: "(int \<Rightarrow> int) \<Rightarrow> qSocket \<Rightarrow> int \<Rightarrow> int \<times> qSocket \<times> int" where
  "qSocket__close sys sock err =
     (let retv = (if sys (desc sock) \<noteq> -1 then 1 else 0 :: int); sock = sock\<lparr>desc := -1\<rparr> in
      if retv = -1 then (-1, sock, ZHWK_ERR_SOCK_CLOSE_FAIL) else (0, sock, err))"

definition qSocket__destructor :: "(int \<Rightarrow> int) \<Rightarrow> qSocket \<Rightarrow> int \<Rightarrow> int \<times> qSocket \<times> int" where
  "qSocket__destructor sys sock err = qSocket__close sys sock err"

section \<open>Streams\<close>

definition qStreamSocket_connect ::
  "(bytes \<Rightarrow> bytes option) \<Rightarrow> bytes \<Rightarrow> (int \<Rightarrow> sockaddr_in \<Rightarrow> int) \<Rightarrow> qSocket \<Rightarrow> bytes \<Rightarrow> int \<Rightarrow> (int \<times> int) exec" where
  "qStreamSocket_connect inet_pton tmpv sys sock addrxport err =
     (if domain sock \<noteq> qIPv4 then Done (-1, ZHWK_ERR_SOCK_DOMAIN_INVAL)
      else
        bind_exec (parse_addr inet_pton tmpv addrxport) (\<lambda>addr.
        case addr of
          None \<Rightarrow> Done (-1, ZHWK_ERR_SOCK_ADDR_INVAL)
        | Some addr \<Rightarrow>
            if sys (desc sock) addr = -1 then Done (-1, ZHWK_ERR_TCP_CONNECT_FAIL) else Done (0, err)))"

definition qStreamSocket_listen :: "(int \<Rightarrow> int \<Rightarrow> int) \<Rightarrow> qSocket \<Rightarrow> int \<Rightarrow> int \<times> int" where
  "qStreamSocket_listen sys sock err = (if sys (desc sock) 128 = -1 then (-1, ZHWK_ERR_TCP_LISTEN_FAIL) else (0, err))"

text \<open>Decimal numbers and \<^verbatim>\<open>inet_ntoa\<close>.\<close>

fun decimal :: "nat \<Rightarrow> bytes" where
  "decimal n = (if n < 10 then [of_nat (48 + n)] else decimal (n div 10) @ [of_nat (48 + n mod 10)])"

declare decimal.simps [simp del]

definition inet_ntoa :: "bytes \<Rightarrow> bytes" where
  "inet_ntoa a = decimal (unat (a ! 0)) @ 46 # decimal (unat (a ! 1)) @ 46 # decimal (unat (a ! 2)) @ 46 # decimal (unat (a ! 3))"

text \<open>\<^verbatim>\<open>ntohs\<close>\<close>

definition ntohs :: "bytes \<Rightarrow> nat" where
  "ntohs p = 256 * unat (p ! 0) + unat (p ! 1)"

text \<open>The text \<^verbatim>\<open>address:port\<close>, written to the cleared beginning of a buffer.\<close>

definition write_source :: "bytes \<Rightarrow> bytes \<Rightarrow> bytes \<Rightarrow> bytes exec" where
  "write_source srcaddr a p =
     (case memcpy srcaddr 0 (replicate 26 0) 26 of
        None \<Rightarrow> Fault
      | Some buf \<Rightarrow>
          (let s = inet_ntoa a @ colon # decimal (ntohs p) in
           case memcpy buf 0 (s @ [0]) (length s + 1) of None \<Rightarrow> Fault | Some buf \<Rightarrow> Done buf))"

text \<open>
  \<open>acc\<close> is the descriptor that \<^verbatim>\<open>accept\<close> returns and what the address structure holds afterwards,
  also when the call fails.
\<close>

definition qStreamSocket_accept ::
  "int \<times> bytes \<times> bytes \<Rightarrow> qSocket \<Rightarrow> bytes \<Rightarrow> int \<Rightarrow> (qSocket \<times> bytes \<times> int) exec" where
  "qStreamSocket_accept acc sock srcaddr err =
     (case acc of
        (d, a, p) \<Rightarrow>
          let srcinfo = sock\<lparr>desc := d\<rparr>; err = (if d = -1 then ZHWK_ERR_TCP_ACCEPT_FAIL else err) in
          bind_exec (write_source srcaddr a p) (\<lambda>buf. Done (srcinfo, buf, err)))"

text \<open>The option is always switched on.\<close>

definition qStreamSocket__setQuickAck :: "(int \<Rightarrow> int \<Rightarrow> int) \<Rightarrow> qSocket \<Rightarrow> int \<Rightarrow> int \<Rightarrow> int \<times> qSocket \<times> int" where
  "qStreamSocket__setQuickAck sys sock qack err =
     (let sock = sock\<lparr>quickack := 1\<rparr>; ssopt = sys (desc sock) (quickack sock) in
      (ssopt, sock, if ssopt = -1 then ZHWK_ERR_SOCK_SETOPT_FAIL else err))"

text \<open>One byte; \<open>c\<close> keeps its value when nothing was read.\<close>

definition qStreamSocket_readchar :: "world \<Rightarrow> byte \<Rightarrow> int \<times> byte \<times> world" where
  "qStreamSocket_readchar w c =
     (case sys_read 1 (rx w) of (r, data, es) \<Rightarrow> (r, case data of [] \<Rightarrow> c | b # _ \<Rightarrow> b, w\<lparr>rx := es\<rparr>))"

text \<open>\<open>sys\<close> is \<^verbatim>\<open>recv\<close> with \<^verbatim>\<open>MSG_DONTWAIT\<close>: its result and the data.\<close>

definition qStreamSocket_nonblock_read :: "(u32 \<Rightarrow> int \<times> bytes) \<Rightarrow> u32 \<Rightarrow> int \<Rightarrow> int \<times> bytes \<times> int" where
  "qStreamSocket_nonblock_read sys n err =
     (case sys n of
        (actrlen, data) \<Rightarrow>
          (actrlen, data @ replicate (unat n - length data) 0, if actrlen = -1 then ZHWK_ERR_TCP_RECV_FAIL else err))"

definition qStreamSocket_nonblock_readChar :: "(u32 \<Rightarrow> int \<times> bytes) \<Rightarrow> int \<Rightarrow> int \<times> bytes \<times> int" where
  "qStreamSocket_nonblock_readChar sys err = qStreamSocket_nonblock_read sys 1 err"

section \<open>Datagrams\<close>

text \<open>\<open>rcv\<close> is the result of \<^verbatim>\<open>recvfrom\<close>, the data, and what the cleared address structure holds then.\<close>

definition qDatagramSocket_receive ::
  "int \<times> bytes \<times> bytes \<times> bytes \<Rightarrow> qSocket \<Rightarrow> bytes option \<Rightarrow> u32 \<Rightarrow> int \<Rightarrow> (int \<times> bytes option \<times> bytes option \<times> int) exec" where
  "qDatagramSocket_receive rcv sock srcaddr n err =
     (if domain sock \<noteq> qIPv4 then Done (-1, srcaddr, None, ZHWK_ERR_SOCK_ADDR_INVAL)
      else
        (case rcv of
           (actrlen, data, a, p) \<Rightarrow>
             bind_exec (case srcaddr of None \<Rightarrow> Done None | Some b \<Rightarrow> bind_exec (write_source b a p) (\<lambda>b. Done (Some b))) (\<lambda>b.
             Done (actrlen, b, Some (data @ replicate (unat n - length data) 0),
               if actrlen = -1 then ZHWK_ERR_UDP_RECV_FAIL else err))))"

text \<open>
  Without a separator the port is read from the beginning of the string; \<open>port0\<close> is what the
  uninitialised variable holds. The family of the destination stays 0.
\<close>

definition qDatagramSocket_send ::
  "(bytes \<Rightarrow> bytes option) \<Rightarrow> bytes \<Rightarrow> u16 \<Rightarrow> (int \<Rightarrow> bytes \<Rightarrow> sockaddr_in \<Rightarrow> int) \<Rightarrow> qSocket \<Rightarrow> bytes \<Rightarrow> bytes \<Rightarrow> int \<Rightarrow> (int \<times> int) exec" where
  "qDatagramSocket_send inet_pton tmpv port0 sys sock dest payload err =
     (if domain sock \<noteq> qIPv4 then Done (-1, ZHWK_ERR_SOCK_ADDR_INVAL)
      else
        (let separator_pos = find_byte dest colon (strlen dest) in
         bind_exec (str_to_ipv4addr inet_pton tmpv dest) (\<lambda>a.
         let tmpport = (case scan_int (drop (nat (separator_pos + 1)) dest) of None \<Rightarrow> port0 | Some v \<Rightarrow> of_int v);
             sentlen = sys (desc sock) payload \<lparr>sin_family = 0, sin_port = htons tmpport, sin_addr = a\<rparr>
         in Done (sentlen, if sentlen = -1 then ZHWK_ERR_UDP_SEND_FAIL else err))))"

section \<open>Serving\<close>

definition listenat ::
  "(int \<Rightarrow> int \<Rightarrow> int \<Rightarrow> int) \<Rightarrow> (bytes \<Rightarrow> bytes option) \<Rightarrow> bytes \<Rightarrow> (int \<Rightarrow> sockaddr_in \<Rightarrow> int) \<Rightarrow> (int \<Rightarrow> int \<Rightarrow> int)
     \<Rightarrow> bytes \<Rightarrow> qSocket \<Rightarrow> int \<Rightarrow> (int \<times> qSocket \<times> int) exec" where
  "listenat sys_socket inet_pton tmpv sys_bind sys_listen addrxport listensock err =
     (let listensock = listensock\<lparr>sotype := qStreamSocket, domain := qIPv4, protocol := qDefaultProto\<rparr> in
      case qSocket__open sys_socket listensock err of
        (st, listensock, err) \<Rightarrow>
          if st \<noteq> 0 then Done (-1, listensock, err)
          else
            bind_exec (qSocket_bind inet_pton tmpv sys_bind listensock addrxport err) (\<lambda>(st, err).
            if st \<noteq> 0 then Done (-1, listensock, err)
            else
              (case qStreamSocket_listen sys_listen listensock err of
                 (st, err) \<Rightarrow> Done (if st \<noteq> 0 then -1 else 0, listensock, err))))"

record ConnInfo =
  ci_srcaddr :: bytes
  connuid :: int

text \<open>
  \<open>accs\<close> are the outcomes of \<^verbatim>\<open>malloc\<close> (the block it returns, \<open>None\<close> when it fails) and \<^verbatim>\<open>accept\<close> in
  the iterations of the loop; the loop is left only when an \<^verbatim>\<open>accept\<close> fails, so that the result is
  \<open>None\<close> while it still runs. The value is what the routine was started with, in order, and the
  descriptors that were accepted.
\<close>

fun serveat ::
  "(bytes option \<times> int \<times> bytes \<times> bytes) list \<Rightarrow> qSocket \<Rightarrow> int \<Rightarrow> int \<Rightarrow> (ConnInfo list \<times> int list \<times> int option \<times> int) exec" where
  "serveat [] listener buid err = Done ([], [], None, err)"
| "serveat ((conn, acc) # accs) listener buid err =
     (case conn of
        None \<Rightarrow> Fault
      | Some srcaddr \<Rightarrow>
          bind_exec (qStreamSocket_accept acc listener srcaddr err) (\<lambda>(incoming, srcaddr, err).
          if desc incoming = -1 then Done ([], [], Some (-1), err)
          else
            bind_exec (serveat accs listener (buid + 1) err) (\<lambda>(cis, ds, r, err).
            Done (\<lparr>ci_srcaddr = srcaddr, connuid = buid + 1\<rparr> # cis, desc incoming # ds, r, err))))"

end
