(* ===== verification/SocketProps.thy ===== *)
theory SocketProps
  imports Socket
begin

text \<open>
  Which address the sockets are bound and connected to, the text of the peer's address, and what the
  serving loop hands on.
\<close>

section \<open>Decimal numbers\<close>

lemma digit_byte:
  assumes "k < 10"
  shows "uint (of_nat (48 + k) :: byte) = int (48 + k)" "is_digit (of_nat (48 + k))" "(of_nat (48 + k) :: byte) \<noteq> 0"
proof -
  have u: "unat (of_nat (48 + k) :: byte) = 48 + k"
    using assms unfolding unat_of_nat by simp
  show "uint (of_nat (48 + k) :: byte) = int (48 + k)"
    using u by (metis uint_nat)
  show "is_digit (of_nat (48 + k))"
    using u assms by (simp add: is_digit_def word_le_nat_alt del: of_nat_add)
  show "(of_nat (48 + k) :: byte) \<noteq> 0"
    using u by (metis add_eq_0_iff_both_eq_0 unat_0 zero_neq_numeral)
qed

lemma digits_value_snoc: "digits_value (xs @ [b]) acc = 10 * digits_value xs acc + (uint b - 48)"
  by (induction xs arbitrary: acc) auto

lemma decimal_value: "digits_value (decimal n) 0 = int n"
proof (induction n rule: decimal.induct)
  case (1 n)
  show ?case
  proof (cases "n < 10")
    case True
    then show ?thesis
      using digit_byte(1) [OF True] by (subst decimal.simps) (simp del: of_nat_add)
  next
    case False
    have "n mod 10 < 10"
      by simp
    then have "digits_value (decimal n) 0 = 10 * int (n div 10) + (int (48 + n mod 10) - 48)"
      using False 1 digit_byte(1) [of "n mod 10"] by (subst decimal.simps) (simp add: digits_value_snoc del: of_nat_add)
    moreover have "n = 10 * (n div 10) + n mod 10"
      by simp
    ultimately show ?thesis
      by linarith
  qed
qed

lemma decimal_digits: "b \<in> set (decimal n) \<Longrightarrow> is_digit b \<and> b \<noteq> 0"
proof (induction n rule: decimal.induct)
  case (1 n)
  then show ?case
    using digit_byte(2,3) [of n] digit_byte(2,3) [of "n mod 10"]
    by (cases "n < 10") (auto simp: decimal.simps [of n] simp del: of_nat_add)
qed

lemma decimal_nonempty [simp]: "decimal n \<noteq> []"
  by (subst decimal.simps) simp

lemma decimal_length: "n < 10 ^ Suc k \<Longrightarrow> length (decimal n) \<le> Suc k"
proof (induction k arbitrary: n)
  case 0
  then show ?case
    by (subst decimal.simps) simp
next
  case (Suc k)
  have "n div 10 < 10 ^ Suc k"
    using Suc.prems by (simp add: div_less_iff_less_mult mult.commute)
  then show ?case
    using Suc.IH [of "n div 10"] by (subst decimal.simps) simp
qed

lemma scan_decimal: "scan_int (decimal n @ 0 # s) = Some (int n)"
proof -
  have d: "\<forall>b \<in> set (decimal n). is_digit b \<and> b \<noteq> 0"
    using decimal_digits by blast
  then have c: "cstr (decimal n @ 0 # s) = decimal n"
    by (simp add: cstr_def takeWhile_append2)
  obtain b bs where b: "decimal n = b # bs"
    using decimal_nonempty [of n] by (cases "decimal n") auto
  then have "is_digit b"
    using d by simp
  then have nb: "\<not> is_blank b" "b \<noteq> 45" "b \<noteq> 43"
    by (auto simp: is_digit_def is_blank_def word_le_nat_alt)
  have "takeWhile is_digit (decimal n) = decimal n"
    using d by (simp add: takeWhile_eq_all_conv)
  then have "scan_digits (decimal n) = Some (int n)"
    using decimal_value [of n] b by (simp add: scan_digits_def)
  then show ?thesis
    using c b nb by (simp add: scan_int_def)
qed

lemma unat_byte_bound: "unat (b :: byte) < 256"
  using unsigned_less [of b, where 'a = nat] by simp

section \<open>Addresses\<close>

lemma find_first: "c \<notin> set h \<Longrightarrow> length h < n \<Longrightarrow> find_byte (h @ c # s) c n = int (length h)"
proof -
  assume a: "c \<notin> set h" "length h < n"
  let ?x = "h @ c # s"
  from find_byte_loop_first [OF refl, of ?x c 0 n] show ?thesis
  proof (elim disjE exE conjE)
    assume "\<forall>j. 0 \<le> j \<and> j < 0 + n \<longrightarrow> ?x ! j \<noteq> c"
    then show ?thesis
      using a(2) by (auto dest: spec [of _ "length h"])
  next
    fix k
    assume k: "find_byte_loop ?x c 0 n = int k" "?x ! k = c" "\<forall>j. 0 \<le> j \<and> j < k \<longrightarrow> ?x ! j \<noteq> c"
    have "\<not> k < length h"
      using k(2) a(1) by (auto simp: nth_append in_set_conv_nth)
    moreover have "\<not> length h < k"
      using k(3) by (auto dest: spec [of _ "length h"])
    ultimately show ?thesis
      using k(1) by (simp add: find_byte_def)
  qed
qed

lemma str_to_ipv4addr_zero: "str_to_ipv4addr inet_pton tmpv s = Done a \<Longrightarrow> a = replicate 4 0"
  by (auto simp: str_to_ipv4addr_def memcpy_def Let_def numeral_eq_Suc split: option.splits if_splits)

lemma parse_addr_zero: "parse_addr inet_pton tmpv s = Done (Some a) \<Longrightarrow> sin_addr a = replicate 4 0"
  unfolding parse_addr_def Let_def
  by (auto simp: bind_exec_def dest: str_to_ipv4addr_zero split: exec.splits if_splits)

lemma cstr_terminated: "0 \<notin> set s \<Longrightarrow> cstr (s @ 0 # r) = s"
  by (induction s) (auto simp: cstr_def)

lemma cstr_addr: "0 \<notin> set h \<Longrightarrow> cstr (h @ colon # decimal n @ [0]) = h @ colon # decimal n"
proof -
  assume h: "0 \<notin> set h"
  have d: "0 \<notin> set (decimal n)"
    using decimal_digits by blast
  show ?thesis
    using cstr_terminated [of "h @ colon # decimal n" "[]"] h d by (simp add: colon_def)
qed

lemma parse_port_decimal:
  assumes "0 \<notin> set h" and "n < 65536"
  shows "parse_port (h @ colon # decimal n @ [0]) (length h) = Done (of_nat n)"
proof -
  let ?s = "h @ colon # decimal n @ [0]"
  have len: "strlen ?s - length h - 1 = length (decimal n)"
    using cstr_addr [OF assms(1), of n] by (simp add: strlen_def)
  have "length (decimal n) \<le> 5"
    using assms(2) decimal_length [of n 4] by simp
  then have "memcpy (replicate 10 0) 0 (decimal n @ [0]) (length (decimal n)) = Some (decimal n @ replicate (10 - length (decimal n)) 0)"
    and z: "10 - length (decimal n) = Suc (9 - length (decimal n))"
    by (simp_all add: memcpy_def Suc_diff_le)
  then show ?thesis
    unfolding parse_port_def len by (simp add: z scan_decimal)
qed

text \<open>
  An address string that is only a port stands for that port of the wildcard address: the system call
  gets exactly that address, and its outcome is reported.
\<close>

lemma bind_to_port:
  assumes "domain sock = qIPv4" and "n < 65536"
  shows "qSocket_bind inet_pton tmpv sys sock (colon # decimal n @ [0]) err
    = Done (if sys (desc sock) \<lparr>sin_family = 2, sin_port = htons (of_nat n), sin_addr = replicate 4 0\<rparr> = -1
            then (-1, ZHWK_ERR_SOCK_BIND_FAIL) else (0, err))"
proof -
  have "0 < strlen (colon # decimal n @ [0])"
    using cstr_addr [of "[]" n] by (simp add: strlen_def)
  then have "find_byte (colon # decimal n @ [0]) colon (strlen (colon # decimal n @ [0])) = 0"
    using find_first [of colon "[]"] by simp
  then show ?thesis
    using assms parse_port_decimal [of "[]" n] by (simp add: qSocket_bind_def parse_addr_def Let_def qIPv4_def)
qed

section \<open>Properties\<close>

text \<open>
  C40: the host part of an address never reaches the system call: connecting and binding behave as if
  the address given to the system call were 0.0.0.0, whatever the string says and whatever
  \<^verbatim>\<open>inet_pton\<close> makes of it, because the converted address is stored over the family and the port of
  the structure.
\<close>

theorem host_is_ignored:
  "qStreamSocket_connect inet_pton tmpv sys sock s err
     = qStreamSocket_connect inet_pton tmpv (\<lambda>d a. sys d (a\<lparr>sin_addr := replicate 4 0\<rparr>)) sock s err
   \<and> qSocket_bind inet_pton tmpv sys sock s err
     = qSocket_bind inet_pton tmpv (\<lambda>d a. sys d (a\<lparr>sin_addr := replicate 4 0\<rparr>)) sock s err"
proof (cases "parse_addr inet_pton tmpv s")
  case (Done r)
  then show ?thesis
  proof (cases r)
    case (Some a)
    then have "a\<lparr>sin_addr := replicate 4 0\<rparr> = a"
      using parse_addr_zero [of inet_pton tmpv s a] Done by simp
    then show ?thesis
      using Done Some by (simp add: qStreamSocket_connect_def qSocket_bind_def)
  qed (simp add: qStreamSocket_connect_def qSocket_bind_def)
qed (simp add: qStreamSocket_connect_def qSocket_bind_def)

lemma write_source_ok:
  assumes "26 \<le> length srcaddr" and "length a = 4" and "length p = 2"
  shows "\<exists>buf. write_source srcaddr a p = Done buf \<and> length buf = length srcaddr
    \<and> cstr buf = inet_ntoa a @ colon # decimal (ntohs p)"
proof -
  let ?s = "inet_ntoa a @ colon # decimal (ntohs p)"
  have d3: "length (decimal (unat (b :: byte))) \<le> 3" for b
    using decimal_length [of "unat b" 2] unat_byte_bound [of b] by simp
  have "ntohs p < 10 ^ Suc 4"
    using unat_byte_bound [of "p ! 0"] unat_byte_bound [of "p ! 1"] by (simp add: ntohs_def)
  then have "length (decimal (ntohs p)) \<le> 5"
    using decimal_length [of "ntohs p" 4] by simp
  then have len: "length ?s \<le> 21"
    using d3 [of "a ! 0"] d3 [of "a ! 1"] d3 [of "a ! 2"] d3 [of "a ! 3"] by (simp add: inet_ntoa_def)
  have nz: "0 \<notin> set ?s"
    using decimal_digits by (auto simp: inet_ntoa_def colon_def)
  have "memcpy srcaddr 0 (replicate 26 0) 26 = Some (replicate 26 0 @ drop 26 srcaddr)"
    using assms(1) by (simp add: memcpy_def)
  moreover have "memcpy (replicate 26 0 @ drop 26 srcaddr) 0 (?s @ [0]) (length ?s + 1)
      = Some ((?s @ [0]) @ drop (length ?s + 1) (replicate 26 0 @ drop 26 srcaddr))"
    using len by (simp add: memcpy_def)
  moreover have "cstr ((?s @ [0]) @ r) = ?s" for r
    using cstr_terminated [OF nz, of r] by simp
  moreover have "length ((?s @ [0]) @ drop (length ?s + 1) (replicate 26 0 @ drop 26 srcaddr)) = length srcaddr"
    using len assms(1) by simp
  ultimately show ?thesis
    by (auto simp: write_source_def Let_def)
qed

text \<open>
  Accepting a connection returns the accepted descriptor and writes the peer's address and port
  as text, which never overruns the 26 bytes that are cleared for it.
\<close>

lemma source_text_fits:
  assumes "26 \<le> length srcaddr" and "length a = 4" and "length p = 2"
  shows "\<exists>buf srcinfo err'. qStreamSocket_accept (d, a, p) sock srcaddr err = Done (srcinfo, buf, err')
    \<and> length buf = length srcaddr \<and> cstr buf = inet_ntoa a @ colon # decimal (ntohs p)
    \<and> desc srcinfo = d \<and> err' = (if d = -1 then ZHWK_ERR_TCP_ACCEPT_FAIL else err)"
  using write_source_ok [OF assms] by (auto simp: qStreamSocket_accept_def Let_def)

lemma source_text_fits_witness:
  "\<exists>buf srcinfo err'. qStreamSocket_accept (5, [127, 0, 0, 1], [42, 136]) (qSocket_constructor 2 1 0) (replicate 40 7) 0 = Done (srcinfo, buf, err')
    \<and> cstr buf = inet_ntoa [127, 0, 0, 1] @ colon # decimal (ntohs [42, 136]) \<and> desc srcinfo = 5 \<and> err' = 0"
  using source_text_fits [of "replicate 40 7" "[127, 0, 0, 1]" "[42, 136]" 5] by fastforce

text \<open>Closing a socket is reported as a success whatever the system call returns.\<close>

lemma close_never_fails: "qSocket__close sys sock err = (0, sock\<lparr>desc := -1\<rparr>, err)"
  by (simp add: qSocket__close_def)

text \<open>
  The routine of a connection is started without the connection: what it is given does not depend on
  the descriptors that were accepted.
\<close>

lemma serve_drops_descriptors:
  assumes "serveat accs listener buid err = Done (cis, ds, r, e)"
    and "list_all2 (\<lambda>(c, d, ap) (c', d', ap'). c = c' \<and> ap = ap' \<and> (d = -1 \<longleftrightarrow> d' = -1)) accs accs'"
  shows "\<exists>ds'. serveat accs' listener buid err = Done (cis, ds', r, e)"
  using assms(2,1)
proof (induction arbitrary: buid err cis ds r e rule: list_all2_induct)
  case (Cons x xs y ys)
  then show ?case
    by (fastforce simp: qStreamSocket_accept_def bind_exec_def split: exec.splits option.splits prod.splits if_splits)
qed simp

end
