(* ===== verification/Threads.thy ===== *)
theory Threads
  imports SocketProps
begin

text \<open>
  \<^verbatim>\<open>zhwkre/concurrent/mutex.c\<close>, \<^verbatim>\<open>zhwkre/concurrent/threading.c\<close> and the set-up in \<^verbatim>\<open>main\<close> of
  \<^verbatim>\<open>server.c\<close>. The results of the \<^verbatim>\<open>pthread\<close> functions, of \<^verbatim>\<open>malloc\<close>, of the socket calls and of the
  FUSE library are parameters. A mutex is the address of its block, 0 when there is none.
\<close>

section \<open>Mutexes\<close>

definition ZHWK_ERR_MUTEX_INIT_FAIL :: int where "ZHWK_ERR_MUTEX_INIT_FAIL = 60"
definition ZHWK_ERR_MUTEX_LOCK_FAIL :: int where "ZHWK_ERR_MUTEX_LOCK_FAIL = 61"
definition ZHWK_ERR_MUTEX_RELEASE_FAIL :: int where "ZHWK_ERR_MUTEX_RELEASE_FAIL = 62"
definition ZHWK_ERR_MUTEX_DESTROY_FAIL :: int where "ZHWK_ERR_MUTEX_DESTROY_FAIL = 63"
definition ZHWK_ERR_THREAD_CREATE_FAIL :: int where "ZHWK_ERR_THREAD_CREATE_FAIL = 70"
definition ZHWK_ERR_THREAD_DETACH_FAIL :: int where "ZHWK_ERR_THREAD_DETACH_FAIL = 71"
definition ZHWK_ERR_THREAD_JOIN_FAIL :: int where "ZHWK_ERR_THREAD_JOIN_FAIL = 72"

text \<open>\<open>a\<close> is what \<^verbatim>\<open>malloc\<close> returns, \<open>errn\<close> what the \<^verbatim>\<open>pthread\<close> function returns.\<close>

definition qMutex_constructor :: "nat option \<Rightarrow> int \<Rightarrow> int \<Rightarrow> nat \<times> int" where
  "qMutex_constructor a errn err =
     (case a of
        None \<Rightarrow> (0, ZHWK_ERR_MM_ALLOC_FAIL)
      | Some mu \<Rightarrow> (mu, if errn = -1 then ZHWK_ERR_MUTEX_INIT_FAIL else err))"

definition q__Mutex_lock :: "(nat \<Rightarrow> int) \<Rightarrow> nat \<Rightarrow> int \<Rightarrow> int" where
  "q__Mutex_lock pthread_mutex_lock mu err = (if pthread_mutex_lock mu = -1 then ZHWK_ERR_MUTEX_LOCK_FAIL else err)"

definition q__Mutex_unlock :: "(nat \<Rightarrow> int) \<Rightarrow> nat \<Rightarrow> int \<Rightarrow> int" where
  "q__Mutex_unlock pthread_mutex_unlock mu err = (if pthread_mutex_unlock mu = -1 then ZHWK_ERR_MUTEX_RELEASE_FAIL else err)"

definition qMutex__destructor :: "(nat \<Rightarrow> int) \<Rightarrow> nat \<Rightarrow> int \<Rightarrow> nat \<times> int" where
  "qMutex__destructor pthread_mutex_destroy mu err =
     (0, if pthread_mutex_destroy mu = -1 then ZHWK_ERR_MUTEX_DESTROY_FAIL else err)"

section \<open>Threads\<close>

text \<open>
  \<open>pthread_create\<close> returns its result and what the uninitialised thread number holds afterwards.
\<close>

definition qStart :: "int \<times> nat \<Rightarrow> int \<Rightarrow> nat \<times> int" where
  "qStart pthread_create err =
     (case pthread_create of (errn, thr) \<Rightarrow> (thr, if errn = -1 then ZHWK_ERR_THREAD_CREATE_FAIL else err))"

definition qDetach :: "(nat \<Rightarrow> int) \<Rightarrow> nat \<Rightarrow> int \<Rightarrow> int \<times> int" where
  "qDetach pthread_detach thr err =
     (let errn = pthread_detach thr in (errn, if errn = -1 then ZHWK_ERR_THREAD_DETACH_FAIL else err))"

definition qRun :: "int \<times> nat \<Rightarrow> (nat \<Rightarrow> int) \<Rightarrow> int \<Rightarrow> int \<times> int" where
  "qRun pthread_create pthread_detach err =
     (case qStart pthread_create 0 of
        (tmpthr, err) \<Rightarrow> if err \<noteq> 0 then (-1, err) else qDetach pthread_detach tmpthr err)"

text \<open>\<open>pthread_join\<close> gives its result and the value of the thread, \<open>None\<close> when it stored none.\<close>

definition qWait :: "(nat \<Rightarrow> int \<times> nat option) \<Rightarrow> nat \<Rightarrow> int \<Rightarrow> nat \<times> int" where
  "qWait pthread_join thr err =
     (case pthread_join thr of
        (errn, v) \<Rightarrow> ((case v of None \<Rightarrow> 0 | Some x \<Rightarrow> x), if errn = -1 then ZHWK_ERR_THREAD_JOIN_FAIL else err))"

section \<open>Set-up of the server\<close>

text \<open>\<^verbatim>\<open>strdup(":10888")\<close>\<close>

definition default_addr :: bytes where
  "default_addr = [58, 49, 48, 56, 56, 56, 0]"

text \<open>
  The calls of libfuse are parameters: \<open>fuse_new\<close> is the address it returns, 0 when it fails, and \<open>fuse_mount\<close>
  and \<open>fuse_loop\<close> take that address as they get it from \<^verbatim>\<open>main\<close>, which does not look at it. They may fault on
  it. \<open>mountpoint\<close> is \<^verbatim>\<open>argv[1]\<close>, \<open>None\<close> when there is no argument. \<^verbatim>\<open>strdup\<close> is taken to succeed.
\<close>

datatype fuse_step = FuseMount nat "bytes option" | FuseLoop nat | FuseUnmount nat | FuseDestroy nat

text \<open>
  The value is the exit status, the calls of libfuse in their order, and the connected socket when there
  is one.
\<close>

definition server_main ::
  "nat option \<Rightarrow> int \<Rightarrow> (int \<Rightarrow> int \<Rightarrow> int \<Rightarrow> int) \<Rightarrow> (bytes \<Rightarrow> bytes option) \<Rightarrow> bytes \<Rightarrow> (int \<Rightarrow> sockaddr_in \<Rightarrow> int) \<Rightarrow> (int \<Rightarrow> int \<Rightarrow> int)
     \<Rightarrow> int \<times> bytes \<times> bytes \<Rightarrow> (int \<Rightarrow> int) \<Rightarrow> nat \<Rightarrow> (nat \<Rightarrow> bytes option \<Rightarrow> int exec) \<Rightarrow> (nat \<Rightarrow> int exec) \<Rightarrow> bytes option
     \<Rightarrow> qSocket \<Rightarrow> bytes \<Rightarrow> int \<Rightarrow> (int \<times> fuse_step list \<times> qSocket option) exec" where
  "server_main a errn sys_socket inet_pton tmpv sys_bind sys_listen acc sys_close fuse_new fuse_mount fuse_loop
       mountpoint lisock srcaddr err =
     (case qMutex_constructor a errn err of
        (mu, err) \<Rightarrow>
          let lisock = lisock\<lparr>domain := qIPv4, sotype := qStreamSocket, protocol := qDefaultProto\<rparr> in
          (case qSocket__open sys_socket lisock err of
             (st, lisock, err) \<Rightarrow>
               if st \<noteq> 0 then Done (-1, [], None)
               else
                 bind_exec (qSocket_bind inet_pton tmpv sys_bind lisock default_addr err) (\<lambda>(st, err).
                 if st \<noteq> 0 then Done (-1, [], None)
                 else
                   (case qStreamSocket_listen sys_listen lisock err of
                      (st, err) \<Rightarrow>
                        if st \<noteq> 0 then Done (-1, [], None)
                        else
                          bind_exec (qStreamSocket_accept acc lisock srcaddr err) (\<lambda>(sock, srcaddr, err).
                          if desc sock = -1 then Done (1, [], None)
                          else
                            (case qSocket__close sys_close lisock err of
                               (st, lisock, err) \<Rightarrow>
                                 let f = fuse_new in
                                 bind_exec (fuse_mount f mountpoint) (\<lambda>mounted.
                                 if mounted \<noteq> 0 then Done (-1, [FuseMount f mountpoint, FuseDestroy f], Some sock)
                                 else
                                   bind_exec (fuse_loop f) (\<lambda>looped.
                                   if looped \<noteq> 0 then
                                     Done (-1, [FuseMount f mountpoint, FuseLoop f, FuseUnmount f, FuseDestroy f], Some sock)
                                   else Done (0, [FuseMount f mountpoint, FuseLoop f], Some sock)))))))))"

section \<open>Properties\<close>

text \<open>
  The \<^verbatim>\<open>pthread\<close> functions report an error by a positive number, so that none of the wrappers ever
  records one, and a thread that could not be created is detached all the same.
\<close>

lemma pthread_errors_unseen:
  assumes "0 \<le> errn" and "\<forall>x. 0 \<le> f x"
  shows "snd (qMutex_constructor (Some mu) errn err) = err" "q__Mutex_lock f mu err = err" "q__Mutex_unlock f mu err = err"
    "snd (qMutex__destructor f mu err) = err" "snd (qStart (errn, thr) err) = err" "qRun (errn, thr) f err = (f thr, 0)"
proof -
  have "f x \<noteq> -1" for x
    using assms(2) [rule_format, of x] by linarith
  then show "snd (qMutex_constructor (Some mu) errn err) = err" "q__Mutex_lock f mu err = err" "q__Mutex_unlock f mu err = err"
    "snd (qMutex__destructor f mu err) = err" "snd (qStart (errn, thr) err) = err" "qRun (errn, thr) f err = (f thr, 0)"
    using assms(1) by (simp_all add: qMutex_constructor_def q__Mutex_lock_def q__Mutex_unlock_def qMutex__destructor_def
        qStart_def qRun_def qDetach_def Let_def)
qed

lemma default_addr_port: "default_addr = colon # decimal 10888 @ [0]"
  by (simp add: default_addr_def colon_def decimal.simps)

lemma accept_writes:
  assumes "26 \<le> length srcaddr" and "length a = 4" and "length p = 2"
  shows "\<exists>buf err'. qStreamSocket_accept (d, a, p) sock srcaddr err = Done (sock\<lparr>desc := d\<rparr>, buf, err')"
  using write_source_ok [OF assms] by (auto simp: qStreamSocket_accept_def Let_def)

text \<open>
  C34: the server's set-up listens on port 10888 of all addresses, takes the first connection, mounts and
  enters the FUSE loop with it. When opening, binding, listening, accepting, mounting or the loop fails it ends
  with a non-zero status, having called nothing of libfuse before the connection stands; a mounted file system is
  unmounted after a failed loop, and not after one that ends well. Whether the mutex was constructed and the
  listening socket closed makes no difference, and the result of \<^verbatim>\<open>fuse_new\<close> is handed on without a test, null
  pointer or not: if \<^verbatim>\<open>fuse_mount\<close> faults on it, so does the server.
\<close>

theorem server_setup:
  assumes "length srcaddr = 40" and "length a = 4" and "length p = 2"
  shows "server_main mua errn sys_socket inet_pton tmpv sys_bind sys_listen (d, a, p) sys_close f fuse_mount fuse_loop
      mp lisock srcaddr err
    = (let fd = sys_socket 2 1 0; sock = lisock\<lparr>domain := 2, sotype := 1, protocol := 0, desc := d\<rparr> in
        if fd = -1 \<or> sys_bind fd \<lparr>sin_family = 2, sin_port = htons 10888, sin_addr = replicate 4 0\<rparr> = -1 \<or> sys_listen fd 128 = -1
        then Done (-1, [], None)
        else if d = -1 then Done (1, [], None)
        else case fuse_mount f mp of
          Fault \<Rightarrow> Fault
        | Done r \<Rightarrow>
          if r \<noteq> 0 then Done (-1, [FuseMount f mp, FuseDestroy f], Some sock)
          else case fuse_loop f of
            Fault \<Rightarrow> Fault
          | Done r \<Rightarrow>
            if r \<noteq> 0 then Done (-1, [FuseMount f mp, FuseLoop f, FuseUnmount f, FuseDestroy f], Some sock)
            else Done (0, [FuseMount f mp, FuseLoop f], Some sock))"
proof -
  let ?l = "lisock\<lparr>domain := 2, sotype := 1, protocol := 0, desc := sys_socket 2 1 0\<rparr>"
  have b: "qSocket_bind inet_pton tmpv sys_bind ?l default_addr e
      = Done (if sys_bind (sys_socket 2 1 0) \<lparr>sin_family = 2, sin_port = htons 10888, sin_addr = replicate 4 0\<rparr> = -1
              then (-1, ZHWK_ERR_SOCK_BIND_FAIL) else (0, e))" for e
    unfolding default_addr_port using bind_to_port [of ?l 10888] by (simp add: qIPv4_def)
  have acc: "\<exists>buf err'. qStreamSocket_accept (d, a, p) ?l srcaddr e = Done (?l\<lparr>desc := d\<rparr>, buf, err')" for e
    using assms by (intro accept_writes) simp_all
  obtain mu e0 where m: "qMutex_constructor mua errn err = (mu, e0)"
    by (cases "qMutex_constructor mua errn err")
  obtain buf err' where ac: "qStreamSocket_accept (d, a, p) ?l srcaddr e0 = Done (?l\<lparr>desc := d\<rparr>, buf, err')"
    using acc by blast
  show ?thesis
    using m ac b [of e0]
    by (simp add: server_main_def qSocket__open_def qStreamSocket_listen_def close_never_fails qIPv4_def qStreamSocket_def
        qDefaultProto_def Let_def split: exec.splits)
qed

text \<open>A run that serves, and one in which \<^verbatim>\<open>fuse_new\<close> has failed and \<^verbatim>\<open>fuse_mount\<close> follows the null pointer.\<close>

theorem server_setup_witness:
  "server_main (Some 8) 0 (\<lambda>f t p. 3) (\<lambda>s. None) [] (\<lambda>d a. 0) (\<lambda>d n. 0) (4, [127, 0, 0, 1], [42, 136]) (\<lambda>d. 0)
     16 (\<lambda>f mp. if f = 0 then Fault else Done 0) (\<lambda>f. Done 0) (Some [47, 109, 0])
     (qSocket_constructor 0 0 0) (replicate 40 0) 0
   = Done (0, [FuseMount 16 (Some [47, 109, 0]), FuseLoop 16],
       Some \<lparr>desc = 4, domain = 2, sotype = 1, protocol = 0, quickack = 0\<rparr>)
   \<and> server_main (Some 8) 0 (\<lambda>f t p. 3) (\<lambda>s. None) [] (\<lambda>d a. 0) (\<lambda>d n. 0) (4, [127, 0, 0, 1], [42, 136]) (\<lambda>d. 0)
     0 (\<lambda>f mp. if f = 0 then Fault else Done 0) (\<lambda>f. Done 0) (Some [47, 109, 0])
     (qSocket_constructor 0 0 0) (replicate 40 0) 0 = Fault"
  using server_setup [of "replicate 40 0" "[127, 0, 0, 1]" "[42, 136]"] by (simp add: qSocket_constructor_def)

end
