(* ===== verification/TestRun.thy ===== *)
theory TestRun
  imports Log Zerror Utils
begin

text \<open>
  What the programs under \<^verbatim>\<open>zhwkre/tests\<close> are written in: a run prints, may leave through \<^verbatim>\<open>exit\<close>, may be
  undefined, and may never end. The counting loops and the loops over iterators are functions of their
  bodies, with one rule each.
\<close>

section \<open>Runs\<close>

text \<open>\<^verbatim>\<open>exit(st)\<close> is \<open>Exited st\<close>; undefined behaviour is \<open>Undef\<close>; a run that never ends is \<open>None\<close>.\<close>

datatype 'a ran = Ran 'a io | Exited int io | Undef

type_synonym 'a prog = "io \<Rightarrow> 'a ran option"

definition give :: "'a \<Rightarrow> 'a prog" where
  "give x io = Some (Ran x io)"

definition bind_run :: "'a prog \<Rightarrow> ('a \<Rightarrow> 'b prog) \<Rightarrow> 'b prog" where
  "bind_run p f io = Option.bind (p io) (\<lambda>r. case r of
     Ran x io \<Rightarrow> f x io
   | Exited st io \<Rightarrow> Some (Exited st io)
   | Undef \<Rightarrow> Some Undef)"

definition exit_run :: "int \<Rightarrow> 'a prog" where
  "exit_run st io = Some (Exited st io)"

text \<open>A computation of the modelled code, and one that writes to the streams.\<close>

definition calc :: "'a exec \<Rightarrow> 'a prog" where
  "calc r io = Some (case r of Fault \<Rightarrow> Undef | Done x \<Rightarrow> Ran x io)"

definition to_stream :: "(io \<Rightarrow> io exec) \<Rightarrow> unit prog" where
  "to_stream w io = Some (case w io of Fault \<Rightarrow> Undef | Done io \<Rightarrow> Ran () io)"

text \<open>\<^verbatim>\<open>printf(fmt, as)\<close> with a line end behind the text, and \<^verbatim>\<open>if(c){printf(fmt, as); exit(1);}\<close>.\<close>

definition print_line :: "string \<Rightarrow> arg list \<Rightarrow> unit prog" where
  "print_line fmt as = to_stream (fprintf Stdout (lit fmt @ [10]) as)"

definition fail_if :: "bool \<Rightarrow> string \<Rightarrow> arg list \<Rightarrow> unit prog" where
  "fail_if c fmt as = (if c then bind_run (print_line fmt as) (\<lambda>_. exit_run 1) else give ())"

section \<open>Loops\<close>

text \<open>\<^verbatim>\<open>for(int i = 0; i < n; i++)\<close>, with what the body changes as an argument.\<close>

fun for_loop :: "(nat \<Rightarrow> 's \<Rightarrow> 's prog) \<Rightarrow> nat \<Rightarrow> nat \<Rightarrow> 's \<Rightarrow> 's prog" where
  "for_loop body i 0 s = give s"
| "for_loop body i (Suc n) s = bind_run (body i s) (for_loop body (Suc i) n)"

text \<open>\<^verbatim>\<open>for(it = first; valid(it); it = nxt(it))\<close>\<close>

partial_function (option) iter_loop ::
  "('i \<Rightarrow> bool) \<Rightarrow> ('i \<Rightarrow> 'i exec) \<Rightarrow> ('i \<Rightarrow> 's \<Rightarrow> 's prog) \<Rightarrow> 'i \<Rightarrow> 's \<Rightarrow> io \<Rightarrow> 's ran option" where
  "iter_loop valid nxt body it s io =
     (if \<not> valid it then Some (Ran s io)
      else Option.bind (body it s io) (\<lambda>r. case r of
          Ran s io \<Rightarrow> (case nxt it of
              Fault \<Rightarrow> Some Undef
            | Done it \<Rightarrow> iter_loop valid nxt body it s io)
        | Exited st io \<Rightarrow> Some (Exited st io)
        | Undef \<Rightarrow> Some Undef))"

section \<open>Rules\<close>

named_theorems run_simps

lemma bind_run_simps [run_simps]:
  "p io = Some (Ran x io') \<Longrightarrow> bind_run p f io = f x io'"
  "p io = Some (Exited st io') \<Longrightarrow> bind_run p f io = Some (Exited st io')"
  "p io = None \<Longrightarrow> bind_run p f io = None"
  by (simp_all add: bind_run_def)

lemma give_run [run_simps]: "give x io = Some (Ran x io)"
  by (simp add: give_def)

lemma calc_run [run_simps]: "calc (Done x) io = Some (Ran x io)"
  by (simp add: calc_def)

lemma fail_if_False [run_simps]: "fail_if False fmt as io = Some (Ran () io)"
  by (simp add: fail_if_def give_def)

text \<open>What a line consists of.\<close>

lemma print_line_run:
  "printf (lit fmt @ [10]) as = Done text \<Longrightarrow> print_line fmt as io = Some (Ran () (write_to Stdout text io))"
  by (simp add: print_line_def to_stream_def fprintf_def)

lemma print_plain [run_simps]:
  "37 \<notin> set (lit fmt) \<Longrightarrow> print_line fmt as io = Some (Ran () (write_to Stdout (lit fmt @ [10]) io))"
  using printf_plain [of "lit fmt @ [10]" as] by (simp add: print_line_run del: write_to.simps)

lemma fail_if_run:
  "c \<Longrightarrow> printf (lit fmt @ [10]) as = Done text \<Longrightarrow>
   fail_if c fmt as io = Some (Exited 1 (write_to Stdout text io))"
  by (simp add: fail_if_def bind_run_def print_line_run exit_run_def)

text \<open>Lines of text, and how a number that is not negative is printed.\<close>

definition text_lines :: "string list \<Rightarrow> bytes" where
  "text_lines ss = concat (map (\<lambda>s. lit s @ [10]) ss)"

lemma digits_nonempty: "digits n \<noteq> []"
  by (subst digits.simps) simp

lemma fmt_int_nat: "fmt_int (Suc 0) (int n) = digits n" "fmt_int 1 (int n) = digits n"
  using digits_nonempty [of n] by (simp_all add: fmt_int_def Suc_le_eq)

text \<open>A loop whose turns keep an invariant and print nothing.\<close>

lemma for_loop_inv:
  assumes "\<And>j s. i \<le> j \<Longrightarrow> j < i + n \<Longrightarrow> I j s \<Longrightarrow> \<exists>s'. body j s io = Some (Ran s' io) \<and> I (Suc j) s'"
    and "I i s"
  shows "\<exists>s'. for_loop body i n s io = Some (Ran s' io) \<and> I (i + n) s'"
  using assms
proof (induction n arbitrary: i s)
  case (Suc n)
  obtain s1 where "body i s io = Some (Ran s1 io)" "I (Suc i) s1"
    using Suc.prems(1) [of i s] Suc.prems(2) by auto
  moreover have "\<exists>s'. for_loop body (Suc i) n s1 io = Some (Ran s' io) \<and> I (Suc i + n) s'"
    using Suc.prems(1) \<open>I (Suc i) s1\<close> by (intro Suc.IH) auto
  ultimately show ?case
    by (auto simp: run_simps)
qed (simp add: run_simps)

text \<open>A loop that only looks.\<close>

lemma for_loop_checks:
  assumes "\<And>j. j < n \<Longrightarrow> body j s io = Some (Ran s io)"
  shows "for_loop body 0 n s io = Some (Ran s io)"
  using for_loop_inv [of 0 n "\<lambda>j t. t = s" body io s] assms by auto

text \<open>The positions a loop over iterators visits.\<close>

fun visits :: "('i \<Rightarrow> bool) \<Rightarrow> ('i \<Rightarrow> 'i exec) \<Rightarrow> 'i \<Rightarrow> 'i list \<Rightarrow> bool" where
  "visits valid nxt it [] \<longleftrightarrow> \<not> valid it"
| "visits valid nxt it (x # xs) \<longleftrightarrow> x = it \<and> valid it \<and> (\<exists>it'. nxt it = Done it' \<and> visits valid nxt it' xs)"

lemma iter_loop_visits:
  assumes "visits valid nxt it its" and "\<And>j. j < length its \<Longrightarrow> body (its ! j) (f j) io = Some (Ran (f (Suc j)) io)"
  shows "iter_loop valid nxt body it (f 0) io = Some (Ran (f (length its)) io)"
  using assms
proof (induction its arbitrary: it f)
  case Nil
  then show ?case
    by (subst iter_loop.simps) simp
next
  case (Cons x xs)
  from Cons.prems(1) obtain it' where it: "x = it" "valid it" "nxt it = Done it'" "visits valid nxt it' xs"
    by auto
  have "iter_loop valid nxt body it' (f (Suc 0)) io = Some (Ran (f (Suc (length xs))) io)"
    using Cons.IH [of it' "\<lambda>j. f (Suc j)", OF it(4)] Cons.prems(2) [of "Suc j" for j] by simp
  then show ?case
    using it Cons.prems(2) [of 0] by (subst iter_loop.simps) simp
qed

section \<open>Numbers as blocks\<close>

text \<open>The four bytes of an \<^verbatim>\<open>int\<close>, and \<^verbatim>\<open>*(int*)p\<close> for a pointer to a block.\<close>

definition int_block :: "int \<Rightarrow> bytes" where
  "int_block i = le_bytes 4 (word_of_int i :: u32)"

definition int_at :: "bytes \<Rightarrow> int" where
  "int_at b = sint (of_le (take 4 b) :: u32)"

definition int_deref :: "bytes \<Rightarrow> int exec" where
  "int_deref b = (if length b < 4 then Fault else Done (int_at b))"

lemma length_int_block [simp]: "length (int_block i) = 4"
  by (simp add: int_block_def)

lemma int_at_block [simp]: "- (2 ^ 31) \<le> i \<Longrightarrow> i < 2 ^ 31 \<Longrightarrow> int_at (int_block i @ r) = i"
  by (simp add: int_block_def int_at_def of_le_le_bytes signed_of_int signed_take_bit_int_eq_self)

lemma int_at_block0 [simp]: "- (2 ^ 31) \<le> i \<Longrightarrow> i < 2 ^ 31 \<Longrightarrow> int_at (int_block i) = i"
  using int_at_block [of i "[]"] by simp

lemma int_deref_block [simp]:
  "- (2 ^ 31) \<le> i \<Longrightarrow> i < 2 ^ 31 \<Longrightarrow> int_deref (int_block i @ r) = Done i"
  "- (2 ^ 31) \<le> i \<Longrightarrow> i < 2 ^ 31 \<Longrightarrow> int_deref (int_block i) = Done i"
  by (simp_all add: int_deref_def)

text \<open>
  \<^verbatim>\<open>int_comparator\<close> of the tests of the trees. It ends the process when one of the sizes is not 4; the trees
  below only hold blocks of four bytes. The difference of two non-negative numbers is in range.
\<close>

definition int_comparator :: "bytes \<Rightarrow> bytes \<Rightarrow> int" where
  "int_comparator a b = int_at a - int_at b"

text \<open>\<^verbatim>\<open>fatalerr()\<close>, whose error line is left out.\<close>

definition fatal_run :: "int \<Rightarrow> unit prog" where
  "fatal_run err = (case fatalerr err of None \<Rightarrow> exit_run (-1) | Some _ \<Rightarrow> give ())"

lemma fatal_run_0 [run_simps]: "fatal_run 0 io = Some (Ran () io)"
  by (simp add: fatal_run_def fatalerr_def give_def)

section \<open>The tests of the trees\<close>

lemma int_comparator_order: "comparator int_comparator"
  by unfold_locales (auto simp: int_comparator_def)

lemma int_block_cmp:
  "i < 2 ^ 31 - 1 \<Longrightarrow> j < 2 ^ 31 - 1 \<Longrightarrow> int_comparator (int_block (int i)) (int_block (int j)) = int i - int j"
  by (simp add: int_comparator_def)

text \<open>Numbers in ascending order below the largest \<^verbatim>\<open>int\<close>.\<close>

definition small :: "nat list \<Rightarrow> bool" where
  "small js \<longleftrightarrow> sorted_wrt (<) js \<and> (\<forall>j \<in> set js. j < 2 ^ 31 - 1) \<and> length js < 2 ^ 31"

lemma small_upt: "n < 2 ^ 31 \<Longrightarrow> small [0..<n]"
  by (auto simp: small_def)

lemma small_filter: "small js \<Longrightarrow> small (filter P js)"
  unfolding small_def using le_less_trans [OF length_filter_le [of P js]] by (auto simp: sorted_wrt_filter)

text \<open>What is left when the odd numbers below \<open>j\<close> have been removed.\<close>

definition left_at :: "nat \<Rightarrow> nat \<Rightarrow> nat list" where
  "left_at n j = filter (\<lambda>i. i < j \<longrightarrow> even i) [0..<n]"

lemma small_left: "n < 2 ^ 31 \<Longrightarrow> small (left_at n j)"
  unfolding left_at_def by (intro small_filter small_upt)

lemma left_at_ends: "left_at n 0 = [0..<n]" "left_at n n = filter even [0..<n]"
  by (auto simp: left_at_def intro: filter_cong)

lemma length_evens: "length (filter even [0..<n]) = (n + 1) div 2"
  by (induction n) auto

lemma left_at_even: "even j \<Longrightarrow> left_at n (Suc j) = left_at n j"
  unfolding left_at_def by (rule filter_cong) (auto simp: less_Suc_eq)

lemma left_at_odd: "odd j \<Longrightarrow> filter (\<lambda>i. i \<noteq> j) (left_at n j) = left_at n (Suc j)"
  unfolding left_at_def filter_filter by (rule filter_cong) (auto simp: less_Suc_eq)

text \<open>The lines that both tests can end with.\<close>

lemma size_of_nat: "n < 2 ^ 31 \<Longrightarrow> m < 2 ^ 31 \<Longrightarrow> (of_nat n :: u32) = of_nat m \<longleftrightarrow> n = m"
  by (simp add: word_of_nat_eq_iff take_bit_nat_eq_self)

lemma passed_line:
  "print_line ''[YES] Test passed with %d elements.'' [AInt (int n)] io
     = Some (Ran () (write_to Stdout (lit ''[YES] Test passed with '' @ digits n @ lit '' elements.'' @ [10]) io))"
  by (intro print_line_run) (simp add: lit_def directive_def fmt_int_nat)

lemma size_line:
  assumes "m < 2 ^ 31" and "c"
  shows "fail_if c ''[ERR] Recorded size is %d, expected %d.'' [AUInt (of_nat m), AInt (int n)] io
     = Some (Exited 1 (write_to Stdout (lit ''[ERR] Recorded size is '' @ digits m @ lit '', expected '' @ digits n @ lit ''.'' @ [10]) io))"
  using assms by (intro fail_if_run) (simp_all add: lit_def directive_def fmt_int_nat unat_of_nat)

text \<open>
  The outcome of both tests: the headings up to the removals, and then the success for an even number of
  elements. For an odd one \<open>n div 2\<close> elements are expected where \<open>(n + 1) div 2\<close> are left.
\<close>

definition tree_test_result :: "nat \<Rightarrow> io \<Rightarrow> int ran" where
  "tree_test_result n io =
     (let io = write_to Stdout (text_lines [''[DBG] Testing Insertion..'', ''[DBG] Testing Correctness..'',
          ''[DBG] Testing Iteration/Next ..'', ''[DBG] Testing Iteration/Prev ..'', ''[DBG] Testing Erase..'']) io
      in if even n
         then Ran 0 (write_to Stdout (lit ''[DBG] Testing Correctness..'' @ [10]
                @ lit ''[YES] Test passed with '' @ digits n @ lit '' elements.'' @ [10]) io)
         else Exited 1 (write_to Stdout (lit ''[ERR] Recorded size is '' @ digits ((n + 1) div 2)
                @ lit '', expected '' @ digits (n div 2) @ lit ''.'' @ [10]) io))"

text \<open>The headings.\<close>

lemma tree_test_headings:
  obtains io1 io2 io3 io4 io5 where "print_line ''[DBG] Testing Insertion..'' [] io = Some (Ran () io1)"
    "print_line ''[DBG] Testing Correctness..'' [] io1 = Some (Ran () io2)"
    "print_line ''[DBG] Testing Iteration/Next ..'' [] io2 = Some (Ran () io3)"
    "print_line ''[DBG] Testing Iteration/Prev ..'' [] io3 = Some (Ran () io4)"
    "print_line ''[DBG] Testing Erase..'' [] io4 = Some (Ran () io5)"
    "io5 = write_to Stdout (text_lines [''[DBG] Testing Insertion..'', ''[DBG] Testing Correctness..'',
          ''[DBG] Testing Iteration/Next ..'', ''[DBG] Testing Iteration/Prev ..'', ''[DBG] Testing Erase..'']) io"
proof -
  define io1 where "io1 = write_to Stdout (lit ''[DBG] Testing Insertion..'' @ [10]) io"
  define io2 where "io2 = write_to Stdout (lit ''[DBG] Testing Correctness..'' @ [10]) io1"
  define io3 where "io3 = write_to Stdout (lit ''[DBG] Testing Iteration/Next ..'' @ [10]) io2"
  define io4 where "io4 = write_to Stdout (lit ''[DBG] Testing Iteration/Prev ..'' @ [10]) io3"
  define io5 where "io5 = write_to Stdout (lit ''[DBG] Testing Erase..'' @ [10]) io4"
  have lines: "print_line ''[DBG] Testing Insertion..'' [] io = Some (Ran () io1)"
      "print_line ''[DBG] Testing Correctness..'' [] io1 = Some (Ran () io2)"
      "print_line ''[DBG] Testing Iteration/Next ..'' [] io2 = Some (Ran () io3)"
      "print_line ''[DBG] Testing Iteration/Prev ..'' [] io3 = Some (Ran () io4)"
      "print_line ''[DBG] Testing Erase..'' [] io4 = Some (Ran () io5)"
    unfolding io1_def io2_def io3_def io4_def io5_def by (rule print_plain, simp add: lit_def)+
  moreover have out: "io5 = write_to Stdout (text_lines [''[DBG] Testing Insertion..'', ''[DBG] Testing Correctness..'',
          ''[DBG] Testing Iteration/Next ..'', ''[DBG] Testing Iteration/Prev ..'', ''[DBG] Testing Erase..'']) io"
    unfolding io1_def io2_def io3_def io4_def io5_def write_to_write_to by (simp add: text_lines_def)
  ultimately show ?thesis
    using that by blast
qed

text \<open>How the runs of both tests end, once the removals are done.\<close>

lemma tree_test_end:
  assumes "n < 2 ^ 31" and "s = of_nat ((n + 1) div 2)"
    and "io5 = write_to Stdout (text_lines [''[DBG] Testing Insertion..'', ''[DBG] Testing Correctness..'',
          ''[DBG] Testing Iteration/Next ..'', ''[DBG] Testing Iteration/Prev ..'', ''[DBG] Testing Erase..'']) io"
    and "\<And>io. recheck io = Some (Ran d io)"
  shows "bind_run (fail_if (s \<noteq> of_nat (n div 2)) ''[ERR] Recorded size is %d, expected %d.'' [AUInt s, AInt (int (n div 2))]) (\<lambda>_.
     bind_run (print_line ''[DBG] Testing Correctness..'' []) (\<lambda>_.
     bind_run recheck (\<lambda>_.
     bind_run (print_line ''[YES] Test passed with %d elements.'' [AInt (int n)]) (\<lambda>_.
     give 0)))) io5 = Some (tree_test_result n io)"
proof -
  define io6 where "io6 = write_to Stdout (lit ''[DBG] Testing Correctness..'' @ [10]) io5"
  have line: "print_line ''[DBG] Testing Correctness..'' [] io5 = Some (Ran () io6)"
    unfolding io6_def by (rule print_plain) (simp add: lit_def)
  show ?thesis
  proof (cases "even n")
    case True
    then have "s = of_nat (n div 2)"
      using assms(2) by simp
    then show ?thesis
      using True
      by (simp add: bind_run_simps line fail_if_False assms(4) passed_line give_run tree_test_result_def assms(3) [symmetric] io6_def
          del: write_to.simps)
  next
    case False
    define k where "k = (n + 1) div 2"
    have "k \<noteq> n div 2" "k < 2 ^ 31" "n div 2 < 2 ^ 31"
      using False assms(1) by (auto simp: k_def elim!: oddE)
    then have "fail_if (s \<noteq> of_nat (n div 2)) ''[ERR] Recorded size is %d, expected %d.'' [AUInt s, AInt (int (n div 2))] io5
        = Some (Exited 1 (write_to Stdout (lit ''[ERR] Recorded size is '' @ digits k
        @ lit '', expected '' @ digits (n div 2) @ lit ''.'' @ [10]) io5))"
      unfolding assms(2) k_def [symmetric] by (intro size_line) (simp_all add: size_of_nat)
    from bind_run_simps(2) [where p = "fail_if _ _ _", OF this] show ?thesis
      using False by (simp add: tree_test_result_def assms(3) [symmetric] k_def Let_def del: write_to.simps)
  qed
qed

end
