(* ===== verification/TestBTree.thy ===== *)
theory TestBTree
  imports TestRun BTreeOrd
begin

text \<open>
  \<^verbatim>\<open>zhwkre/tests/btree_test.c\<close>, with \<^verbatim>\<open>TESTNUM\<close> as the parameter \<open>n\<close>: the numbers below \<open>n\<close> are inserted in
  ascending order, each with its successor as value, looked up, iterated over in both directions, every
  odd one is removed, and all are looked up again. All allocations succeed, so that the error variable
  is never set.
\<close>

section \<open>The program\<close>

type_synonym int_tree = "(bytes, bytes) qBTreeDescriptor"

text \<open>The key and the value behind an iterator; the null pointer is dereferenced when there is none.\<close>

definition key_of :: "(bytes, bytes) qBTreeIterator \<Rightarrow> int exec" where
  "key_of it = bind_exec (qBTreeIterator_deref it) (\<lambda>p. case p of None \<Rightarrow> Fault | Some kv \<Rightarrow> int_deref (fst kv))"

definition value_of :: "(bytes, bytes) qBTreeIterator \<Rightarrow> int exec" where
  "value_of it = bind_exec (qBTreeIterator_deref it) (\<lambda>p. case p of None \<Rightarrow> Fault | Some kv \<Rightarrow> int_deref (snd kv))"

definition btree_insert_turn :: "nat \<Rightarrow> int_tree \<Rightarrow> int_tree prog" where
  "btree_insert_turn i desc =
     bind_run (calc (qBTree__insert int_comparator al_ok desc (int_block (int i)) (int_block (int i + 1)))) (\<lambda>(stat, desc).
     bind_run (fatal_run 0) (\<lambda>_.
     bind_run (fail_if (stat \<noteq> 0) ''[ERR] While inserting %d:%d insertion returned %d'' [AInt (int i), AInt (int i + 1), AInt stat]) (\<lambda>_.
     give desc)))"

text \<open>What is checked of a lookup that has to succeed.\<close>

definition btree_found :: "nat \<Rightarrow> (bytes, bytes) qBTreeIterator \<Rightarrow> unit prog" where
  "btree_found i testiter =
     bind_run (fail_if (\<not> qBTreeIterator_isvalid testiter) ''[ERR] While validating %d ptr_at returned invalid iterator.'' [AInt (int i)]) (\<lambda>_.
     bind_run (calc (value_of testiter)) (\<lambda>x.
     fail_if (x \<noteq> int i + 1) ''[ERR] Data correctness error: expected %d at %d, get %d.'' [AInt (int i + 1), AInt (int i), AInt x]))"

definition btree_check_turn :: "nat \<Rightarrow> int_tree \<Rightarrow> int_tree prog" where
  "btree_check_turn i desc =
     bind_run (calc (qBTree__ptr_at int_comparator desc (int_block (int i)))) (\<lambda>(stat, testiter).
     bind_run (fatal_run 0) (\<lambda>_.
     bind_run (fail_if (stat \<noteq> 0) ''[ERR] While validating %d ptr_at returned stat %d'' [AInt (int i), AInt stat]) (\<lambda>_.
     bind_run (btree_found i testiter) (\<lambda>_. give desc))))"

definition btree_visit :: "int \<Rightarrow> (bytes, bytes) qBTreeIterator \<Rightarrow> int \<Rightarrow> int prog" where
  "btree_visit delta it cur =
     bind_run (calc (key_of it)) (\<lambda>k.
     bind_run (fail_if (k \<noteq> cur) ''[ERR] While iterating through, No.%d key isn't %d.'' [AInt k, AInt cur]) (\<lambda>_.
     give (cur + delta)))"

definition btree_erase_turn :: "nat \<Rightarrow> int_tree \<Rightarrow> int_tree prog" where
  "btree_erase_turn i desc =
     (if i mod 2 \<noteq> 0 then
        bind_run (calc (qBTree__ptr_at int_comparator desc (int_block (int i)))) (\<lambda>(stat, testiter).
        bind_run (fail_if (stat \<noteq> 0) ''[ERR] While erasing %d ptr_at returned stat %d'' [AInt (int i), AInt stat]) (\<lambda>_.
        bind_run (calc (qBTree__erase int_comparator True True desc testiter)) (\<lambda>(stat, desc).
        bind_run (fail_if (stat \<noteq> 0) ''[ERR] While erasing %d erase returned stat %d'' [AInt (int i), AInt stat]) (\<lambda>_.
        give desc))))
      else give desc)"

definition btree_recheck_turn :: "nat \<Rightarrow> int_tree \<Rightarrow> int_tree prog" where
  "btree_recheck_turn i desc =
     bind_run (calc (qBTree__ptr_at int_comparator desc (int_block (int i)))) (\<lambda>(stat, testiter).
     if i mod 2 \<noteq> 0 then
       bind_run (fail_if (stat \<noteq> -1) ''[ERR] While validating %d ptr_at returned %d but it shouldn't.'' [AInt (int i), AInt stat]) (\<lambda>_.
       give desc)
     else
       bind_run (fail_if (stat \<noteq> 0) ''[ERR] While validating %d ptr_at returned %d but it shouldn't.'' [AInt (int i), AInt stat]) (\<lambda>_.
       bind_run (btree_found i testiter) (\<lambda>_. give desc)))"

definition btree_test :: "nat \<Rightarrow> int prog" where
  "btree_test n =
     bind_run (print_line ''[DBG] Testing Insertion..'' []) (\<lambda>_.
     bind_run (for_loop btree_insert_turn 0 n qBTree_constructor) (\<lambda>desc.
     bind_run (fail_if (bt_size desc \<noteq> of_nat n) ''[ERR] Recorded size is %d, expected %d'' [AUInt (bt_size desc), AInt (int n)]) (\<lambda>_.
     bind_run (print_line ''[DBG] Testing Correctness..'' []) (\<lambda>_.
     bind_run (for_loop btree_check_turn 0 n desc) (\<lambda>desc.
     bind_run (print_line ''[DBG] Testing Iteration/Next ..'' []) (\<lambda>_.
     bind_run (calc (qBTree_begin desc)) (\<lambda>it.
     bind_run (iter_loop qBTreeIterator_isvalid qBTreeIterator_next (btree_visit 1) it 0) (\<lambda>cur.
     bind_run (fail_if (cur \<noteq> int n) ''[ERR] Only Iterated %d elems, expected %d'' [AInt cur, AInt (int n)]) (\<lambda>_.
     bind_run (print_line ''[DBG] Testing Iteration/Prev ..'' []) (\<lambda>_.
     bind_run (calc (qBTree_end desc)) (\<lambda>it.
     bind_run (iter_loop qBTreeIterator_isvalid qBTreeIterator_prev (btree_visit (- 1)) it (int n - 1)) (\<lambda>cur.
     bind_run (fail_if (cur \<noteq> -1) ''[ERR] Only Iterated %d elems, expected %d'' [AInt (int n - 1 - cur), AInt (int n)]) (\<lambda>_.
     bind_run (print_line ''[DBG] Testing Erase..'' []) (\<lambda>_.
     bind_run (for_loop btree_erase_turn 0 n desc) (\<lambda>desc.
     bind_run (fail_if (bt_size desc \<noteq> of_nat (n div 2)) ''[ERR] Recorded size is %d, expected %d.'' [AUInt (bt_size desc), AInt (int (n div 2))]) (\<lambda>_.
     bind_run (print_line ''[DBG] Testing Correctness..'' []) (\<lambda>_.
     bind_run (for_loop btree_recheck_turn 0 n desc) (\<lambda>desc.
     bind_run (print_line ''[YES] Test passed with %d elements.'' [AInt (int n)]) (\<lambda>_.
     give 0)))))))))))))))))))"

section \<open>The tree during the test\<close>

interpretation int_order: comparator int_comparator
  by (rule int_comparator_order)

text \<open>The pairs of some of the numbers, in order.\<close>

definition entries :: "nat list \<Rightarrow> (bytes \<times> bytes) list" where
  "entries js = map (\<lambda>j. (int_block (int j), int_block (int j + 1))) js"

lemma entries_sorted: "small js \<Longrightarrow> sorted_wrt (key_less int_comparator) (entries js)"
  unfolding entries_def small_def sorted_wrt_map
  by (rule sorted_wrt_mono_rel [of _ "(<)"]) (auto simp: key_less_def int_block_cmp)

text \<open>A lookup finds exactly the numbers that are there.\<close>

lemma entries_lookup:
  assumes "bt_holds d (entries js)" and "small js" and "i < 2 ^ 31 - 1"
  shows "i \<in> set js \<Longrightarrow> \<exists>it. qBTree__ptr_at int_comparator d (int_block (int i)) = Done (0, it) \<and> qBTreeIterator_isvalid it
      \<and> qBTreeIterator_deref it = Done (Some (int_block (int i), int_block (int i + 1)))"
    and "i \<notin> set js \<Longrightarrow> qBTree__ptr_at int_comparator d (int_block (int i)) = Done (-1, zero_iter)"
proof -
  have cmp: "int_comparator (int_block (int i)) (int_block (int j)) = int i - int j" if "j \<in> set js" for j
    using assms(2,3) that by (auto simp: small_def int_block_cmp)
  have "length (entries js) < 2 ^ 32"
    using assms(2) by (simp add: small_def entries_def)
  note look = int_order.lookup_holds [OF assms(1) entries_sorted [OF assms(2)] this, of "int_block (int i)"]
  show "i \<in> set js \<Longrightarrow> \<exists>it. qBTree__ptr_at int_comparator d (int_block (int i)) = Done (0, it) \<and> qBTreeIterator_isvalid it
      \<and> qBTreeIterator_deref it = Done (Some (int_block (int i), int_block (int i + 1)))"
    using look cmp by (auto simp: entries_def)
  show "i \<notin> set js \<Longrightarrow> qBTree__ptr_at int_comparator d (int_block (int i)) = Done (-1, zero_iter)"
    using look cmp by (fastforce simp: entries_def)
qed

section \<open>The phases\<close>

lemma entries_append: "entries (js @ [i]) = entries js @ [(int_block (int i), int_block (int i + 1))]"
  by (simp add: entries_def)

lemma btree_insert_phase:
  assumes "n < 2 ^ 31"
  shows "\<exists>d. for_loop btree_insert_turn 0 n qBTree_constructor io = Some (Ran d io) \<and> bt_holds d (entries [0..<n])"
proof -
  have turn: "\<exists>d'. btree_insert_turn j d io = Some (Ran d' io) \<and> bt_holds d' (entries [0..<Suc j])"
    if "j < n" "bt_holds d (entries [0..<j])" for j d
  proof -
    have "sorted_wrt (key_less int_comparator) (entries ([0..<j] @ [j]))"
      using entries_sorted [OF small_upt, of "Suc j"] that(1) assms by simp
    from int_order.insert_largest [OF that(2), of "int_block (int j)" "int_block (int j + 1)"] this
    obtain d' where "qBTree__insert int_comparator al_ok d (int_block (int j)) (int_block (int j + 1)) = Done (0, d')"
        "bt_holds d' (entries ([0..<j] @ [j]))"
      by (auto simp: entries_append)
    then show ?thesis
      by (simp add: btree_insert_turn_def run_simps)
  qed
  have "bt_holds qBTree_constructor (entries [0..<0])"
    by (simp add: entries_def)
  from for_loop_inv [of 0 n "\<lambda>j d. bt_holds d (entries [0..<j])", OF _ this] turn show ?thesis
    by auto
qed

lemma found_entry:
  assumes "qBTreeIterator_isvalid it" and "qBTreeIterator_deref it = Done (Some (int_block (int i), int_block (int i + 1)))"
    and "i < 2 ^ 31 - 1"
  shows "btree_found i it io = Some (Ran () io)"
  using assms by (simp add: btree_found_def value_of_def run_simps)

lemma btree_check_phase:
  assumes "bt_holds d (entries [0..<n])" and "n < 2 ^ 31"
  shows "for_loop btree_check_turn 0 n d io = Some (Ran d io)"
proof (rule for_loop_checks)
  fix j
  assume "j < n"
  then show "btree_check_turn j d io = Some (Ran d io)"
    using entries_lookup(1) [OF assms(1) small_upt [OF assms(2)], of j] assms(2)
    by (auto simp: btree_check_turn_def run_simps found_entry)
qed

text \<open>The iterators pass all pairs, in both directions.\<close>

lemma btree_visits_next:
  assumes "iter_at t it xs p ys" and "ht t \<le> 100"
  shows "\<exists>its. visits qBTreeIterator_isvalid qBTreeIterator_next it its
    \<and> map qBTreeIterator_deref its = map (\<lambda>p. Done (Some p)) (p # ys)"
  using assms(1)
proof (induction ys arbitrary: it xs p rule: list.induct)
  case Nil
  then show ?case
    using next_at [OF Nil assms(2)] iter_at_valid [OF Nil] iter_at_deref [OF Nil] by (intro exI [of _ "[it]"]) simp
next
  case (Cons q zs)
  from next_at [OF Cons.prems assms(2)] obtain it' where
    nx: "qBTreeIterator_next it = Done it'" "iter_at t it' (xs @ [p]) q zs" by auto
  from Cons.IH [OF nx(2)] obtain its where "visits qBTreeIterator_isvalid qBTreeIterator_next it' its"
      "map qBTreeIterator_deref its = map (\<lambda>p. Done (Some p)) (q # zs)"
    by blast
  then show ?case
    using nx(1) iter_at_valid [OF Cons.prems] iter_at_deref [OF Cons.prems] by (intro exI [of _ "it # its"]) simp
qed

lemma btree_visits_prev:
  assumes "iter_at t it (rev xs) p ys" and "ht t \<le> 100"
  shows "\<exists>its. visits qBTreeIterator_isvalid qBTreeIterator_prev it its
    \<and> map qBTreeIterator_deref its = map (\<lambda>p. Done (Some p)) (p # xs)"
  using assms(1)
proof (induction xs arbitrary: it ys p rule: list.induct)
  case Nil
  then show ?case
    using prev_at [OF Nil assms(2)] iter_at_valid [OF Nil] iter_at_deref [OF Nil] by (intro exI [of _ "[it]"]) simp
next
  case (Cons q zs)
  from prev_at [OF Cons.prems assms(2)] obtain it' where
    nx: "qBTreeIterator_prev it = Done it'" "iter_at t it' (rev zs) q (p # ys)" by auto
  from Cons.IH [OF nx(2)] obtain its where "visits qBTreeIterator_isvalid qBTreeIterator_prev it' its"
      "map qBTreeIterator_deref its = map (\<lambda>p. Done (Some p)) (q # zs)"
    by blast
  then show ?case
    using nx(1) iter_at_valid [OF Cons.prems] iter_at_deref [OF Cons.prems] by (intro exI [of _ "it # its"]) simp
qed

lemma visit_entry:
  assumes "map qBTreeIterator_deref its = map (\<lambda>p. Done (Some p)) (entries js)" and "\<forall>j \<in> set js. j < 2 ^ 31 - 1"
    and "k < length js"
  shows "btree_visit delta (its ! k) (int (js ! k)) io = Some (Ran (int (js ! k) + delta) io)"
proof -
  have "length its = length js"
    using arg_cong [OF assms(1), of length] by (simp add: entries_def)
  then have "qBTreeIterator_deref (its ! k) = Done (Some (int_block (int (js ! k)), int_block (int (js ! k) + 1)))"
    using arg_cong [OF assms(1), of "\<lambda>l. l ! k"] assms(3) by (simp add: entries_def)
  moreover have "js ! k < 2 ^ 31 - 1"
    using assms(2,3) by simp
  ultimately show ?thesis
    by (simp add: btree_visit_def key_of_def run_simps)
qed

text \<open>A loop over the pairs of the numbers below \<open>n\<close>, up or down.\<close>

lemma btree_visit_loop:
  assumes "visits qBTreeIterator_isvalid nxt it its"
    and "map qBTreeIterator_deref its = map (\<lambda>p. Done (Some p)) (entries js)" and "\<forall>j \<in> set js. j < 2 ^ 31 - 1"
    and "\<forall>k < length js. int (js ! k) = a + delta * int k"
  shows "iter_loop qBTreeIterator_isvalid nxt (btree_visit delta) it a io = Some (Ran (a + delta * int (length js)) io)"
proof -
  have len: "length its = length js"
    using arg_cong [OF assms(2), of length] by (simp add: entries_def)
  have "btree_visit delta (its ! k) (a + delta * int k) io = Some (Ran (a + delta * int (Suc k)) io)" if "k < length its" for k
    using visit_entry [OF assms(2,3), of k delta io] assms(4) that len by (simp add: algebra_simps)
  from iter_loop_visits [where f = "\<lambda>k. a + delta * int k" and body = "btree_visit delta", OF assms(1) this]
  show ?thesis
    by (simp add: len)
qed

lemma next_phase:
  assumes "bt_holds d (entries [0..<n])" and "n < 2 ^ 31"
  shows "\<exists>it. qBTree_begin d = Done it
    \<and> iter_loop qBTreeIterator_isvalid qBTreeIterator_next (btree_visit 1) it 0 io = Some (Ran (int n) io)"
proof -
  have "\<exists>it its. qBTree_begin d = Done it \<and> visits qBTreeIterator_isvalid qBTreeIterator_next it its
      \<and> map qBTreeIterator_deref its = map (\<lambda>p. Done (Some p)) (entries [0..<n])"
  proof (cases "n = 0")
    case True
    then show ?thesis
      using begin_end_empty [of d] assms(1) by (intro exI [of _ zero_iter] exI [of _ "[]"]) (simp add: entries_def)
  next
    case False
    then obtain t it p zs where "ht t \<le> 100" "qBTree_begin d = Done it" "entries [0..<n] = p # zs" "iter_at t it [] p zs"
      using first_and_last(1) [OF assms(1)] assms(2) by (fastforce simp: entries_def)
    then show ?thesis
      using btree_visits_next [of t it "[]" p zs] by auto
  qed
  then obtain it its where it: "qBTree_begin d = Done it" "visits qBTreeIterator_isvalid qBTreeIterator_next it its"
      "map qBTreeIterator_deref its = map (\<lambda>p. Done (Some p)) (entries [0..<n])"
    by blast
  have "iter_loop qBTreeIterator_isvalid qBTreeIterator_next (btree_visit 1) it 0 io = Some (Ran (0 + 1 * int (length [0..<n])) io)"
    using assms(2) by (intro btree_visit_loop [OF it(2,3)]) auto
  then show ?thesis
    using it(1) by simp
qed

lemma prev_phase:
  assumes "bt_holds d (entries [0..<n])" and "n < 2 ^ 31"
  shows "\<exists>it. qBTree_end d = Done it
    \<and> iter_loop qBTreeIterator_isvalid qBTreeIterator_prev (btree_visit (- 1)) it (int n - 1) io = Some (Ran (-1) io)"
proof -
  have "\<exists>it its. qBTree_end d = Done it \<and> visits qBTreeIterator_isvalid qBTreeIterator_prev it its
      \<and> map qBTreeIterator_deref its = map (\<lambda>p. Done (Some p)) (rev (entries [0..<n]))"
  proof (cases "n = 0")
    case True
    then show ?thesis
      using begin_end_empty [of d] assms(1) by (intro exI [of _ zero_iter] exI [of _ "[]"]) (simp add: entries_def)
  next
    case False
    then obtain t it p zs where "ht t \<le> 100" "qBTree_end d = Done it" "entries [0..<n] = zs @ [p]" "iter_at t it zs p []"
      using first_and_last(2) [OF assms(1)] assms(2) by (fastforce simp: entries_def)
    then obtain its where "visits qBTreeIterator_isvalid qBTreeIterator_prev it its"
        "map qBTreeIterator_deref its = map (\<lambda>p. Done (Some p)) (p # rev zs)"
      using btree_visits_prev [of t it "rev zs" p "[]"] by (metis rev_rev_ident)
    moreover have "rev (entries [0..<n]) = p # rev zs"
      using \<open>entries [0..<n] = zs @ [p]\<close> by simp
    ultimately show ?thesis
      using \<open>qBTree_end d = Done it\<close> by metis
  qed
  moreover have "rev (entries [0..<n]) = entries (rev [0..<n])"
    by (simp add: entries_def rev_map)
  ultimately obtain it its where it: "qBTree_end d = Done it" "visits qBTreeIterator_isvalid qBTreeIterator_prev it its"
      "map qBTreeIterator_deref its = map (\<lambda>p. Done (Some p)) (entries (rev [0..<n]))"
    by auto
  have "iter_loop qBTreeIterator_isvalid qBTreeIterator_prev (btree_visit (- 1)) it (int n - 1) io
      = Some (Ran (int n - 1 + (- 1) * int (length (rev [0..<n]))) io)"
    using assms(2) by (intro btree_visit_loop [OF it(2,3)]) (auto simp: rev_nth of_nat_diff)
  then show ?thesis
    using it(1) by simp
qed

text \<open>Removing the odd numbers one by one.\<close>

lemma without_odd:
  assumes "odd j" and "j < 2 ^ 31 - 1" and "n < 2 ^ 31"
  shows "without int_comparator (int_block (int j)) (entries (left_at n j)) = entries (left_at n (Suc j))"
proof -
  have "int_comparator (int_block (int j)) (int_block (int i)) \<noteq> 0 \<longleftrightarrow> i \<noteq> j" if "i \<in> set (left_at n j)" for i
    using that small_left [OF assms(3), of j] assms(2) int_block_cmp [of j i] by (auto simp: small_def)
  then have "filter (\<lambda>i. int_comparator (int_block (int j)) (int_block (int i)) \<noteq> 0) (left_at n j) = left_at n (Suc j)"
    unfolding left_at_odd [OF assms(1), symmetric] by (intro filter_cong) auto
  then show ?thesis
    by (simp add: without_def entries_def filter_map o_def)
qed

lemma btree_erase_phase:
  assumes "bt_holds d (entries [0..<n])" and "n < 2 ^ 31"
  shows "\<exists>d'. for_loop btree_erase_turn 0 n d io = Some (Ran d' io) \<and> bt_holds d' (entries (filter even [0..<n]))"
proof -
  have turn: "\<exists>d'. btree_erase_turn j d io = Some (Ran d' io) \<and> bt_holds d' (entries (left_at n (Suc j)))"
    if j: "j < n" "bt_holds d (entries (left_at n j))" for j d
  proof (cases "even j")
    case True
    then show ?thesis
      using j left_at_even [of j n] by (simp add: btree_erase_turn_def even_iff_mod_2_eq_zero run_simps)
  next
    case False
    have small: "small (left_at n j)" "j < 2 ^ 31 - 1" "j \<in> set (left_at n j)"
      using small_left [OF assms(2)] j(1) assms(2) by (auto simp: left_at_def)
    obtain it where it: "qBTree__ptr_at int_comparator d (int_block (int j)) = Done (0, it)"
        "qBTreeIterator_deref it = Done (Some (int_block (int j), int_block (int j + 1)))"
      using entries_lookup(1) [OF j(2) small] by blast
    have "(int_block (int j), int_block (int j + 1)) \<in> set (entries (left_at n j))"
      using small(3) by (auto simp: entries_def)
    from int_order.erase_holds [OF j(2) entries_sorted [OF small(1)] this it(2)]
    obtain d' where "qBTree__erase int_comparator True True d it = Done (0, d')" "bt_holds d' (entries (left_at n (Suc j)))"
      using without_odd [OF False small(2) assms(2)] by auto
    then show ?thesis
      using it(1) False by (simp add: btree_erase_turn_def odd_iff_mod_2_eq_one run_simps)
  qed
  have "bt_holds d (entries (left_at n 0))"
    using assms(1) by (simp add: left_at_ends)
  from for_loop_inv [of 0 n "\<lambda>j d. bt_holds d (entries (left_at n j))", OF _ this] turn show ?thesis
    by (simp add: left_at_ends)
qed

lemma btree_recheck_phase:
  assumes "bt_holds d (entries (filter even [0..<n]))" and "n < 2 ^ 31"
  shows "for_loop btree_recheck_turn 0 n d io = Some (Ran d io)"
proof (rule for_loop_checks)
  fix j
  assume "j < n"
  then show "btree_recheck_turn j d io = Some (Ran d io)"
    using entries_lookup [OF assms(1) small_filter [OF small_upt [OF assms(2)]], of j] assms(2)
    by (cases "even j") (auto simp: btree_recheck_turn_def run_simps found_entry even_iff_mod_2_eq_zero odd_iff_mod_2_eq_one)
qed

section \<open>The outcome\<close>

text \<open>
  C19: the test of the B-tree, for every number of elements an \<^verbatim>\<open>int\<close> can hold: it ends, all insertions
  succeed, every lookup finds its value, both iterations pass all keys in order, and all removals
  succeed. Then it passes when the number is even, and for an odd number it fails, because it expects
  \<open>n div 2\<close> elements where \<open>(n + 1) div 2\<close> are left.
\<close>

theorem btree_test_outcome:
  assumes "n < 2 ^ 31"
  shows "btree_test n io = Some (tree_test_result n io)"
proof -
  obtain io1 io2 io3 io4 io5 where lines: "print_line ''[DBG] Testing Insertion..'' [] io = Some (Ran () io1)"
      "print_line ''[DBG] Testing Correctness..'' [] io1 = Some (Ran () io2)"
      "print_line ''[DBG] Testing Iteration/Next ..'' [] io2 = Some (Ran () io3)"
      "print_line ''[DBG] Testing Iteration/Prev ..'' [] io3 = Some (Ran () io4)"
      "print_line ''[DBG] Testing Erase..'' [] io4 = Some (Ran () io5)"
    and out: "io5 = write_to Stdout (text_lines [''[DBG] Testing Insertion..'', ''[DBG] Testing Correctness..'',
          ''[DBG] Testing Iteration/Next ..'', ''[DBG] Testing Iteration/Prev ..'', ''[DBG] Testing Erase..'']) io"
    by (rule tree_test_headings)
  obtain d where ins: "for_loop btree_insert_turn 0 n qBTree_constructor io1 = Some (Ran d io1)"
      and d: "bt_holds d (entries [0..<n])"
    using btree_insert_phase [OF assms] by blast
  have size: "bt_size d = of_nat n"
    using d by (auto simp: bt_holds_def entries_def)
  obtain it1 it2 where iters: "qBTree_begin d = Done it1" "qBTree_end d = Done it2"
      "iter_loop qBTreeIterator_isvalid qBTreeIterator_next (btree_visit 1) it1 0 io3 = Some (Ran (int n) io3)"
      "iter_loop qBTreeIterator_isvalid qBTreeIterator_prev (btree_visit (- 1)) it2 (int n - 1) io4 = Some (Ran (-1) io4)"
    using next_phase [OF d assms] prev_phase [OF d assms] by blast
  obtain d' where er: "for_loop btree_erase_turn 0 n d io5 = Some (Ran d' io5)"
      and d': "bt_holds d' (entries (filter even [0..<n]))"
    using btree_erase_phase [OF d assms] by blast
  have size': "bt_size d' = of_nat ((n + 1) div 2)"
    using d' length_evens [of n] by (auto simp: bt_holds_def entries_def)
  from tree_test_end [OF assms size' out, where recheck = "for_loop btree_recheck_turn 0 n d'" and d = d',
      OF btree_recheck_phase [OF d' assms]]
  show ?thesis
    unfolding btree_test_def
    by (simp add: bind_run_simps lines ins size fail_if_False btree_check_phase [OF d assms] iters calc_run er)
qed

text \<open>The number of elements that \<^verbatim>\<open>btree_test.c\<close> defines.\<close>

theorem btree_test_outcome_witness:
  "\<exists>out. btree_test 10000000 \<lparr>io_out = [], io_err = []\<rparr> = Some (Ran 0 \<lparr>io_out = out, io_err = []\<rparr>)"
  using btree_test_outcome [of 10000000 "\<lparr>io_out = [], io_err = []\<rparr>"] by (simp add: tree_test_result_def Let_def)

end
