(* ===== verification/TestAVL.thy ===== *)
theory TestAVL
  imports TestRun AVLProps
begin

text \<open>
  \<^verbatim>\<open>zhwkre/tests/avltree_test.c\<close>, with \<^verbatim>\<open>TESTNUM\<close> as the parameter \<open>n\<close> and \<open>al\<close> for the addresses of new
  nodes: the test of the B-tree, on the threaded search tree. The allocations succeed; the error variable
  is the one of the store.
\<close>

section \<open>The program\<close>

type_synonym avl_state = "qAVLTreeDescriptor \<times> bytes lmem"

definition int_elem_comparator :: "bytes elem_cmp" where
  "int_elem_comparator x y = int_comparator (fst x) (fst y)"

text \<open>\<^verbatim>\<open>&i, sizeof(i)\<close>\<close>

definition int_elem :: "nat \<Rightarrow> bytes elem" where
  "int_elem i = (int_block (int i), 4)"

definition avl_value :: "bytes lmem \<Rightarrow> ptr \<Rightarrow> int exec" where
  "avl_value m it = bind_exec (qAVLTreeIterator_deref m it) (\<lambda>d. case d of None \<Rightarrow> Fault | Some b \<Rightarrow> int_deref b)"

definition avl_insert_turn :: "(bytes lmem \<Rightarrow> ptr) \<Rightarrow> nat \<Rightarrow> avl_state \<Rightarrow> avl_state prog" where
  "avl_insert_turn al i s =
     bind_run (calc (qAVLTree__insert int_elem_comparator (Some (al (snd s))) True (fst s) (int_elem i) (snd s))) (\<lambda>(stat, desc, m).
     bind_run (fatal_run (lerr m)) (\<lambda>_.
     bind_run (fail_if (stat \<noteq> 0) ''[ERR] While inserting %d insertion returned %d'' [AInt (int i), AInt stat]) (\<lambda>_.
     give (desc, m))))"

text \<open>
  The iterator of the test is not initialised, and the search leaves it alone when it returns -1; the
  program leaves before it looks at it then.
\<close>

definition avl_found :: "nat \<Rightarrow> ptr option \<Rightarrow> bytes lmem \<Rightarrow> unit prog" where
  "avl_found i r m =
     (case r of
        None \<Rightarrow> (\<lambda>io. Some Undef)
      | Some testiter \<Rightarrow>
          bind_run (fail_if (\<not> qAVLTreeIterator_isvalid testiter) ''[ERR] While validating %d ptr_at returned invalid iterator.'' [AInt (int i)]) (\<lambda>_.
          bind_run (calc (avl_value m testiter)) (\<lambda>x.
          fail_if (x \<noteq> int i) ''[ERR] Data correctness error: expected %d, get %d.'' [AInt (int i), AInt x])))"

definition stat_of :: "ptr option \<Rightarrow> int" where
  "stat_of r = (if r = None then -1 else 0)"

definition avl_check_turn :: "nat \<Rightarrow> avl_state \<Rightarrow> avl_state prog" where
  "avl_check_turn i s =
     bind_run (calc (qAVLTree__ptr_at int_elem_comparator (av_root (fst s)) (int_elem i) (snd s))) (\<lambda>r.
     bind_run (fatal_run (lerr (snd s))) (\<lambda>_.
     bind_run (fail_if (stat_of r \<noteq> 0) ''[ERR] While validating %d ptr_at returned stat %d'' [AInt (int i), AInt (stat_of r)]) (\<lambda>_.
     bind_run (avl_found i r (snd s)) (\<lambda>_. give s))))"

definition avl_visit :: "bytes lmem \<Rightarrow> int \<Rightarrow> ptr \<Rightarrow> int \<Rightarrow> int prog" where
  "avl_visit m delta it cur =
     bind_run (calc (avl_value m it)) (\<lambda>k.
     bind_run (fail_if (k \<noteq> cur) ''[ERR] While iterating through, No.%d elem isn't %d.'' [AInt k, AInt cur]) (\<lambda>_.
     give (cur + delta)))"

definition avl_erase_turn :: "nat \<Rightarrow> avl_state \<Rightarrow> avl_state prog" where
  "avl_erase_turn i s =
     (if i mod 2 \<noteq> 0 then
        bind_run (calc (qAVLTree__ptr_at int_elem_comparator (av_root (fst s)) (int_elem i) (snd s))) (\<lambda>r.
        bind_run (fail_if (stat_of r \<noteq> 0) ''[ERR] While erasing %d ptr_at returned stat %d'' [AInt (int i), AInt (stat_of r)]) (\<lambda>_.
        case r of
          None \<Rightarrow> (\<lambda>io. Some Undef)
        | Some testiter \<Rightarrow>
            bind_run (calc (qAVLTree__erase int_elem_comparator (fst s) testiter (snd s))) (\<lambda>(stat, s).
            bind_run (fail_if (stat \<noteq> 0) ''[ERR] While erasing %d erase returned stat %d'' [AInt (int i), AInt stat]) (\<lambda>_.
            give s))))
      else give s)"

definition avl_recheck_turn :: "nat \<Rightarrow> avl_state \<Rightarrow> avl_state prog" where
  "avl_recheck_turn i s =
     bind_run (calc (qAVLTree__ptr_at int_elem_comparator (av_root (fst s)) (int_elem i) (snd s))) (\<lambda>r.
     if i mod 2 \<noteq> 0 then
       bind_run (fail_if (stat_of r \<noteq> -1) ''[ERR] While validating %d ptr_at returned %d but it shouldn't.'' [AInt (int i), AInt (stat_of r)]) (\<lambda>_.
       give s)
     else
       bind_run (fail_if (stat_of r \<noteq> 0) ''[ERR] While validating %d ptr_at returned %d but it shouldn't.'' [AInt (int i), AInt (stat_of r)]) (\<lambda>_.
       bind_run (avl_found i r (snd s)) (\<lambda>_. give s)))"

definition avl_test :: "(bytes lmem \<Rightarrow> ptr) \<Rightarrow> nat \<Rightarrow> bytes lmem \<Rightarrow> int prog" where
  "avl_test al n m0 =
     bind_run (print_line ''[DBG] Testing Insertion..'' []) (\<lambda>_.
     bind_run (for_loop (avl_insert_turn al) 0 n (qAVLTree_constructor, m0)) (\<lambda>s.
     bind_run (fail_if (av_size (fst s) \<noteq> of_nat n) ''[ERR] Recorded size is %d, expected %d'' [AUInt (av_size (fst s)), AInt (int n)]) (\<lambda>_.
     bind_run (print_line ''[DBG] Testing Correctness..'' []) (\<lambda>_.
     bind_run (for_loop avl_check_turn 0 n s) (\<lambda>s.
     bind_run (print_line ''[DBG] Testing Iteration/Next ..'' []) (\<lambda>_.
     bind_run (iter_loop qAVLTreeIterator_isvalid (qAVLTreeIterator_next (snd s)) (avl_visit (snd s) 1) (qAVLTree_begin (fst s)) 0) (\<lambda>cur.
     bind_run (fail_if (cur \<noteq> int n) ''[ERR] Only Iterated %d elems, expected %d'' [AInt cur, AInt (int n)]) (\<lambda>_.
     bind_run (print_line ''[DBG] Testing Iteration/Prev ..'' []) (\<lambda>_.
     bind_run (iter_loop qAVLTreeIterator_isvalid (qAVLTreeIterator_prev (snd s)) (avl_visit (snd s) (- 1)) (qAVLTree_end (fst s)) (int n - 1)) (\<lambda>cur.
     bind_run (fail_if (cur \<noteq> -1) ''[ERR] Only Iterated %d elems, expected %d'' [AInt (int n - 1 - cur), AInt (int n)]) (\<lambda>_.
     bind_run (print_line ''[DBG] Testing Erase..'' []) (\<lambda>_.
     bind_run (for_loop avl_erase_turn 0 n s) (\<lambda>s.
     bind_run (fail_if (av_size (fst s) \<noteq> of_nat (n div 2)) ''[ERR] Recorded size is %d, expected %d.'' [AUInt (av_size (fst s)), AInt (int (n div 2))]) (\<lambda>_.
     bind_run (print_line ''[DBG] Testing Correctness..'' []) (\<lambda>_.
     bind_run (for_loop avl_recheck_turn 0 n s) (\<lambda>s.
     bind_run (print_line ''[YES] Test passed with %d elements.'' [AInt (int n)]) (\<lambda>_.
     give 0)))))))))))))))))"

section \<open>The tree during the test\<close>

interpretation int_elems: elem_order int_elem_comparator
  by (simp add: elem_order_def, unfold_locales) (auto simp: int_elem_comparator_def int_comparator_def)

definition elems :: "nat list \<Rightarrow> bytes elem list" where
  "elems js = map int_elem js"

definition avl_in :: "nat list \<Rightarrow> avl_state \<Rightarrow> bool" where
  "avl_in js s \<longleftrightarrow> avl_holds int_elem_comparator (snd s) (fst s) (elems js)"

definition avl_has :: "nat list \<Rightarrow> avl_state \<Rightarrow> bool" where
  "avl_has js s \<longleftrightarrow> avl_in js s \<and> finite (dom (nodes (snd s))) \<and> lerr (snd s) = 0"

lemma int_elem_cmp_eq:
  "i < 2 ^ 31 - 1 \<Longrightarrow> j < 2 ^ 31 - 1 \<Longrightarrow> int_elem_comparator (int_elem i) (int_elem j) = int i - int j"
  by (simp add: int_elem_comparator_def int_elem_def int_block_cmp)

lemma int_elem_inj: "i < 2 ^ 31 - 1 \<Longrightarrow> j < 2 ^ 31 - 1 \<Longrightarrow> int_elem i = int_elem j \<longleftrightarrow> i = j"
  using int_elem_cmp_eq [of i j] int_elem_cmp_eq [of j j] by auto

text \<open>A search finds exactly the numbers that are there.\<close>

lemma elems_lookup:
  assumes "avl_in js s" and "small js" and "i < 2 ^ 31 - 1"
  shows "i \<in> set js \<Longrightarrow> \<exists>p. qAVLTree__ptr_at int_elem_comparator (av_root (fst s)) (int_elem i) (snd s) = Done (Some p)
      \<and> p \<in> set (addrs (av_root (fst s))) \<and> cell (nodes (snd s)) p = full (int_elem i)"
    and "i \<notin> set js \<Longrightarrow> qAVLTree__ptr_at int_elem_comparator (av_root (fst s)) (int_elem i) (snd s) = Done None"
proof -
  have cmp: "int_elem_comparator (int_elem i) (int_elem j) = int i - int j" if "j \<in> set js" for j
    using assms(2,3) that by (auto simp: small_def int_elem_cmp_eq)
  have "avl_holds int_elem_comparator (snd s) (fst s) (elems js)"
    using assms(1) by (simp add: avl_in_def)
  note look = int_elems.find_holds [OF this, of "int_elem i"]
  show "i \<in> set js \<Longrightarrow> \<exists>p. qAVLTree__ptr_at int_elem_comparator (av_root (fst s)) (int_elem i) (snd s) = Done (Some p)
      \<and> p \<in> set (addrs (av_root (fst s))) \<and> cell (nodes (snd s)) p = full (int_elem i)"
    using look cmp by (auto simp: elems_def)
  show "i \<notin> set js \<Longrightarrow> qAVLTree__ptr_at int_elem_comparator (av_root (fst s)) (int_elem i) (snd s) = Done None"
    using look cmp by (fastforce simp: elems_def)
qed

text \<open>The value behind a node.\<close>

lemma value_cell:
  assumes "cell (nodes m) p = full (int_elem i)" and "i < 2 ^ 31 - 1" and "p \<noteq> 0"
  shows "avl_value m p = Done (int i)"
  using assms
  by (auto simp: avl_value_def qAVLTreeIterator_deref_def qAVLTreeIterator_isvalid_def cell_def full_def l_load_def int_elem_def
      split: option.splits)

section \<open>The phases\<close>

lemma elems_append: "elems (js @ [i]) = elems js @ [int_elem i]"
  by (simp add: elems_def)

lemma placed_last:
  assumes "placed int_elem_comparator x xs ys" and "csorted int_elem_comparator ys"
    and "\<forall>y \<in> set xs. int_elem_comparator x y > 0"
  shows "ys = xs @ [x]"
proof -
  from assms(1) obtain us vs where "xs = us @ vs" "ys = us @ x # vs"
    by (auto simp: placed_def)
  moreover from this have "vs = []"
    using assms(2,3) by (cases vs) (auto simp: csorted_append csorted_def sorted_wrt_append)
  ultimately show ?thesis
    by simp
qed

lemma insert_turn:
  assumes "allocator al" and "avl_has [0..<j] s" and "j < 2 ^ 31 - 1"
  shows "\<exists>s'. avl_insert_turn al j s io = Some (Ran s' io) \<and> avl_has [0..<Suc j] s'"
proof -
  obtain d m where s: "s = (d, m)"
    by (cases s)
  have H: "avl_holds int_elem_comparator m d (elems [0..<j])" "finite (dom (nodes m))" "lerr m = 0"
    using assms(2) s by (simp_all add: avl_has_def avl_in_def)
  have gt: "\<forall>y \<in> set (elems [0..<j]). int_elem_comparator (int_elem j) y > 0"
    using assms(3) by (auto simp: elems_def int_elem_cmp_eq)
  have len: "length (elems [0..<j]) < 2 ^ 32 - 1"
    using assms(3) by (simp add: elems_def)
  have ne: "\<forall>y \<in> set (elems [0..<j]). int_elem_comparator (int_elem j) y \<noteq> 0"
    using gt by fastforce
  obtain d' m' ys where i: "qAVLTree__insert int_elem_comparator (Some (al m)) True d (int_elem j) m = Done (0, d', m')"
      "avl_holds int_elem_comparator m' d' ys" "placed int_elem_comparator (int_elem j) (elems [0..<j]) ys"
      "agree_off (insert (al m) (set (addrs (av_root d)))) m m'" "lerr m' = lerr m"
    using int_elems.insert_holds [OF H(1) ne _ _ len] allocator.al_fresh [OF assms(1) H(2)] by blast
  have "ys = elems [0..<j] @ [int_elem j]"
    using placed_last [OF i(3) _ gt] i(2) by (simp add: avl_holds_def)
  then have "avl_has [0..<Suc j] (d', m')"
    using i(2,5) H(3) finite_dom_agree [OF H(2) _ i(4)] by (simp add: avl_has_def avl_in_def elems_append)
  then show ?thesis
    using i(1,5) H(3) s by (simp add: avl_insert_turn_def run_simps)
qed

lemma avl_insert_phase:
  assumes "allocator al" and "finite (dom (nodes m0))" and "lerr m0 = 0" and "n < 2 ^ 31"
  shows "\<exists>s. for_loop (avl_insert_turn al) 0 n (qAVLTree_constructor, m0) io = Some (Ran s io) \<and> avl_has [0..<n] s"
proof -
  have "avl_has [0..<0] (qAVLTree_constructor, m0)"
    using assms(2,3) by (simp add: avl_has_def avl_in_def elems_def)
  moreover have "\<exists>s'. avl_insert_turn al j s io = Some (Ran s' io) \<and> avl_has [0..<Suc j] s'"
    if "j < 0 + n" "avl_has [0..<j] s" for j s
    using insert_turn [OF assms(1) that(2)] that(1) assms(4) by simp
  ultimately show ?thesis
    using for_loop_inv [of 0 n "\<lambda>j s. avl_has [0..<j] s"] by simp
qed

lemma found_elem:
  assumes "avl_in js s" and "cell (nodes (snd s)) p = full (int_elem i)" and "p \<in> set (addrs (av_root (fst s)))" and "i < 2 ^ 31 - 1"
  shows "avl_found i (Some p) (snd s) io = Some (Ran () io)"
proof -
  have "p \<noteq> 0"
    using assms(1,3) seg_nonnull [of "nodes (snd s)" 0 "addrs (av_root (fst s))" 0]
    by (metis append_Nil append_Nil2 avl_holds_def avl_in_def threaded_def)
  then show ?thesis
    using value_cell [OF assms(2,4)] by (simp add: avl_found_def qAVLTreeIterator_isvalid_def run_simps)
qed

lemma avl_check_phase:
  assumes "avl_has [0..<n] s" and "n < 2 ^ 31"
  shows "for_loop avl_check_turn 0 n s io = Some (Ran s io)"
proof (rule for_loop_checks)
  fix j
  assume j: "j < n"
  have H: "avl_in [0..<n] s" "lerr (snd s) = 0"
    using assms(1) by (simp_all add: avl_has_def)
  obtain p where "qAVLTree__ptr_at int_elem_comparator (av_root (fst s)) (int_elem j) (snd s) = Done (Some p)"
      "p \<in> set (addrs (av_root (fst s)))" "cell (nodes (snd s)) p = full (int_elem j)"
    using elems_lookup(1) [OF H(1) small_upt [OF assms(2)], of j] j assms(2) by auto
  then show "avl_check_turn j s io = Some (Ran s io)"
    using found_elem [OF H(1), of p j] j assms(2) H(2) by (simp add: avl_check_turn_def run_simps stat_of_def)
qed

text \<open>The iterators follow the thread, in both directions.\<close>

lemma avl_visits_next:
  "seg (nodes m) pr ps 0 \<Longrightarrow> visits qAVLTreeIterator_isvalid (qAVLTreeIterator_next m) (hd0 ps 0) ps"
  by (induction ps arbitrary: pr) (auto simp: qAVLTreeIterator_isvalid_def qAVLTreeIterator_next_def l_load_def)

lemma avl_visits_prev:
  "seg (nodes m) 0 ps nx \<Longrightarrow> visits qAVLTreeIterator_isvalid (qAVLTreeIterator_prev m) (last0 0 ps) (rev ps)"
  by (induction ps arbitrary: nx rule: rev_induct) (auto simp: qAVLTreeIterator_isvalid_def qAVLTreeIterator_prev_def l_load_def)

text \<open>A loop over the numbers in a list, up or down.\<close>

lemma avl_visit_loop:
  assumes "visits qAVLTreeIterator_isvalid nxt it its" and "map (cell (nodes m)) its = map full (elems js)" and "0 \<notin> set its"
    and "\<forall>j \<in> set js. j < 2 ^ 31 - 1" and "\<forall>k < length js. int (js ! k) = a + delta * int k"
  shows "iter_loop qAVLTreeIterator_isvalid nxt (avl_visit m delta) it a io = Some (Ran (a + delta * int (length js)) io)"
proof -
  have len: "length its = length js"
    using arg_cong [OF assms(2), of length] by (simp add: elems_def)
  have "avl_visit m delta (its ! k) (a + delta * int k) io = Some (Ran (a + delta * int (Suc k)) io)" if k: "k < length its" for k
  proof -
    have "cell (nodes m) (its ! k) = full (int_elem (js ! k))"
      using arg_cong [OF assms(2), of "\<lambda>l. l ! k"] k len by (simp add: elems_def)
    moreover have "js ! k < 2 ^ 31 - 1"
      using assms(4) k len by simp
    moreover have "its ! k \<noteq> 0"
      using assms(3) nth_mem [OF k] by metis
    ultimately have "avl_value m (its ! k) = Done (int (js ! k))"
      by (rule value_cell)
    then show ?thesis
      using assms(5) k len by (simp add: avl_visit_def run_simps algebra_simps)
  qed
  from iter_loop_visits [where f = "\<lambda>k. a + delta * int k" and body = "avl_visit m delta", OF assms(1) this]
  show ?thesis
    by (simp add: len)
qed

lemma iter_phase:
  assumes "avl_in [0..<n] s" and "n < 2 ^ 31"
  shows "iter_loop qAVLTreeIterator_isvalid (qAVLTreeIterator_next (snd s)) (avl_visit (snd s) 1) (qAVLTree_begin (fst s)) 0 io
      = Some (Ran (int n) io)"
    and "iter_loop qAVLTreeIterator_isvalid (qAVLTreeIterator_prev (snd s)) (avl_visit (snd s) (- 1)) (qAVLTree_end (fst s)) (int n - 1) io
      = Some (Ran (-1) io)"
proof -
  let ?ps = "addrs (av_root (fst s))"
  have T: "seg (nodes (snd s)) 0 ?ps 0" "map (cell (nodes (snd s))) ?ps = map full (elems [0..<n])"
    using assms(1) by (simp_all add: avl_in_def avl_holds_def threaded_def)
  have nz: "0 \<notin> set ?ps"
    using seg_nonnull [OF T(1)] .
  have up: "visits qAVLTreeIterator_isvalid (qAVLTreeIterator_next (snd s)) (qAVLTree_begin (fst s)) ?ps"
    using avl_visits_next [OF T(1)] by (simp add: qAVLTree_begin_def min_node_addrs)
  have "iter_loop qAVLTreeIterator_isvalid (qAVLTreeIterator_next (snd s)) (avl_visit (snd s) 1) (qAVLTree_begin (fst s)) 0 io
      = Some (Ran (0 + 1 * int (length [0..<n])) io)"
    using assms(2) by (intro avl_visit_loop [OF up T(2) nz]) auto
  then show "iter_loop qAVLTreeIterator_isvalid (qAVLTreeIterator_next (snd s)) (avl_visit (snd s) 1) (qAVLTree_begin (fst s)) 0 io
      = Some (Ran (int n) io)"
    by simp
  have down: "visits qAVLTreeIterator_isvalid (qAVLTreeIterator_prev (snd s)) (qAVLTree_end (fst s)) (rev ?ps)"
    using avl_visits_prev [OF T(1)] by (simp add: qAVLTree_end_def max_node_addrs)
  have cells: "map (cell (nodes (snd s))) (rev ?ps) = map full (elems (rev [0..<n]))"
    using T(2) by (simp add: elems_def rev_map [symmetric])
  have "iter_loop qAVLTreeIterator_isvalid (qAVLTreeIterator_prev (snd s)) (avl_visit (snd s) (- 1)) (qAVLTree_end (fst s)) (int n - 1) io
      = Some (Ran (int n - 1 + (- 1) * int (length (rev [0..<n]))) io)"
    using assms(2) nz by (intro avl_visit_loop [OF down cells]) (auto simp: rev_nth of_nat_diff)
  then show "iter_loop qAVLTreeIterator_isvalid (qAVLTreeIterator_prev (snd s)) (avl_visit (snd s) (- 1)) (qAVLTree_end (fst s)) (int n - 1) io
      = Some (Ran (-1) io)"
    by simp
qed

text \<open>Removing the odd numbers one by one.\<close>

lemma erase_turn:
  assumes "avl_in (left_at n j) s" and "j < n" and "n < 2 ^ 31"
  shows "\<exists>s'. avl_erase_turn j s io = Some (Ran s' io) \<and> avl_in (left_at n (Suc j)) s'"
proof (cases "even j")
  case True
  then show ?thesis
    using assms(1) left_at_even [of j n] by (simp add: avl_erase_turn_def even_iff_mod_2_eq_zero run_simps)
next
  case False
  have j: "j < 2 ^ 31 - 1" "j \<in> set (left_at n j)" "small (left_at n j)"
    using small_left [OF assms(3)] assms(2,3) by (auto simp: left_at_def)
  obtain p where p: "qAVLTree__ptr_at int_elem_comparator (av_root (fst s)) (int_elem j) (snd s) = Done (Some p)"
      "p \<in> set (addrs (av_root (fst s)))" "cell (nodes (snd s)) p = full (int_elem j)"
    using elems_lookup(1) [OF assms(1) j(3,1,2)] by blast
  obtain d' m' us vs where e: "qAVLTree__erase int_elem_comparator (fst s) p (snd s) = Done (0, d', m')"
      "elems (left_at n j) = us @ int_elem j # vs" "avl_holds int_elem_comparator m' d' (us @ vs)"
    using int_elems.erase_holds [OF assms(1) [unfolded avl_in_def] p(2,3)] by blast
  have "distinct (elems (left_at n j))"
    using assms(1) int_elems.csorted_distinct by (simp add: avl_in_def avl_holds_def)
  then have "int_elem j \<notin> set us" "int_elem j \<notin> set vs"
    using e(2) by auto
  then have "filter (\<lambda>x. x \<noteq> int_elem j) us = us" "filter (\<lambda>x. x \<noteq> int_elem j) vs = vs"
    by (auto intro!: filter_True)
  then have "us @ vs = filter (\<lambda>x. x \<noteq> int_elem j) (elems (left_at n j))"
    by (simp add: e(2))
  also have "\<dots> = elems (filter (\<lambda>i. i \<noteq> j) (left_at n j))"
  proof -
    have "int_elem i \<noteq> int_elem j \<longleftrightarrow> i \<noteq> j" if "i \<in> set (left_at n j)" for i
      using that j int_elem_inj [of i j] by (auto simp: small_def)
    then have "filter (\<lambda>i. int_elem i \<noteq> int_elem j) (left_at n j) = filter (\<lambda>i. i \<noteq> j) (left_at n j)"
      by (intro filter_cong) auto
    then show ?thesis
      by (simp add: elems_def filter_map o_def)
  qed
  finally have "avl_in (left_at n (Suc j)) (d', m')"
    using e(3) left_at_odd [OF False, of n] by (simp add: avl_in_def)
  then show ?thesis
    using p(1) e(1) False by (simp add: avl_erase_turn_def odd_iff_mod_2_eq_one run_simps stat_of_def)
qed

lemma avl_erase_phase:
  assumes "avl_in [0..<n] s" and "n < 2 ^ 31"
  shows "\<exists>s'. for_loop avl_erase_turn 0 n s io = Some (Ran s' io) \<and> avl_in (filter even [0..<n]) s'"
  using for_loop_inv [of 0 n "\<lambda>j s. avl_in (left_at n j) s" avl_erase_turn io s] erase_turn [OF _ _ assms(2)] assms(1)
  by (simp add: left_at_ends)

lemma avl_recheck_phase:
  assumes "avl_in (filter even [0..<n]) s" and "n < 2 ^ 31"
  shows "for_loop avl_recheck_turn 0 n s io = Some (Ran s io)"
proof (rule for_loop_checks)
  fix j
  assume j: "j < n"
  note look = elems_lookup [OF assms(1) small_filter [OF small_upt [OF assms(2)]], of j]
  show "avl_recheck_turn j s io = Some (Ran s io)"
  proof (cases "even j")
    case True
    then obtain p where "qAVLTree__ptr_at int_elem_comparator (av_root (fst s)) (int_elem j) (snd s) = Done (Some p)"
        "p \<in> set (addrs (av_root (fst s)))" "cell (nodes (snd s)) p = full (int_elem j)"
      using look(1) j assms(2) by auto
    then show ?thesis
      using found_elem [OF assms(1), of p j] j assms(2) True
      by (simp add: avl_recheck_turn_def run_simps stat_of_def even_iff_mod_2_eq_zero)
  next
    case False
    then show ?thesis
      using look(2) j assms(2) by (simp add: avl_recheck_turn_def run_simps stat_of_def odd_iff_mod_2_eq_one)
  qed
qed

section \<open>The outcome\<close>

text \<open>
  C20: the test of the search tree, for every number of elements an \<^verbatim>\<open>int\<close> can hold and every allocator
  that returns unused addresses: it ends, all insertions succeed without an error recorded, every lookup
  finds its element, the thread passes all elements in order in both directions, and all removals
  succeed. It passes when the number is even, and for an odd number it fails like the test of the B-tree.
\<close>

theorem avl_test_outcome:
  assumes "n < 2 ^ 31" and "allocator al" and "finite (dom (nodes m0))" and "lerr m0 = 0"
  shows "avl_test al n m0 io = Some (tree_test_result n io)"
proof -
  obtain io1 io2 io3 io4 io5 where lines: "print_line ''[DBG] Testing Insertion..'' [] io = Some (Ran () io1)"
      "print_line ''[DBG] Testing Correctness..'' [] io1 = Some (Ran () io2)"
      "print_line ''[DBG] Testing Iteration/Next ..'' [] io2 = Some (Ran () io3)"
      "print_line ''[DBG] Testing Iteration/Prev ..'' [] io3 = Some (Ran () io4)"
      "print_line ''[DBG] Testing Erase..'' [] io4 = Some (Ran () io5)"
    and out: "io5 = write_to Stdout (text_lines [''[DBG] Testing Insertion..'', ''[DBG] Testing Correctness..'',
          ''[DBG] Testing Iteration/Next ..'', ''[DBG] Testing Iteration/Prev ..'', ''[DBG] Testing Erase..'']) io"
    by (rule tree_test_headings)
  obtain s where ins: "for_loop (avl_insert_turn al) 0 n (qAVLTree_constructor, m0) io1 = Some (Ran s io1)"
      and s: "avl_has [0..<n] s"
    using avl_insert_phase [OF assms(2-4,1)] by blast
  then have s': "avl_in [0..<n] s"
    by (simp add: avl_has_def)
  have size: "av_size (fst s) = of_nat n"
    using s' by (simp add: avl_in_def avl_holds_def elems_def)
  obtain t where er: "for_loop avl_erase_turn 0 n s io5 = Some (Ran t io5)" and t: "avl_in (filter even [0..<n]) t"
    using avl_erase_phase [OF s' assms(1)] by blast
  have size': "av_size (fst t) = of_nat ((n + 1) div 2)"
    using t length_evens [of n] by (simp add: avl_in_def avl_holds_def elems_def)
  from tree_test_end [OF assms(1) size' out, where recheck = "for_loop avl_recheck_turn 0 n t" and d = t,
      OF avl_recheck_phase [OF t assms(1)]]
  show ?thesis
    unfolding avl_test_def
    by (simp add: bind_run_simps lines ins size fail_if_False avl_check_phase [OF s assms(1)] iter_phase [OF s' assms(1)] er)
qed

text \<open>The number of elements that \<^verbatim>\<open>avltree_test.c\<close> defines, with the allocator that takes the first unused address.\<close>

theorem avl_test_outcome_witness:
  "\<exists>out. avl_test first_free 10000000 \<lparr>nodes = Map.empty, lerr = 0\<rparr> \<lparr>io_out = [], io_err = []\<rparr>
    = Some (Ran 0 \<lparr>io_out = out, io_err = []\<rparr>)"
  using avl_test_outcome [of 10000000 first_free "\<lparr>nodes = Map.empty, lerr = 0\<rparr>" "\<lparr>io_out = [], io_err = []\<rparr>"]
    first_free.allocator_axioms
  by (auto simp: tree_test_result_def Let_def)

end
