(* ===== verification/Vector.thy ===== *)
theory Vector
  imports Zerror Refine
begin

text \<open>
  \<^verbatim>\<open>zhwkre/vector.h\<close> and \<^verbatim>\<open>zhwkre/containers/vector.c\<close>: the growable array. The block behind \<^verbatim>\<open>content\<close>
  is modelled by its address and its bytes; an iterator keeps the address, so that using one after the
  block was replaced is a \<^const>\<open>Fault\<close>. The counter behind \<^verbatim>\<open>size\<close> is shared by the descriptor and its
  iterators and lives in the descriptor here. \<^verbatim>\<open>int\<close> arithmetic that leaves the 32-bit range is
  undefined. Where the code allocates, the outcome is an argument. The error variable is not modelled.
\<close>

section \<open>Model\<close>

record qVectorDescriptor =
  v_content :: "(nat \<times> bytes) option"
  v_size :: int
  v_elemstep :: int
  v_allocated :: int

record qVectorIterator =
  vi_base :: "nat option"
  vi_count :: int
  vi_elemstep :: int

definition ck :: "int \<Rightarrow> int exec" where
  "ck x = (if - (2 ^ 31) \<le> x \<and> x < 2 ^ 31 then Done x else Fault)"

definition of_opt :: "'a option \<Rightarrow> 'a exec" where
  "of_opt x = (case x of None \<Rightarrow> Fault | Some y \<Rightarrow> Done y)"

text \<open>The first allocation is the counter; the code writes to it even when it failed.\<close>

definition qVector_constructor :: "bool \<Rightarrow> int \<Rightarrow> qVectorDescriptor exec" where
  "qVector_constructor mok elemsize =
     (if \<not> mok then Fault
      else Done \<lparr>v_content = None, v_size = 0, v_elemstep = elemsize, v_allocated = 0\<rparr>)"

text \<open>
  The block of \<open>n\<close> bytes at \<open>a\<close> with the first \<open>k\<close> bytes of the old one, as after
  \<^verbatim>\<open>malloc\<close>, \<^verbatim>\<open>memcpy\<close> and \<^verbatim>\<open>free\<close>. A negative size is a huge one.
\<close>

definition move_block :: "nat \<Rightarrow> int \<Rightarrow> (nat \<times> bytes) option \<Rightarrow> int \<Rightarrow> (nat \<times> bytes) exec" where
  "move_block a n old k =
     (if n < 0 \<or> k < 0 then Fault
      else
        (case old of
           None \<Rightarrow> Fault
         | Some (b, blk) \<Rightarrow>
             bind_exec (of_opt (memcpy (replicate (nat n) 0) 0 blk (nat k))) (\<lambda>new. Done (a, new))))"

definition qVector__push_back ::
  "nat option \<Rightarrow> qVectorDescriptor \<Rightarrow> bytes \<Rightarrow> (int \<times> qVectorDescriptor) exec" where
  "qVector__push_back a desc elem =
     bind_exec (ck (v_size desc + 1)) (\<lambda>n.
     bind_exec (ck (n * v_elemstep desc)) (\<lambda>need.
     let store = (\<lambda>desc.
           case v_content desc of
             None \<Rightarrow> Fault
           | Some (b, blk) \<Rightarrow>
               if v_size desc * v_elemstep desc < 0 \<or> v_elemstep desc < 0 then Fault
               else
                 bind_exec (of_opt (memcpy blk (nat (v_size desc * v_elemstep desc)) elem (nat (v_elemstep desc)))) (\<lambda>blk.
                 Done (0, desc\<lparr>v_content := Some (b, blk), v_size := n\<rparr>)))
     in if v_allocated desc < need then
          bind_exec (ck (v_allocated desc + v_elemstep desc)) (\<lambda>s.
          bind_exec (ck (2 * s)) (\<lambda>s2.
          case a of
            None \<Rightarrow> Done (-1, desc)
          | Some p \<Rightarrow>
              bind_exec (if v_content desc = None then (if s2 < 0 then Fault else Done (p, replicate (nat s2) 0))
                         else move_block p s2 (v_content desc) (v_allocated desc)) (\<lambda>blk.
              store (desc\<lparr>v_content := Some blk, v_allocated := s2\<rparr>))))
        else store desc))"

text \<open>\<^verbatim>\<open>allocated\<close> is never negative, so that \<^verbatim>\<open>/\<close> is \<open>div\<close>.\<close>

definition qVector__pop_back :: "nat option \<Rightarrow> qVectorDescriptor \<Rightarrow> (int \<times> qVectorDescriptor) exec" where
  "qVector__pop_back a desc =
     bind_exec (ck (v_size desc - 1)) (\<lambda>n.
     let desc = desc\<lparr>v_size := n\<rparr> in
     bind_exec (ck (n * v_elemstep desc)) (\<lambda>used.
     bind_exec (ck (2 * used)) (\<lambda>twice.
     if v_allocated desc > twice \<and> v_allocated desc div 2 \<noteq> 0 then
       (case a of
          None \<Rightarrow> Done (-1, desc)
        | Some p \<Rightarrow>
            bind_exec (move_block p (v_allocated desc div 2) (v_content desc) used) (\<lambda>blk.
            Done (0, desc\<lparr>v_content := Some blk, v_allocated := v_allocated desc div 2\<rparr>)))
     else Done (0, desc))))"

text \<open>The result, and the block that is given back (beside the counter).\<close>

definition qVector_destructor :: "qVectorDescriptor \<Rightarrow> int \<times> nat option" where
  "qVector_destructor desc = (0, map_option fst (v_content desc))"

definition qVector_begin :: "qVectorDescriptor \<Rightarrow> qVectorIterator" where
  "qVector_begin desc =
     \<lparr>vi_base = map_option fst (v_content desc), vi_count = 0, vi_elemstep = v_elemstep desc\<rparr>"

definition qVector_end :: "qVectorDescriptor \<Rightarrow> qVectorIterator" where
  "qVector_end desc = (qVector_begin desc)\<lparr>vi_count := v_size desc - 1\<rparr>"

definition qVectorIterator_isvalid :: "qVectorDescriptor \<Rightarrow> qVectorIterator \<Rightarrow> bool" where
  "qVectorIterator_isvalid desc iter \<longleftrightarrow> vi_count iter < v_size desc \<and> vi_count iter \<ge> 0"

definition qVectorIterator_move :: "qVectorIterator \<Rightarrow> int \<Rightarrow> qVectorIterator" where
  "qVectorIterator_move iter delta = iter\<lparr>vi_count := vi_count iter + delta\<rparr>"

definition qVectorIterator_diff :: "qVectorIterator \<Rightarrow> qVectorIterator \<Rightarrow> int" where
  "qVectorIterator_diff a b = vi_count a - vi_count b"

text \<open>The block an iterator points into, if it is still there, and the offset in it.\<close>

definition qVectorIterator_deref :: "qVectorDescriptor \<Rightarrow> qVectorIterator \<Rightarrow> (bytes \<times> nat) exec" where
  "qVectorIterator_deref desc iter =
     (case v_content desc of
        None \<Rightarrow> Fault
      | Some (b, blk) \<Rightarrow>
          if vi_base iter = Some b \<and> 0 \<le> vi_count iter * vi_elemstep iter \<and> vi_count iter * vi_elemstep iter < 2 ^ 31
          then Done (blk, nat (vi_count iter * vi_elemstep iter)) else Fault)"

text \<open>\<^verbatim>\<open>memcpy(qVectorIterator_deref(i), src, elemstep)\<close>\<close>

definition put_at :: "qVectorDescriptor \<Rightarrow> qVectorIterator \<Rightarrow> bytes \<Rightarrow> qVectorDescriptor exec" where
  "put_at desc i src =
     bind_exec (qVectorIterator_deref desc i) (\<lambda>(blk, off).
     bind_exec (of_opt (memcpy blk off src (nat (v_elemstep desc)))) (\<lambda>blk.
     Done (desc\<lparr>v_content := map_option (\<lambda>(b, _). (b, blk)) (v_content desc)\<rparr>)))"

function erase_loop :: "qVectorDescriptor \<Rightarrow> qVectorIterator \<Rightarrow> (qVectorIterator \<times> qVectorDescriptor) exec" where
  "erase_loop desc i =
     (if qVectorIterator_isvalid desc (qVectorIterator_move i 1) then
        (case qVectorIterator_deref desc (qVectorIterator_move i 1) of
           Fault \<Rightarrow> Fault
         | Done (blk, off) \<Rightarrow>
             (case put_at desc i (drop off blk) of
                Fault \<Rightarrow> Fault
              | Done desc' \<Rightarrow> erase_loop desc' (qVectorIterator_move i 1)))
      else Done (i, desc))"
  by pat_completeness auto
termination
proof (relation "measure (\<lambda>(desc, i). nat (v_size desc - vi_count i))", goal_cases)
  case (2 desc i x blk off desc')
  then show ?case
    by (auto simp: put_at_def qVectorIterator_isvalid_def qVectorIterator_move_def bind_exec_def split: exec.splits)
qed simp

declare erase_loop.simps [simp del]

definition qVector__erase ::
  "bool \<Rightarrow> nat option \<Rightarrow> qVectorDescriptor \<Rightarrow> qVectorIterator \<Rightarrow> (int \<times> qVectorDescriptor) exec" where
  "qVector__erase mok a desc positional =
     (if \<not> mok then Done (-1, desc)
      else
        bind_exec (qVectorIterator_deref desc positional) (\<lambda>(blk, off).
        if v_elemstep desc < 0 then Fault
        else
          bind_exec (of_opt (memcpy (replicate (nat (v_elemstep desc)) 0) 0 (drop off blk) (nat (v_elemstep desc)))) (\<lambda>buffer.
          bind_exec (erase_loop desc positional) (\<lambda>(i, desc).
          bind_exec (put_at desc i buffer) (\<lambda>desc.
          qVector__pop_back a desc)))))"

section \<open>The elements\<close>

text \<open>The block starts with the elements, each of \<open>es\<close> bytes, one after the other.\<close>

definition vec_holds :: "nat \<Rightarrow> qVectorDescriptor \<Rightarrow> bytes list \<Rightarrow> bool" where
  "vec_holds es v xs \<longleftrightarrow> 0 < es \<and> v_elemstep v = int es \<and> v_size v = int (length xs) \<and> (\<forall>x \<in> set xs. length x = es)
     \<and> (case v_content v of
          None \<Rightarrow> xs = [] \<and> v_allocated v = 0
        | Some (b, blk) \<Rightarrow> v_allocated v = int (length blk) \<and> (\<exists>rest. blk = concat xs @ rest))"

lemma length_concat_es: "\<forall>x \<in> set xs. length x = es \<Longrightarrow> length (concat xs) = length xs * es"
  by (induction xs) auto

lemma ck_ok: "- (2 ^ 31) \<le> x \<Longrightarrow> x < 2 ^ 31 \<Longrightarrow> ck x = Done x"
  by (simp add: ck_def)

lemma ck_nat: "n < 2 ^ 31 \<Longrightarrow> ck (int n) = Done (int n)"
  by (simp add: ck_def)

lemma of_opt_Some [simp]: "of_opt (Some x) = Done x"
  by (simp add: of_opt_def)

lemma memcpy_end:
  "length x = n \<Longrightarrow> n \<le> length rest \<Longrightarrow> memcpy (ys @ rest) (length ys) x n = Some (ys @ x @ drop n rest)"
  by (simp add: memcpy_def)

lemma memcpy_start:
  "length ys \<le> k \<Longrightarrow> k \<le> length (ys @ rest) \<Longrightarrow> k \<le> n \<Longrightarrow>
   \<exists>r. memcpy (replicate n 0) 0 (ys @ rest) k = Some (ys @ r) \<and> length (ys @ r) = n"
  by (simp add: memcpy_def)

text \<open>The write of the new element, when there is room.\<close>

lemma push_room:
  assumes "vec_holds es v xs" and "length x = es" and "v_content v = Some (b, blk)"
    and "length (concat xs) + es \<le> length blk"
  shows "\<exists>blk'. memcpy blk (nat (v_size v * v_elemstep v)) x (nat (v_elemstep v)) = Some blk'
    \<and> vec_holds es (v\<lparr>v_content := Some (b, blk'), v_size := v_size v + 1\<rparr>) (xs @ [x])"
proof -
  obtain rest where rest: "blk = concat xs @ rest"
    using assms(1,3) by (auto simp: vec_holds_def)
  have off: "nat (v_size v * v_elemstep v) = length (concat xs)" "nat (v_elemstep v) = es"
    using assms(1) length_concat_es [of xs es] by (auto simp: vec_holds_def simp flip: of_nat_mult)
  have "memcpy blk (length (concat xs)) x es = Some (concat xs @ x @ drop es rest)"
    unfolding rest using assms(2,4) rest by (intro memcpy_end) auto
  then show ?thesis
    using assms off rest by (auto simp: vec_holds_def)
qed

lemma push_back_vec:
  assumes "vec_holds es v xs" and "length x = es" and "2 * (length xs + 2) * es < 2 ^ 31"
  shows "\<exists>v'. qVector__push_back (Some p) v x = Done (0, v') \<and> vec_holds es v' (xs @ [x])"
proof -
  have V: "0 < es" "v_elemstep v = int es" "v_size v = int (length xs)" "\<forall>x \<in> set xs. length x = es"
    using assms(1) by (auto simp: vec_holds_def)
  have "1 * (length xs + 2) \<le> es * (length xs + 2)"
    using V(1) by (intro mult_right_mono) auto
  then have "length xs + 1 < 2 ^ 31"
    using assms(3) by (simp add: mult.commute)
  then have c1: "ck (v_size v + 1) = Done (v_size v + 1)"
    by (simp add: V ck_def)
  have nn: "\<not> v_size v * v_elemstep v < 0" "\<not> v_elemstep v < 0"
    using V by (simp_all add: not_less)
  have need: "(length xs + 1) * es + (length xs + 3) * es < 2 ^ 31"
    using assms(3) by (simp add: algebra_simps)
  have "(v_size v + 1) * v_elemstep v = int ((length xs + 1) * es)"
    by (simp add: V algebra_simps)
  with need have c2: "ck ((v_size v + 1) * v_elemstep v) = Done (int ((length xs + 1) * es))"
    by (simp only:) (intro ck_nat, linarith)
  have used: "length (concat xs) = length xs * es"
    using length_concat_es [OF V(4)] .
  show ?thesis
  proof (cases "v_allocated v < int ((length xs + 1) * es)")
    case False
    then obtain b blk where blk: "v_content v = Some (b, blk)" "length (concat xs) + es \<le> length blk"
      using assms(1) V(1) used by (auto simp: vec_holds_def split: option.splits)
    from push_room [OF assms(1,2) blk] show ?thesis
      using False by (auto simp: qVector__push_back_def Let_def c1 c2 nn blk(1) simp del: of_nat_mult of_nat_add)
  next
    case True
    define s2 where "s2 = 2 * (v_allocated v + v_elemstep v)"
    have al: "0 \<le> v_allocated v"
      using assms(1) by (auto simp: vec_holds_def split: option.splits)
    have lt: "s2 < 2 * int ((length xs + 2) * es)" "0 \<le> s2"
      using True al V(2) by (simp_all add: s2_def algebra_simps)
    have "int (2 * ((length xs + 2) * es)) < int (2 ^ 31)"
      using assms(3) by (simp only: of_nat_less_iff mult.assoc)
    then have c3: "ck (v_allocated v + v_elemstep v) = Done (v_allocated v + v_elemstep v)" "ck (2 * (v_allocated v + v_elemstep v)) = Done s2"
      using lt al V(2) by (auto simp: s2_def intro!: ck_ok)
    obtain blk where blk: "(if v_content v = None then (if s2 < 0 then Fault else Done (p, replicate (nat s2) 0))
         else move_block p s2 (v_content v) (v_allocated v)) = Done (p, blk)"
        "length blk = nat s2" "\<exists>rest. blk = concat xs @ rest"
    proof (cases "v_content v")
      case None
      then show ?thesis
        using assms(1) lt that by (simp add: vec_holds_def)
    next
      case (Some c)
      obtain b old where c: "c = (b, old)"
        by (cases c)
      then obtain rest where old: "old = concat xs @ rest" "v_allocated v = int (length old)"
        using Some assms(1) by (auto simp: vec_holds_def)
      have "\<exists>r. memcpy (replicate (nat s2) 0) 0 (concat xs @ rest) (length old) = Some (concat xs @ r) \<and> length (concat xs @ r) = nat s2"
        using old V(2) by (intro memcpy_start) (auto simp: s2_def)
      then obtain r where "memcpy (replicate (nat s2) 0) 0 old (length old) = Some (concat xs @ r)" "length (concat xs @ r) = nat s2"
        using old(1) by blast
      then show ?thesis
        using Some c lt al old(2) that by (simp add: move_block_def)
    qed
    let ?v = "v\<lparr>v_content := Some (p, blk), v_allocated := s2\<rparr>"
    have "vec_holds es ?v xs"
      using V blk(2,3) lt(2) by (simp add: vec_holds_def)
    moreover have "length (concat xs) + es \<le> length blk"
    proof -
      have "int (length xs * es) \<le> v_allocated v"
        using assms(1) used by (auto simp: vec_holds_def split: option.splits)
      then have "int (length xs * es + es) \<le> s2"
        using V(2) al by (simp add: s2_def del: of_nat_mult)
      then show ?thesis
        using blk(2) used by linarith
    qed
    ultimately obtain blk' where "memcpy blk (nat (v_size v * v_elemstep v)) x (nat (v_elemstep v)) = Some blk'"
        "vec_holds es (?v\<lparr>v_content := Some (p, blk'), v_size := v_size v + 1\<rparr>) (xs @ [x])"
      using push_room [of es ?v xs x p blk] assms(2) by auto
    then show ?thesis
      using True by (simp add: qVector__push_back_def Let_def c1 c2 c3 nn blk(1) split del: if_split del: of_nat_mult of_nat_add distrib_left_numeral)
  qed
qed

section \<open>Removal\<close>

lemma pop_back_vec:
  assumes "vec_holds es v (xs @ [x])" and "2 * (length xs + 1) * es < 2 ^ 31"
  shows "\<exists>v'. qVector__pop_back (Some p) v = Done (0, v') \<and> vec_holds es v' xs"
proof -
  obtain b blk rest where V: "0 < es" "v_elemstep v = int es" "v_size v = int (length xs) + 1" "\<forall>x \<in> set xs. length x = es"
      "v_content v = Some (b, blk)" "v_allocated v = int (length blk)" "blk = concat xs @ x @ rest"
    using assms(1) by (auto simp: vec_holds_def split: option.splits)
  have used: "length (concat xs) = length xs * es"
    using length_concat_es [OF V(4)] .
  have "1 * (length xs + 1) \<le> es * (length xs + 1)"
    using V(1) by (intro mult_right_mono) auto
  then have c1: "ck (v_size v - 1) = Done (int (length xs))"
    using assms(2) by (simp add: V ck_def mult.commute)
  have bound: "2 * (length xs * es) < 2 ^ 31"
    using assms(2) by (simp add: algebra_simps)
  have "int (length xs) * v_elemstep v = int (length xs * es)" "2 * int (length xs * es) = int (2 * (length xs * es))"
    by (simp_all add: V)
  with bound have c2: "ck (int (length xs) * v_elemstep v) = Done (int (length xs * es))"
      "ck (2 * int (length xs * es)) = Done (2 * int (length xs * es))"
    by (auto simp only: intro!: ck_nat)
  show ?thesis
  proof (cases "v_allocated v > 2 * int (length xs * es) \<and> v_allocated v div 2 \<noteq> 0")
    case False
    then have "qVector__pop_back (Some p) v = Done (0, v\<lparr>v_size := int (length xs)\<rparr>)"
      by (auto simp: qVector__pop_back_def Let_def c1 c2 simp del: of_nat_mult)
    moreover have "vec_holds es (v\<lparr>v_size := int (length xs)\<rparr>) xs"
      using V(1-6) by (simp add: vec_holds_def) (simp add: V(7))
    ultimately show ?thesis
      by blast
  next
    case True
    then have le: "length xs * es \<le> length blk div 2"
      using V(6) by linarith
    have n: "nat (v_allocated v div 2) = length blk div 2"
      using V(6) by (simp add: nat_div_distrib)
    have "\<exists>r. memcpy (replicate (length blk div 2) 0) 0 (concat xs @ x @ rest) (length xs * es) = Some (concat xs @ r)
        \<and> length (concat xs @ r) = length blk div 2"
      using used le V(7) by (intro memcpy_start) auto
    then obtain r where "move_block p (v_allocated v div 2) (v_content v) (int (length xs * es)) = Done (p, concat xs @ r)"
        "length (concat xs @ r) = length blk div 2"
      using V(5-7) n by (auto simp: move_block_def simp del: of_nat_mult)
    note mv = this
    let ?v = "v\<lparr>v_size := int (length xs), v_content := Some (p, concat xs @ r), v_allocated := v_allocated v div 2\<rparr>"
    have "qVector__pop_back (Some p) v = Done (0, ?v)"
      using True mv(1) by (simp add: qVector__pop_back_def Let_def c1 c2 del: of_nat_mult)
    moreover have "vec_holds es ?v xs"
      using V(1,2,4,6) mv(2) by (simp add: vec_holds_def zdiv_int del: length_append)
    ultimately show ?thesis
      by blast
  qed
qed

lemma split_block:
  assumes "\<forall>x \<in> set xs. length x = es" and "i < length xs"
  shows "concat xs @ rest = concat (take i xs) @ xs ! i @ concat (drop (Suc i) xs) @ rest"
    "length (concat (take i xs)) = i * es" "length (xs ! i) = es"
proof -
  show "concat xs @ rest = concat (take i xs) @ xs ! i @ concat (drop (Suc i) xs) @ rest"
    by (subst (1) id_take_nth_drop [OF assms(2)]) simp
  show "length (concat (take i xs)) = i * es"
    using length_concat_es [of "take i xs" es] assms by (auto dest: in_set_takeD)
qed (use assms in auto)

lemma element_at:
  assumes "\<forall>x \<in> set xs. length x = es" and "i < length xs"
  shows "take es (drop (i * es) (concat xs @ rest)) = xs ! i" "i * es + es \<le> length (concat xs @ rest)"
  unfolding split_block(1) [OF assms] using split_block(2,3) [OF assms] by simp_all

lemma write_at:
  assumes "\<forall>x \<in> set xs. length x = es" and "i < length xs" and "es \<le> length src"
  shows "memcpy (concat xs @ rest) (i * es) src es = Some (concat (xs[i := take es src]) @ rest)"
proof -
  have "concat (xs[i := take es src]) @ rest = concat (take i xs) @ take es src @ concat (drop (Suc i) xs) @ rest"
    using assms(2) by (simp add: upd_conv_take_nth_drop)
  then show ?thesis
    using split_block(1) [OF assms(1,2), of rest] split_block(2,3) [OF assms(1,2)] assms(3) by (simp add: memcpy_def)
qed

definition at :: "nat \<Rightarrow> nat \<Rightarrow> nat \<Rightarrow> qVectorIterator" where
  "at b es i = \<lparr>vi_base = Some b, vi_count = int i, vi_elemstep = int es\<rparr>"

lemma move_at: "qVectorIterator_move (at b es i) 1 = at b es (Suc i)"
  by (simp add: at_def qVectorIterator_move_def)

lemma vec_bound:
  assumes "i < n" and "2 * (n * es) < (2::nat) ^ 31"
  shows "int i * int es < 2 ^ 31"
proof -
  have "i * es \<le> n * es"
    using assms(1) by simp
  then have "int (i * es) < int (2 ^ 31)"
    using assms(2) by linarith
  then show ?thesis
    by simp
qed

lemma deref_at:
  assumes "vec_holds es v xs" and "v_content v = Some (b, blk)" and "i < length xs" and "2 * (length xs * es) < 2 ^ 31"
  shows "qVectorIterator_deref v (at b es i) = Done (blk, i * es)"
  using assms(2) vec_bound [OF assms(3,4)] by (simp add: qVectorIterator_deref_def at_def nat_mult_distrib)

lemma put_at_vec:
  assumes "vec_holds es v xs" and "v_content v = Some (b, blk)" and "i < length xs" and "2 * (length xs * es) < 2 ^ 31"
    and "es \<le> length src"
  shows "\<exists>blk'. put_at v (at b es i) src = Done (v\<lparr>v_content := Some (b, blk')\<rparr>)
    \<and> vec_holds es (v\<lparr>v_content := Some (b, blk')\<rparr>) (xs[i := take es src])"
proof -
  obtain rest where V: "v_elemstep v = int es" "\<forall>x \<in> set xs. length x = es" "blk = concat xs @ rest"
      "v_allocated v = int (length blk)"
    using assms(1,2) by (auto simp: vec_holds_def)
  note w = write_at [OF V(2) assms(3,5), of rest]
  then have "length (concat (xs[i := take es src]) @ rest) = length blk"
    using length_memcpy V(3) by metis
  note len = this
  let ?v = "v\<lparr>v_content := Some (b, concat (xs[i := take es src]) @ rest)\<rparr>"
  have "put_at v (at b es i) src = Done ?v"
    using w V(1,3) assms(2) by (simp add: put_at_def deref_at [OF assms(1-4)])
  moreover have "\<forall>x \<in> set (xs[i := take es src]). length x = es"
    using V(2) assms(5) set_update_subset_insert [of xs i "take es src"] by auto
  then have "vec_holds es ?v (xs[i := take es src])"
    using assms(1) V(1,4) len by (simp add: vec_holds_def del: length_append)
  ultimately show ?thesis
    by blast
qed

text \<open>The loop of \<^verbatim>\<open>qVector__erase\<close> moves the elements behind the position one place forward.\<close>

definition shifted :: "nat \<Rightarrow> 'a list \<Rightarrow> 'a list" where
  "shifted c xs = take c xs @ drop (Suc c) xs @ [last xs]"

lemma shifted_last: "Suc c = length xs \<Longrightarrow> shifted c xs = xs"
  by (cases xs rule: rev_cases) (auto simp: shifted_def)

lemma shifted_step:
  assumes "Suc c < length xs"
  shows "shifted (Suc c) (xs[c := xs ! Suc c]) = shifted c xs"
proof -
  have "drop (Suc c) xs = xs ! Suc c # drop (Suc (Suc c)) xs"
    using assms by (simp add: Cons_nth_drop_Suc)
  moreover have "take (Suc c) (xs[c := xs ! Suc c]) = take c xs @ [xs ! Suc c]"
    using assms by (simp add: take_Suc_conv_app_nth)
  moreover have "last (xs[c := xs ! Suc c]) = last xs"
    using assms by (subst last_list_update) auto
  ultimately show ?thesis
    by (simp add: shifted_def)
qed

lemma length_shifted: "c < length xs \<Longrightarrow> length (shifted c xs) = length xs"
  by (simp add: shifted_def)

lemma erase_loop_vec:
  assumes "vec_holds es v xs" and "v_content v = Some (b, blk)" and "c < length xs" and "2 * (length xs * es) < 2 ^ 31"
  shows "\<exists>v' blk'. erase_loop v (at b es c) = Done (at b es (length xs - 1), v')
    \<and> vec_holds es v' (shifted c xs) \<and> v_content v' = Some (b, blk')"
  using assms
proof (induction "length xs - c" arbitrary: c v blk xs)
  case (Suc k)
  have len: "v_size v = int (length xs)"
    using Suc.prems(1) by (simp add: vec_holds_def)
  show ?case
  proof (cases "Suc c < length xs")
    case False
    then have "Suc c = length xs"
      using Suc.prems(3) by simp
    moreover from this have "at b es (length xs - 1) = at b es c"
      by (metis diff_Suc_1)
    moreover have "\<not> qVectorIterator_isvalid v (at b es (Suc c))"
      using False len by (simp add: qVectorIterator_isvalid_def at_def)
    ultimately show ?thesis
      using Suc.prems by (subst erase_loop.simps) (simp add: move_at shifted_last)
  next
    case True
    have val: "qVectorIterator_isvalid v (at b es (Suc c))"
      using True len by (simp add: qVectorIterator_isvalid_def at_def)
    obtain rest where V: "\<forall>x \<in> set xs. length x = es" "blk = concat xs @ rest"
      using Suc.prems(1,2) by (auto simp: vec_holds_def)
    note dr = deref_at [OF Suc.prems(1,2) True Suc.prems(4)]
    have src: "take es (drop (Suc c * es) blk) = xs ! Suc c" "es \<le> length (drop (Suc c * es) blk)"
      using element_at [OF V(1) True, of rest] V(2) by simp_all
    obtain blk' where p: "put_at v (at b es c) (drop (Suc c * es) blk) = Done (v\<lparr>v_content := Some (b, blk')\<rparr>)"
        "vec_holds es (v\<lparr>v_content := Some (b, blk')\<rparr>) (xs[c := xs ! Suc c])"
      using put_at_vec [OF Suc.prems(1-4) src(2)] src(1) by auto
    have "erase_loop v (at b es c) = erase_loop (v\<lparr>v_content := Some (b, blk')\<rparr>) (at b es (Suc c))"
      by (subst erase_loop.simps) (simp add: move_at val dr p(1) del: mult_Suc)
    then show ?thesis
      using Suc.hyps(1) [OF _ p(2), of "Suc c" blk'] Suc.hyps(2) Suc.prems(4) True shifted_step [OF True] by simp
  qed
qed simp

lemma erase_vec:
  assumes "vec_holds es v xs" and "i < length xs" and "2 * (length xs * es) < 2 ^ 31"
  shows "\<exists>v'. qVector__erase True (Some p) v (qVectorIterator_move (qVector_begin v) (int i)) = Done (0, v')
    \<and> vec_holds es v' (take i xs @ drop (Suc i) xs)"
proof -
  obtain b blk rest where V: "0 < es" "v_elemstep v = int es" "\<forall>x \<in> set xs. length x = es"
      "v_content v = Some (b, blk)" "blk = concat xs @ rest"
    using assms(1,2) by (auto simp: vec_holds_def split: option.splits)
  have it: "qVectorIterator_move (qVector_begin v) (int i) = at b es i"
    using V by (simp add: qVectorIterator_move_def qVector_begin_def at_def)
  note dr = deref_at [OF assms(1) V(4) assms(2,3)]
  have src: "take es (drop (i * es) blk) = xs ! i" "es \<le> length (drop (i * es) blk)"
    using element_at [OF V(3) assms(2), of rest] V(5) by simp_all
  then have buf: "memcpy (replicate es 0) 0 (drop (i * es) blk) es = Some (xs ! i)"
    using V(3) assms(2) by (simp add: memcpy_def)
  obtain v1 blk1 where l: "erase_loop v (at b es i) = Done (at b es (length xs - 1), v1)"
      "vec_holds es v1 (shifted i xs)" "v_content v1 = Some (b, blk1)"
    using erase_loop_vec [OF assms(1) V(4) assms(2,3)] by blast
  have n: "length xs - 1 < length (shifted i xs)" "2 * (length (shifted i xs) * es) < 2 ^ 31"
    using assms(2,3) by (auto simp: length_shifted)
  obtain blk2 where q: "put_at v1 (at b es (length xs - 1)) (xs ! i) = Done (v1\<lparr>v_content := Some (b, blk2)\<rparr>)"
      "vec_holds es (v1\<lparr>v_content := Some (b, blk2)\<rparr>) ((shifted i xs)[length xs - 1 := xs ! i])"
    using put_at_vec [OF l(2,3) n, of "xs ! i"] V(3) assms(2) by auto
  have "length (take i xs @ drop (Suc i) xs) = length xs - 1"
    using assms(2) by simp
  then have "(shifted i xs)[length xs - 1 := xs ! i] = (take i xs @ drop (Suc i) xs) @ [xs ! i]"
    by (metis append_assoc list_update_length shifted_def)
  moreover have "length (take i xs @ drop (Suc i) xs) + 1 = length xs"
    using assms(2) by simp
  then have "2 * (length (take i xs @ drop (Suc i) xs) + 1) * es < 2 ^ 31"
    using assms(3) by (simp only: mult.assoc)
  ultimately obtain v' where "qVector__pop_back (Some p) (v1\<lparr>v_content := Some (b, blk2)\<rparr>) = Done (0, v')"
      "vec_holds es v' (take i xs @ drop (Suc i) xs)"
    using pop_back_vec q(2) by metis
  then show ?thesis
    using V(2) by (simp add: qVector__erase_def it dr buf l(1) q(1) del: One_nat_def)
qed

section \<open>Histories\<close>

datatype vec_op = VPush bytes | VPop | VErase nat | VAt nat

text \<open>
  One call on the descriptor, with the value returned and the bytes read; \<open>al\<close> gives the address of a
  new block.
\<close>

fun vec_step ::
  "(qVectorDescriptor \<Rightarrow> nat) \<Rightarrow> vec_op \<Rightarrow> qVectorDescriptor \<Rightarrow> ((int \<times> bytes) \<times> qVectorDescriptor) exec" where
  "vec_step al (VPush x) v = bind_exec (qVector__push_back (Some (al v)) v x) (\<lambda>(r, v). Done ((r, []), v))"
| "vec_step al VPop v = bind_exec (qVector__pop_back (Some (al v)) v) (\<lambda>(r, v). Done ((r, []), v))"
| "vec_step al (VErase i) v =
     bind_exec (qVector__erase True (Some (al v)) v (qVectorIterator_move (qVector_begin v) (int i))) (\<lambda>(r, v).
     Done ((r, []), v))"
| "vec_step al (VAt i) v =
     bind_exec (qVectorIterator_deref v (qVectorIterator_move (qVector_begin v) (int i))) (\<lambda>(blk, off).
     Done ((0, take (nat (v_elemstep v)) (drop off blk)), v))"

text \<open>
  The same on a sequence of elements of \<open>es\<close> bytes. The bound keeps the \<^verbatim>\<open>int\<close> arithmetic in range;
  removing from an empty vector is outside the contract.
\<close>

fun vseq_step :: "nat \<Rightarrow> vec_op \<Rightarrow> bytes list \<Rightarrow> ((int \<times> bytes) \<times> bytes list) option" where
  "vseq_step es (VPush x) xs =
     (if length x = es \<and> 2 * (length xs + 2) * es < 2 ^ 31 then Some ((0, []), xs @ [x]) else None)"
| "vseq_step es VPop xs = (if xs \<noteq> [] then Some ((0, []), butlast xs) else None)"
| "vseq_step es (VErase i) xs = (if i < length xs then Some ((0, []), take i xs @ drop (Suc i) xs) else None)"
| "vseq_step es (VAt i) xs = (if i < length xs then Some ((0, xs ! i), xs) else None)"

definition vec_rel :: "nat \<Rightarrow> qVectorDescriptor \<Rightarrow> bytes list \<Rightarrow> bool" where
  "vec_rel es v xs \<longleftrightarrow> vec_holds es v xs \<and> 2 * (length xs + 1) * es < 2 ^ 31"

lemma vec_rel_shorter: "vec_holds es v' ys \<Longrightarrow> vec_rel es v xs \<Longrightarrow> length ys \<le> length xs \<Longrightarrow> vec_rel es v' ys"
proof -
  assume a: "vec_holds es v' ys" "vec_rel es v xs" "length ys \<le> length xs"
  then have "2 * (length ys + 1) * es \<le> 2 * (length xs + 1) * es"
    by (intro mult_right_mono) auto
  then show ?thesis
    using a(1,2) unfolding vec_rel_def by (meson le_less_trans)
qed

lemma vec_step_sim:
  assumes "vec_rel es v xs" and "vseq_step es op xs = Some (r, xs')"
  shows "\<exists>v'. vec_step al op v = Done (r, v') \<and> vec_rel es v' xs'"
proof -
  have H: "vec_holds es v xs" "2 * (length xs + 1) * es < 2 ^ 31" "2 * (length xs * es) < 2 ^ 31"
    using assms(1) by (auto simp: vec_rel_def algebra_simps)
  show ?thesis
  proof (cases op)
    case (VPush x)
    then have x: "length x = es" "2 * (length xs + 2) * es < 2 ^ 31" "r = (0, [])" "xs' = xs @ [x]"
      using assms(2) by (auto split: if_splits)
    from push_back_vec [OF H(1) x(1,2), of "al v"] show ?thesis
      using VPush x by (auto simp: vec_rel_def)
  next
    case VPop
    then obtain ys y where xs: "xs = ys @ [y]" "r = (0, [])" "xs' = ys"
      using assms(2) by (cases xs rule: rev_cases) (auto split: if_splits)
    have "2 * (length ys + 1) * es < 2 ^ 31"
      using H(2) xs(1) by simp
    with pop_back_vec [of es v ys y "al v"] obtain v' where
      "qVector__pop_back (Some (al v)) v = Done (0, v')" "vec_holds es v' ys"
      using H(1) xs(1) by auto
    then show ?thesis
      using VPop xs vec_rel_shorter [OF _ assms(1), of v' ys] by simp
  next
    case (VErase i)
    then have i: "i < length xs" "r = (0, [])" "xs' = take i xs @ drop (Suc i) xs"
      using assms(2) by (auto split: if_splits)
    with erase_vec [OF H(1) i(1) H(3), of "al v"] obtain v' where
      "qVector__erase True (Some (al v)) v (qVectorIterator_move (qVector_begin v) (int i)) = Done (0, v')"
      "vec_holds es v' xs'"
      by blast
    then show ?thesis
      using VErase i vec_rel_shorter [OF _ assms(1), of v' xs'] by simp
  next
    case (VAt i)
    then have i: "i < length xs" "r = (0, xs ! i)" "xs' = xs"
      using assms(2) by (auto split: if_splits)
    obtain b blk rest where V: "v_elemstep v = int es" "\<forall>x \<in> set xs. length x = es"
        "v_content v = Some (b, blk)" "blk = concat xs @ rest"
      using H(1) i(1) by (auto simp: vec_holds_def split: option.splits)
    have "qVectorIterator_move (qVector_begin v) (int i) = at b es i"
      using V by (simp add: qVectorIterator_move_def qVector_begin_def at_def)
    then show ?thesis
      using VAt i V(1,4) deref_at [OF H(1) V(3) i(1) H(3)] element_at(1) [OF V(2) i(1), of rest] assms(1) by simp
  qed
qed

interpretation vectors: refinement "vec_step al" "vseq_step es" "vec_rel es" for al es
  by unfold_locales (rule vec_step_sim)

text \<open>
  C25: any history of pushes, pops, removals and reads on a new vector, whatever the addresses of its
  blocks, gives the values that the same history on a sequence gives, as long as the sizes stay in the
  range of \<^verbatim>\<open>int\<close>.
\<close>

theorem vector_refines_sequence:
  assumes "0 < es" and "4 * es < 2 ^ 31" and "arun (vseq_step es) ops [] = Some (rs, xs)"
  shows "\<exists>v0 v. qVector_constructor True (int es) = Done v0 \<and> run (vec_step al) ops v0 = Done (rs, v)
    \<and> vec_holds es v xs"
proof -
  let ?v = "\<lparr>v_content = None, v_size = 0, v_elemstep = int es, v_allocated = 0\<rparr>"
  have "vec_rel es ?v []"
    using assms(1,2) by (simp add: vec_rel_def vec_holds_def)
  from vectors.run_sim [OF this assms(3)] show ?thesis
    by (auto simp: qVector_constructor_def vec_rel_def)
qed

theorem vector_refines_sequence_witness:
  "\<exists>v0 v. qVector_constructor True (int 2) = Done v0
    \<and> run (vec_step (\<lambda>v. 64)) [VPush [1, 2], VPush [3, 4], VPush [5, 6], VErase 0, VAt 1, VPop] v0
        = Done ([(0, []), (0, []), (0, []), (0, []), (0, [5, 6]), (0, [])], v) \<and> vec_holds 2 v [[3, 4]]"
  by (rule vector_refines_sequence) simp_all

text \<open>A pop of an empty vector makes the size negative.\<close>

lemma pop_empty_vector:
  "qVector__pop_back a \<lparr>v_content = None, v_size = 0, v_elemstep = 4, v_allocated = 0\<rparr>
   = Done (0, \<lparr>v_content = None, v_size = -1, v_elemstep = 4, v_allocated = 0\<rparr>)"
  by (simp add: qVector__pop_back_def ck_def Let_def)

end
