(* ===== verification/TestBuffers.thy ===== *)
theory TestBuffers
  imports TestRun Bss Vector
begin

text \<open>
  \<^verbatim>\<open>zhwkre/tests/bss_test.c\<close>, \<^verbatim>\<open>vector_test.c\<close> and \<^verbatim>\<open>fmt_test.c\<close>, with the number of elements as the
  parameter \<open>n\<close>. The allocations succeed; \<open>clock k\<close> is the local time at the \<open>k\<close>th log line, \<open>al\<close> gives the
  addresses of new blocks.
\<close>

section \<open>Log lines\<close>

text \<open>\<^verbatim>\<open>qLogFailfmt(fmt, as); exit(-1);\<close> when \<open>c\<close> holds. The tests do not set \<^verbatim>\<open>Q_LOG_LOGLEVEL\<close>, which is then 0.\<close>

definition log_fail_if :: "bool \<Rightarrow> tm \<Rightarrow> bytes \<Rightarrow> arg list \<Rightarrow> unit prog" where
  "log_fail_if c t fmt as =
     (if c then bind_run (to_stream (qLogFailfmt 0 t fmt as)) (\<lambda>_. exit_run (-1)) else give ())"

definition log_text :: "tm \<Rightarrow> string \<Rightarrow> bytes \<Rightarrow> bytes \<Rightarrow> bytes" where
  "log_text t tag color text = log_head t (lit tag) color @ text @ [10]"

lemmas log_macro_defs = qLogDebug_def qLogInfo_def qLogSucc_def qLogWarn_def qLogFail_def qLogSuccfmt_def
  Q_LOG_DEBUG_def Q_LOG_INFO_def Q_LOG_SUCC_def Q_LOG_WARN_def Q_LOG_FAIL_def

lemma log_run:
  assumes "37 \<notin> set (lit text)"
  shows "to_stream (qLogDebug 0 t (lit text)) io = Some (Ran () (write_to Stderr (log_text t ''DEBG'' Q_COLOR_WHITE (lit text)) io))"
    and "to_stream (qLogInfo 0 t (lit text)) io = Some (Ran () (write_to Stderr (log_text t ''INFO'' Q_COLOR_RESET (lit text)) io))"
    and "to_stream (qLogSucc 0 t (lit text)) io = Some (Ran () (write_to Stderr (log_text t ''SUCC'' Q_COLOR_GREEN (lit text)) io))"
    and "to_stream (qLogWarn 0 t (lit text)) io = Some (Ran () (write_to Stderr (log_text t ''WARN'' Q_COLOR_YELLOW (lit text)) io))"
    and "to_stream (qLogFail 0 t (lit text)) io = Some (Ran () (write_to Stderr (log_text t ''FAIL'' Q_COLOR_RED (lit text)) io))"
  using printf_plain [OF assms, of "[]"]
  by (simp_all add: to_stream_def log_macro_defs qLog_qLogfmt qLogfmt_output log_text_def)

lemma log_fail_if_False [run_simps]: "log_fail_if False t fmt as io = Some (Ran () io)"
  by (simp add: log_fail_if_def give_def)

section \<open>\<^verbatim>\<open>fmt_test.c\<close>\<close>

definition fmt_test :: "(nat \<Rightarrow> tm) \<Rightarrow> int prog" where
  "fmt_test clock =
     bind_run (to_stream (qLogDebug 0 (clock 0) (lit ''A sample debug message!''))) (\<lambda>_.
     bind_run (to_stream (qLogInfo 0 (clock 1) (lit ''A sample info message!''))) (\<lambda>_.
     bind_run (to_stream (qLogSucc 0 (clock 2) (lit ''A sample succ message!''))) (\<lambda>_.
     bind_run (to_stream (qLogWarn 0 (clock 3) (lit ''A sample warn message!''))) (\<lambda>_.
     bind_run (to_stream (qLogFail 0 (clock 4) (lit ''A sample fail message!''))) (\<lambda>_.
     give 0)))))"

lemma fmt_test_outcome:
  "fmt_test clock io = Some (Ran 0 (write_to Stderr
     (log_text (clock 0) ''DEBG'' Q_COLOR_WHITE (lit ''A sample debug message!'')
      @ log_text (clock 1) ''INFO'' Q_COLOR_RESET (lit ''A sample info message!'')
      @ log_text (clock 2) ''SUCC'' Q_COLOR_GREEN (lit ''A sample succ message!'')
      @ log_text (clock 3) ''WARN'' Q_COLOR_YELLOW (lit ''A sample warn message!'')
      @ log_text (clock 4) ''FAIL'' Q_COLOR_RED (lit ''A sample fail message!'')) io))"
proof -
  have "37 \<notin> set (lit ''A sample debug message!'')" "37 \<notin> set (lit ''A sample info message!'')"
      "37 \<notin> set (lit ''A sample succ message!'')" "37 \<notin> set (lit ''A sample warn message!'')"
      "37 \<notin> set (lit ''A sample fail message!'')"
    by (simp_all add: lit_def)
  then show ?thesis
    unfolding fmt_test_def by (simp add: bind_run_simps log_run give_run)
qed

section \<open>\<^verbatim>\<open>bss_test.c\<close>\<close>

definition bss_insert_turn :: "nat \<Rightarrow> qBinarySafeString \<times> int \<Rightarrow> (qBinarySafeString \<times> int) prog" where
  "bss_insert_turn i s =
     (case q__bss_append True (fst s) (int_block (int i)) 4 (snd s) of
        (r, err) \<Rightarrow> bind_run (calc r) (\<lambda>bss. give (bss, err)))"

text \<open>\<^verbatim>\<open>((int*)bss.str)[i]\<close>\<close>

definition bss_int :: "qBinarySafeString \<Rightarrow> nat \<Rightarrow> int exec" where
  "bss_int bss i = (case bss_str bss of None \<Rightarrow> Fault | Some blk \<Rightarrow> int_deref (drop (4 * i) blk))"

definition bss_check_turn :: "tm \<Rightarrow> nat \<Rightarrow> qBinarySafeString \<Rightarrow> qBinarySafeString prog" where
  "bss_check_turn t i bss =
     bind_run (calc (bss_int bss i)) (\<lambda>x.
     bind_run (log_fail_if (x \<noteq> int i) t (lit ''Incorrect occurred at: %d(%d expected).'') [AInt x, AInt (int i)]) (\<lambda>_.
     give bss))"

text \<open>\<open>size0\<close> and \<open>cap0\<close> stand for the members that the constructor leaves uninitialised when it fails.\<close>

definition bss_test :: "u32 \<Rightarrow> u32 \<Rightarrow> nat \<Rightarrow> (nat \<Rightarrow> tm) \<Rightarrow> int prog" where
  "bss_test size0 cap0 n clock =
     bind_run (to_stream (qLogInfo 0 (clock 0) (lit ''Testing Insertion..''))) (\<lambda>_.
     bind_run (for_loop bss_insert_turn 0 n (qbss_constructor True size0 cap0 0)) (\<lambda>s.
     bind_run (to_stream (qLogInfo 0 (clock 1) (lit ''Testing Correctness..''))) (\<lambda>_.
     bind_run (for_loop (bss_check_turn (clock 2)) 0 n (fst s)) (\<lambda>_.
     bind_run (to_stream (qLogSuccfmt 0 (clock 2) (lit ''Test Completed with %d Elements.'') [AInt (int n)])) (\<lambda>_.
     give 0)))))"

definition int_blocks :: "int list \<Rightarrow> bytes list" where
  "int_blocks is = map int_block is"

lemma length_int_blocks: "length (concat (int_blocks is)) = 4 * length is" "\<forall>x \<in> set (int_blocks is). length x = 4"
  by (induction "is") (auto simp: int_blocks_def)

text \<open>Reading an element out of the blocks that stand one after the other.\<close>

lemma int_blocks_read:
  assumes "i < length is" and "\<forall>x \<in> set is. - (2 ^ 31) \<le> x \<and> x < 2 ^ 31"
  shows "int_deref (drop (4 * i) (concat (int_blocks is) @ r)) = Done (is ! i)"
proof -
  have sp: "int_blocks is = int_blocks (take i is) @ int_block (is ! i) # int_blocks (drop (Suc i) is)"
    using assms(1) id_take_nth_drop [of i "is"] by (metis int_blocks_def list.simps(9) map_append)
  have "drop (4 * i) (concat (int_blocks is) @ r) = int_block (is ! i) @ concat (int_blocks (drop (Suc i) is)) @ r"
    using assms(1) length_int_blocks(1) [of "take i is"] by (subst sp) simp
  then show ?thesis
    using assms by simp
qed

lemma bss_phase:
  assumes "n < 2 ^ 29"
  shows "\<exists>s. for_loop bss_insert_turn 0 n (qbss_constructor True size0 cap0 0) io = Some (Ran s io)
    \<and> bss_ok (fst s) \<and> bss_content (fst s) = concat (int_blocks (map int [0..<n]))"
proof -
  let ?I = "\<lambda>j s. bss_ok (fst s) \<and> unat (bss_size (fst s)) = 4 * j \<and> bss_content (fst s) = concat (int_blocks (map int [0..<j]))"
  have "\<exists>s'. bss_insert_turn j s io = Some (Ran s' io) \<and> ?I (Suc j) s'" if "j < n" "?I j s" for j s
  proof -
    have bound: "unat (bss_size (fst s)) + unat (4 :: u32) < 2 ^ 31"
      using that assms by simp
    from q__bss_append_content [OF _ bound, of "int_block (int j)" "snd s"] that(2) obtain b where
      b: "q__bss_append True (fst s) (int_block (int j)) 4 (snd s) = (Done b, snd s)" "bss_ok b"
        "bss_size b = bss_size (fst s) + 4" "bss_content b = bss_content (fst s) @ int_block (int j)"
      by auto
    have "unat (bss_size b) = 4 * Suc j"
      using unat_sum_below(1) [OF bound] b(3) that(2) by simp
    then show ?thesis
      using b that(2) by (simp add: bss_insert_turn_def run_simps int_blocks_def)
  qed
  moreover have "?I 0 (qbss_constructor True size0 cap0 0)"
    by (simp add: int_blocks_def)
  ultimately show ?thesis
    using for_loop_inv [of 0 n ?I bss_insert_turn io "qbss_constructor True size0 cap0 0"] by auto
qed

text \<open>
  C22: the test of the binary-safe string, for every number of elements that stays below \<open>2\<^sup>3\<^sup>1\<close> bytes: it ends,
  finds every number where it was appended, logs its three lines and returns 0.
\<close>

theorem bss_test_outcome:
  assumes "n < 2 ^ 29"
  shows "bss_test size0 cap0 n clock io = Some (Ran 0 (write_to Stderr
     (log_text (clock 0) ''INFO'' Q_COLOR_RESET (lit ''Testing Insertion..'')
      @ log_text (clock 1) ''INFO'' Q_COLOR_RESET (lit ''Testing Correctness..'')
      @ log_text (clock 2) ''SUCC'' Q_COLOR_GREEN (lit ''Test Completed with '' @ digits n @ lit '' Elements.'')) io))"
proof -
  have plain: "37 \<notin> set (lit ''Testing Insertion..'')" "37 \<notin> set (lit ''Testing Correctness..'')"
    by (simp_all add: lit_def)
  define io1 where "io1 = write_to Stderr (log_text (clock 0) ''INFO'' Q_COLOR_RESET (lit ''Testing Insertion..'')) io"
  obtain s where s: "for_loop bss_insert_turn 0 n (qbss_constructor True size0 cap0 0) io1 = Some (Ran s io1)"
      "bss_ok (fst s)" "bss_content (fst s) = concat (int_blocks (map int [0..<n]))"
    using bss_phase [OF assms] by blast
  obtain blk where "bss_str (fst s) = Some blk" "take (unat (bss_size (fst s))) blk = concat (int_blocks (map int [0..<n]))"
    using s(2,3) by (auto simp: bss_ok_def bss_content_def split: option.splits)
  then obtain r where r: "bss_str (fst s) = Some (concat (int_blocks (map int [0..<n])) @ r)"
    by (metis append_take_drop_id)
  have "bss_int (fst s) j = Done (int j)" if "j < n" for j
    using int_blocks_read [of j "map int [0..<n]" r] that assms by (simp add: bss_int_def r)
  then have chk: "for_loop (bss_check_turn t) 0 n (fst s) io' = Some (Ran (fst s) io')" for t io'
    by (intro for_loop_checks) (simp add: bss_check_turn_def run_simps)
  have last: "to_stream (qLogSuccfmt 0 t (lit ''Test Completed with %d Elements.'') [AInt (int n)]) io'
      = Some (Ran () (write_to Stderr (log_text t ''SUCC'' Q_COLOR_GREEN (lit ''Test Completed with '' @ digits n @ lit '' Elements.'')) io'))"
    for t io'
    by (simp add: to_stream_def log_macro_defs qLogfmt_output log_text_def lit_def directive_def fmt_int_nat)
  show ?thesis
    unfolding bss_test_def
    by (simp add: bind_run_simps log_run(2) plain s(1) [unfolded qbss_constructor_True] chk last give_run io1_def [symmetric] del: write_to.simps write_to_write_to)
      (simp add: io1_def)
qed

text \<open>The number of elements that \<^verbatim>\<open>bss_test.c\<close> defines.\<close>

theorem bss_test_outcome_witness:
  "\<exists>log. bss_test 0 0 10000000 (\<lambda>_. \<lparr>tm_mon = 0, tm_mday = 1, tm_year = 100, tm_hour = 0, tm_min = 0, tm_sec = 0\<rparr>)
     \<lparr>io_out = [], io_err = []\<rparr> = Some (Ran 0 \<lparr>io_out = [], io_err = log\<rparr>)"
  using bss_test_outcome [of 10000000 0 0 "\<lambda>_. \<lparr>tm_mon = 0, tm_mday = 1, tm_year = 100, tm_hour = 0, tm_min = 0, tm_sec = 0\<rparr>"
      "\<lparr>io_out = [], io_err = []\<rparr>"]
  by simp

section \<open>\<^verbatim>\<open>vector_test.c\<close>\<close>

definition vec_push_turn :: "(qVectorDescriptor \<Rightarrow> nat) \<Rightarrow> nat \<Rightarrow> qVectorDescriptor \<Rightarrow> qVectorDescriptor prog" where
  "vec_push_turn al i desc =
     bind_run (calc (qVector__push_back (Some (al desc)) desc (int_block (int i + 1)))) (\<lambda>(r, desc).
     bind_run (fatal_run 0) (\<lambda>_. give desc))"

definition vec_pop_turn :: "(qVectorDescriptor \<Rightarrow> nat) \<Rightarrow> nat \<Rightarrow> qVectorDescriptor \<Rightarrow> qVectorDescriptor prog" where
  "vec_pop_turn al i desc =
     bind_run (calc (qVector__pop_back (Some (al desc)) desc)) (\<lambda>(r, desc).
     bind_run (fatal_run 0) (\<lambda>_. give desc))"

text \<open>\<^verbatim>\<open>*(int*)qVectorIterator_deref(qVectorIterator_move(qVector_begin(desc),i))\<close>\<close>

definition vec_int :: "qVectorDescriptor \<Rightarrow> nat \<Rightarrow> int exec" where
  "vec_int desc i =
     bind_exec (qVectorIterator_deref desc (qVectorIterator_move (qVector_begin desc) (int i))) (\<lambda>(blk, off). int_deref (drop off blk))"

definition vec_check_turn :: "tm \<Rightarrow> nat \<Rightarrow> qVectorDescriptor \<Rightarrow> qVectorDescriptor prog" where
  "vec_check_turn t i desc =
     bind_run (calc (vec_int desc i)) (\<lambda>x.
     bind_run (log_fail_if (x \<noteq> int i + 1) t (lit ''Integrity Failed: expected %d but %d.'') [AInt (int i + 1), AInt x]) (\<lambda>_.
     give desc))"

text \<open>From the removed element on, a value that is still in its old place is the error.\<close>

definition vec_erased_turn :: "tm \<Rightarrow> nat \<Rightarrow> qVectorDescriptor \<Rightarrow> qVectorDescriptor prog" where
  "vec_erased_turn t i desc =
     bind_run (calc (vec_int desc i)) (\<lambda>x.
     bind_run
       (if x \<noteq> int i + 1 then log_fail_if (i < 1993) t (lit ''Integrity Failed: expected %d but %d.'') [AInt (int i + 1), AInt x]
        else log_fail_if (i \<ge> 1993) t (lit ''Integrity Failed: expected %d but %d.'') [AInt (int i), AInt x]) (\<lambda>_.
     give desc))"

definition vec_test :: "(qVectorDescriptor \<Rightarrow> nat) \<Rightarrow> nat \<Rightarrow> (nat \<Rightarrow> tm) \<Rightarrow> int prog" where
  "vec_test al n clock =
     bind_run (calc (qVector_constructor True 4)) (\<lambda>desc.
     bind_run (to_stream (qLogDebug 0 (clock 0) (lit ''Testing Insertion..''))) (\<lambda>_.
     bind_run (for_loop (vec_push_turn al) 0 n desc) (\<lambda>desc.
     bind_run (to_stream (qLogSucc 0 (clock 1) (lit ''Correct.''))) (\<lambda>_.
     bind_run (to_stream (qLogDebug 0 (clock 2) (lit ''Testing Insertion Integrity..''))) (\<lambda>_.
     bind_run (for_loop (vec_check_turn (clock 3)) 0 n desc) (\<lambda>desc.
     bind_run (to_stream (qLogSucc 0 (clock 3) (lit ''Correct.''))) (\<lambda>_.
     bind_run (to_stream (qLogDebug 0 (clock 4) (lit ''Testing Pop..''))) (\<lambda>_.
     bind_run (for_loop (vec_pop_turn al) 0 (n div 2) desc) (\<lambda>desc.
     bind_run (to_stream (qLogSucc 0 (clock 5) (lit ''Correct.''))) (\<lambda>_.
     bind_run (to_stream (qLogDebug 0 (clock 6) (lit ''Testing Pop Integrity..''))) (\<lambda>_.
     bind_run (for_loop (vec_check_turn (clock 7)) 0 (n - n div 2) desc) (\<lambda>desc.
     bind_run (to_stream (qLogSucc 0 (clock 7) (lit ''Correct.''))) (\<lambda>_.
     bind_run (calc (Done (qVector_destructor desc))) (\<lambda>_.
     bind_run (calc (qVector_constructor True 4)) (\<lambda>desc.
     bind_run (to_stream (qLogInfo 0 (clock 8) (lit ''Resetting content..''))) (\<lambda>_.
     bind_run (for_loop (vec_push_turn al) 0 n desc) (\<lambda>desc.
     bind_run (to_stream (qLogDebug 0 (clock 9) (lit ''Testing erase..''))) (\<lambda>_.
     bind_run (calc (qVector__erase True (Some (al desc)) desc (qVectorIterator_move (qVector_begin desc) 1993))) (\<lambda>(r, desc).
     bind_run (fatal_run 0) (\<lambda>_.
     bind_run (to_stream (qLogSucc 0 (clock 10) (lit ''Correct.''))) (\<lambda>_.
     bind_run (to_stream (qLogDebug 0 (clock 11) (lit ''Testing erase integrity..''))) (\<lambda>_.
     bind_run (log_fail_if (v_size desc \<noteq> int n - 1) (clock 12) (lit ''Size Failed: expected %d but %d'' @ [10]) [AInt (int n - 1), AInt (v_size desc)]) (\<lambda>_.
     bind_run (for_loop (vec_erased_turn (clock 12)) 0 (n - 1) desc) (\<lambda>desc.
     bind_run (to_stream (qLogSucc 0 (clock 12) (lit ''Correct.''))) (\<lambda>_.
     give 0)))))))))))))))))))))))))"

text \<open>The elements of the vector during the test.\<close>

definition vec_ints :: "qVectorDescriptor \<Rightarrow> int list \<Rightarrow> bool" where
  "vec_ints v is \<longleftrightarrow> vec_holds 4 v (int_blocks is) \<and> (\<forall>x \<in> set is. - (2 ^ 31) \<le> x \<and> x < 2 ^ 31) \<and> length is < 2 ^ 28 - 1"

lemma vec_ints_at:
  assumes "vec_ints v is" and "i < length is"
  shows "vec_int v i = Done (is ! i)"
proof -
  have H: "vec_holds 4 v (int_blocks is)" "2 * (length (int_blocks is) * 4) < 2 ^ 31" "i < length (int_blocks is)"
    using assms by (simp_all add: vec_ints_def int_blocks_def)
  then obtain b rest where V: "v_elemstep v = 4" "v_content v = Some (b, concat (int_blocks is) @ rest)"
    using assms(2) by (auto simp: vec_holds_def int_blocks_def split: option.splits)
  have "qVectorIterator_move (qVector_begin v) (int i) = at b 4 i"
    using V by (simp add: qVectorIterator_move_def qVector_begin_def at_def)
  moreover have "int_deref (drop (4 * i) (concat (int_blocks is) @ rest)) = Done (is ! i)"
    using assms by (intro int_blocks_read) (auto simp: vec_ints_def)
  ultimately show ?thesis
    using deref_at [OF H(1) V(2) H(3,2)] by (simp add: vec_int_def mult.commute)
qed

lemma vec_ints_new: "qVector_constructor True 4 = Done v \<Longrightarrow> vec_ints v []"
  by (auto simp: qVector_constructor_def vec_ints_def vec_holds_def int_blocks_def)

lemma succs_nth: "i < n \<Longrightarrow> map (\<lambda>j. int j + 1) [0..<n] ! i = int i + 1"
  by simp

lemma vec_push_phase:
  assumes "vec_ints v []" and "n < 2 ^ 28 - 1"
  shows "\<exists>v'. for_loop (vec_push_turn al) 0 n v io = Some (Ran v' io) \<and> vec_ints v' (map (\<lambda>j. int j + 1) [0..<n])"
proof -
  have "\<exists>v'. vec_push_turn al j v io = Some (Ran v' io) \<and> vec_ints v' (map (\<lambda>j. int j + 1) [0..<Suc j])"
    if "j < n" "vec_ints v (map (\<lambda>j. int j + 1) [0..<j])" for j v
  proof -
    have "vec_holds 4 v (int_blocks (map (\<lambda>j. int j + 1) [0..<j]))"
      using that(2) by (simp add: vec_ints_def)
    from push_back_vec [OF this, of "int_block (int j + 1)" "al v"] that(1) assms(2) obtain v' where
      "qVector__push_back (Some (al v)) v (int_block (int j + 1)) = Done (0, v')"
      "vec_holds 4 v' (int_blocks (map (\<lambda>j. int j + 1) [0..<j]) @ [int_block (int j + 1)])"
      by (auto simp: int_blocks_def)
    then show ?thesis
      using that(1) assms(2) by (simp add: vec_push_turn_def run_simps vec_ints_def int_blocks_def)
  qed
  from for_loop_inv [of 0 n "\<lambda>j v. vec_ints v (map (\<lambda>j. int j + 1) [0..<j])" "vec_push_turn al" io v] this assms(1) show ?thesis
    by simp
qed

lemma vec_check_phase:
  assumes "vec_ints v (map (\<lambda>j. int j + 1) [0..<n])"
  shows "for_loop (vec_check_turn t) 0 n v io = Some (Ran v io)"
  using vec_ints_at [OF assms] by (intro for_loop_checks) (simp add: vec_check_turn_def run_simps)

lemma vec_pop_phase:
  assumes "vec_ints v (map (\<lambda>j. int j + 1) [0..<n])" and "k \<le> n"
  shows "\<exists>v'. for_loop (vec_pop_turn al) 0 k v io = Some (Ran v' io) \<and> vec_ints v' (map (\<lambda>j. int j + 1) [0..<n - k])"
proof -
  let ?I = "\<lambda>j v. vec_ints v (map (\<lambda>i. int i + 1) [0..<n - j])"
  have "\<exists>v'. vec_pop_turn al j v io = Some (Ran v' io) \<and> ?I (Suc j) v'" if "j < k" "?I j v" for j v
  proof -
    have n: "n - j = Suc (n - Suc j)"
      using that(1) assms(2) by simp
    have "vec_holds 4 v (int_blocks (map (\<lambda>i. int i + 1) [0..<n - Suc j]) @ [int_block (int (n - Suc j) + 1)])"
      using that(2) unfolding n by (simp add: vec_ints_def int_blocks_def)
    moreover have "n - Suc j < 2 ^ 28 - 1"
      using that(2) n by (simp add: vec_ints_def)
    then have "2 * (length (int_blocks (map (\<lambda>i. int i + 1) [0..<n - Suc j])) + 1) * 4 < 2 ^ 31"
      by (simp add: int_blocks_def)
    ultimately obtain v' where
      "qVector__pop_back (Some (al v)) v = Done (0, v')"
      "vec_holds 4 v' (int_blocks (map (\<lambda>i. int i + 1) [0..<n - Suc j]))"
      using pop_back_vec [of 4 v _ _ "al v"] by blast
    then show ?thesis
      using that(2) n by (simp add: vec_pop_turn_def run_simps vec_ints_def)
  qed
  from for_loop_inv [of 0 k ?I "vec_pop_turn al" io v] this assms(1) show ?thesis
    by simp
qed

lemma vec_erase_phase:
  assumes "vec_ints v is" and "i < length is"
  shows "\<exists>v'. qVector__erase True (Some a) v (qVectorIterator_move (qVector_begin v) (int i)) = Done (0, v')
    \<and> vec_ints v' (take i is @ drop (Suc i) is)"
proof -
  have "vec_holds 4 v (int_blocks is)" "i < length (int_blocks is)" "2 * (length (int_blocks is) * 4) < 2 ^ 31"
    using assms by (simp_all add: vec_ints_def int_blocks_def)
  from erase_vec [OF this, of a] obtain v' where "qVector__erase True (Some a) v (qVectorIterator_move (qVector_begin v) (int i)) = Done (0, v')"
      "vec_holds 4 v' (take i (int_blocks is) @ drop (Suc i) (int_blocks is))"
    by blast
  then show ?thesis
    using assms by (auto simp: vec_ints_def int_blocks_def take_map drop_map dest: in_set_takeD in_set_dropD)
qed

lemma vec_erased_phase:
  assumes "vec_ints v (take 1993 is @ drop 1994 is)" and "is = map (\<lambda>j. int j + 1) [0..<n]" and "1993 < n"
  shows "for_loop (vec_erased_turn t) 0 (n - 1) v io = Some (Ran v io)"
proof (rule for_loop_checks)
  fix j
  assume j: "j < n - 1"
  have "length (take 1993 is @ drop 1994 is) = n - 1"
    using assms(2,3) by simp
  then have "vec_int v j = Done (if j < 1993 then int j + 1 else int j + 2)"
    using vec_ints_at [OF assms(1), of j] j assms(2,3) by (simp add: nth_append)
  then show "vec_erased_turn t j v io = Some (Ran v io)"
    by (simp add: vec_erased_turn_def run_simps)
qed

text \<open>The lines that the test logs.\<close>

definition vec_test_log :: "(nat \<Rightarrow> tm) \<Rightarrow> bytes list" where
  "vec_test_log clock =
     [log_text (clock 0) ''DEBG'' Q_COLOR_WHITE (lit ''Testing Insertion..''),
      log_text (clock 1) ''SUCC'' Q_COLOR_GREEN (lit ''Correct.''),
      log_text (clock 2) ''DEBG'' Q_COLOR_WHITE (lit ''Testing Insertion Integrity..''),
      log_text (clock 3) ''SUCC'' Q_COLOR_GREEN (lit ''Correct.''),
      log_text (clock 4) ''DEBG'' Q_COLOR_WHITE (lit ''Testing Pop..''),
      log_text (clock 5) ''SUCC'' Q_COLOR_GREEN (lit ''Correct.''),
      log_text (clock 6) ''DEBG'' Q_COLOR_WHITE (lit ''Testing Pop Integrity..''),
      log_text (clock 7) ''SUCC'' Q_COLOR_GREEN (lit ''Correct.''),
      log_text (clock 8) ''INFO'' Q_COLOR_RESET (lit ''Resetting content..''),
      log_text (clock 9) ''DEBG'' Q_COLOR_WHITE (lit ''Testing erase..''),
      log_text (clock 10) ''SUCC'' Q_COLOR_GREEN (lit ''Correct.''),
      log_text (clock 11) ''DEBG'' Q_COLOR_WHITE (lit ''Testing erase integrity..''),
      log_text (clock 12) ''SUCC'' Q_COLOR_GREEN (lit ''Correct.'')]"

lemma vec_test_plain:
  "37 \<notin> set (lit ''Testing Insertion..'')" "37 \<notin> set (lit ''Correct.'')" "37 \<notin> set (lit ''Testing Insertion Integrity..'')"
  "37 \<notin> set (lit ''Testing Pop..'')" "37 \<notin> set (lit ''Testing Pop Integrity..'')" "37 \<notin> set (lit ''Resetting content..'')"
  "37 \<notin> set (lit ''Testing erase..'')" "37 \<notin> set (lit ''Testing erase integrity..'')"
  by (simp_all add: lit_def)

text \<open>
  C21: the test of the vector, for every number of elements above 1993 that keeps the sizes in the range of
  \<^verbatim>\<open>int\<close>, wherever the blocks are allocated: it ends, all its checks succeed, and it logs its lines and
  returns 0.
\<close>

theorem vec_test_outcome:
  assumes "1993 < n" and "n < 2 ^ 28 - 1"
  shows "vec_test al n clock io = Some (Ran 0 (write_to Stderr (concat (vec_test_log clock)) io))"
proof -
  define io_at where "io_at k = write_to Stderr (concat (take k (vec_test_log clock))) io" for k
  have line: "to_stream (qLogDebug 0 (clock 0) (lit ''Testing Insertion..'')) (io_at 0) = Some (Ran () (io_at 1))"
      "to_stream (qLogSucc 0 (clock 1) (lit ''Correct.'')) (io_at 1) = Some (Ran () (io_at 2))"
      "to_stream (qLogDebug 0 (clock 2) (lit ''Testing Insertion Integrity..'')) (io_at 2) = Some (Ran () (io_at 3))"
      "to_stream (qLogSucc 0 (clock 3) (lit ''Correct.'')) (io_at 3) = Some (Ran () (io_at 4))"
      "to_stream (qLogDebug 0 (clock 4) (lit ''Testing Pop..'')) (io_at 4) = Some (Ran () (io_at 5))"
      "to_stream (qLogSucc 0 (clock 5) (lit ''Correct.'')) (io_at 5) = Some (Ran () (io_at 6))"
      "to_stream (qLogDebug 0 (clock 6) (lit ''Testing Pop Integrity..'')) (io_at 6) = Some (Ran () (io_at 7))"
      "to_stream (qLogSucc 0 (clock 7) (lit ''Correct.'')) (io_at 7) = Some (Ran () (io_at 8))"
      "to_stream (qLogInfo 0 (clock 8) (lit ''Resetting content..'')) (io_at 8) = Some (Ran () (io_at 9))"
      "to_stream (qLogDebug 0 (clock 9) (lit ''Testing erase..'')) (io_at 9) = Some (Ran () (io_at 10))"
      "to_stream (qLogSucc 0 (clock 10) (lit ''Correct.'')) (io_at 10) = Some (Ran () (io_at 11))"
      "to_stream (qLogDebug 0 (clock 11) (lit ''Testing erase integrity..'')) (io_at 11) = Some (Ran () (io_at 12))"
      "to_stream (qLogSucc 0 (clock 12) (lit ''Correct.'')) (io_at 12) = Some (Ran () (io_at 13))"
    by (simp_all add: log_run vec_test_plain io_at_def vec_test_log_def del: write_to.simps)
  obtain v0 where v0: "qVector_constructor True 4 = Done v0"
    by (simp add: qVector_constructor_def)
  note new = vec_ints_new [OF v0]
  obtain v1 where v1: "for_loop (vec_push_turn al) 0 n v0 (io_at 1) = Some (Ran v1 (io_at 1))"
      "vec_ints v1 (map (\<lambda>j. int j + 1) [0..<n])"
    using vec_push_phase [OF new assms(2)] by blast
  obtain v2 where v2: "for_loop (vec_pop_turn al) 0 (n div 2) v1 (io_at 5) = Some (Ran v2 (io_at 5))"
      "vec_ints v2 (map (\<lambda>j. int j + 1) [0..<n - n div 2])"
    using vec_pop_phase [OF v1(2), of "n div 2"] by auto
  obtain v3 where v3: "for_loop (vec_push_turn al) 0 n v0 (io_at 9) = Some (Ran v3 (io_at 9))"
      "vec_ints v3 (map (\<lambda>j. int j + 1) [0..<n])"
    using vec_push_phase [OF new assms(2)] by blast
  obtain v4 where v4: "qVector__erase True (Some (al v3)) v3 (qVectorIterator_move (qVector_begin v3) 1993) = Done (0, v4)"
      "vec_ints v4 (take 1993 (map (\<lambda>j. int j + 1) [0..<n]) @ drop 1994 (map (\<lambda>j. int j + 1) [0..<n]))"
    using vec_erase_phase [OF v3(2), of 1993] assms(1) by auto
  have size: "v_size v4 = int n - 1"
    using v4(2) assms(1) by (auto simp: vec_ints_def vec_holds_def int_blocks_def)
  have "vec_test al n clock (io_at 0) = Some (Ran 0 (io_at 13))"
    unfolding vec_test_def
    by (simp add: bind_run_simps calc_run give_run fatal_run_0 log_fail_if_False line v0 v1(1) v2(1) v3(1) v4(1) size
        vec_check_phase [OF v1(2)] vec_check_phase [OF v2(2)] vec_erased_phase [OF v4(2) refl assms(1)] del: One_nat_def)
  then show ?thesis
    by (simp add: io_at_def vec_test_log_def)
qed

text \<open>The number of elements that \<^verbatim>\<open>vector_test.c\<close> defines.\<close>

theorem vec_test_outcome_witness:
  "\<exists>log. vec_test (\<lambda>_. 64) 10000000 (\<lambda>_. \<lparr>tm_mon = 0, tm_mday = 1, tm_year = 100, tm_hour = 0, tm_min = 0, tm_sec = 0\<rparr>)
     \<lparr>io_out = [], io_err = []\<rparr> = Some (Ran 0 \<lparr>io_out = [], io_err = log\<rparr>)"
  using vec_test_outcome [of 10000000 "\<lambda>_. 64" "\<lambda>_. \<lparr>tm_mon = 0, tm_mday = 1, tm_year = 100, tm_hour = 0, tm_min = 0, tm_sec = 0\<rparr>"
      "\<lparr>io_out = [], io_err = []\<rparr>"]
  by simp

end
