(* ===== verification/TestSerial.thy ===== *)
theory TestSerial
  imports SerialMem TestRun
begin

text \<open>
  \<^verbatim>\<open>list_compare\<close> of \<^verbatim>\<open>zhwkre/tests/serialization_test.c\<close>, on the store of the linked list, and what it says of
  the lists that the serialization writes and reads back. The \<^verbatim>\<open>main\<close> function of that file calls
  \<^verbatim>\<open>qList_initdesc\<close>, which no file declares or defines any more; it is not modelled.
\<close>

section \<open>Comparing two lists\<close>

definition say_line :: "string \<Rightarrow> arg list \<Rightarrow> u32 prog" where
  "say_line fmt as = bind_run (print_line fmt as) (\<lambda>_. give 0)"

text \<open>
  The two lists are followed side by side until one of them ends; \<open>None\<close>: both are cyclic. \<^verbatim>\<open>memcmp\<close> looks at
  the first \<^verbatim>\<open>size\<close> bytes of two blocks that have to be that long.
\<close>

partial_function (option) compare_loop :: "bytes lmem \<Rightarrow> ptr \<Rightarrow> ptr \<Rightarrow> u32 \<Rightarrow> io \<Rightarrow> u32 ran option" where
  "compare_loop m ai bi counter io =
     (if ai = 0 \<or> bi = 0 then Some (Ran 1 io)
      else (case l_load m ai of
        Fault \<Rightarrow> Some Undef
      | Done na \<Rightarrow> (case l_load m bi of
          Fault \<Rightarrow> Some Undef
        | Done nb \<Rightarrow>
            (if l_size na \<noteq> l_size nb
             then say_line ''Elem %u size incorrect. %u != %u.'' [AUInt counter, AUInt (l_size na), AUInt (l_size nb)] io
             else (case (l_data na, l_data nb) of
                 (Some da, Some db) \<Rightarrow>
                   (if length da < unat (l_size na) \<or> length db < unat (l_size na) then Some Undef
                    else if take (unat (l_size na)) da \<noteq> take (unat (l_size na)) db
                    then say_line ''Elem %u content incorrect.'' [AUInt counter] io
                    else compare_loop m (l_next na) (l_next nb) (counter + 1) io)
               | _ \<Rightarrow> Some Undef)))))"

definition list_compare :: "bytes lmem \<Rightarrow> qListDescriptor \<Rightarrow> qListDescriptor \<Rightarrow> u32 prog" where
  "list_compare m a b =
     (if l_count a \<noteq> l_count b then say_line ''List size incorrect.'' []
      else compare_loop m (l_head a) (l_head b) 0)"

text \<open>What is said of the first difference of two sequences of blocks.\<close>

fun difference :: "(bytes \<times> u32) list \<Rightarrow> (bytes \<times> u32) list \<Rightarrow> u32 \<Rightarrow> bytes option" where
  "difference (x # xs) (y # ys) c =
     (if snd x \<noteq> snd y
      then Some (lit ''Elem '' @ digits (unat c) @ lit '' size incorrect. '' @ digits (unat (snd x)) @ lit '' != ''
             @ digits (unat (snd y)) @ lit ''.'' @ [10])
      else if fst x \<noteq> fst y then Some (lit ''Elem '' @ digits (unat c) @ lit '' content incorrect.'' @ [10])
      else difference xs ys (c + 1))"
| "difference _ _ c = None"

definition whole_blocks :: "(bytes \<times> u32) list \<Rightarrow> bool" where
  "whole_blocks xs \<longleftrightarrow> (\<forall>x \<in> set xs. length (fst x) = unat (snd x))"

lemma fmt_unsigned: "fmt_int (Suc 0) (uint (w :: u32)) = digits (unat w)" "fmt_int 1 (uint (w :: u32)) = digits (unat w)"
  using fmt_int_nat [of "unat w"] by simp_all

lemma size_differs:
  "say_line ''Elem %u size incorrect. %u != %u.'' [AUInt c, AUInt s, AUInt t] io
     = Some (Ran 0 (write_to Stdout (lit ''Elem '' @ digits (unat c) @ lit '' size incorrect. '' @ digits (unat s)
         @ lit '' != '' @ digits (unat t) @ lit ''.'' @ [10]) io))"
proof -
  have "printf (lit ''Elem %u size incorrect. %u != %u.'' @ [10]) [AUInt c, AUInt s, AUInt t]
      = Done (lit ''Elem '' @ digits (unat c) @ lit '' size incorrect. '' @ digits (unat s)
         @ lit '' != '' @ digits (unat t) @ lit ''.'' @ [10])"
    by (simp add: lit_def directive_def fmt_unsigned)
  from print_line_run [OF this] show ?thesis
    by (simp add: say_line_def bind_run_simps give_run)
qed

lemma content_differs:
  "say_line ''Elem %u content incorrect.'' [AUInt c] io
     = Some (Ran 0 (write_to Stdout (lit ''Elem '' @ digits (unat c) @ lit '' content incorrect.'' @ [10]) io))"
proof -
  have "printf (lit ''Elem %u content incorrect.'' @ [10]) [AUInt c]
      = Done (lit ''Elem '' @ digits (unat c) @ lit '' content incorrect.'' @ [10])"
    by (simp add: lit_def directive_def fmt_unsigned)
  from print_line_run [OF this] show ?thesis
    by (simp add: say_line_def bind_run_simps give_run)
qed

lemma compare_loop_outcome:
  "seg (nodes m) pa ps 0 \<Longrightarrow> map (cell (nodes m)) ps = map full xs \<Longrightarrow> seg (nodes m) pb qs 0 \<Longrightarrow>
   map (cell (nodes m)) qs = map full ys \<Longrightarrow> whole_blocks xs \<Longrightarrow> whole_blocks ys \<Longrightarrow>
   compare_loop m (hd0 ps 0) (hd0 qs 0) c io = Some (case difference xs ys c of
     None \<Rightarrow> Ran 1 io | Some text \<Rightarrow> Ran 0 (write_to Stdout text io))"
proof (induction xs ys c arbitrary: pa pb ps qs rule: difference.induct)
  case (1 x xs y ys c)
  obtain p ps' q qs' where pq: "ps = p # ps'" "qs = q # qs'"
    using 1(3,5) by (cases ps; cases qs) auto
  obtain na nb where n: "nodes m p = Some na" "p \<noteq> 0" "l_data na = Some (fst x)" "l_size na = snd x" "l_next na = hd0 ps' 0"
      "seg (nodes m) p ps' 0" "map (cell (nodes m)) ps' = map full xs"
      "nodes m q = Some nb" "q \<noteq> 0" "l_data nb = Some (fst y)" "l_size nb = snd y" "l_next nb = hd0 qs' 0"
      "seg (nodes m) q qs' 0" "map (cell (nodes m)) qs' = map full ys"
    using 1(2-5) unfolding pq by (auto simp: full_def)
  have len: "length (fst x) = unat (snd x)" "length (fst y) = unat (snd y)" "whole_blocks xs" "whole_blocks ys"
    using 1(6,7) by (auto simp: whole_blocks_def)
  show ?case
    using n len 1(1) [OF _ _ n(6,7,13,14) len(3,4)]
    by (subst compare_loop.simps) (auto simp: pq l_load_def size_differs content_differs)
qed (subst compare_loop.simps, auto)+

text \<open>
  The comparison of two lists in the same store: it ends and returns 1 exactly when they hold the same blocks;
  otherwise it names the first difference.
\<close>

lemma list_compare_outcome:
  assumes "list_holds m a ps xs" and "list_holds m b qs ys" and "whole_blocks xs" and "whole_blocks ys"
  shows "list_compare m a b io = Some (
     if l_count a \<noteq> l_count b then Ran 0 (write_to Stdout (lit ''List size incorrect.'' @ [10]) io)
     else (case difference xs ys 0 of None \<Rightarrow> Ran 1 io | Some text \<Rightarrow> Ran 0 (write_to Stdout text io)))"
proof -
  have "37 \<notin> set (lit ''List size incorrect.'')"
    by (simp add: lit_def)
  then show ?thesis
    using compare_loop_outcome [OF list_holds_seg(1,3) [OF assms(1)] list_holds_seg(1,3) [OF assms(2)] assms(3,4)]
      list_holds_seg(2) [OF assms(1)] list_holds_seg(2) [OF assms(2)]
    by (simp add: list_compare_def say_line_def bind_run_simps print_plain give_run del: write_to.simps)
qed

lemma difference_None: "length xs = length ys \<Longrightarrow> difference xs ys c = None \<longleftrightarrow> xs = ys"
  by (induction xs ys c rule: difference.induct) (auto simp: prod_eq_iff)

corollary list_compare_equal:
  assumes "list_holds m a ps xs" and "list_holds m b qs ys" and "whole_blocks xs" and "whole_blocks ys"
    and "length xs < 2 ^ 32" and "length ys < 2 ^ 32"
  shows "\<exists>r io'. list_compare m a b io = Some (Ran r io') \<and> (r = 1 \<longleftrightarrow> xs = ys)"
proof -
  have "l_count a = l_count b \<longleftrightarrow> length xs = length ys"
    using assms(1,2,5,6) list_holds_length [OF assms(1)] list_holds_length [OF assms(2)]
    by (simp add: list_holds_def word_of_nat_eq_iff take_bit_nat_eq_self)
  then show ?thesis
    unfolding list_compare_outcome [OF assms(1-4)]
    using difference_None [of xs ys 0] by (auto split: option.splits)
qed

section \<open>Lists of plain blocks\<close>

text \<open>What the first part of the test samples for the numbers below 10000: a list of blocks that are not descriptors.\<close>

definition raws :: "(bytes \<times> u32) list \<Rightarrow> item list" where
  "raws ds = map (\<lambda>x. Raw (fst x)) ds"

lemma raws_stand:
  assumes "list_holds m desc ps ds" and "whole_blocks ds"
  shows "stands (=) m {} desc ps (raws ds)"
proof -
  have "list_all2 (reps (=) m {}) ds (raws ds)"
    using assms(2) by (auto simp: raws_def list_all2_map2 whole_blocks_def prod_eq_iff intro!: list.rel_refl_strong)
  then show ?thesis
    using assms(1) by (auto simp: stands_def)
qed

lemma raws_stood:
  assumes "stands R m F desc ps (raws ds)" and "whole_blocks ds"
  shows "list_holds m desc ps ds"
proof -
  obtain es where es: "list_holds m desc ps es" "list_all2 (reps R m F) es (raws ds)"
    using assms(1) by (auto simp: stands_def)
  have "es = ds"
    using es(2) assms(2) unfolding raws_def list_all2_map2
    by (induction rule: list_all2_induct) (auto simp: whole_blocks_def prod_eq_iff)
  then show ?thesis
    using es(1) by simp
qed

lemma raws_levels: "depth (raws ds) = 1" "level (Suc j) p c (raws ds) = []"
  by (induction ds arbitrary: c) (auto simp: raws_def)

lemma flat_round_trip:
  assumes "list_holds m desc ps ds" and "whole_blocks ds" and "\<forall>x \<in> set ds. item_ok (Raw (fst x))"
    and "length ds < 2 ^ 32" and "length (level 0 [] 0 (raws ds)) < 2 ^ 31"
    and "fresh_in m as" and "set as \<subseteq> {..<2 ^ 64}" and "length (level 0 [] 0 (raws ds)) \<le> length as"
  shows "\<exists>dataset desc' m'. mem_serialize m desc [] = Some (Done dataset)
    \<and> mem_unserialize dataset None (allocs as) m = Done (desc', m') \<and> list_compare m' desc desc' io = Some (Ran 1 io)"
proof -
  have "length (level j [] 0 (raws ds)) < 2 ^ 31" for j
    using assms(5) by (cases j) (simp_all add: raws_levels(2))
  then have "\<forall>j. length (level j [] 0 (raws ds)) < 2 ^ 31"
    by blast
  moreover have "\<forall>x \<in> set (raws ds). item_ok x" "length (raws ds) < 2 ^ 32"
    using assms(3,4) by (auto simp: raws_def)
  moreover have "(\<Sum>j \<leftarrow> [0..<depth (raws ds)]. length (level j [] 0 (raws ds))) \<le> length as"
    using assms(8) by (simp add: raws_levels(1))
  ultimately obtain dataset desc' m' F' ps' where r: "mem_serialize m desc [] = Some (Done dataset)"
      "mem_unserialize dataset None (allocs as) m = Done (desc', m')"
      "stands same_but_links m' F' desc' ps' (raws ds)" "agree_off (set as) m m'"
    using store_levels [OF raws_stand [OF assms(1,2)] _ _ _ assms(6,7)] by blast
  have "set ps \<inter> set as = {}"
    using stands_live [OF raws_stand [OF assms(1,2)]] assms(6) by (fastforce simp: fresh_in_def)
  then have "list_holds m' desc ps ds"
    using list_holds_frame [OF assms(1) r(4)] by blast
  moreover have "list_holds m' desc' ps' ds"
    by (rule raws_stood [OF r(3) assms(2)])
  moreover from calculation have "l_count desc = l_count desc'"
    using list_holds_length [of m' desc ps ds] list_holds_length [of m' desc' ps' ds] by (simp add: list_holds_def)
  ultimately have "list_compare m' desc desc' io = Some (Ran 1 io)"
    using list_compare_outcome [OF _ _ assms(2,2), of m' desc ps desc' ps' io] difference_None [of ds ds 0] by simp
  then show ?thesis
    using r(1,2) by blast
qed

text \<open>The list of the numbers below \<open>n\<close>, four bytes each.\<close>

definition numbers :: "nat \<Rightarrow> (bytes \<times> u32) list" where
  "numbers n = map (\<lambda>i. (int_block (int i), 4)) [0..<n]"

lemma numbers_level: "length (level 0 p c (raws (numbers n))) = (length p + 12) * n"
proof -
  have "length (level 0 p c (raws (map (\<lambda>i. (int_block (int i), 4)) is))) = (length p + 12) * length is" for "is"
    by (induction "is" arbitrary: c) (simp_all add: raws_def entry_def)
  then show ?thesis
    by (simp add: numbers_def)
qed

lemma numbers_round_trip:
  assumes "list_holds m desc ps (numbers n)" and "n < 2 ^ 27"
    and "fresh_in m as" and "set as \<subseteq> {..<2 ^ 64}" and "12 * n \<le> length as"
  shows "\<exists>dataset desc' m'. mem_serialize m desc [] = Some (Done dataset)
    \<and> mem_unserialize dataset None (allocs as) m = Done (desc', m') \<and> list_compare m' desc desc' io = Some (Ran 1 io)"
proof (rule flat_round_trip [OF assms(1)])
  show "whole_blocks (numbers n)" "\<forall>x \<in> set (numbers n). item_ok (Raw (fst x))"
    by (auto simp: whole_blocks_def numbers_def q__List_islist_def sizeof_qListDescriptor_def)
qed (use assms numbers_level [of "[]" 0 n] in \<open>simp_all add: numbers_def\<close>)

end
