(* ===== verification/Spec2Isabelle.thy ===== *)
theory Spec2Isabelle
  imports NetProps Locking FuseLog BTreeProps BubbleSort UMapProps QSetProps QTrie SerialMem Threads
    TestBTree TestAVL TestBuffers TestSerial
begin

text \<open>
  \<^bold>\<open>A verification of \<^verbatim>\<open>zhwkrfsp\<close>.\<close> The program is a remote file system: a FUSE server (\<^verbatim>\<open>server.c\<close>,
  \<^verbatim>\<open>fuse_server.c\<close>) that forwards every file system call over one TCP connection to a client, in the
  protocol of \<^verbatim>\<open>prot.h\<close>, \<^verbatim>\<open>prot.c\<close> and \<^verbatim>\<open>ustruct.c\<close>, on top of the socket loops of \<^verbatim>\<open>netwrap.c\<close> and of
  the support library under \<^verbatim>\<open>zhwkre\<close> (buffers, errors, containers, serialization, sockets, threads).
  The files of the client are empty.

  \<^bold>\<open>Conventions.\<close> C integers are machine words of their width, or \<^typ>\<open>int\<close> where the sources stay in
  range; the theories say which. A computation that may run into undefined behaviour (an access
  outside an object or through a dead pointer) has a value of \<^typ>\<open>'a exec\<close>, \<^const>\<open>Fault\<close> or
  \<^const>\<open>Done\<close>. A loop that may not end is defined with \<^theory_text>\<open>partial_function (option)\<close>, or by recursion on
  the outcomes of the system calls it makes; not ending is then the value \<^const>\<open>None\<close>, and the
  theorems say when the result is \<^const>\<open>Some\<close>. Every other loop is a total function. The outcome of
  an allocation, the address it returns, the results of system calls, of \<^verbatim>\<open>pthread\<close> functions and of
  libfuse, comparison functions and hash functions are arguments of the definitions that use them. The
  library's error variable is passed explicitly. Log output is modelled apart from the operations: the
  definitions of the handlers leave it out, and \<^verbatim>\<open>FuseLog\<close> puts the lines they print on entry before them
  (\<^const>\<open>logged_call\<close>).

  \<^bold>\<open>Foundations.\<close>
  \<^item> \<^verbatim>\<open>Prelude\<close>: words and their object representation (\<^const>\<open>le_bytes\<close>, \<^const>\<open>of_le\<close>), \<^const>\<open>memcpy\<close>,
    C strings, and the locale \<^verbatim>\<open>codec\<close> of fixed-width representations, interpreted for all structures
    of the protocol in \<^verbatim>\<open>Prot\<close> and \<^verbatim>\<open>Ustruct\<close>.
  \<^item> \<^verbatim>\<open>Refine\<close>: histories of operations (\<^const>\<open>run\<close>, \<^const>\<open>arun\<close>) and the locale \<^verbatim>\<open>refinement\<close>; one
    simulated step gives agreement of whole histories. It is interpreted, directly or as a sublocale,
    for the list, the vector, the hash map and the tree.
  \<^item> \<^verbatim>\<open>Zerror\<close> (\<^verbatim>\<open>zhwkre/error\<close>), \<^verbatim>\<open>Utils\<close> (\<^verbatim>\<open>zhwkre/utils\<close>): the error variable; string functions,
    and the locale \<^verbatim>\<open>comparator\<close> of the order that the ordered containers rely on, which
    \<^const>\<open>string_comparator\<close> satisfies.
  \<^item> \<^verbatim>\<open>Log\<close> (\<^verbatim>\<open>log.h\<close>, \<^verbatim>\<open>format.h\<close>, \<^verbatim>\<open>format.c\<close>, \<^verbatim>\<open>printSomeSpaces\<close>): the bytes the log macros and the colour
    functions write to the standard streams, over \<^const>\<open>printf\<close> for the conversions the program uses, in
    which a format that disagrees with its arguments is undefined behaviour.

  \<^bold>\<open>Transport and protocol.\<close>
  \<^item> \<^verbatim>\<open>Bss\<close> (\<^verbatim>\<open>zhwkre/bss\<close>): the growable buffer with 32-bit sizes. Below \<open>2\<^sup>3\<^sup>1\<close> bytes an append extends
    the content; from there on the doubled capacity wraps and the append leaves its block.
  \<^item> \<^verbatim>\<open>Net\<close> (\<^verbatim>\<open>tcp.c\<close>, \<^verbatim>\<open>netwrap.c\<close>): reading and writing over every behaviour of \<^verbatim>\<open>read\<close> and \<^verbatim>\<open>write\<close>; the
    loops deliver exactly the bytes, report errors, and never end on a closed connection (\<^verbatim>\<open>NetProps\<close>). The
    counter of \<^const>\<open>sockwrite\<close> is an \<^verbatim>\<open>int\<close>, which overflows from \<open>2\<^sup>3\<^sup>1\<close> bytes on.
  \<^item> \<^verbatim>\<open>Socket\<close>, \<^verbatim>\<open>SocketProps\<close> (\<^verbatim>\<open>socket.c\<close>, \<^verbatim>\<open>tcp.c\<close>, \<^verbatim>\<open>udp.c\<close>, \<^verbatim>\<open>listenat\<close>, \<^verbatim>\<open>serveat\<close>): addresses, connection
    set-up, datagrams. Ports are parsed as written, the text of a peer's address fits its buffer, and
    the host part of an address never has an effect.
  \<^item> \<^verbatim>\<open>Threads\<close> (\<^verbatim>\<open>zhwkre/concurrent\<close>, \<^verbatim>\<open>main\<close> of \<^verbatim>\<open>server.c\<close>): the wrappers of \<^verbatim>\<open>pthread\<close> and the set-up of
    the server, characterised for every outcome of its steps, with the calls of libfuse it makes; the result
    of \<^verbatim>\<open>fuse_new\<close> is used without a test.
  \<^item> \<^verbatim>\<open>Prot\<close>, \<^verbatim>\<open>Ustruct\<close>: the structures with their x86-64 layout, the receivers of \<^verbatim>\<open>prot.c\<close>, the
    conversions of \<^verbatim>\<open>ustruct.c\<close>, and their round trips.

  \<^bold>\<open>The server.\<close>
  \<^item> \<^verbatim>\<open>Fuse\<close> (\<^verbatim>\<open>fuse_server.c\<close>): the process state \<^verbatim>\<open>srv\<close> (connection, operation number, mutex) and one
    definition per handler, composed of the macros the handlers share; the table \<^verbatim>\<open>zhwkrfsp\<close>. A handler
    returns, aborts, faults, or waits for ever (\<^const>\<open>Hangs\<close>, with the state in which it does).
    \<^verbatim>\<open>mkdir\<close>, \<^verbatim>\<open>chmod\<close> and \<^verbatim>\<open>access\<close> first convert a mode into an array of eleven bytes with libbsd's
    \<^verbatim>\<open>strmode\<close>, which is an argument. The twelve bytes that its manual promises do not fit: with them the three
    calls are undefined (\<^verbatim>\<open>mode_string_overflows\<close> in \<^verbatim>\<open>FuseLog\<close>), and every theorem below that says how a call
    ends asks that the text fits (\<^const>\<open>mode_fits\<close>, which is true of all other calls).
  \<^item> \<^verbatim>\<open>FuseSpec\<close>, \<^verbatim>\<open>FuseLemmas\<close>, \<^verbatim>\<open>FusePaths\<close>, \<^verbatim>\<open>FuseProps\<close>: what a call writes, what it does with the
    reply header (\<^const>\<open>after_reply\<close>), that the receivers of the protocol get its message, errors, lost connections, the use of the mutex. The messages are those of the code, which
    differ from the README in three places: the content of a symlink request is not announced at its length, a
    removal has no content, and a client has to reply to \<^verbatim>\<open>mkdir\<close>.
  \<^item> \<^verbatim>\<open>FuseDeliver\<close>: what a call hands to its caller for every kind of reply. \<^verbatim>\<open>FuseTypes\<close>: what it can hand
    back at all, whatever the peer sends, and which sizes of a reply end the process.
  \<^item> \<^verbatim>\<open>Session\<close>: the composition. The specification \<^const>\<open>direct\<close> is a client called directly, a function from
    requests to answers; a run of handlers (\<^const>\<open>run_calls\<close>) refines it on every segmentation of the two
    streams, and the client's receivers get exactly its requests (\<^const>\<open>receives\<close>).
  \<^item> \<^verbatim>\<open>FuseLog\<close>: the line each handler logs on entry and those of its error macros. The text that libbsd's
    \<^verbatim>\<open>strmode\<close> stores and the messages of \<^verbatim>\<open>strerror\<close> are arguments. \<^const>\<open>logged_call\<close> is a handler with its line.
  \<^item> \<^verbatim>\<open>Locking\<close>: interleavings of handlers as a step relation. Handlers that lock are serialised: an
    interleaving is a sequence of whole critical sections (\<^const>\<open>blocks_of\<close>). The four that only unlock
    break mutual exclusion, and on the definitions of the handlers such a call takes the reply of the call
    that holds the mutex, which then gets the other's.

  \<^bold>\<open>Containers.\<close>
  \<^item> \<^verbatim>\<open>QList\<close>, \<^verbatim>\<open>QListSpec\<close>, \<^verbatim>\<open>QListProps\<close> (\<^verbatim>\<open>list.c\<close>): the doubly linked list on a store of nodes; a list
    segment predicate, frame lemmas, and refinement of sequences for every allocator (locale
    \<^verbatim>\<open>allocator\<close>, interpreted by the allocator that returns the first unused address).
  \<^item> \<^verbatim>\<open>BubbleSort\<close> (\<^verbatim>\<open>bubble_sort.c\<close>), \<^verbatim>\<open>Vector\<close> (\<^verbatim>\<open>vector.c\<close>), \<^verbatim>\<open>UMap\<close>, \<^verbatim>\<open>UMapProps\<close> (\<^verbatim>\<open>unordered_map.c\<close>).
  \<^item> \<^verbatim>\<open>BTree\<close>, \<^verbatim>\<open>BTreeSpec\<close>, \<^verbatim>\<open>BTreeErase\<close>, \<^verbatim>\<open>BTreeIter\<close>, \<^verbatim>\<open>BTreeOrd\<close>, \<^verbatim>\<open>BTreeProps\<close> (\<^verbatim>\<open>btree.c\<close>): search,
    insertion, removal, iteration. \<^verbatim>\<open>BTreeOrd\<close> proves them for every \<^verbatim>\<open>comparator\<close>, \<^verbatim>\<open>BTreeProps\<close> states them for strings. The iterator's track of 100 levels bounds the height of the trees that are iterated.
  \<^item> \<^verbatim>\<open>AVL\<close>, \<^verbatim>\<open>AVLSpec\<close>, \<^verbatim>\<open>AVLOps\<close>, \<^verbatim>\<open>AVLErase\<close>, \<^verbatim>\<open>AVLProps\<close> (\<^verbatim>\<open>AVLTree.c\<close>): the threaded search tree. Its nodes lie
    on the store of the linked list, its shape is a datatype that carries their addresses; a subtree
    is described together with the thread around it (\<^const>\<open>threaded\<close>). The operations refine a finite set
    below \<open>2\<^sup>3\<^sup>2\<close> elements, although the rotations do not keep the tree balanced.
  \<^item> \<^verbatim>\<open>QSet\<close>, \<^verbatim>\<open>QSetProps\<close> (\<^verbatim>\<open>set.c\<close>): set algebra on the tree.
  \<^item> \<^verbatim>\<open>QTrie\<close> (\<^verbatim>\<open>trie.c\<close>): a map that is closed under prefixes, for keys of bytes below 128.
  \<^item> \<^verbatim>\<open>Serialization\<close>, \<^verbatim>\<open>SerialProps\<close> (\<^verbatim>\<open>serialization.c\<close>): nested lists written level by level and read
    back; on the values of the containers, with strings below \<open>2\<^sup>3\<^sup>1\<close> bytes. The reader gets an address
    for every list, named by its path. \<^verbatim>\<open>SerialMem\<close>: the same traversals on the store of the linked list,
    with the pointers in the bytes of descriptors and the outcomes of the allocations of nodes as an
    argument; they implement the traversals of values (\<^const>\<open>stands\<close>), for addresses below \<open>2\<^sup>6\<^sup>4\<close>.

  \<^bold>\<open>The test programs.\<close> \<^verbatim>\<open>btree_test.c\<close>, \<^verbatim>\<open>avltree_test.c\<close>, \<^verbatim>\<open>vector_test.c\<close>, \<^verbatim>\<open>bss_test.c\<close> and \<^verbatim>\<open>fmt_test.c\<close>
  (under \<^verbatim>\<open>zhwkre/tests\<close>) are modelled as whole programs, with the number of elements as a parameter. \<^verbatim>\<open>TestRun\<close> has
  their runs (\<^const>\<open>bind_run\<close>, \<^verbatim>\<open>exit\<close>), their loops (\<^const>\<open>for_loop\<close>, \<^const>\<open>iter_loop\<close>) and one rule for each;
  \<^verbatim>\<open>TestBTree\<close>, \<^verbatim>\<open>TestAVL\<close> and \<^verbatim>\<open>TestBuffers\<close> compose the operations of the containers with the output
  and say what each program prints and returns. The tests of the trees pass for an even number of elements and
  fail their last size check for an odd one. Allocations succeed there, and the exit of \<^const>\<open>int_comparator\<close>
  for a size other than 4 is left out: all its operands have that size. \<^verbatim>\<open>TestSerial\<close> has \<^verbatim>\<open>list_compare\<close> of
  \<^verbatim>\<open>serialization_test.c\<close>, which accepts what is read back for a list of plain blocks.

  \<^bold>\<open>Not modelled.\<close> The log lines in the course of the handlers and the receivers (all of them pass through the macros of
  \<^verbatim>\<open>Log\<close> and change nothing else); \<^verbatim>\<open>main\<close> of \<^verbatim>\<open>serialization_test.c\<close> (it calls a function that no file defines; the
  round trips it samples are proved for every nested list) and the C++ program \<^verbatim>\<open>map_test.cpp\<close>; the empty
  translation units; functions that headers declare and no file defines (\<^verbatim>\<open>qTrie__erase\<close> and the iterators of the
  trie, \<^verbatim>\<open>qBTree__destructor\<close>); the system headers copied to \<^verbatim>\<open>defaultstat.h\<close>, \<^verbatim>\<open>defaultstatvfs.h\<close> and
  \<^verbatim>\<open>defaultdirent.h\<close> beyond the structures themselves.
\<close>

end
